(* ===== verification/Prelude.thy ===== *)
theory Prelude
  imports Main "HOL-Library.Char_ord" "HOL-Library.List_Lexorder"
begin

text \<open>
  Shared vocabulary of the development: the error type that stands for Flask's
  \<^verbatim>\<open>abort\<close> and Python's exceptions, the sequencing of fallible steps, the operations on a
  table of rows (the part of SQLAlchemy the sources use: look a row up by primary key, write a
  row back, insert a row under a fresh key, delete rows), the string operations of the Python
  standard library, JSON values, and two interfaces as locales: \<open>db_table\<close> (a table inside a
  larger state) and \<open>positioned\<close> (rows ordered by a position column, as assignment rules and
  approval-policy stages are).
\<close>

named_theorems frame
  \<comment> \<open>which parts of the database an operation leaves alone\<close>
named_theorems row_simps
  \<comment> \<open>look-ups after writes\<close>

section \<open>Errors as values\<close>

text \<open>
  \<open>Abort code msg\<close> is \<^verbatim>\<open>flask.abort(code, description=...)\<close>; the message names the
  \<^verbatim>\<open>tr\<close> key by a short tag, since the displayed text depends on the reader's language.
  \<open>AttributeError\<close> is the exception of reading an attribute of \<^verbatim>\<open>None\<close>; \<open>OutOfFuel\<close> is not an error
  of the program but the result of a bounded loop whose bound was too small, and every bound chosen is
  proved to be enough.
\<close>

datatype error =
    Abort nat string
  | ValueError string
  | KeyError string
  | TypeError string
  | WorkflowConfigurationError string
  | ApprovalRouteError string
  | BusinessCalendarError string
  | AttributeError string
  | RuntimeError string
  | OverflowError string
  | QueryError string nat
  | OutOfFuel

type_synonym 'a result = "error + 'a"

definition bindE :: "'a result \<Rightarrow> ('a \<Rightarrow> 'b result) \<Rightarrow> 'b result" where
  "bindE m f = (case m of Inl e \<Rightarrow> Inl e | Inr x \<Rightarrow> f x)"

lemma bindE_simps [simp]:
  "bindE (Inl e) f = Inl e"
  "bindE (Inr x) f = f x"
  by (simp_all add: bindE_def)

lemma bindE_cong [fundef_cong]: "m = m' \<Longrightarrow> (\<And>x. m' = Inr x \<Longrightarrow> f x = f' x) \<Longrightarrow> bindE m f = bindE m' f'"
  by (cases m') auto

lemma bindE_Inr_iff: "bindE m f = Inr y \<longleftrightarrow> (\<exists>x. m = Inr x \<and> f x = Inr y)"
  by (cases m) auto

lemma bindE_InrE: "bindE m f = Inr y \<Longrightarrow> (\<And>x. m = Inr x \<Longrightarrow> f x = Inr y \<Longrightarrow> P) \<Longrightarrow> P"
  by (cases m) auto

lemma bindE_Inl_iff:
  "bindE m f = Inl e \<longleftrightarrow> m = Inl e \<or> (\<exists>x. m = Inr x \<and> f x = Inl e)"
  by (cases m) auto

text \<open>A loop of fallible steps: the first error ends it, as an exception would.\<close>

fun foldE :: "('a \<Rightarrow> 's \<Rightarrow> 's result) \<Rightarrow> 'a list \<Rightarrow> 's \<Rightarrow> 's result" where
  "foldE f [] s = Inr s"
| "foldE f (x # xs) s = bindE (f x s) (foldE f xs)"

lemma foldE_invariant:
  assumes "\<And>x s s'. x \<in> set xs \<Longrightarrow> P s \<Longrightarrow> f x s = Inr s' \<Longrightarrow> P s'"
    and "P s" and "foldE f xs s = Inr s'"
  shows "P s'"
  using assms
proof (induction xs arbitrary: s)
  case Nil
  then show ?case by simp
next
  case (Cons x xs)
  from Cons.prems(3) obtain t where t: "f x s = Inr t" and rest: "foldE f xs t = Inr s'"
    by (auto simp: bindE_Inr_iff)
  have "P t" using Cons.prems(1) [OF _ Cons.prems(2) t] by simp
  moreover have "P u'" if "y \<in> set xs" and "P u" and "f y u = Inr u'" for y u u'
    using Cons.prems(1) [OF _ that(2,3)] that(1) by simp
  ultimately show ?case using rest Cons.IH by blast
qed

text \<open>\<^verbatim>\<open>[x for x in xs if p(x)]\<close> where the test may raise.\<close>

fun filterE :: "('a \<Rightarrow> bool result) \<Rightarrow> 'a list \<Rightarrow> 'a list result" where
  "filterE p [] = Inr []"
| "filterE p (x # xs) = bindE (p x) (\<lambda>b. bindE (filterE p xs) (\<lambda>ys. Inr (if b then x # ys else ys)))"

lemma filterE_total: "(\<And>x. x \<in> set xs \<Longrightarrow> p x = Inr (q x)) \<Longrightarrow> filterE p xs = Inr (filter q xs)"
  by (induction xs) auto

lemma foldE_total:
  assumes "\<And>x s. x \<in> set xs \<Longrightarrow> P s \<Longrightarrow> \<exists>s'. f x s = Inr s' \<and> P s'" and "P s"
  shows "\<exists>s'. foldE f xs s = Inr s' \<and> P s'"
  using assms
proof (induction xs arbitrary: s)
  case Nil
  then show ?case by simp
next
  case (Cons x xs)
  then obtain t where "f x s = Inr t" "P t" by (meson list.set_intros(1))
  with Cons show ?case by (auto simp: bindE_Inr_iff)
qed

lemma foldE_append: "foldE f (xs @ ys) s = bindE (foldE f xs s) (foldE f ys)"
  by (induction xs arbitrary: s) (simp_all add: bindE_def split: sum.split)

lemma fold_invariant:
  assumes "\<And>x s. x \<in> set xs \<Longrightarrow> P s \<Longrightarrow> P (f x s)" and "P s"
  shows "P (fold f xs s)"
  using assms by (induction xs arbitrary: s) auto

lemma fold_unchanged:
  assumes "\<And>x s. g (f x s) = g s"
  shows "g (fold f xs s) = g s"
  using assms by (induction xs arbitrary: s) auto

section \<open>Rows and tables\<close>

definition get_row :: "('r \<Rightarrow> nat) \<Rightarrow> nat \<Rightarrow> 'r list \<Rightarrow> 'r option" where
  "get_row key i rows = find (\<lambda>r. key r = i) rows"

definition put_row :: "('r \<Rightarrow> nat) \<Rightarrow> 'r \<Rightarrow> 'r list \<Rightarrow> 'r list" where
  "put_row key r rows = map (\<lambda>x. if key x = key r then r else x) rows"

definition upd_rows :: "('r \<Rightarrow> bool) \<Rightarrow> ('r \<Rightarrow> 'r) \<Rightarrow> 'r list \<Rightarrow> 'r list" where
  "upd_rows P f rows = map (\<lambda>x. if P x then f x else x) rows"

text \<open>The primary key the database gives a new row: above every key in use.\<close>

definition next_id :: "('r \<Rightarrow> nat) \<Rightarrow> 'r list \<Rightarrow> nat" where
  "next_id key rows = Suc (foldr max (map key rows) 0)"

lemma get_row_Nil [simp]: "get_row key i [] = None"
  by (simp add: get_row_def)

lemma get_row_Cons: "get_row key i (r # rs) = (if key r = i then Some r else get_row key i rs)"
  by (simp add: get_row_def)

lemma get_row_append:
  "get_row key i (xs @ ys) = (case get_row key i xs of None \<Rightarrow> get_row key i ys | Some r \<Rightarrow> Some r)"
  by (induction xs) (auto simp: get_row_Cons)

lemma get_row_key: "get_row key i rows = Some r \<Longrightarrow> key r = i \<and> r \<in> set rows"
  by (induction rows) (auto simp: get_row_Cons split: if_splits)

lemma get_row_None_iff: "get_row key i rows = None \<longleftrightarrow> i \<notin> key ` set rows"
  by (induction rows) (auto simp: get_row_Cons)

lemma get_row_distinct:
  "distinct (map key rows) \<Longrightarrow> r \<in> set rows \<Longrightarrow> get_row key (key r) rows = Some r"
  by (induction rows) (auto simp: get_row_Cons)

lemma get_put_row [row_simps]:
  "get_row key i (put_row key r rows) =
    (if i = key r then map_option (\<lambda>_. r) (get_row key i rows) else get_row key i rows)"
  by (induction rows) (auto simp: put_row_def get_row_Cons)

lemma get_upd_rows:
  assumes "\<And>r. key (f r) = key r"
  shows "get_row key i (upd_rows P f rows) =
    map_option (\<lambda>r. if P r then f r else r) (get_row key i rows)"
  using assms by (induction rows) (auto simp: upd_rows_def get_row_Cons)

lemma map_key_put_row [row_simps]: "map key (put_row key r rows) = map key rows"
  by (induction rows) (auto simp: put_row_def)

lemma length_put_row [simp]: "length (put_row key r rows) = length rows"
  by (simp add: put_row_def)

lemma set_put_row: "set (put_row key r rows) \<subseteq> insert r (set rows)"
  by (auto simp: put_row_def)

lemma put_row_other:
  "x \<in> set (put_row key r rows) \<Longrightarrow> key x \<noteq> key r \<Longrightarrow> x \<in> set rows"
  by (auto simp: put_row_def split: if_splits)

lemma le_foldr_max: "x \<in> set xs \<Longrightarrow> x \<le> foldr max xs (0::nat)"
  by (induction xs) auto

lemma next_id_fresh: "r \<in> set rows \<Longrightarrow> key r < next_id key rows"
  using le_foldr_max [of "key r" "map key rows"] by (auto simp: next_id_def less_Suc_eq_le)

lemma next_id_unused: "next_id key rows \<notin> key ` set rows"
  using next_id_fresh by (metis imageE less_irrefl)

text \<open>
  The interface of one table held in a larger state \<open>'s\<close>: a way to read its rows and a way to
  change them that obeys the laws of a record field. The laws of look-up, write-back and insert
  are proved once, for every table.
\<close>

locale db_table =
  fixes rows :: "'s \<Rightarrow> 'r list"
    and upd :: "('r list \<Rightarrow> 'r list) \<Rightarrow> 's \<Rightarrow> 's"
    and key :: "'r \<Rightarrow> nat"
  assumes rows_upd: "rows (upd f s) = f (rows s)"
    and upd_upd: "upd f (upd g s) = upd (\<lambda>rs. f (g rs)) s"
    and upd_id: "upd (\<lambda>rs. rs) s = s"
begin

lemma get_after_put:
  "get_row key i (rows (upd (put_row key r) s)) =
    (if i = key r then map_option (\<lambda>_. r) (get_row key i (rows s)) else get_row key i (rows s))"
  by (simp add: rows_upd get_put_row)

lemma get_after_insert:
  assumes "key r = next_id key (rows s)"
  shows "get_row key i (rows (upd (\<lambda>rs. rs @ [r]) s)) =
    (if i = key r then Some r else get_row key i (rows s))"
proof -
  have "get_row key (key r) (rows s) = None"
    using assms next_id_unused [of key "rows s"] by (simp add: get_row_None_iff)
  then show ?thesis
    by (auto simp: rows_upd get_row_append get_row_Cons split: option.split)
qed

lemma keys_after_put: "map key (rows (upd (put_row key r) s)) = map key (rows s)"
  by (simp add: rows_upd map_key_put_row)

lemma distinct_after_insert:
  assumes "distinct (map key (rows s))" and "key r = next_id key (rows s)"
  shows "distinct (map key (rows (upd (\<lambda>rs. rs @ [r]) s)))"
  using assms next_id_unused [of key "rows s"] by (auto simp: rows_upd)

lemma put_put: "upd (put_row key r) (upd (put_row key r') s) =
    (if key r = key r' then upd (put_row key r) s
     else upd (\<lambda>rs. put_row key r (put_row key r' rs)) s)"
proof (cases "key r = key r'")
  case True
  then have "put_row key r (put_row key r' rs) = put_row key r rs" for rs
    by (simp add: put_row_def)
  then show ?thesis using True by (simp add: upd_upd)
next
  case False
  then show ?thesis by (simp add: upd_upd)
qed

end

subsection \<open>Loops over rows\<close>

text \<open>
  The sources often read the rows that match a query and then change each of them. When the step for a
  row writes \<open>h\<close> of that row back, the whole loop maps \<open>h\<close> over the rows it read.
\<close>

lemma row_of_key:
  fixes key :: "'r \<Rightarrow> nat"
  shows "distinct (map key rows) \<Longrightarrow> r \<in> set rows \<Longrightarrow> r' \<in> set rows \<Longrightarrow> key r = key r' \<Longrightarrow> r = r'"
proof -
  assume d: "distinct (map key rows)" and "r \<in> set rows" and "r' \<in> set rows" and "key r = key r'"
  with get_row_distinct [OF d] have "Some r = Some r'" by metis
  then show ?thesis by simp
qed

lemma put_row_map:
  fixes key :: "'r \<Rightarrow> nat"
  assumes "distinct (map key rows)" and "x \<in> set rows" and "key (h x) = key x"
  shows "put_row key (h x) rows = map (\<lambda>r. if key r = key x then h r else r) rows"
  unfolding put_row_def
proof (rule map_cong [OF refl])
  fix r assume "r \<in> set rows"
  with assms(1,2) have "key r = key x \<Longrightarrow> r = x" using row_of_key by metis
  then show "(if key r = key (h x) then h x else r) = (if key r = key x then h r else r)"
    using assms(3) by auto
qed

lemma foldE_map_rows:
  fixes key :: "'r \<Rightarrow> nat"
  assumes step: "\<And>x s. x \<in> set xs \<Longrightarrow> I s \<Longrightarrow> x \<in> set (rows s) \<Longrightarrow> distinct (map key (rows s)) \<Longrightarrow>
      \<exists>s'. f x s = Inr s' \<and> I s' \<and> rows s' = map (\<lambda>r. if key r = key x then h r else r) (rows s)"
    and key: "\<And>r. key (h r) = key r"
    and "distinct (map key xs)" and "set xs \<subseteq> set (rows s)" and "distinct (map key (rows s))" and "I s"
  shows "\<exists>s'. foldE f xs s = Inr s' \<and> I s' \<and>
      rows s' = map (\<lambda>r. if key r \<in> key ` set xs then h r else r) (rows s)"
  using assms(1,3-)
proof (induction xs arbitrary: s)
  case Nil
  then show ?case by simp
next
  case (Cons x xs)
  let ?g = "\<lambda>r. if key r = key x then h r else r"
  obtain t where t: "f x s = Inr t" "I t" "rows t = map ?g (rows s)"
    using Cons.prems(1) [of x s] Cons.prems(3-5) by auto
  have keys: "map key (rows t) = map key (rows s)" by (simp add: t(3) key)
  have "y = ?g y" "y \<in> set (rows s)" if "y \<in> set xs" for y
  proof -
    have "key x \<notin> key ` set xs" using Cons.prems(2) by simp
    then have "key y \<noteq> key x" using imageI [OF that, of key] by metis
    then show "y = ?g y" by simp
    show "y \<in> set (rows s)" using that Cons.prems(3) by auto
  qed
  then have "set xs \<subseteq> ?g ` set (rows s)" by blast
  then have "set xs \<subseteq> set (rows t)" by (simp only: t(3) set_map)
  moreover have "distinct (map key (rows t))" using keys Cons.prems(4) by metis
  ultimately obtain s' where s': "foldE f xs t = Inr s'" "I s'"
      "rows s' = map (\<lambda>r. if key r \<in> key ` set xs then h r else r) (rows t)"
    using Cons.IH [OF Cons.prems(1)] Cons.prems(2) t(2) by (auto simp del: set_map)
  have "rows s' = map (\<lambda>r. if key r \<in> key ` set (x # xs) then h r else r) (rows s)"
    using Cons.prems(2) by (auto simp: s'(3) t(3) key)
  with s'(1,2) t(1) show ?case by simp
qed

lemma foldE_Inr: "foldE (\<lambda>x s. Inr (f x s)) xs s = Inr (fold f xs s)"
  by (induction xs arbitrary: s) auto

lemma fold_map_rows:
  fixes key :: "'r \<Rightarrow> nat"
  assumes "\<And>x s. x \<in> set xs \<Longrightarrow> I s \<Longrightarrow> x \<in> set (rows s) \<Longrightarrow> distinct (map key (rows s)) \<Longrightarrow>
      I (f x s) \<and> rows (f x s) = map (\<lambda>r. if key r = key x then h r else r) (rows s)"
    and "\<And>r. key (h r) = key r"
    and "distinct (map key xs)" and "set xs \<subseteq> set (rows s)" and "distinct (map key (rows s))" and "I s"
  shows "I (fold f xs s) \<and>
      rows (fold f xs s) = map (\<lambda>r. if key r \<in> key ` set xs then h r else r) (rows s)"
proof -
  have "\<exists>s'. foldE (\<lambda>x s. Inr (f x s)) xs s = Inr s' \<and> I s' \<and>
      rows s' = map (\<lambda>r. if key r \<in> key ` set xs then h r else r) (rows s)"
    by (rule foldE_map_rows [of xs I rows key "\<lambda>x s. Inr (f x s)" h s])
      (use assms in \<open>simp_all\<close>)
  then show ?thesis by (simp add: foldE_Inr)
qed

lemma map_filter_keys:
  fixes key :: "'r \<Rightarrow> nat"
  assumes "distinct (map key rows)"
  shows "map (\<lambda>r. if key r \<in> key ` set (filter P rows) then h r else r) rows =
    map (\<lambda>r. if P r then h r else r) rows"
proof (rule map_cong [OF refl])
  fix r assume "r \<in> set rows"
  with assms have "key r \<in> key ` set (filter P rows) \<longleftrightarrow> P r"
    using row_of_key [OF assms] by (auto simp: image_iff)
  then show "(if key r \<in> key ` set (filter P rows) then h r else r) = (if P r then h r else r)" by simp
qed

lemma distinct_map_filter: "distinct (map f xs) \<Longrightarrow> distinct (map f (filter P xs))"
  by (induction xs) auto

section \<open>Rows with a position\<close>

text \<open>
  \<^verbatim>\<open>for position, row in enumerate(ordered): row.position = position\<close>, and the swap of two
  neighbours that the move operations do before it.
\<close>

definition renumber :: "(nat \<Rightarrow> 'r \<Rightarrow> 'r) \<Rightarrow> 'r list \<Rightarrow> 'r list" where
  "renumber set_pos rows = map (\<lambda>(i, r). set_pos i r) (enumerate 0 rows)"

definition swap_nth :: "nat \<Rightarrow> nat \<Rightarrow> 'r list \<Rightarrow> 'r list" where
  "swap_nth i j xs = xs[i := xs ! j, j := xs ! i]"

lemma length_renumber [simp]: "length (renumber set_pos rows) = length rows"
  by (simp add: renumber_def)

lemma nth_renumber: "i < length rows \<Longrightarrow> renumber set_pos rows ! i = set_pos i (rows ! i)"
  by (simp add: renumber_def nth_enumerate_eq)

lemma set_swap_nth: "i < length xs \<Longrightarrow> j < length xs \<Longrightarrow> set (swap_nth i j xs) = set xs"
  by (simp add: swap_nth_def)

lemma length_swap_nth [simp]: "length (swap_nth i j xs) = length xs"
  by (simp add: swap_nth_def)

lemma nth_swap_nth:
  "i < length xs \<Longrightarrow> j < length xs \<Longrightarrow> k < length xs \<Longrightarrow>
    swap_nth i j xs ! k = (if k = i then xs ! j else if k = j then xs ! i else xs ! k)"
  by (auto simp: swap_nth_def nth_list_update)

locale positioned =
  fixes pos :: "'r \<Rightarrow> nat" and set_pos :: "nat \<Rightarrow> 'r \<Rightarrow> 'r" and ident :: "'r \<Rightarrow> nat"
  assumes pos_set: "pos (set_pos i r) = i"
    and ident_set: "ident (set_pos i r) = ident r"
begin

lemma map_pos_renumber: "map pos (renumber set_pos rows) = [0..<length rows]"
  by (rule nth_equalityI) (simp_all add: nth_renumber pos_set)

lemma map_ident_renumber: "map ident (renumber set_pos rows) = map ident rows"
  by (rule nth_equalityI) (simp_all add: nth_renumber ident_set)

lemma renumber_sorted: "sorted (map pos (renumber set_pos rows))"
  by (simp add: map_pos_renumber)

lemma renumber_swap_pos:
  assumes "i < length rows" and "j < length rows"
  shows "map pos (renumber set_pos (swap_nth i j rows)) = [0..<length rows]"
    and "map ident (renumber set_pos (swap_nth i j rows)) = map ident (swap_nth i j rows)"
    and "set (map ident (renumber set_pos (swap_nth i j rows))) = set (map ident rows)"
  using assms by (simp_all add: map_pos_renumber map_ident_renumber set_swap_nth)

end

section \<open>Python strings\<close>

text \<open>
  A Python string is a list of characters. HOL's \<open>char\<close> has the code points 0 to 255; the case
  functions are given on the ASCII letters.
\<close>

definition is_space :: "char \<Rightarrow> bool" where
  "is_space c \<longleftrightarrow> (let n = of_char c :: nat in
     9 \<le> n \<and> n \<le> 13 \<or> 28 \<le> n \<and> n \<le> 32 \<or> n = 133 \<or> n = 160)"

definition strip :: "string \<Rightarrow> string" where
  "strip s = rev (dropWhile is_space (rev (dropWhile is_space s)))"

text \<open>
  The case of the 256 characters a \<open>char\<close> stands for. The upper case of the micro sign, the sharp s and the y with
  diaeresis lies beyond them; these three stay as they are.
\<close>

definition lower_char :: "char \<Rightarrow> char" where
  "lower_char c = (let n = of_char c :: nat in
     if 65 \<le> n \<and> n \<le> 90 \<or> 192 \<le> n \<and> n \<le> 222 \<and> n \<noteq> 215 then char_of (n + 32) else c)"

definition upper_char :: "char \<Rightarrow> char" where
  "upper_char c = (let n = of_char c :: nat in
     if 97 \<le> n \<and> n \<le> 122 \<or> 224 \<le> n \<and> n \<le> 254 \<and> n \<noteq> 247 then char_of (n - 32) else c)"

definition lower :: "string \<Rightarrow> string" where
  "lower s = map lower_char s"

definition upper :: "string \<Rightarrow> string" where
  "upper s = map upper_char s"

text \<open>\<^verbatim>\<open>s.split(sep)\<close> for a one-character separator.\<close>

fun split_on :: "char \<Rightarrow> string \<Rightarrow> string list" where
  "split_on sep [] = [[]]"
| "split_on sep (c # cs) =
     (if c = sep then [] # split_on sep cs
      else (case split_on sep cs of [] \<Rightarrow> [[c]] | w # ws \<Rightarrow> (c # w) # ws))"

text \<open>\<^verbatim>\<open>s.startswith(p)\<close>, \<^verbatim>\<open>p in s\<close> and \<^verbatim>\<open>s.replace(old, new)\<close> (from the left, without overlap).\<close>

definition starts_with :: "string \<Rightarrow> string \<Rightarrow> bool" where
  "starts_with p s \<longleftrightarrow> take (length p) s = p"

fun contains :: "string \<Rightarrow> string \<Rightarrow> bool" where
  "contains p [] = (p = [])"
| "contains p (c # cs) = (starts_with p (c # cs) \<or> contains p cs)"

function replace_all :: "string \<Rightarrow> string \<Rightarrow> string \<Rightarrow> string" where
  "replace_all old new s =
     (if old = [] \<or> s = [] then s
      else if starts_with old s then new @ replace_all old new (drop (length old) s)
      else hd s # replace_all old new (tl s))"
  by pat_completeness auto
termination
  by (relation "measure (\<lambda>(old, new, s). length s)") auto

declare replace_all.simps [simp del]

fun join :: "string \<Rightarrow> string list \<Rightarrow> string" where
  "join sep [] = []"
| "join sep [x] = x"
| "join sep (x # xs) = x @ sep @ join sep xs"

text \<open>\<^verbatim>\<open>str(n)\<close> and \<^verbatim>\<open>f"{n:07d}"\<close> for a non-negative integer.\<close>

fun show_nat :: "nat \<Rightarrow> string" where
  "show_nat n = (if n < 10 then [char_of (48 + n)]
                 else show_nat (n div 10) @ [char_of (48 + n mod 10)])"

declare show_nat.simps [simp del]

definition pad0 :: "nat \<Rightarrow> string \<Rightarrow> string" where
  "pad0 w s = replicate (w - length s) CHR ''0'' @ s"

lemma strip_idem: "strip (strip s) = strip s"
proof -
  have *: "dropWhile P (rev (dropWhile P (rev xs))) = rev (dropWhile P (rev (dropWhile P xs)))"
    for P :: "char \<Rightarrow> bool" and xs
    by (induction xs) (auto simp: dropWhile_append dest: set_dropWhileD)
  show ?thesis by (simp add: strip_def *)
qed

lemma length_strip_le: "length (strip s) \<le> length s"
proof -
  have "length (strip s) \<le> length (dropWhile is_space s)"
    by (simp add: strip_def) (metis length_dropWhile_le length_rev)
  also have "\<dots> \<le> length s" by (rule length_dropWhile_le)
  finally show ?thesis .
qed

lemma split_on_not_Nil [simp]: "split_on sep s \<noteq> []"
  by (induction s) (auto split: list.split)

section \<open>Values of JSON\<close>

datatype json =
    JNull
  | JBool bool
  | JInt int
  | JStr string
  | JList "json list"
  | JObj "(string \<times> json) list"

text \<open>\<^verbatim>\<open>obj.get(key)\<close>: the value, \<open>JNull\<close> when the key is missing.\<close>

definition jget :: "(string \<times> json) list \<Rightarrow> string \<Rightarrow> json" where
  "jget obj k = (case map_of obj k of None \<Rightarrow> JNull | Some v \<Rightarrow> v)"

definition jstr :: "string option \<Rightarrow> json" where
  "jstr s = (case s of None \<Rightarrow> JNull | Some x \<Rightarrow> JStr x)"

definition jnat :: "nat option \<Rightarrow> json" where
  "jnat s = (case s of None \<Rightarrow> JNull | Some x \<Rightarrow> JInt (int x))"

text \<open>
  \<^verbatim>\<open>int(value)\<close> on a string of decimal digits with an optional sign, surrounded by white space, and
  on JSON values; \<open>None\<close> stands for the \<^verbatim>\<open>TypeError\<close> or \<^verbatim>\<open>ValueError\<close>.
\<close>

definition is_digit :: "char \<Rightarrow> bool" where
  "is_digit c \<longleftrightarrow> (let n = of_char c :: nat in 48 \<le> n \<and> n \<le> 57)"

definition digits_value :: "string \<Rightarrow> nat" where
  "digits_value s = foldl (\<lambda>acc c. 10 * acc + (of_char c - 48)) 0 s"

definition int_of_str :: "string \<Rightarrow> int option" where
  "int_of_str s = (case strip s of
      [] \<Rightarrow> None
    | c # cs \<Rightarrow>
        (if (c = CHR ''-'' \<or> c = CHR ''+'') \<and> cs \<noteq> [] \<and> list_all is_digit cs
         then Some (if c = CHR ''-'' then - int (digits_value cs) else int (digits_value cs))
         else if list_all is_digit (c # cs) then Some (int (digits_value (c # cs)))
         else None))"

fun py_int :: "json \<Rightarrow> int option" where
  "py_int (JInt n) = Some n"
| "py_int (JBool b) = Some (if b then 1 else 0)"
| "py_int (JStr s) = int_of_str s"
| "py_int _ = None"

section \<open>Optional values and Python truth\<close>

text \<open>
  \<^verbatim>\<open>a or b\<close> on optional values: a missing or empty string is false.
\<close>

definition truthy :: "string option \<Rightarrow> bool" where
  "truthy s \<longleftrightarrow> s \<noteq> None \<and> s \<noteq> Some []"

definition or_str :: "string option \<Rightarrow> string option \<Rightarrow> string option" where
  "or_str a b = (if truthy a then a else b)"

lemma truthy_simps [simp]: "\<not> truthy None" "truthy (Some s) \<longleftrightarrow> s \<noteq> []"
  by (auto simp: truthy_def)

abbreviation opt :: "'a \<Rightarrow> 'a option \<Rightarrow> 'a" where
  "opt d x \<equiv> (case x of None \<Rightarrow> d | Some v \<Rightarrow> v)"

end
