(* ===== verification/Models.thy ===== *)
theory Models
  imports Prelude
begin

text \<open>
  The data model of \<^verbatim>\<open>serviceops_models.py\<close>: one record per SQLAlchemy class, one field per column,
  and the database as a record of tables.
  \<^item> A nullable column is an option; a nullable text column with an empty default is a string, its
    NULL being read as the empty string everywhere in the sources.
  \<^item> A date and time is an integer count of microseconds since the epoch in UTC, a date a count of days.
  \<^item> Relationships are the foreign keys, except where a parent owns its rows
    (\<^verbatim>\<open>cascade="all, delete-orphan"\<close>) and the code walks from the parent: an approval chain holds its
    gates in sequence order and a gate its votes, a policy its stages in position order, a schedule its
    holidays, an enterprise record its approvals.
  \<^item> Columns that hold encoded text (\<^verbatim>\<open>..._json\<close>, \<^verbatim>\<open>start_time_text\<close>) hold the decoded value; where
    the code handles undecodable text the column is an option, \<open>None\<close> being text that does not decode.
    Times of day are minutes since midnight; a rack position is in tenths of a rack unit.
  \<^item> \<open>db_clock\<close> is the value of \<^verbatim>\<open>now()\<close>: one reading per request. \<open>db_current_user\<close> is the
    authenticated user of the request, \<open>db_acting_role\<close> the role chosen in its session,
    \<open>db_platform\<close> to \<open>db_security_context\<close> what else the request says of itself, and
    \<open>db_settings\<close> the configured settings. \<open>db_mac\<close> is the keyed digest (HMAC-SHA256 under the
    tenant's key of that name), \<open>db_key_ok\<close> whether that key can be read, \<open>db_sha\<close> the plain
    SHA-256 digest and \<open>db_uuid\<close> the supply of UUIDs. \<open>db_to_local\<close> and \<open>db_to_utc\<close> are the
    time-zone data: the wall-clock time of an instant in a named zone, and the instant of a wall-clock
    time.
\<close>

type_synonym datetime = int
type_synonym date = int

record user =
  u_id :: nat
  u_username :: string
  u_name :: string
  u_email :: string
  u_title :: string
  u_department :: string
  u_division :: "string option"
  u_employee_id :: "string option"
  u_employee_type :: "string option"
  u_business_phone :: string
  u_mobile_phone :: string
  u_timezone :: string
  u_date_format :: string
  u_calendar_integration :: string
  u_avatar_path :: "string option"
  u_location :: string
  u_password_hash :: string
  u_role :: string
  u_active :: bool
  u_auth_version :: nat
  u_failed_login_count :: nat
  u_locked_until :: "datetime option"
  u_created_at :: datetime
  u_erased_at :: "datetime option"
  u_tenant_id :: nat
  u_manager_id :: "nat option"
  u_mfa_secret_encrypted :: "string option"
  u_mfa_enabled :: bool
  u_mfa_enrolled_at :: "datetime option"
  u_mfa_backup_codes_json :: "string option"
  u_mfa_last_totp_step :: "nat option"
  u_last_seen_at :: "datetime option"

record approval_delegation =
  ad_id :: nat
  ad_from_user_id :: nat
  ad_to_user_id :: nat
  ad_tenant_id :: nat
  ad_starts_at :: datetime
  ad_ends_at :: datetime
  ad_reason :: string
  ad_active :: bool
  ad_created_at :: datetime
  ad_created_by_id :: nat

record ticket =
  tk_id :: nat
  tk_number :: string
  tk_kind :: string
  tk_title :: string
  tk_description :: string
  tk_state :: string
  tk_priority :: string
  tk_impact :: string
  tk_urgency :: string
  tk_priority_overridden :: bool
  tk_priority_override_reason :: "string option"
  tk_category :: string
  tk_subcategory :: string
  tk_closure_category :: "string option"
  tk_closure_subcategory :: "string option"
  tk_resolution_notes :: "string option"
  tk_resolved_at :: "datetime option"
  tk_contact_type :: string
  tk_notify :: string
  tk_service_offering_id :: "nat option"
  tk_requester_id :: nat
  tk_assignee_id :: "nat option"
  tk_created_at :: datetime
  tk_updated_at :: datetime
  tk_deleted_at :: "datetime option"
  tk_deleted_by_id :: "nat option"
  tk_tenant_id :: nat
  tk_external_source :: "string option"
  tk_external_id :: "string option"
  tk_csat_rating :: "nat option"
  tk_csat_comment :: "string option"
  tk_csat_submitted_at :: "datetime option"
  tk_opened_by_id :: "nat option"
  tk_hold_reason :: "string option"
  tk_reassignment_count :: nat
  tk_reopen_count :: nat

record approval =
  ap_id :: nat
  ap_approver_id :: nat
  ap_state :: string
  ap_comments :: string
  ap_decided_at :: "datetime option"
  ap_tenant_id :: nat

record enterprise_record =
  er_id :: nat
  er_number :: string
  er_domain :: string
  er_record_type :: string
  er_title :: string
  er_description :: string
  er_state :: string
  er_priority :: string
  er_risk :: string
  er_requester_id :: nat
  er_assignee_id :: "nat option"
  er_support_group_id :: "nat option"
  er_due_at :: "datetime option"
  er_metadata_json :: string
  er_created_at :: datetime
  er_updated_at :: datetime
  er_tenant_id :: nat
  er_external_source :: "string option"
  er_external_id :: "string option"
  er_approvals :: "approval list"

record catalog_item =
  cat_id :: nat
  cat_name :: string
  cat_category :: string
  cat_description :: string
  cat_delivery_days :: nat
  cat_approval_required :: bool
  cat_approval_policy_id :: "nat option"
  cat_active :: bool
  cat_tenant_id :: nat

record catalog_item_routing =
  cr_id :: nat
  cr_catalog_item_id :: nat
  cr_support_group_id :: nat
  cr_active :: bool
  cr_updated_by_id :: "nat option"
  cr_updated_at :: datetime
  cr_tenant_id :: nat

record configuration_item =
  ci_id :: nat
  ci_name :: string
  ci_ci_class :: string
  ci_description :: "string option"
  ci_environment :: string
  ci_operational_status :: string
  ci_lifecycle_state :: string
  ci_business_criticality :: string
  ci_ip_address :: "string option"
  ci_serial_number :: "string option"
  ci_vendor :: "string option"
  ci_model :: "string option"
  ci_location :: "string option"
  ci_cost_center :: "string option"
  ci_discovery_source :: string
  ci_install_date :: "date option"
  ci_warranty_expiry_date :: "date option"
  ci_attributes :: "(string \<times> json) list"
  ci_field_sources :: "(string \<times> string) list"
  ci_owner_id :: "nat option"
  ci_support_group_id :: "nat option"
  ci_created_at :: datetime
  ci_updated_at :: datetime
  ci_tenant_id :: nat
  ci_external_source :: "string option"
  ci_external_id :: "string option"
  ci_require_ccb_approval :: bool
  ci_rack_id :: "nat option"
  ci_rack_position :: "int option"
  ci_rack_u_height :: "nat option"
  ci_rack_face :: "string option"

record ci_class_permission =
  cp_id :: nat
  cp_tenant_id :: nat
  cp_ci_class :: string
  cp_role :: string
  cp_can_read :: bool
  cp_can_create :: bool
  cp_can_update :: bool
  cp_can_delete :: bool
  cp_updated_by_id :: "nat option"
  cp_updated_at :: datetime

record ci_relationship =
  cir_id :: nat
  cir_parent_id :: nat
  cir_child_id :: nat
  cir_relationship_type :: string
  cir_label :: "string option"
  cir_created_at :: datetime
  cir_tenant_id :: nat

record service_offering_ci =
  sc_id :: nat
  sc_service_offering_id :: nat
  sc_ci_id :: nat
  sc_relationship_role :: string
  sc_created_at :: datetime
  sc_tenant_id :: nat

record service_outage =
  so_id :: nat
  so_service_offering_id :: nat
  so_ticket_id :: nat
  so_started_at :: datetime
  so_ended_at :: "datetime option"
  so_tenant_id :: nat

record notification =
  nt_id :: nat
  nt_user_id :: nat
  nt_title :: string
  nt_body :: string
  nt_target_type :: "string option"
  nt_target_id :: "nat option"
  nt_read :: bool
  nt_severity :: string
  nt_created_at :: datetime
  nt_tenant_id :: nat

record notification_template =
  ntt_id :: nat
  ntt_tenant_id :: nat
  ntt_event_type :: string
  ntt_subject_template :: string
  ntt_body_template :: string
  ntt_active :: bool
  ntt_created_at :: datetime
  ntt_updated_at :: datetime

record support_group =
  g_id :: nat
  g_name :: string
  g_group_type :: string
  g_manager_id :: "nat option"
  g_active :: bool
  g_approval_mode :: string
  g_description :: string
  g_access_roles :: string
  g_tenant_id :: nat

record group_member =
  gm_id :: nat
  gm_group_id :: nat
  gm_user_id :: nat
  gm_role :: string
  gm_tenant_id :: nat

record approval_vote =
  v_id :: nat
  v_approver_id :: nat
  v_delegated_from_id :: "nat option"
  v_state :: string
  v_comments :: string
  v_decided_at :: "datetime option"
  v_tenant_id :: nat

record approval_gate =
  gt_id :: nat
  gt_sequence :: nat
  gt_name :: string
  gt_mode :: string
  gt_state :: string
  gt_tenant_id :: nat
  gt_votes :: "approval_vote list"

record approval_chain =
  ch_id :: nat
  ch_name :: string
  ch_target_type :: string
  ch_target_id :: nat
  ch_state :: string
  ch_current_stage :: nat
  ch_created_at :: datetime
  ch_completed_at :: "datetime option"
  ch_tenant_id :: nat
  ch_gates :: "approval_gate list"

record approval_policy_stage =
  st_id :: nat
  st_tenant_id :: nat
  st_position :: nat
  st_name :: string
  st_source :: string
  st_group_id :: "nat option"
  st_role_filter :: "string option"
  st_include_manager :: bool
  st_authority :: "string option"
  st_user_ids_json :: "json option"
  st_mode :: string
  st_condition :: string
  st_fallback :: string
  st_skip_duplicates :: bool

record approval_policy =
  po_id :: nat
  po_tenant_id :: nat
  po_name :: string
  po_description :: string
  po_applies_to :: string
  po_is_default :: bool
  po_active :: bool
  po_updated_by_id :: "nat option"
  po_updated_at :: datetime
  po_stages :: "approval_policy_stage list"

record approval_authority_group =
  ag_id :: nat
  ag_tenant_id :: nat
  ag_authority :: string
  ag_subject_group_id :: "nat option"
  ag_group_id :: nat
  ag_created_by_id :: "nat option"
  ag_created_at :: datetime

record service_offering =
  sv_id :: nat
  sv_name :: string
  sv_owner_id :: "nat option"
  sv_support_group_id :: "nat option"
  sv_criticality :: string
  sv_status :: string
  sv_status_page_visible :: bool
  sv_tenant_id :: nat

record ticket_category =
  tc_id :: nat
  tc_name :: string
  tc_active :: bool
  tc_tenant_id :: nat

record ticket_subcategory =
  ts_id :: nat
  ts_category_id :: nat
  ts_name :: string
  ts_active :: bool
  ts_default_service_offering_id :: "nat option"
  ts_tenant_id :: nat

record schedule_holiday =
  sh_id :: nat
  sh_tenant_id :: "nat option"
  sh_holiday_date :: date
  sh_name :: string

record business_schedule =
  bs_id :: nat
  bs_name :: string
  bs_timezone_name :: string
  bs_weekdays :: "int list"
  bs_start_time :: int
  bs_end_time :: int
  bs_active :: bool
  bs_tenant_id :: nat
  bs_holidays :: "schedule_holiday list"

record sla_definition =
  sd_id :: nat
  sd_name :: string
  sd_target_type :: string
  sd_priority :: "string option"
  sd_duration_minutes :: nat
  sd_pause_states :: string
  sd_active :: bool
  sd_schedule_id :: "nat option"
  sd_agreement_type :: string
  sd_counterparty :: string
  sd_tenant_id :: nat
  sd_client_organization_id :: "nat option"

record task_sla =
  sl_id :: nat
  sl_tenant_id :: "nat option"
  sl_definition_id :: nat
  sl_target_type :: string
  sl_target_id :: nat
  sl_stage :: string
  sl_started_at :: datetime
  sl_breach_at :: datetime
  sl_stopped_at :: "datetime option"
  sl_paused_at :: "datetime option"
  sl_paused_seconds :: int
  sl_breached :: bool

record sla_event =
  se_id :: nat
  se_task_sla_id :: nat
  se_event_type :: string
  se_occurred_at :: datetime
  se_details :: string
  se_tenant_id :: nat

record catalog_request =
  rq_id :: nat
  rq_number :: string
  rq_requested_by_id :: nat
  rq_requested_for_id :: nat
  rq_state :: string
  rq_opened_at :: datetime
  rq_closed_at :: "datetime option"
  rq_tenant_id :: nat

record requested_item =
  ri_id :: nat
  ri_number :: string
  ri_request_id :: nat
  ri_catalog_item_id :: nat
  ri_state :: string
  ri_stage :: string
  ri_variables_json :: string
  ri_due_at :: "datetime option"
  ri_tenant_id :: nat

record catalog_task =
  ct_id :: nat
  ct_number :: string
  ct_requested_item_id :: nat
  ct_title :: string
  ct_state :: string
  ct_sequence :: nat
  ct_assignment_group_id :: "nat option"
  ct_assignee_id :: "nat option"
  ct_due_at :: "datetime option"
  ct_work_notes :: string
  ct_tenant_id :: nat

record catalog_task_control =
  cc_id :: nat
  cc_tenant_id :: "nat option"
  cc_task_id :: nat
  cc_execution_mode :: string
  cc_predecessor_task_id :: "nat option"

record change_governance =
  cg_id :: nat
  cg_ticket_id :: nat
  cg_change_type :: string
  cg_risk_score :: nat
  cg_impact :: string
  cg_implementation_plan :: string
  cg_test_plan :: string
  cg_backout_plan :: string
  cg_planned_start :: "datetime option"
  cg_planned_end :: "datetime option"
  cg_ci_id :: "nat option"
  cg_conflict_status :: string
  cg_ccb_required :: bool
  cg_risk_score_overridden :: bool
  cg_risk_score_override_reason :: string
  cg_tenant_id :: nat

record change_freeze_window =
  fw_id :: nat
  fw_title :: string
  fw_starts_at :: datetime
  fw_ends_at :: datetime
  fw_reason :: string
  fw_created_by_id :: "nat option"
  fw_created_at :: datetime
  fw_tenant_id :: nat

record change_post_implementation_review =
  pr_id :: nat
  pr_ticket_id :: nat
  pr_outcome :: string
  pr_summary :: string
  pr_follow_up_actions :: string
  pr_reviewed_by_id :: nat
  pr_reviewed_at :: datetime
  pr_tenant_id :: nat

record change_ownership =
  ow_id :: nat
  ow_tenant_id :: "nat option"
  ow_ticket_id :: nat
  ow_group_id :: nat

record ticket_assignment_group =
  ta_id :: nat
  ta_tenant_id :: "nat option"
  ta_ticket_id :: nat
  ta_group_id :: nat

record record_link =
  rl_id :: nat
  rl_tenant_id :: "nat option"
  rl_source_type :: string
  rl_source_id :: nat
  rl_target_type :: string
  rl_target_id :: nat
  rl_link_type :: string
  rl_created_at :: datetime

record task_history =
  th_id :: nat
  th_tenant_id :: "nat option"
  th_target_type :: string
  th_target_id :: nat
  th_actor_id :: "nat option"
  th_source_platform :: "string option"
  th_event :: string
  th_field_name :: "string option"
  th_old_value :: string
  th_new_value :: string
  th_details :: string
  th_created_at :: datetime

record operational_task =
  ot_id :: nat
  ot_tenant_id :: "nat option"
  ot_number :: string
  ot_task_kind :: string
  ot_parent_type :: string
  ot_parent_id :: nat
  ot_title :: string
  ot_task_type :: string
  ot_state :: string
  ot_required :: bool
  ot_sequence :: nat
  ot_assignment_group_id :: nat
  ot_assignee_id :: "nat option"
  ot_planned_start :: "datetime option"
  ot_planned_end :: "datetime option"
  ot_work_notes :: string
  ot_created_at :: datetime
  ot_updated_at :: datetime

record task_ci =
  tci_id :: nat
  tci_tenant_id :: "nat option"
  tci_target_type :: string
  tci_target_id :: nat
  tci_ci_id :: nat
  tci_relationship_role :: string
  tci_created_at :: datetime

record problem_profile =
  pp_id :: nat
  pp_tenant_id :: "nat option"
  pp_enterprise_record_id :: nat
  pp_known_error :: bool
  pp_root_cause :: string
  pp_workaround :: string
  pp_fix_notes :: string
  pp_primary_ci_id :: "nat option"

record change_revision =
  rv_id :: nat
  rv_tenant_id :: "nat option"
  rv_ticket_id :: nat
  rv_revision :: nat
  rv_last_material_change_at :: "datetime option"

record incident_template =
  it_id :: nat
  it_tenant_id :: nat
  it_name :: string
  it_title :: string
  it_description :: string
  it_category :: string
  it_subcategory :: string
  it_impact :: string
  it_urgency :: string
  it_group_id :: "nat option"
  it_active :: bool
  it_created_at :: datetime
  it_updated_at :: datetime

record assignment_rule =
  ar_id :: nat
  ar_tenant_id :: nat
  ar_name :: string
  ar_position :: nat
  ar_active :: bool
  ar_category :: string
  ar_subcategory :: string
  ar_ci_class :: string
  ar_service_offering_id :: "nat option"
  ar_group_id :: nat
  ar_created_at :: datetime
  ar_updated_at :: datetime

record outbox_event =
  ob_id :: nat
  ob_event_id :: string
  ob_event_type :: string
  ob_payload_json :: "(string \<times> json) list"
  ob_state :: string
  ob_attempts :: nat
  ob_available_at :: datetime
  ob_last_error :: "string option"
  ob_created_at :: datetime
  ob_completed_at :: "datetime option"
  ob_tenant_id :: nat

record integration_connection =
  ic_id :: nat
  ic_name :: string
  ic_kind :: string
  ic_endpoint :: string
  ic_endpoint_encrypted :: "string option"
  ic_configuration_encrypted :: "string option"
  ic_event_types_json :: "json option"
  ic_secret_encrypted :: "string option"
  ic_active :: bool
  ic_scope_type :: string
  ic_owner_user_id :: "nat option"
  ic_support_group_id :: "nat option"
  ic_created_by_id :: nat
  ic_created_at :: datetime
  ic_tenant_id :: nat

record workflow_definition =
  wd_id :: nat
  wd_workflow_key :: string
  wd_name :: string
  wd_event_type :: string
  wd_active :: bool
  wd_published_version_id :: "nat option"
  wd_tenant_id :: nat

record workflow_version =
  wv_id :: nat
  wv_definition_id :: nat
  wv_version :: nat
  wv_state :: string
  wv_definition_json :: "(string \<times> json) list"
  wv_package_hash :: string
  wv_created_by_id :: nat
  wv_created_at :: datetime
  wv_published_at :: "datetime option"
  wv_tenant_id :: nat

record workflow_job =
  wj_id :: nat
  wj_event_id :: string
  wj_event_type :: string
  wj_target_type :: string
  wj_target_id :: nat
  wj_context_json :: "(string \<times> json) list"
  wj_state :: string
  wj_attempts :: nat
  wj_available_at :: datetime
  wj_last_error :: "string option"
  wj_created_at :: datetime
  wj_completed_at :: "datetime option"
  wj_tenant_id :: nat

record workflow_execution =
  we_id :: nat
  we_job_id :: nat
  we_version_id :: nat
  we_correlation_id :: string
  we_state :: string
  we_input_json :: "(string \<times> json) list"
  we_output_json :: "json list"
  we_error :: "string option"
  we_started_at :: datetime
  we_completed_at :: "datetime option"
  we_next_action_index :: nat
  we_resume_at :: "datetime option"
  we_tenant_id :: nat

record workflow_step_execution =
  ws_id :: nat
  ws_execution_id :: nat
  ws_action_index :: nat
  ws_action_type :: string
  ws_state :: string
  ws_input_json :: json
  ws_output_json :: json
  ws_error :: "string option"
  ws_started_at :: datetime
  ws_completed_at :: "datetime option"
  ws_compensation_state :: "string option"
  ws_tenant_id :: nat

record workflow_schedule =
  wsc_id :: nat
  wsc_schedule_key :: string
  wsc_name :: string
  wsc_ticket_id :: nat
  wsc_interval_minutes :: nat
  wsc_next_run_at :: datetime
  wsc_last_run_at :: "datetime option"
  wsc_active :: bool
  wsc_created_by_id :: nat
  wsc_created_at :: datetime
  wsc_tenant_id :: nat

record audit_row =
  au_id :: nat
  au_event_id :: string
  au_user_id :: "nat option"
  au_action :: string
  au_target :: string
  au_details :: string
  au_request_id :: string
  au_source_ip :: "string option"
  au_user_agent :: "string option"
  au_security_context_json :: json
  au_integrity_version :: string
  au_integrity_key_id :: string
  au_previous_hash :: string
  au_event_hash :: string
  au_created_at :: datetime
  au_tenant_id :: nat

record audit_integrity_key_row =
  aik_id :: nat
  aik_key_id :: string
  aik_secret_encrypted :: string
  aik_active :: bool
  aik_created_by_id :: nat
  aik_created_at :: datetime
  aik_activated_at :: datetime
  aik_retired_at :: "datetime option"
  aik_tenant_id :: nat

record user_role_grant =
  urg_id :: nat
  urg_tenant_id :: "nat option"
  urg_user_id :: nat
  urg_role :: string
  urg_created_at :: datetime

section \<open>The database\<close>

record db =
  db_clock :: datetime
  db_current_user :: "nat option"
  db_platform :: "string option"
  db_settings :: "string \<rightharpoonup> string"
  db_acting_role :: "string option"
  db_request_id :: string
  db_source_ip :: "string option"
  db_user_agent :: "string option"
  db_security_context :: json
  db_uuid :: "nat \<Rightarrow> string"
  db_mac :: "nat \<Rightarrow> string \<Rightarrow> (string \<times> json) list \<Rightarrow> string"
  db_key_ok :: "nat \<Rightarrow> string \<Rightarrow> bool"
  db_sha :: "(string \<times> json) list \<Rightarrow> string"
  db_to_local :: "string \<Rightarrow> datetime \<Rightarrow> int"
  db_to_utc :: "string \<Rightarrow> int \<Rightarrow> datetime"
  db_users :: "user list"
  db_delegations :: "approval_delegation list"
  db_tickets :: "ticket list"
  db_enterprise_records :: "enterprise_record list"
  db_catalog_items :: "catalog_item list"
  db_routings :: "catalog_item_routing list"
  db_cis :: "configuration_item list"
  db_ci_permissions :: "ci_class_permission list"
  db_ci_relationships :: "ci_relationship list"
  db_service_cis :: "service_offering_ci list"
  db_outages :: "service_outage list"
  db_notifications :: "notification list"
  db_notification_templates :: "notification_template list"
  db_groups :: "support_group list"
  db_group_members :: "group_member list"
  db_chains :: "approval_chain list"
  db_policies :: "approval_policy list"
  db_authority_groups :: "approval_authority_group list"
  db_offerings :: "service_offering list"
  db_categories :: "ticket_category list"
  db_subcategories :: "ticket_subcategory list"
  db_schedules :: "business_schedule list"
  db_sla_definitions :: "sla_definition list"
  db_task_slas :: "task_sla list"
  db_sla_events :: "sla_event list"
  db_requests :: "catalog_request list"
  db_ritms :: "requested_item list"
  db_catalog_tasks :: "catalog_task list"
  db_task_controls :: "catalog_task_control list"
  db_governances :: "change_governance list"
  db_freezes :: "change_freeze_window list"
  db_reviews :: "change_post_implementation_review list"
  db_ownerships :: "change_ownership list"
  db_assignments :: "ticket_assignment_group list"
  db_record_links :: "record_link list"
  db_history :: "task_history list"
  db_op_tasks :: "operational_task list"
  db_task_cis :: "task_ci list"
  db_problem_profiles :: "problem_profile list"
  db_revisions :: "change_revision list"
  db_templates :: "incident_template list"
  db_rules :: "assignment_rule list"
  db_outbox :: "outbox_event list"
  db_connections :: "integration_connection list"
  db_workflow_definitions :: "workflow_definition list"
  db_workflow_versions :: "workflow_version list"
  db_workflow_jobs :: "workflow_job list"
  db_workflow_executions :: "workflow_execution list"
  db_workflow_steps :: "workflow_step_execution list"
  db_audits :: "audit_row list"
  db_audit_keys :: "audit_integrity_key_row list"
  db_role_grants :: "user_role_grant list"

text \<open>A database with no rows, the starting point of concrete examples.\<close>

definition empty_db :: db where
  "empty_db = \<lparr>
    db_clock = 0, db_current_user = None, db_platform = None, db_settings = Map.empty,
    db_acting_role = None, db_request_id = [], db_source_ip = None, db_user_agent = None,
    db_security_context = JObj [], db_uuid = (\<lambda>_. []), db_mac = (\<lambda>_ _ _. []),
    db_key_ok = (\<lambda>_ _. True), db_sha = (\<lambda>_. []),
    db_to_local = (\<lambda>_ t. t), db_to_utc = (\<lambda>_ t. t),
    db_users = [], db_delegations = [], db_tickets = [], db_enterprise_records = [],
    db_catalog_items = [], db_routings = [], db_cis = [], db_ci_permissions = [],
    db_ci_relationships = [], db_service_cis = [], db_outages = [], db_notifications = [],
    db_notification_templates = [], db_groups = [], db_group_members = [], db_chains = [],
    db_policies = [], db_authority_groups = [], db_offerings = [], db_categories = [],
    db_subcategories = [], db_schedules = [], db_sla_definitions = [], db_task_slas = [],
    db_sla_events = [], db_requests = [], db_ritms = [], db_catalog_tasks = [],
    db_task_controls = [], db_governances = [], db_freezes = [], db_reviews = [],
    db_ownerships = [], db_assignments = [], db_record_links = [], db_history = [],
    db_op_tasks = [], db_task_cis = [], db_problem_profiles = [], db_revisions = [],
    db_templates = [], db_rules = [], db_outbox = [], db_connections = [],
    db_workflow_definitions = [], db_workflow_versions = [], db_workflow_jobs = [], db_workflow_executions = [],
    db_workflow_steps = [], db_audits = [], db_audit_keys = [], db_role_grants = []\<rparr>"

text \<open>Rows with no content, for concrete examples.\<close>

definition blank_user :: user where
  "blank_user = \<lparr>
    u_id = 0, u_username = [], u_name = [], u_email = [], u_title = [], u_department = [],
    u_division = None, u_employee_id = None, u_employee_type = None, u_business_phone = [],
    u_mobile_phone = [], u_timezone = [], u_date_format = [], u_calendar_integration = [],
    u_avatar_path = None, u_location = [], u_password_hash = [], u_role = [], u_active = False,
    u_auth_version = 0, u_failed_login_count = 0, u_locked_until = None, u_created_at = 0,
    u_erased_at = None, u_tenant_id = 0, u_manager_id = None, u_mfa_secret_encrypted = None,
    u_mfa_enabled = False, u_mfa_enrolled_at = None, u_mfa_backup_codes_json = None,
    u_mfa_last_totp_step = None, u_last_seen_at = None\<rparr>"

definition blank_ticket :: ticket where
  "blank_ticket = \<lparr>
    tk_id = 0, tk_number = [], tk_kind = [], tk_title = [], tk_description = [], tk_state = [],
    tk_priority = [], tk_impact = [], tk_urgency = [], tk_priority_overridden = False,
    tk_priority_override_reason = None, tk_category = [], tk_subcategory = [],
    tk_closure_category = None, tk_closure_subcategory = None, tk_resolution_notes = None,
    tk_resolved_at = None, tk_contact_type = [], tk_notify = [], tk_service_offering_id = None,
    tk_requester_id = 0, tk_assignee_id = None, tk_created_at = 0, tk_updated_at = 0,
    tk_deleted_at = None, tk_deleted_by_id = None, tk_tenant_id = 0, tk_external_source = None,
    tk_external_id = None, tk_csat_rating = None, tk_csat_comment = None, tk_csat_submitted_at = None,
    tk_opened_by_id = None, tk_hold_reason = None, tk_reassignment_count = 0, tk_reopen_count = 0\<rparr>"

definition blank_enterprise_record :: enterprise_record where
  "blank_enterprise_record = \<lparr>
    er_id = 0, er_number = [], er_domain = [], er_record_type = [], er_title = [], er_description = [],
    er_state = [], er_priority = [], er_risk = [], er_requester_id = 0, er_assignee_id = None,
    er_support_group_id = None, er_due_at = None, er_metadata_json = [], er_created_at = 0,
    er_updated_at = 0, er_tenant_id = 0, er_external_source = None, er_external_id = None,
    er_approvals = []\<rparr>"

definition blank_approval_chain :: approval_chain where
  "blank_approval_chain = \<lparr>
    ch_id = 0, ch_name = [], ch_target_type = [], ch_target_id = 0, ch_state = [], ch_current_stage = 0,
    ch_created_at = 0, ch_completed_at = None, ch_tenant_id = 0, ch_gates = []\<rparr>"

definition blank_approval_gate :: approval_gate where
  "blank_approval_gate = \<lparr>
    gt_id = 0, gt_sequence = 0, gt_name = [], gt_mode = [], gt_state = [], gt_tenant_id = 0,
    gt_votes = []\<rparr>"

definition blank_approval_vote :: approval_vote where
  "blank_approval_vote = \<lparr>
    v_id = 0, v_approver_id = 0, v_delegated_from_id = None, v_state = [], v_comments = [],
    v_decided_at = None, v_tenant_id = 0\<rparr>"

definition blank_catalog_request :: catalog_request where
  "blank_catalog_request = \<lparr>
    rq_id = 0, rq_number = [], rq_requested_by_id = 0, rq_requested_for_id = 0, rq_state = [],
    rq_opened_at = 0, rq_closed_at = None, rq_tenant_id = 0\<rparr>"

definition blank_requested_item :: requested_item where
  "blank_requested_item = \<lparr>
    ri_id = 0, ri_number = [], ri_request_id = 0, ri_catalog_item_id = 0, ri_state = [], ri_stage = [],
    ri_variables_json = [], ri_due_at = None, ri_tenant_id = 0\<rparr>"

definition blank_catalog_task :: catalog_task where
  "blank_catalog_task = \<lparr>
    ct_id = 0, ct_number = [], ct_requested_item_id = 0, ct_title = [], ct_state = [], ct_sequence = 0,
    ct_assignment_group_id = None, ct_assignee_id = None, ct_due_at = None, ct_work_notes = [],
    ct_tenant_id = 0\<rparr>"

definition blank_support_group :: support_group where
  "blank_support_group = \<lparr>
    g_id = 0, g_name = [], g_group_type = [], g_manager_id = None, g_active = False,
    g_approval_mode = [], g_description = [], g_access_roles = [], g_tenant_id = 0\<rparr>"

definition blank_group_member :: group_member where
  "blank_group_member = \<lparr>
    gm_id = 0, gm_group_id = 0, gm_user_id = 0, gm_role = [], gm_tenant_id = 0\<rparr>"

definition blank_operational_task :: operational_task where
  "blank_operational_task = \<lparr>
    ot_id = 0, ot_tenant_id = None, ot_number = [], ot_task_kind = [], ot_parent_type = [],
    ot_parent_id = 0, ot_title = [], ot_task_type = [], ot_state = [], ot_required = False,
    ot_sequence = 0, ot_assignment_group_id = 0, ot_assignee_id = None, ot_planned_start = None,
    ot_planned_end = None, ot_work_notes = [], ot_created_at = 0, ot_updated_at = 0\<rparr>"

definition blank_configuration_item :: configuration_item where
  "blank_configuration_item = \<lparr>
    ci_id = 0, ci_name = [], ci_ci_class = [], ci_description = None, ci_environment = [],
    ci_operational_status = [], ci_lifecycle_state = [], ci_business_criticality = [],
    ci_ip_address = None, ci_serial_number = None, ci_vendor = None, ci_model = None, ci_location = None,
    ci_cost_center = None, ci_discovery_source = [], ci_install_date = None,
    ci_warranty_expiry_date = None, ci_attributes = [], ci_field_sources = [], ci_owner_id = None,
    ci_support_group_id = None, ci_created_at = 0, ci_updated_at = 0, ci_tenant_id = 0,
    ci_external_source = None, ci_external_id = None, ci_require_ccb_approval = False, ci_rack_id = None,
    ci_rack_position = None, ci_rack_u_height = None, ci_rack_face = None\<rparr>"

definition blank_change_governance :: change_governance where
  "blank_change_governance = \<lparr>
    cg_id = 0, cg_ticket_id = 0, cg_change_type = [], cg_risk_score = 0, cg_impact = [],
    cg_implementation_plan = [], cg_test_plan = [], cg_backout_plan = [], cg_planned_start = None,
    cg_planned_end = None, cg_ci_id = None, cg_conflict_status = [], cg_ccb_required = False,
    cg_risk_score_overridden = False, cg_risk_score_override_reason = [], cg_tenant_id = 0\<rparr>"

definition blank_change_freeze_window :: change_freeze_window where
  "blank_change_freeze_window = \<lparr>
    fw_id = 0, fw_title = [], fw_starts_at = 0, fw_ends_at = 0, fw_reason = [], fw_created_by_id = None,
    fw_created_at = 0, fw_tenant_id = 0\<rparr>"

definition blank_service_offering :: service_offering where
  "blank_service_offering = \<lparr>
    sv_id = 0, sv_name = [], sv_owner_id = None, sv_support_group_id = None, sv_criticality = [],
    sv_status = [], sv_status_page_visible = False, sv_tenant_id = 0\<rparr>"

definition blank_approval_policy :: approval_policy where
  "blank_approval_policy = \<lparr>
    po_id = 0, po_tenant_id = 0, po_name = [], po_description = [], po_applies_to = [],
    po_is_default = False, po_active = False, po_updated_by_id = None, po_updated_at = 0, po_stages = []\<rparr>"

definition blank_approval_policy_stage :: approval_policy_stage where
  "blank_approval_policy_stage = \<lparr>
    st_id = 0, st_tenant_id = 0, st_position = 0, st_name = [], st_source = [], st_group_id = None,
    st_role_filter = None, st_include_manager = False, st_authority = None, st_user_ids_json = None,
    st_mode = [], st_condition = [], st_fallback = [], st_skip_duplicates = False\<rparr>"

definition blank_record_link :: record_link where
  "blank_record_link = \<lparr>
    rl_id = 0, rl_tenant_id = None, rl_source_type = [], rl_source_id = 0, rl_target_type = [],
    rl_target_id = 0, rl_link_type = [], rl_created_at = 0\<rparr>"

definition blank_ticket_assignment_group :: ticket_assignment_group where
  "blank_ticket_assignment_group = \<lparr>
    ta_id = 0, ta_tenant_id = None, ta_ticket_id = 0, ta_group_id = 0\<rparr>"

definition blank_change_ownership :: change_ownership where
  "blank_change_ownership = \<lparr>
    ow_id = 0, ow_tenant_id = None, ow_ticket_id = 0, ow_group_id = 0\<rparr>"

definition blank_assignment_rule :: assignment_rule where
  "blank_assignment_rule = \<lparr>
    ar_id = 0, ar_tenant_id = 0, ar_name = [], ar_position = 0, ar_active = False, ar_category = [],
    ar_subcategory = [], ar_ci_class = [], ar_service_offering_id = None, ar_group_id = 0,
    ar_created_at = 0, ar_updated_at = 0\<rparr>"

definition blank_task_ci :: task_ci where
  "blank_task_ci = \<lparr>
    tci_id = 0, tci_tenant_id = None, tci_target_type = [], tci_target_id = 0, tci_ci_id = 0,
    tci_relationship_role = [], tci_created_at = 0\<rparr>"

definition blank_ci_relationship :: ci_relationship where
  "blank_ci_relationship = \<lparr>
    cir_id = 0, cir_parent_id = 0, cir_child_id = 0, cir_relationship_type = [], cir_label = None,
    cir_created_at = 0, cir_tenant_id = 0\<rparr>"

definition blank_catalog_item :: catalog_item where
  "blank_catalog_item = \<lparr>
    cat_id = 0, cat_name = [], cat_category = [], cat_description = [], cat_delivery_days = 0,
    cat_approval_required = False, cat_approval_policy_id = None, cat_active = False, cat_tenant_id = 0\<rparr>"

definition blank_incident_template :: incident_template where
  "blank_incident_template = \<lparr>
    it_id = 0, it_tenant_id = 0, it_name = [], it_title = [], it_description = [], it_category = [],
    it_subcategory = [], it_impact = [], it_urgency = [], it_group_id = None, it_active = False,
    it_created_at = 0, it_updated_at = 0\<rparr>"

text \<open>The tables obey the laws of \<open>db_table\<close>.\<close>

interpretation tickets_tab: db_table db_tickets db_tickets_update tk_id
  by unfold_locales simp_all

interpretation enterprise_records_tab: db_table db_enterprise_records db_enterprise_records_update er_id
  by unfold_locales simp_all

interpretation cis_tab: db_table db_cis db_cis_update ci_id
  by unfold_locales simp_all

interpretation outages_tab: db_table db_outages db_outages_update so_id
  by unfold_locales simp_all

interpretation chains_tab: db_table db_chains db_chains_update ch_id
  by unfold_locales simp_all

interpretation policies_tab: db_table db_policies db_policies_update po_id
  by unfold_locales simp_all

interpretation task_slas_tab: db_table db_task_slas db_task_slas_update sl_id
  by unfold_locales simp_all

interpretation requests_tab: db_table db_requests db_requests_update rq_id
  by unfold_locales simp_all

interpretation ritms_tab: db_table db_ritms db_ritms_update ri_id
  by unfold_locales simp_all

interpretation catalog_tasks_tab: db_table db_catalog_tasks db_catalog_tasks_update ct_id
  by unfold_locales simp_all

interpretation governances_tab: db_table db_governances db_governances_update cg_id
  by unfold_locales simp_all

interpretation op_tasks_tab: db_table db_op_tasks db_op_tasks_update ot_id
  by unfold_locales simp_all

interpretation rules_tab: db_table db_rules db_rules_update ar_id
  by unfold_locales simp_all

end
