(* ===== verification/Delivery.thy ===== *)
theory Delivery
  imports Models
begin

text \<open>
  Outbound delivery policy (\<^verbatim>\<open>serviceops_core/delivery.py\<close>): which integration connection may receive
  which event. Event subscriptions are glob patterns, matched with \<^verbatim>\<open>fnmatch.fnmatchcase\<close>; before a
  pattern is looked at, the audience boundary is applied. The lemmas show that boundary: a personal
  notification reaches only its addressee's own connection, a team connection hears only activity
  of its own team.
\<close>

section \<open>Glob patterns (fnmatch)\<close>

text \<open>The inside of a bracket expression: single characters and ranges.\<close>

fun in_class :: "string \<Rightarrow> char \<Rightarrow> bool" where
  "in_class [] c = False"
| "in_class [a] c = (c = a)"
| "in_class [a, b] c = (c = a \<or> c = b)"
| "in_class (a # b # d # rest) c =
     (if b = CHR ''-'' then (a \<le> c \<and> c \<le> d) \<or> in_class rest c
      else c = a \<or> in_class (b # d # rest) c)"

text \<open>
  \<open>bracket p\<close> splits the pattern after an opening bracket into the negation flag, the class and the
  rest; a closing bracket that comes first belongs to the class, and \<open>None\<close> means there is no
  closing bracket, so that the opening one is literal.
\<close>

definition bracket :: "string \<Rightarrow> (bool \<times> string \<times> string) option" where
  "bracket p =
     (let neg = (p \<noteq> [] \<and> hd p = CHR ''!'');
          q = (if neg then tl p else p)
      in (case q of
            [] \<Rightarrow> None
          | c # cs \<Rightarrow>
              (let inner = takeWhile (\<lambda>x. x \<noteq> CHR '']'') cs; rest = dropWhile (\<lambda>x. x \<noteq> CHR '']'') cs
               in (case rest of [] \<Rightarrow> None | _ # after \<Rightarrow> Some (neg, c # inner, after)))))"

lemma bracket_shorter: "bracket p = Some (neg, cls, rest) \<Longrightarrow> length rest < length p"
proof -
  assume b: "bracket p = Some (neg, cls, rest)"
  define q where "q = (if p \<noteq> [] \<and> hd p = CHR ''!'' then tl p else p)"
  have q: "length q \<le> length p" by (simp add: q_def)
  from b obtain c cs d where *: "q = c # cs" "dropWhile (\<lambda>x. x \<noteq> CHR '']'') cs = d # rest"
    by (auto simp: bracket_def Let_def q_def split: list.splits)
  have "length (d # rest) \<le> length cs" using *(2) length_dropWhile_le [of _ cs] by metis
  with * q show ?thesis by simp
qed

function fnmatchcase :: "string \<Rightarrow> string \<Rightarrow> bool" where
  "fnmatchcase s [] = (s = [])"
| "fnmatchcase [] (p # ps) = (p = CHR ''*'' \<and> fnmatchcase [] ps)"
| "fnmatchcase (c # cs) (p # ps) =
     (if p = CHR ''*'' then fnmatchcase (c # cs) ps \<or> fnmatchcase cs (p # ps)
      else if p = CHR ''?'' then fnmatchcase cs ps
      else (case (if p = CHR ''['' then bracket ps else None) of
              Some (neg, cls, rest) \<Rightarrow> in_class cls c \<noteq> neg \<and> fnmatchcase cs rest
            | None \<Rightarrow> c = p \<and> fnmatchcase cs ps))"
  by pat_completeness auto
termination
  by (relation "measures [\<lambda>(s, p). length p, \<lambda>(s, p). length s]")
    (auto dest: bracket_shorter split: if_splits)

lemma fnmatchcase_star: "fnmatchcase s ''*''"
  by (induction s) simp_all

section \<open>Subscriptions\<close>

text \<open>
  The column holds the decoded list; an empty list is the text \<^verbatim>\<open>[]\<close> (or a blank column), which
  means every event, and text that does not decode matches nothing.
\<close>

definition parse_event_patterns :: "json option \<Rightarrow> string list" where
  "parse_event_patterns raw =
     (case raw of
        None \<Rightarrow> []
      | Some (JList []) \<Rightarrow> [''*'']
      | Some (JStr []) \<Rightarrow> [''*'']
      | Some JNull \<Rightarrow> [''*'']
      | Some (JList values) \<Rightarrow>
          concat (map (\<lambda>v. case v of JStr s \<Rightarrow> (if strip s = [] then [] else [strip s]) | _ \<Rightarrow> []) values)
      | Some _ \<Rightarrow> [])"

definition event_subtype :: "string \<Rightarrow> (string \<times> json) list \<Rightarrow> json" where
  "event_subtype event_type payload =
     (if event_type = ''notification.created'' then jget payload ''notification_event_type''
      else if event_type = ''activity.created'' then jget payload ''activity_category''
      else if event_type = ''audit.created'' then jget payload ''action'' else JNull)"

definition event_matches :: "json option \<Rightarrow> string \<Rightarrow> (string \<times> json) list \<Rightarrow> bool" where
  "event_matches patterns event_type payload =
     (let candidates = event_type #
            (case event_subtype event_type payload of
               JStr s \<Rightarrow> (if s \<noteq> [] then [event_type @ '':'' @ s] else [])
             | _ \<Rightarrow> [])
      in list_ex (\<lambda>pattern. list_ex (\<lambda>c. fnmatchcase c pattern) candidates)
           (parse_event_patterns patterns))"

text \<open>\<^verbatim>\<open>{int(value) for value in payload.get("support_group_ids", [])}\<close>, \<open>None\<close> when it raises.\<close>

definition payload_group_ids :: "(string \<times> json) list \<Rightarrow> int list option" where
  "payload_group_ids payload =
     (case map_of payload ''support_group_ids'' of
        None \<Rightarrow> Some []
      | Some (JList vs) \<Rightarrow>
          (if list_all (\<lambda>v. py_int v \<noteq> None) vs then Some (map (\<lambda>v. the (py_int v)) vs) else None)
      | Some _ \<Rightarrow> None)"

definition connection_accepts_event ::
    "integration_connection \<Rightarrow> string \<Rightarrow> (string \<times> json) list \<Rightarrow> bool" where
  "connection_accepts_event connection event_type payload =
     (let scope = (if ic_scope_type connection = [] then ''tenant'' else ic_scope_type connection) in
      if scope = ''user'' then
        event_type = ''notification.created''
        \<and> jget payload ''user_id'' = jnat (ic_owner_user_id connection)
        \<and> event_matches (ic_event_types_json connection) event_type payload
      else if scope = ''group'' then
        (case payload_group_ids payload of
           None \<Rightarrow> False
         | Some group_ids \<Rightarrow>
             event_type = ''activity.created''
             \<and> (case ic_support_group_id connection of None \<Rightarrow> False | Some g \<Rightarrow> int g \<in> set group_ids)
             \<and> event_matches (ic_event_types_json connection) event_type payload)
      else event_type \<noteq> ''notification.created''
           \<and> event_matches (ic_event_types_json connection) event_type payload)"

definition any_word :: "string list \<Rightarrow> string \<Rightarrow> bool" where
  "any_word ws text = list_ex (\<lambda>w. contains w text) ws"

definition any_prefix :: "string list \<Rightarrow> string \<Rightarrow> bool" where
  "any_prefix ps text = list_ex (\<lambda>p. starts_with p text) ps"

definition activity_category :: "string \<Rightarrow> string \<Rightarrow> string" where
  "activity_category action target =
     (let action_text = lower action; target_text = upper target in
      if any_word [''approval'', ''delegation''] action_text then ''approvals''
      else if starts_with ''CHG'' target_text
           \<or> any_word [''change plan'', ''conflict check'', ''freeze''] action_text then ''changes''
      else if starts_with ''INC'' target_text
           \<or> any_word [''major incident'', ''post-incident''] action_text then ''incidents''
      else if any_prefix [''REQ'', ''RITM'', ''SCTASK''] target_text
           \<or> any_word [''catalog'', ''task'', ''request item''] action_text then ''requests''
      else if any_prefix [''CI'', ''AST''] target_text
           \<or> any_word [''link ci'', ''netbox'', ''cmdb'', ''asset''] action_text then ''cmdb''
      else if starts_with ''KB'' target_text \<or> contains ''knowledge'' action_text then ''knowledge''
      else if any_word [''ldap'', ''scim'', ''user'', ''team'', ''group'', ''profile''] action_text
        then ''directory''
      else if any_word [''integration'', ''webhook'', ''monitoring source'', ''import''] action_text
        then ''integrations''
      else if any_word [''sla'', ''escalat'', ''outage'', ''service impact''] action_text then ''sla''
      else if any_word [''login'', ''logout'', ''password'', ''credential'', ''mfa'', ''passkey'',
                        ''token'', ''api client'', ''audit key''] action_text then ''security''
      else ''other'')"

section \<open>The audience boundary\<close>

lemma accepts_scope_cases:
  assumes "connection_accepts_event c ev payload"
  shows "(ic_scope_type c = ''user'' \<and> ev = ''notification.created''
            \<and> jget payload ''user_id'' = jnat (ic_owner_user_id c))
       \<or> (ic_scope_type c = ''group'' \<and> ev = ''activity.created''
            \<and> (\<exists>g ids. ic_support_group_id c = Some g \<and> payload_group_ids payload = Some ids
                 \<and> int g \<in> set ids))
       \<or> (ic_scope_type c \<notin> {''user'', ''group''} \<and> ev \<noteq> ''notification.created'')"
  using assms
  by (auto simp: connection_accepts_event_def Let_def split: if_splits option.splits)

text \<open>
  A personal notification is delivered only by a connection that belongs to the person it is
  addressed to: an organisation-wide or a team channel never receives one, whatever patterns it
  subscribes to.
\<close>

theorem personal_notification_stays_personal:
  assumes "connection_accepts_event c ''notification.created'' payload"
  shows "ic_scope_type c = ''user'' \<and> jget payload ''user_id'' = jnat (ic_owner_user_id c)"
  using accepts_scope_cases [OF assms] by auto

definition example_personal_connection :: integration_connection where
  "example_personal_connection = \<lparr>ic_id = 1, ic_name = ''Ann'', ic_kind = ''google_chat'',
     ic_endpoint = '''', ic_endpoint_encrypted = None, ic_configuration_encrypted = None,
     ic_event_types_json = Some (JList [JStr ''notification.created:sla.*'']),
     ic_secret_encrypted = None, ic_active = True, ic_scope_type = ''user'',
     ic_owner_user_id = Some 7, ic_support_group_id = None, ic_created_by_id = 7,
     ic_created_at = 0, ic_tenant_id = 1\<rparr>"

theorem personal_notification_stays_personal_witness:
  "connection_accepts_event example_personal_connection ''notification.created''
     [(''notification_event_type'', JStr ''sla.breached''), (''user_id'', JInt 7)]
   \<and> ic_scope_type example_personal_connection = ''user''"
proof -
  let ?p = "[(''notification_event_type'', JStr ''sla.breached''), (''user_id'', JInt 7)]"
  have "connection_accepts_event example_personal_connection ''notification.created'' ?p"
    by code_simp
  then show ?thesis using personal_notification_stays_personal by blast
qed

lemma activity_category_known:
  "activity_category a t \<in> set [''approvals'', ''changes'', ''incidents'', ''requests'', ''cmdb'',
     ''knowledge'', ''directory'', ''integrations'', ''sla'', ''security'', ''other'']"
proof -
  have member: "(if b then x else y) \<in> A" if "x \<in> A" and "y \<in> A" for b and x y :: string and A
    using that by simp
  show ?thesis unfolding activity_category_def Let_def
    by (intro member list.set_intros)
qed

end
