(* ===== verification/Platform.thy ===== *)
theory Platform
  imports Delivery "HOL-Library.Countable"
begin

text \<open>
  The platform services every handler calls (\<^verbatim>\<open>app.py\<close>): the tenant of the request, settings, roles,
  the history of a record, notifications with their administrator-edited templates, the
  tamper-evident audit log and the queue of workflow events. Each appends to its own tables and leaves
  the rest of the database alone; the \<open>frame\<close> lemmas say so. The last section shows that the audit
  log stays verifiable: \<open>audit\<close> extends a valid chain to a valid chain, and two valid chains with the
  same head are the same chain when the digest is collision free.
\<close>

section \<open>Dates as text\<close>

text \<open>The proleptic Gregorian calendar date of a day count from 1970-01-01.\<close>

definition civil_from_days :: "int \<Rightarrow> int \<times> int \<times> int" where
  "civil_from_days n =
     (let z = n + 719468; era = z div 146097; doe = z mod 146097;
          yoe = (doe - doe div 1460 + doe div 36524 - doe div 146096) div 365;
          doy = doe - (365 * yoe + yoe div 4 - yoe div 100);
          mp = (5 * doy + 2) div 153;
          d = doy - (153 * mp + 2) div 5 + 1;
          m = (if mp < 10 then mp + 3 else mp - 9);
          y = yoe + era * 400 + (if m \<le> 2 then 1 else 0)
      in (y, m, d))"

definition show_pad :: "nat \<Rightarrow> int \<Rightarrow> string" where
  "show_pad w n = pad0 w (show_nat (nat n))"

text \<open>The day of a civil date, counted from 1970-01-01.\<close>

definition days_from_civil :: "int \<Rightarrow> int \<Rightarrow> int \<Rightarrow> int" where
  "days_from_civil y m d =
     (let y = (if m \<le> 2 then y - 1 else y); era = y div 400; yoe = y mod 400;
          mp = (if m > 2 then m - 3 else m + 9);
          doy = (153 * mp + 2) div 5 + d - 1
      in era * 146097 + (yoe * 365 + yoe div 4 - yoe div 100 + doy) - 719468)"

text \<open>\<^verbatim>\<open>datetime.isoformat()\<close> of a UTC date and time.\<close>

definition isoformat :: "datetime \<Rightarrow> string" where
  "isoformat t =
     (let (y, m, d) = civil_from_days (t div 86400000000); us = t mod 86400000000;
          secs = us div 1000000; frac = us mod 1000000
      in show_pad 4 y @ ''-'' @ show_pad 2 m @ ''-'' @ show_pad 2 d @ ''T''
         @ show_pad 2 (secs div 3600) @ '':'' @ show_pad 2 (secs div 60 mod 60) @ '':''
         @ show_pad 2 (secs mod 60) @ (if frac = 0 then '''' else ''.'' @ show_pad 6 frac) @ ''+00:00'')"

text \<open>Characters beyond code point 255 that texts use, as their UTF-8 bytes.\<close>

definition em_dash :: string where
  "em_dash = [CHR 0xE2, CHR 0x80, CHR 0x94]"

definition arrow :: string where
  "arrow = [CHR 0xE2, CHR 0x86, CHR 0x92]"

section \<open>Request context, settings and roles\<close>

definition get_user :: "db \<Rightarrow> nat \<Rightarrow> user option" where
  "get_user s i = get_row u_id i (db_users s)"

definition tenant_context_id :: "db \<Rightarrow> nat" where
  "tenant_context_id s =
     (case db_current_user s of
        None \<Rightarrow> 1
      | Some i \<Rightarrow> (case get_user s i of None \<Rightarrow> 1 | Some u \<Rightarrow> u_tenant_id u))"

definition setting_value :: "db \<Rightarrow> string \<Rightarrow> string \<Rightarrow> string" where
  "setting_value s key fallback = opt fallback (db_settings s key)"

definition coerce_bool :: "string \<Rightarrow> bool" where
  "coerce_bool v \<longleftrightarrow> lower v \<in> set [''1'', ''true'', ''yes'', ''on'']"

definition setting_bool :: "db \<Rightarrow> string \<Rightarrow> bool \<Rightarrow> bool" where
  "setting_bool s key fallback =
     coerce_bool (setting_value s key (if fallback then ''True'' else ''False''))"

definition ROLE_RANK :: "(string \<times> int) list" where
  "ROLE_RANK = [(''requester'', 0), (''agent'', 1), (''manager'', 2), (''admin'', 3), (''superadmin'', 4)]"

definition role_at_least :: "string \<Rightarrow> string \<Rightarrow> bool" where
  "role_at_least role minimum \<longleftrightarrow>
     opt (- 1) (map_of ROLE_RANK role) \<ge> opt 999 (map_of ROLE_RANK minimum)"

definition granted_roles :: "db \<Rightarrow> user \<Rightarrow> string list" where
  "granted_roles s u =
     rev (sort_key (\<lambda>r. opt (- 1) (map_of ROLE_RANK r))
       (remdups (u_role u # map urg_role (filter (\<lambda>gr. urg_user_id gr = u_id u) (db_role_grants s)))))"

definition effective_role :: "db \<Rightarrow> user \<Rightarrow> string" where
  "effective_role s u =
     (case db_acting_role s of
        None \<Rightarrow> u_role u
      | Some r \<Rightarrow> if r \<noteq> [] \<and> r \<in> set (granted_roles s u) then r else u_role u)"

section \<open>Record references and dependent tenancy\<close>

text \<open>
  The tenant of the record a dependent row points at (\<^verbatim>\<open>serviceops_core/dependent_tenancy.py\<close>). The
  record types \<^verbatim>\<open>client_ticket\<close>, \<^verbatim>\<open>work_item\<close>, \<^verbatim>\<open>knowledge\<close> and \<^verbatim>\<open>contract\<close> are not part of the
  model's tables, so a row pointing at one takes the tenant of the request.
\<close>

definition basic_record_tenant :: "db \<Rightarrow> string \<Rightarrow> nat \<Rightarrow> nat option" where
  "basic_record_tenant s ty i =
     (if ty = ''ticket'' then map_option tk_tenant_id (get_row tk_id i (db_tickets s))
      else if ty = ''enterprise'' then map_option er_tenant_id (get_row er_id i (db_enterprise_records s))
      else if ty = ''request'' then map_option rq_tenant_id (get_row rq_id i (db_requests s))
      else if ty = ''ritm'' then map_option ri_tenant_id (get_row ri_id i (db_ritms s))
      else if ty = ''catalog_task'' \<or> ty = ''sctask''
        then map_option ct_tenant_id (get_row ct_id i (db_catalog_tasks s))
      else if ty = ''ci'' then map_option ci_tenant_id (get_row ci_id i (db_cis s))
      else if ty = ''approval_chain'' then map_option ch_tenant_id (get_row ch_id i (db_chains s))
      else None)"

definition parent_tenant :: "db \<Rightarrow> string \<Rightarrow> nat \<Rightarrow> nat option" where
  "parent_tenant s ty i =
     (if ty = ''operational_task'' \<or> ty = ''work_task'' then
        (case get_row ot_id i (db_op_tasks s) of
           None \<Rightarrow> None
         | Some t \<Rightarrow> (case ot_tenant_id t of
              Some x \<Rightarrow> Some x
            | None \<Rightarrow> basic_record_tenant s (ot_parent_type t) (ot_parent_id t)))
      else basic_record_tenant s ty i)"

definition fill_tenant :: "db \<Rightarrow> string \<Rightarrow> nat \<Rightarrow> nat option" where
  "fill_tenant s ty i =
     (case parent_tenant s ty i of Some x \<Rightarrow> Some x | None \<Rightarrow> Some (tenant_context_id s))"

section \<open>History\<close>

definition log_history ::
    "string \<Rightarrow> nat \<Rightarrow> string \<Rightarrow> string option \<Rightarrow> string option \<Rightarrow> string option \<Rightarrow> string
       \<Rightarrow> nat option \<Rightarrow> db \<Rightarrow> db" where
  "log_history target_type target_id event field_name old_value new_value details actor_id s =
     s\<lparr>db_history := db_history s @
       [\<lparr>th_id = next_id th_id (db_history s), th_tenant_id = fill_tenant s target_type target_id,
         th_target_type = target_type, th_target_id = target_id,
         th_actor_id = (case actor_id of None \<Rightarrow> db_current_user s | Some a \<Rightarrow> Some a),
         th_source_platform = db_platform s, th_event = event, th_field_name = field_name,
         th_old_value = opt '''' old_value, th_new_value = opt '''' new_value,
         th_details = details, th_created_at = db_clock s\<rparr>]\<rparr>"

section \<open>Notifications\<close>

text \<open>
  \<^verbatim>\<open>string.Template(text).safe_substitute(variables)\<close>: \<open>$name\<close> and \<open>${name}\<close> are replaced when
  the variable is given and left as they are otherwise, \<open>$$\<close> is a dollar sign.
\<close>

definition ident_start :: "char \<Rightarrow> bool" where
  "ident_start c \<longleftrightarrow> (let n = of_char (lower_char c) :: nat in 97 \<le> n \<and> n \<le> 122 \<or> n = 95)"

definition ident_char :: "char \<Rightarrow> bool" where
  "ident_char c \<longleftrightarrow> ident_start c \<or> is_digit c"

definition braced :: "string \<Rightarrow> (string \<times> string) option" where
  "braced s =
     (let name = takeWhile ident_char s; rest = dropWhile ident_char s
      in if name \<noteq> [] \<and> ident_start (hd name) \<and> rest \<noteq> [] \<and> hd rest = CHR ''}''
         then Some (name, tl rest) else None)"

lemma braced_shorter: "braced s = Some (name, rest) \<Longrightarrow> length rest < length s"
proof -
  assume "braced s = Some (name, rest)"
  then have d: "dropWhile ident_char s \<noteq> []" "rest = tl (dropWhile ident_char s)"
    by (auto simp: braced_def Let_def split: if_splits)
  have "length (dropWhile ident_char s) \<le> length s" by (rule length_dropWhile_le)
  with d show ?thesis by (cases "dropWhile ident_char s") auto
qed

function safe_substitute :: "(string \<times> string) list \<Rightarrow> string \<Rightarrow> string" where
  "safe_substitute vars [] = []"
| "safe_substitute vars [c] = [c]"
| "safe_substitute vars (c # d # cs) =
     (if c \<noteq> CHR ''$'' then c # safe_substitute vars (d # cs)
      else if d = CHR ''$'' then CHR ''$'' # safe_substitute vars cs
      else if ident_start d then
        (let name = d # takeWhile ident_char cs in
         opt (CHR ''$'' # name) (map_of vars name) @ safe_substitute vars (dropWhile ident_char cs))
      else if d = CHR ''{'' then
        (case braced cs of
           Some (name, rest) \<Rightarrow> opt (''${'' @ name @ ''}'') (map_of vars name) @ safe_substitute vars rest
         | None \<Rightarrow> c # safe_substitute vars (d # cs))
      else c # safe_substitute vars (d # cs))"
  by pat_completeness auto
termination
  by (relation "measure (\<lambda>(vars, s). length s)")
    (auto dest: braced_shorter simp: le_imp_less_Suc le_SucI length_dropWhile_le)

definition render_notification_template :: "string \<Rightarrow> (string \<times> string) list \<Rightarrow> string" where
  "render_notification_template template_string variables = safe_substitute variables template_string"

definition NOTIFICATION_SEVERITY_BY_EVENT :: "(string \<times> string) list" where
  "NOTIFICATION_SEVERITY_BY_EVENT =
     [(''sla.breached'', ''critical''), (''client_ticket.escalated'', ''critical''),
      (''approval.requested'', ''warning''), (''contract.notice'', ''warning''),
      (''enterprise.approval_requested'', ''warning''), (''ticket.mentioned'', ''warning'')]"

definition notification_severity_for_event :: "string option \<Rightarrow> string" where
  "notification_severity_for_event event_type =
     (case event_type of
        None \<Rightarrow> ''info''
      | Some e \<Rightarrow> opt ''info'' (map_of NOTIFICATION_SEVERITY_BY_EVENT e))"

definition add_outbox :: "string \<Rightarrow> (string \<times> json) list \<Rightarrow> nat \<Rightarrow> db \<Rightarrow> db" where
  "add_outbox event_type payload tenant s =
     s\<lparr>db_outbox := db_outbox s @
       [\<lparr>ob_id = next_id ob_id (db_outbox s), ob_event_id = db_uuid s (next_id ob_id (db_outbox s)),
         ob_event_type = event_type, ob_payload_json = payload, ob_state = ''Pending'', ob_attempts = 0,
         ob_available_at = db_clock s, ob_last_error = None, ob_created_at = db_clock s,
         ob_completed_at = None, ob_tenant_id = tenant\<rparr>]\<rparr>"

definition create_notification ::
    "nat \<Rightarrow> string \<Rightarrow> string \<Rightarrow> nat \<Rightarrow> string option \<Rightarrow> nat option \<Rightarrow> string option
       \<Rightarrow> (string \<times> string) list \<Rightarrow> db \<Rightarrow> db" where
  "create_notification user_id title body tenant_id target_type target_id event_type vars s =
     (let template = (if truthy event_type
            then find (\<lambda>t. ntt_tenant_id t = tenant_id \<and> Some (ntt_event_type t) = event_type
                           \<and> ntt_active t) (db_notification_templates s)
            else None);
          title = (case template of None \<Rightarrow> title
                   | Some t \<Rightarrow> render_notification_template (ntt_subject_template t) vars);
          body = (case template of None \<Rightarrow> body
                   | Some t \<Rightarrow> render_notification_template (ntt_body_template t) vars);
          n = next_id nt_id (db_notifications s);
          s = s\<lparr>db_notifications := db_notifications s @
                [\<lparr>nt_id = n, nt_user_id = user_id, nt_title = title, nt_body = body,
                  nt_target_type = target_type, nt_target_id = target_id, nt_read = False,
                  nt_severity = notification_severity_for_event event_type,
                  nt_created_at = db_clock s, nt_tenant_id = tenant_id\<rparr>]\<rparr>
      in add_outbox ''notification.created''
           [(''body'', JStr body), (''notification_event_type'', jstr event_type),
            (''notification_id'', JInt (int n)), (''target_id'', jnat target_id),
            (''target_type'', jstr target_type), (''title'', JStr title), (''user_id'', JInt (int user_id))]
           tenant_id s)"

section \<open>Workflow events\<close>

definition queue_workflow_event ::
    "string \<Rightarrow> string \<Rightarrow> nat \<Rightarrow> (string \<times> json) list \<Rightarrow> nat \<Rightarrow> db \<Rightarrow> db" where
  "queue_workflow_event event_type target_type target_id context tenant_id s =
     s\<lparr>db_workflow_jobs := db_workflow_jobs s @
       [\<lparr>wj_id = next_id wj_id (db_workflow_jobs s),
         wj_event_id = db_uuid s (next_id wj_id (db_workflow_jobs s)),
         wj_event_type = event_type, wj_target_type = target_type, wj_target_id = target_id,
         wj_context_json = context, wj_state = ''Pending'', wj_attempts = 0,
         wj_available_at = db_clock s, wj_last_error = None, wj_created_at = db_clock s,
         wj_completed_at = None, wj_tenant_id = tenant_id\<rparr>]\<rparr>"

definition ticket_workflow_context :: "ticket \<Rightarrow> string option \<Rightarrow> (string \<times> json) list" where
  "ticket_workflow_context t previous_state =
     [(''number'', JStr (tk_number t)), (''kind'', JStr (tk_kind t)), (''state'', JStr (tk_state t)),
      (''previous_state'', JStr (opt (tk_state t) previous_state)),
      (''priority'', JStr (tk_priority t)), (''impact'', JStr (tk_impact t)),
      (''urgency'', JStr (tk_urgency t)), (''category'', JStr (tk_category t))]"

section \<open>The audit log\<close>

definition audit_payload :: "audit_row \<Rightarrow> (string \<times> json) list" where
  "audit_payload row =
     [(''action'', JStr (au_action row)), (''created_at'', JStr (isoformat (au_created_at row))),
      (''details'', JStr (au_details row)), (''event_id'', JStr (au_event_id row))]
     @ (if au_integrity_version row \<in> set [''hmac-sha256-v2'', ''hmac-sha256-v3'']
        then [(''integrity_key_id'', JStr (au_integrity_key_id row))] else [])
     @ [(''previous_hash'', JStr (au_previous_hash row)), (''request_id'', JStr (au_request_id row))]
     @ (if au_integrity_version row = ''hmac-sha256-v3''
        then [(''security_context_json'', au_security_context_json row)]
        else [])
     @ [(''source_ip'', JStr (opt '''' (au_source_ip row))), (''target'', JStr (au_target row)),
        (''tenant_id'', JInt (int (au_tenant_id row))),
        (''user_agent'', JStr (opt '''' (au_user_agent row))), (''user_id'', jnat (au_user_id row))]"

text \<open>The digest of a row; \<open>None\<close> is the \<^verbatim>\<open>RuntimeError\<close> of a key that cannot be read.\<close>

definition calculate_audit_hash :: "db \<Rightarrow> audit_row \<Rightarrow> string option" where
  "calculate_audit_hash s row =
     (if au_integrity_version row = ''legacy-sha256-v1'' then Some (db_sha s (audit_payload row))
      else if db_key_ok s (au_tenant_id row) (au_integrity_key_id row)
      then Some (db_mac s (au_tenant_id row) (au_integrity_key_id row) (audit_payload row))
      else None)"

datatype audit_verdict =
    Chain_valid nat string
  | Chain_invalid nat string string

text \<open>The loop of \<^verbatim>\<open>verify_audit_chain\<close>: the hash of the last row, how many rows were checked, the rest.\<close>

fun verify_rows :: "db \<Rightarrow> string \<Rightarrow> nat \<Rightarrow> audit_row list \<Rightarrow> audit_verdict" where
  "verify_rows s previous_hash checked [] = Chain_valid checked previous_hash"
| "verify_rows s previous_hash checked (row # rows) =
     (if au_previous_hash row \<noteq> previous_hash
      then Chain_invalid (Suc checked) (au_event_id row) ''previous hash mismatch''
      else (case calculate_audit_hash s row of
              None \<Rightarrow> Chain_invalid (Suc checked) (au_event_id row) ''key unavailable''
            | Some h \<Rightarrow>
                if au_event_hash row \<noteq> h
                then Chain_invalid (Suc checked) (au_event_id row) ''event hash mismatch''
                else verify_rows s (au_event_hash row) (Suc checked) rows))"

definition tenant_audits :: "db \<Rightarrow> nat \<Rightarrow> audit_row list" where
  "tenant_audits s tenant_id = filter (\<lambda>r. au_tenant_id r = tenant_id) (db_audits s)"

definition verify_audit_chain :: "db \<Rightarrow> nat \<Rightarrow> audit_verdict" where
  "verify_audit_chain s tenant_id = verify_rows s '''' 0 (tenant_audits s tenant_id)"

text \<open>\<^verbatim>\<open>str(target).split()\<close> takes the first word; the characters \<^verbatim>\<open>#:;,()\<close> are stripped from it.\<close>

definition first_reference :: "string \<Rightarrow> string" where
  "first_reference target =
     (let word = takeWhile (\<lambda>c. \<not> is_space c) (dropWhile is_space target);
          mark = (\<lambda>c. c \<in> set ''#:;,()'')
      in take 30 (rev (dropWhile mark (rev (dropWhile mark word)))))"

definition support_group_ids_for_target :: "db \<Rightarrow> string \<Rightarrow> nat \<Rightarrow> nat list" where
  "support_group_ids_for_target s target tenant_id =
     (let reference = first_reference target in
      if reference = [] then []
      else let
        ticket_groups =
          (case find (\<lambda>t. tk_number t = reference \<and> tk_tenant_id t = tenant_id) (db_tickets s) of
             None \<Rightarrow> []
           | Some t \<Rightarrow>
               map ta_group_id (filter (\<lambda>a. ta_ticket_id a = tk_id t) (db_assignments s))
               @ map ow_group_id (filter (\<lambda>o'. ow_ticket_id o' = tk_id t) (db_ownerships s)));
        record_groups =
          (case find (\<lambda>r. er_number r = reference \<and> er_tenant_id r = tenant_id) (db_enterprise_records s) of
             None \<Rightarrow> [] | Some r \<Rightarrow> (case er_support_group_id r of None \<Rightarrow> [] | Some g \<Rightarrow> [g]));
        task_groups =
          (case find (\<lambda>t. ct_number t = reference \<and> ct_tenant_id t = tenant_id) (db_catalog_tasks s) of
             None \<Rightarrow> [] | Some t \<Rightarrow> (case ct_assignment_group_id t of None \<Rightarrow> [] | Some g \<Rightarrow> [g]));
        op_groups =
          (case find (\<lambda>t. ot_number t = reference) (db_op_tasks s) of
             None \<Rightarrow> [] | Some t \<Rightarrow> [ot_assignment_group_id t])
      in sorted_list_of_set (set (ticket_groups @ record_groups @ task_groups @ op_groups)))"

definition active_key_id :: "db \<Rightarrow> nat \<Rightarrow> string" where
  "active_key_id s tenant_id =
     (case rev (sort_key aik_id
             (filter (\<lambda>k. aik_tenant_id k = tenant_id \<and> aik_active k) (db_audit_keys s))) of
        [] \<Rightarrow> ''environment-v1'' | k # _ \<Rightarrow> aik_key_id k)"

definition last_audit_hash :: "db \<Rightarrow> nat \<Rightarrow> string" where
  "last_audit_hash s tenant_id =
     (case rev (tenant_audits s tenant_id) of [] \<Rightarrow> '''' | r # _ \<Rightarrow> au_event_hash r)"

text \<open>
  The row \<^verbatim>\<open>audit\<close> writes. Its signing key is taken to be readable: a key that is not ends the request
  with an error before anything is written.
\<close>

definition new_audit_row :: "string \<Rightarrow> string \<Rightarrow> string \<Rightarrow> nat option \<Rightarrow> nat \<Rightarrow> db \<Rightarrow> audit_row" where
  "new_audit_row action target details user_id tenant_id s =
     (let n = next_id au_id (db_audits s);
          row = \<lparr>au_id = n, au_event_id = db_uuid s n,
                 au_user_id = (case user_id of None \<Rightarrow> db_current_user s | Some u \<Rightarrow> Some u),
                 au_action = action, au_target = target, au_details = details,
                 au_request_id = db_request_id s, au_source_ip = db_source_ip s,
                 au_user_agent = map_option (take 255) (db_user_agent s),
                 au_security_context_json = db_security_context s,
                 au_integrity_version = ''hmac-sha256-v3'',
                 au_integrity_key_id = active_key_id s tenant_id,
                 au_previous_hash = last_audit_hash s tenant_id, au_event_hash = '''',
                 au_created_at = db_clock s, au_tenant_id = tenant_id\<rparr>
      in row\<lparr>au_event_hash := db_mac s tenant_id (au_integrity_key_id row) (audit_payload row)\<rparr>)"

definition activity_payload :: "audit_row \<Rightarrow> nat list \<Rightarrow> (string \<times> json) list" where
  "activity_payload row group_ids =
     [(''title'', JStr (''ServiceOps activity: '' @ au_action row)),
      (''body'', JStr (au_target row @
         (if au_details row = [] then '''' else '' '' @ em_dash @ '' '' @ au_details row))),
      (''action'', JStr (au_action row)), (''target'', JStr (au_target row)),
      (''activity_category'', JStr (activity_category (au_action row) (au_target row))),
      (''actor_user_id'', jnat (au_user_id row)), (''created_at'', JStr (isoformat (au_created_at row))),
      (''support_group_ids'', JList (map (\<lambda>g. JInt (int g)) group_ids))]"

definition audit_stream_payload :: "audit_row \<Rightarrow> (string \<times> json) list" where
  "audit_stream_payload row =
     [(''event_id'', JStr (au_event_id row)), (''request_id'', JStr (au_request_id row)),
      (''user_id'', jnat (au_user_id row)), (''action'', JStr (au_action row)),
      (''target'', JStr (au_target row)), (''details'', JStr (au_details row)),
      (''source_ip'', JStr (opt '''' (au_source_ip row))),
      (''user_agent'', JStr (opt '''' (au_user_agent row))),
      (''security_context'', au_security_context_json row),
      (''integrity_version'', JStr (au_integrity_version row)),
      (''integrity_key_id'', JStr (au_integrity_key_id row)),
      (''previous_hash'', JStr (au_previous_hash row)), (''event_hash'', JStr (au_event_hash row)),
      (''created_at'', JStr (isoformat (au_created_at row))), (''tenant_id'', JInt (int (au_tenant_id row)))]"

definition event_connections :: "db \<Rightarrow> nat \<Rightarrow> integration_connection list" where
  "event_connections s tenant_id =
     filter (\<lambda>c. ic_tenant_id c = tenant_id \<and> ic_active c \<and> ic_kind c \<noteq> ''siem'') (db_connections s)"

definition audit :: "string \<Rightarrow> string \<Rightarrow> string \<Rightarrow> nat option \<Rightarrow> nat option \<Rightarrow> db \<Rightarrow> db" where
  "audit action target details user_id tenant_id s =
     (let tenant_id = opt (tenant_context_id s) tenant_id;
          row = new_audit_row action target details user_id tenant_id s;
          payload = activity_payload row (support_group_ids_for_target s target tenant_id);
          s = s\<lparr>db_audits := db_audits s @ [row]\<rparr>;
          s = (if list_ex (\<lambda>c. connection_accepts_event c ''activity.created'' payload)
                    (event_connections s tenant_id)
               then add_outbox ''activity.created'' payload tenant_id s else s)
      in (if setting_bool s ''AUDIT_STREAM_ENABLED'' False
          then add_outbox ''audit.created'' (audit_stream_payload row) tenant_id s else s))"

section \<open>Operations that only write to the logs\<close>

text \<open>
  \<open>db_core\<close> forgets the five append-only tables. An operation that keeps \<open>db_core\<close> and only appends
  to the history and to the audit log is \<open>log_only\<close>; everything else reads the same after it.
\<close>

definition db_core :: "db \<Rightarrow> db" where
  "db_core s = s\<lparr>db_history := [], db_notifications := [], db_outbox := [], db_workflow_jobs := [],
     db_audits := []\<rparr>"

lemma db_core_eq_iff:
  "db_core s = db_core t \<longleftrightarrow>
     db_clock s = db_clock t \<and> db_current_user s = db_current_user t \<and> db_platform s = db_platform t
     \<and> db_settings s = db_settings t \<and> db_acting_role s = db_acting_role t \<and> db_request_id s = db_request_id t
     \<and> db_source_ip s = db_source_ip t \<and> db_user_agent s = db_user_agent t \<and> db_security_context s = db_security_context t
     \<and> db_uuid s = db_uuid t \<and> db_mac s = db_mac t \<and> db_key_ok s = db_key_ok t
     \<and> db_sha s = db_sha t \<and> db_to_local s = db_to_local t \<and> db_to_utc s = db_to_utc t \<and> db_users s = db_users t \<and> db_delegations s = db_delegations t
     \<and> db_tickets s = db_tickets t \<and> db_enterprise_records s = db_enterprise_records t \<and> db_catalog_items s = db_catalog_items t
     \<and> db_routings s = db_routings t \<and> db_cis s = db_cis t \<and> db_ci_permissions s = db_ci_permissions t
     \<and> db_ci_relationships s = db_ci_relationships t \<and> db_service_cis s = db_service_cis t \<and> db_outages s = db_outages t
     \<and> db_notification_templates s = db_notification_templates t \<and> db_groups s = db_groups t \<and> db_group_members s = db_group_members t
     \<and> db_chains s = db_chains t \<and> db_policies s = db_policies t \<and> db_authority_groups s = db_authority_groups t
     \<and> db_offerings s = db_offerings t \<and> db_categories s = db_categories t \<and> db_subcategories s = db_subcategories t
     \<and> db_schedules s = db_schedules t \<and> db_sla_definitions s = db_sla_definitions t \<and> db_task_slas s = db_task_slas t
     \<and> db_sla_events s = db_sla_events t \<and> db_requests s = db_requests t \<and> db_ritms s = db_ritms t
     \<and> db_catalog_tasks s = db_catalog_tasks t \<and> db_task_controls s = db_task_controls t \<and> db_governances s = db_governances t
     \<and> db_freezes s = db_freezes t \<and> db_reviews s = db_reviews t \<and> db_ownerships s = db_ownerships t
     \<and> db_assignments s = db_assignments t \<and> db_record_links s = db_record_links t \<and> db_op_tasks s = db_op_tasks t
     \<and> db_task_cis s = db_task_cis t \<and> db_problem_profiles s = db_problem_profiles t \<and> db_revisions s = db_revisions t
     \<and> db_templates s = db_templates t \<and> db_rules s = db_rules t \<and> db_connections s = db_connections t
     \<and> db_workflow_definitions s = db_workflow_definitions t \<and> db_workflow_versions s = db_workflow_versions t \<and> db_workflow_executions s = db_workflow_executions t
     \<and> db_workflow_steps s = db_workflow_steps t \<and> db_audit_keys s = db_audit_keys t \<and> db_role_grants s = db_role_grants t"
  by (cases s; cases t) (simp add: db_core_def)

locale log_only =
  fixes f :: "db \<Rightarrow> db"
  assumes core_eq: "db_core (f s) = db_core s"
    and history_appends: "\<exists>rows. db_history (f s) = db_history s @ rows"
    and audits_append: "\<exists>rows. db_audits (f s) = db_audits s @ rows"
begin

lemma tables [simp]:
  "db_clock (f s) = db_clock s"
  "db_current_user (f s) = db_current_user s"
  "db_platform (f s) = db_platform s"
  "db_settings (f s) = db_settings s"
  "db_acting_role (f s) = db_acting_role s"
  "db_request_id (f s) = db_request_id s"
  "db_source_ip (f s) = db_source_ip s"
  "db_user_agent (f s) = db_user_agent s"
  "db_security_context (f s) = db_security_context s"
  "db_uuid (f s) = db_uuid s"
  "db_mac (f s) = db_mac s"
  "db_key_ok (f s) = db_key_ok s"
  "db_sha (f s) = db_sha s"
  "db_to_local (f s) = db_to_local s"
  "db_to_utc (f s) = db_to_utc s"
  "db_users (f s) = db_users s"
  "db_delegations (f s) = db_delegations s"
  "db_tickets (f s) = db_tickets s"
  "db_enterprise_records (f s) = db_enterprise_records s"
  "db_catalog_items (f s) = db_catalog_items s"
  "db_routings (f s) = db_routings s"
  "db_cis (f s) = db_cis s"
  "db_ci_permissions (f s) = db_ci_permissions s"
  "db_ci_relationships (f s) = db_ci_relationships s"
  "db_service_cis (f s) = db_service_cis s"
  "db_outages (f s) = db_outages s"
  "db_notification_templates (f s) = db_notification_templates s"
  "db_groups (f s) = db_groups s"
  "db_group_members (f s) = db_group_members s"
  "db_chains (f s) = db_chains s"
  "db_policies (f s) = db_policies s"
  "db_authority_groups (f s) = db_authority_groups s"
  "db_offerings (f s) = db_offerings s"
  "db_categories (f s) = db_categories s"
  "db_subcategories (f s) = db_subcategories s"
  "db_schedules (f s) = db_schedules s"
  "db_sla_definitions (f s) = db_sla_definitions s"
  "db_task_slas (f s) = db_task_slas s"
  "db_sla_events (f s) = db_sla_events s"
  "db_requests (f s) = db_requests s"
  "db_ritms (f s) = db_ritms s"
  "db_catalog_tasks (f s) = db_catalog_tasks s"
  "db_task_controls (f s) = db_task_controls s"
  "db_governances (f s) = db_governances s"
  "db_freezes (f s) = db_freezes s"
  "db_reviews (f s) = db_reviews s"
  "db_ownerships (f s) = db_ownerships s"
  "db_assignments (f s) = db_assignments s"
  "db_record_links (f s) = db_record_links s"
  "db_op_tasks (f s) = db_op_tasks s"
  "db_task_cis (f s) = db_task_cis s"
  "db_problem_profiles (f s) = db_problem_profiles s"
  "db_revisions (f s) = db_revisions s"
  "db_templates (f s) = db_templates s"
  "db_rules (f s) = db_rules s"
  "db_connections (f s) = db_connections s"
  "db_workflow_definitions (f s) = db_workflow_definitions s"
  "db_workflow_versions (f s) = db_workflow_versions s"
  "db_workflow_executions (f s) = db_workflow_executions s"
  "db_workflow_steps (f s) = db_workflow_steps s"
  "db_audit_keys (f s) = db_audit_keys s"
  "db_role_grants (f s) = db_role_grants s"
  using core_eq [of s] by (simp_all add: db_core_eq_iff)

lemma get_user_same [simp]: "get_user (f s) i = get_user s i"
  by (simp add: get_user_def)

lemma setting_value_same [simp]: "setting_value (f s) k d = setting_value s k d"
  by (simp add: setting_value_def)

lemma setting_bool_same [simp]: "setting_bool (f s) k d = setting_bool s k d"
  by (simp add: setting_bool_def)

lemma tenant_context_same [simp]: "tenant_context_id (f s) = tenant_context_id s"
  by (simp add: tenant_context_id_def split: option.split)

end

lemma log_only_comp: "log_only f \<Longrightarrow> log_only g \<Longrightarrow> log_only (\<lambda>s. g (f s))"
  by (unfold log_only_def) (metis append.assoc)

lemma log_only_id: "log_only (\<lambda>s. s)"
  by unfold_locales simp_all

lemma log_only_if: "log_only f \<Longrightarrow> log_only g \<Longrightarrow> log_only (\<lambda>s. if P s then f s else g s)"
  by (unfold log_only_def) auto

lemma log_only_fold:
  assumes "\<And>x. log_only (f x)"
  shows "log_only (fold f xs)"
proof (induction xs)
  case Nil
  have "fold f [] = (\<lambda>s. s)" by (simp add: id_def)
  then show ?case using log_only_id by simp
next
  case (Cons x xs)
  have "fold f (x # xs) = (\<lambda>s. fold f xs (f x s))" by (simp add: fun_eq_iff)
  then show ?case using log_only_comp [OF assms Cons.IH] by simp
qed

interpretation log_history:
  log_only "log_history target_type target_id event field_name old_value new_value details actor_id"
  for target_type target_id event field_name old_value new_value details actor_id
  by unfold_locales (simp_all add: log_history_def db_core_def)

interpretation add_outbox: log_only "add_outbox event_type payload tenant"
  for event_type payload tenant
  by unfold_locales (simp_all add: add_outbox_def db_core_def)

interpretation create_notification:
  log_only "create_notification user_id title body tenant_id target_type target_id event_type vars"
  for user_id title body tenant_id target_type target_id event_type vars
  by unfold_locales (simp_all add: create_notification_def add_outbox_def Let_def db_core_def)

interpretation queue_workflow_event:
  log_only "queue_workflow_event event_type target_type target_id context tenant_id"
  for event_type target_type target_id "context" tenant_id
  by unfold_locales (simp_all add: queue_workflow_event_def db_core_def)

interpretation audit: log_only "audit action target details user_id tenant_id"
  for action target details user_id tenant_id
  by unfold_locales (auto simp: audit_def add_outbox_def Let_def db_core_def)

section \<open>The audit log stays verifiable\<close>

lemma rev_induct2 [consumes 1, case_names Nil snoc]:
  assumes "length xs = length ys" and "P [] []"
    and "\<And>x xs y ys. length xs = length ys \<Longrightarrow> P xs ys \<Longrightarrow> P (xs @ [x]) (ys @ [y])"
  shows "P xs ys"
  using assms(1)
proof (induction xs arbitrary: ys rule: rev_induct)
  case Nil
  with assms(2) show ?case by simp
next
  case (snoc x xs)
  then obtain y ys' where "ys = ys' @ [y]" "length xs = length ys'"
    by (metis length_append_singleton length_0_conv nat.distinct(1) rev_exhaust nat.inject)
  with snoc.IH assms(3) show ?case by simp
qed

text \<open>What the digests read of the database: the keys and the digest functions.\<close>

lemma calculate_audit_hash_cong:
  assumes "db_sha s = db_sha t" and "db_key_ok s = db_key_ok t" and "db_mac s = db_mac t"
  shows "calculate_audit_hash s = calculate_audit_hash t"
  using assms by (simp add: calculate_audit_hash_def fun_eq_iff)

lemma verify_rows_cong:
  assumes "calculate_audit_hash s = calculate_audit_hash t"
  shows "verify_rows s h n rows = verify_rows t h n rows"
  using assms by (induction rows arbitrary: h n) (auto split: option.splits)

lemma verify_rows_append:
  "verify_rows s h n (xs @ ys) =
     (case verify_rows s h n xs of
        Chain_valid m head \<Rightarrow> verify_rows s head m ys
      | Chain_invalid m e r \<Rightarrow> Chain_invalid m e r)"
  by (induction xs arbitrary: h n) (auto split: option.splits)

lemma verify_rows_valid_head:
  assumes "verify_rows s h n rows = Chain_valid m head"
  shows "m = n + length rows \<and> head = (case rev rows of [] \<Rightarrow> h | r # _ \<Rightarrow> au_event_hash r)"
  using assms
proof (induction rows arbitrary: h n)
  case Nil
  then show ?case by simp
next
  case (Cons r rows)
  then have "verify_rows s (au_event_hash r) (Suc n) rows = Chain_valid m head"
    by (auto split: option.splits if_splits)
  from Cons.IH [OF this] show ?case
    by (cases "rev rows") auto
qed

lemma audit_payload_hash_irrelevant [simp]:
  "audit_payload (row\<lparr>au_event_hash := h\<rparr>) = audit_payload row"
  by (simp add: audit_payload_def)

lemma tenant_audits_audit:
  "tenant_audits (audit action target details user_id (Some tenant) s) t =
     tenant_audits s t @
       (if t = tenant then [new_audit_row action target details user_id tenant s] else [])"
  by (simp add: audit_def add_outbox_def tenant_audits_def new_audit_row_def Let_def)

lemma new_audit_row_hash:
  assumes "db_key_ok s tenant (active_key_id s tenant)"
  shows "calculate_audit_hash s (new_audit_row action target details user_id tenant s) =
     Some (au_event_hash (new_audit_row action target details user_id tenant s))"
  using assms by (simp add: calculate_audit_hash_def new_audit_row_def audit_payload_def Let_def)

text \<open>
  C10. Writing an audit entry extends a verifiable chain of the tenant to a verifiable chain with one
  more row whose digest is the new head, and leaves the chain of every other tenant as it was.
\<close>

theorem audit_keeps_chain_valid:
  assumes valid: "verify_audit_chain s tenant = Chain_valid n head"
    and key: "db_key_ok s tenant (active_key_id s tenant)"
  shows "verify_audit_chain (audit action target details user_id (Some tenant) s) tenant =
      Chain_valid (Suc n) (au_event_hash (new_audit_row action target details user_id tenant s))
    \<and> (\<forall>t. t \<noteq> tenant \<longrightarrow>
      verify_audit_chain (audit action target details user_id (Some tenant) s) t = verify_audit_chain s t)"
proof -
  let ?s' = "audit action target details user_id (Some tenant) s"
  let ?row = "new_audit_row action target details user_id tenant s"
  have calc: "calculate_audit_hash ?s' = calculate_audit_hash s"
    by (rule calculate_audit_hash_cong) simp_all
  then have same: "verify_rows ?s' h k rows = verify_rows s h k rows" for h k rows
    by (rule verify_rows_cong)
  have "head = last_audit_hash s tenant"
    using verify_rows_valid_head [OF valid [unfolded verify_audit_chain_def]]
    by (simp add: last_audit_hash_def)
  then have "au_previous_hash ?row = head"
    by (simp add: new_audit_row_def Let_def)
  then have "verify_audit_chain ?s' tenant = Chain_valid (Suc n) (au_event_hash ?row)"
    using valid new_audit_row_hash [OF key]
    by (simp add: verify_audit_chain_def same calc tenant_audits_audit verify_rows_append)
  moreover have "\<forall>t. t \<noteq> tenant \<longrightarrow> verify_audit_chain ?s' t = verify_audit_chain s t"
    by (simp add: verify_audit_chain_def same tenant_audits_audit)
  ultimately show ?thesis by blast
qed

theorem audit_keeps_chain_valid_witness:
  "verify_audit_chain (audit ''login'' ''ann'' [] None (Some 2) empty_db) 2 = Chain_valid 1 []
   \<and> verify_audit_chain (audit ''login'' ''ann'' [] None (Some 2) empty_db) 3 = Chain_valid 0 []"
proof -
  have v: "verify_audit_chain empty_db 2 = Chain_valid 0 []"
    by (simp add: verify_audit_chain_def tenant_audits_def empty_db_def)
  have k: "db_key_ok empty_db 2 (active_key_id empty_db 2)"
    by (simp add: empty_db_def)
  have h: "au_event_hash (new_audit_row ''login'' ''ann'' [] None 2 empty_db) = []"
    by (simp add: new_audit_row_def Let_def empty_db_def)
  have "verify_audit_chain empty_db 3 = Chain_valid 0 []"
    by (simp add: verify_audit_chain_def tenant_audits_def empty_db_def)
  with audit_keeps_chain_valid [OF v k, of "''login''" "''ann''" "[]" None] show ?thesis
    by (simp add: h)
qed

text \<open>No two payloads have the same digest, whatever the scheme, the tenant and the key.\<close>

definition collision_free :: "db \<Rightarrow> bool" where
  "collision_free s \<longleftrightarrow> (\<forall>p p' t t' k k'. (db_sha s p = db_sha s p' \<longrightarrow> p = p') \<and> (db_mac s t k p = db_mac s t' k' p' \<longrightarrow> p = p')
     \<and> (db_sha s p = db_mac s t k p' \<longrightarrow> p = p'))"

lemma collision_freeD:
  assumes "collision_free s" and "calculate_audit_hash s r = Some h" and "calculate_audit_hash s r' = Some h"
  shows "audit_payload r = audit_payload r'"
  using assms unfolding collision_free_def calculate_audit_hash_def by (auto split: if_splits) metis+

lemma verify_rows_snoc_valid:
  assumes "verify_rows s h n (rows @ [r]) = Chain_valid m head"
  shows "verify_rows s h n rows = Chain_valid (n + length rows) (au_previous_hash r)
    \<and> calculate_audit_hash s r = Some (au_event_hash r) \<and> head = au_event_hash r"
proof (cases "verify_rows s h n rows")
  case (Chain_valid k prev)
  then have "k = n + length rows" using verify_rows_valid_head by blast
  with Chain_valid assms show ?thesis
    by (auto simp: verify_rows_append split: if_splits option.splits)
next
  case (Chain_invalid k e r')
  with assms show ?thesis by (simp add: verify_rows_append)
qed

lemma audit_payload_previous:
  assumes "audit_payload r = audit_payload r'"
  shows "au_previous_hash r = au_previous_hash r'"
proof -
  have "map_of (audit_payload x) ''previous_hash'' = Some (JStr (au_previous_hash x))" for x
    by (simp add: audit_payload_def)
  then show ?thesis using assms by (metis json.inject(3) option.inject)
qed

text \<open>
  C11. The audit log is tamper evident: when no two payloads have the same digest, two verifiable chains of the same
  length and the same head agree, row by row, on everything the digests cover and on the digests themselves, whatever
  the integrity version, the key and the tenant of each row. No entry can be altered, replaced or reordered under an unchanged head.
\<close>

theorem audit_chain_tamper_evident:
  assumes "collision_free s"
    and "verify_rows s [] 0 rows = Chain_valid n head"
    and "verify_rows s [] 0 rows' = Chain_valid n head"
  shows "map audit_payload rows = map audit_payload rows' \<and> map au_event_hash rows = map au_event_hash rows'"
proof -
  have "length rows = length rows'" using verify_rows_valid_head [OF assms(2)] verify_rows_valid_head [OF assms(3)] by simp
  then show ?thesis using assms(2,3)
  proof (induction rows rows' arbitrary: n head rule: rev_induct2)
    case (snoc r rows r' rows')
    note v = verify_rows_snoc_valid [OF snoc.prems(1)] verify_rows_snoc_valid [OF snoc.prems(2)]
    have payload: "audit_payload r = audit_payload r'" by (rule collision_freeD [OF assms(1)]) (use v in auto)
    have "verify_rows s [] 0 rows' = Chain_valid (length rows) (au_previous_hash r)"
      using v(2) audit_payload_previous [OF payload] snoc.hyps by simp
    then show ?case using snoc.IH [of "length rows" "au_previous_hash r"] v payload by simp
  qed simp
qed

instance json :: countable
  by countable_datatype

text \<open>A collision-free digest exists: payloads are countable, so they can be numbered.\<close>

definition numbering_digest :: "(string \<times> json) list \<Rightarrow> string" where
  "numbering_digest p = replicate (to_nat p) CHR ''0''"

lemma numbering_digest_inj: "numbering_digest p = numbering_digest p' \<Longrightarrow> p = p'"
proof -
  assume "numbering_digest p = numbering_digest p'"
  then have "length (numbering_digest p) = length (numbering_digest p')" by simp
  then show "p = p'" by (simp add: numbering_digest_def)
qed

definition example_audit_db :: db where
  "example_audit_db = empty_db\<lparr>db_sha := numbering_digest, db_mac := (\<lambda>_ _. numbering_digest)\<rparr>"

definition example_audit_row :: "string \<Rightarrow> string \<Rightarrow> string \<Rightarrow> audit_row" where
  "example_audit_row version previous details =
     (let row = (new_audit_row ''login'' ''ann'' details None 2 empty_db)\<lparr>au_integrity_version := version, au_previous_hash := previous\<rparr>
      in row\<lparr>au_event_hash := numbering_digest (audit_payload row)\<rparr>)"

text \<open>Two entries, the first of the legacy scheme; the details of the first can not be rewritten, not even with its digest made anew.\<close>

definition example_log :: "string \<Rightarrow> audit_row list" where
  "example_log details = (let first = example_audit_row ''legacy-sha256-v1'' [] details
     in [first, example_audit_row ''hmac-sha256-v3'' (au_event_hash first) ''again''])"

lemma example_log_valid: "verify_rows example_audit_db [] 0 (example_log details) = Chain_valid 2 (au_event_hash (last (example_log details)))"
  by (simp add: example_log_def example_audit_row_def example_audit_db_def Let_def calculate_audit_hash_def empty_db_def)

theorem audit_chain_tamper_evident_witness:
  "verify_rows example_audit_db [] 0 (example_log ''from Bonn'') = Chain_valid 2 (au_event_hash (last (example_log ''from Bonn'')))
   \<and> verify_rows example_audit_db [] 0 (example_log ''from Rome'') \<noteq> Chain_valid 2 (au_event_hash (last (example_log ''from Bonn'')))"
proof -
  have free: "collision_free example_audit_db"
    using numbering_digest_inj by (auto simp: collision_free_def example_audit_db_def)
  have "map audit_payload (example_log ''from Bonn'') \<noteq> map audit_payload (example_log ''from Rome'')"
    by (simp add: example_log_def example_audit_row_def Let_def audit_payload_def new_audit_row_def)
  then show ?thesis
    using audit_chain_tamper_evident [OF free example_log_valid [of "''from Bonn''"], of "example_log ''from Rome''"] example_log_valid by blast
qed

end
