(* ===== verification/Business_Time.thy ===== *)
theory Business_Time
  imports Models
begin

text \<open>
  Business-calendar arithmetic (\<^verbatim>\<open>serviceops_core/business_time.py\<close>). Python compares and adds aware
  datetimes that share one \<^verbatim>\<open>ZoneInfo\<close> object by their wall-clock fields, so the loop is modelled on
  wall-clock minutes; the two conversions between instants and wall clock are the arguments \<open>to_local\<close>
  and \<open>to_utc\<close>. The loop has a bound on its iterations; \<open>business_fuel_enough\<close> shows that the bound
  chosen is enough for every calendar that \<open>validate_calendar\<close> accepts. The specification counts
  business minutes one by one.
\<close>

text \<open>\<^verbatim>\<open>cursor.date()\<close> and \<^verbatim>\<open>cursor.weekday()\<close> (Monday is 0) of a wall-clock minute.\<close>

definition day_of :: "int \<Rightarrow> date" where
  "day_of m = m div 1440"

definition weekday :: "date \<Rightarrow> int" where
  "weekday d = (d + 3) mod 7"

definition validate_calendar ::
    "(string \<Rightarrow> bool) \<Rightarrow> string \<Rightarrow> int list \<Rightarrow> int \<Rightarrow> int \<Rightarrow> unit result" where
  "validate_calendar known_zone timezone_name weekdays start_time end_time =
     (if \<not> known_zone timezone_name then Inl (BusinessCalendarError ''Unknown IANA timezone.'')
      else if weekdays = [] \<or> \<not> set weekdays \<subseteq> {0..6}
        then Inl (BusinessCalendarError ''Business weekdays must be numbers 0 through 6.'')
      else if start_time \<ge> end_time
        then Inl (BusinessCalendarError ''Business start time must be before end time.'')
      else Inr ())"

text \<open>The \<^verbatim>\<open>while remaining\<close> loop; each of its iterations costs one unit of fuel.\<close>

fun business_loop :: "nat \<Rightarrow> business_schedule \<Rightarrow> date list \<Rightarrow> int \<Rightarrow> nat \<Rightarrow> int result" where
  "business_loop 0 calendar holidays cursor remaining = (if remaining = 0 then Inr cursor else Inl OutOfFuel)"
| "business_loop (Suc fuel) calendar holidays cursor remaining =
     (if remaining = 0 then Inr cursor
      else let day_open = day_of cursor * 1440 + bs_start_time calendar;
               day_close = day_of cursor * 1440 + bs_end_time calendar
      in if day_of cursor \<in> set holidays \<or> weekday (day_of cursor) \<notin> set (bs_weekdays calendar)
            \<or> cursor \<ge> day_close
         then business_loop fuel calendar holidays (day_open + 1440) remaining
         else let cursor = (if cursor < day_open then day_open else cursor);
                  usable = nat (day_close - cursor)
              in if remaining \<le> usable then Inr (cursor + int remaining)
                 else business_loop fuel calendar holidays (day_open + 1440) (remaining - usable))"

definition business_fuel :: "nat \<Rightarrow> date list \<Rightarrow> nat" where
  "business_fuel minutes holidays = Suc (7 * (minutes + length holidays))"

definition add_business_minutes ::
    "(string \<Rightarrow> datetime \<Rightarrow> int) \<Rightarrow> (string \<Rightarrow> int \<Rightarrow> datetime)
       \<Rightarrow> datetime \<Rightarrow> nat \<Rightarrow> business_schedule \<Rightarrow> date list \<Rightarrow> datetime result" where
  "add_business_minutes to_local to_utc start minutes calendar holidays =
     (if minutes < 1 then Inl (BusinessCalendarError ''SLA duration must be positive.'')
      else bindE (business_loop (business_fuel minutes holidays) calendar holidays
                    (to_local (bs_timezone_name calendar) start div 60000000) minutes)
             (\<lambda>cursor. Inr (to_utc (bs_timezone_name calendar) (cursor * 60000000))))"

section \<open>Counting business minutes\<close>

definition working_day :: "business_schedule \<Rightarrow> date list \<Rightarrow> date \<Rightarrow> bool" where
  "working_day calendar holidays d \<longleftrightarrow> d \<notin> set holidays \<and> weekday d \<in> set (bs_weekdays calendar)"

definition business_minute :: "business_schedule \<Rightarrow> date list \<Rightarrow> int \<Rightarrow> bool" where
  "business_minute calendar holidays m \<longleftrightarrow> working_day calendar holidays (day_of m)
     \<and> bs_start_time calendar \<le> m mod 1440 \<and> m mod 1440 < bs_end_time calendar"

text \<open>The business minutes of the half-open interval from \<open>a\<close> to \<open>b\<close>.\<close>

definition business_between :: "business_schedule \<Rightarrow> date list \<Rightarrow> int \<Rightarrow> int \<Rightarrow> nat" where
  "business_between calendar holidays a b = length (filter (business_minute calendar holidays) [a..b - 1])"

text \<open>What \<^verbatim>\<open>validate_calendar\<close> and the type of a time of day give.\<close>

definition calendar_ok :: "business_schedule \<Rightarrow> bool" where
  "calendar_ok c \<longleftrightarrow> bs_weekdays c \<noteq> [] \<and> set (bs_weekdays c) \<subseteq> {0..6}
     \<and> 0 \<le> bs_start_time c \<and> bs_start_time c < bs_end_time c \<and> bs_end_time c < 1440"

lemma business_between_split:
  assumes "a \<le> b" and "b \<le> c"
  shows "business_between cal hs a c = business_between cal hs a b + business_between cal hs b c"
proof -
  have "[a..c - 1] = [a..b - 1] @ [b..c - 1]"
    using assms upto_split1 [of a b "c - 1"] by (cases "b = c") simp_all
  then show ?thesis by (simp add: business_between_def)
qed

lemma business_between_none:
  assumes "\<And>m. a \<le> m \<Longrightarrow> m < b \<Longrightarrow> \<not> business_minute cal hs m"
  shows "business_between cal hs a b = 0"
  using assms by (auto simp: business_between_def filter_empty_conv)

lemma business_between_all:
  assumes "\<And>m. a \<le> m \<Longrightarrow> m < b \<Longrightarrow> business_minute cal hs m"
  shows "business_between cal hs a b = nat (b - a)"
proof -
  have "filter (business_minute cal hs) [a..b - 1] = [a..b - 1]"
    using assms by (auto simp: filter_id_conv)
  then show ?thesis by (simp add: business_between_def)
qed

lemma minute_of_day:
  assumes "d * 1440 \<le> m" and "m < d * 1440 + 1440"
  shows "day_of m = d" and "m mod 1440 = m - d * 1440"
proof -
  have "(m - d * 1440) div 1440 = 0" using assms by (intro div_pos_pos_trivial) simp_all
  then show "day_of m = d" using div_mult_self1 [of 1440 "m - d * 1440" d] by (simp add: day_of_def)
  then show "m mod 1440 = m - d * 1440" by (simp add: day_of_def minus_div_mult_eq_mod [symmetric])
qed

lemma day_bounds: "day_of m * 1440 \<le> m" "m < day_of m * 1440 + 1440"
  using pos_mod_sign [of 1440 m] pos_mod_bound [of 1440 m] div_mult_mod_eq [of m 1440]
  by (simp_all add: day_of_def)

lemma before_open_none:
  assumes "calendar_ok cal" and "d * 1440 \<le> a" and "b \<le> d * 1440 + bs_start_time cal"
  shows "business_between cal hs a b = 0"
proof (rule business_between_none)
  fix m assume "a \<le> m" and "m < b"
  with assms have "d * 1440 \<le> m" "m < d * 1440 + 1440" "m < d * 1440 + bs_start_time cal"
    by (auto simp: calendar_ok_def)
  then show "\<not> business_minute cal hs m"
    using minute_of_day [of d m] by (simp add: business_minute_def)
qed

lemma open_hours_all:
  assumes "calendar_ok cal" and "working_day cal hs d"
    and "d * 1440 + bs_start_time cal \<le> a" and "b \<le> d * 1440 + bs_end_time cal"
  shows "business_between cal hs a b = nat (b - a)"
    and "a < b \<Longrightarrow> business_minute cal hs (b - 1)"
proof -
  have in_hours: "business_minute cal hs m" if "a \<le> m" and "m < b" for m
  proof -
    have "d * 1440 \<le> m" "m < d * 1440 + 1440" using that assms by (auto simp: calendar_ok_def)
    then show ?thesis
      using that assms minute_of_day [of d m] by (simp add: business_minute_def)
  qed
  then show "business_between cal hs a b = nat (b - a)" by (rule business_between_all)
  show "business_minute cal hs (b - 1)" if "a < b" using in_hours that by simp
qed

lemma closed_none:
  assumes "calendar_ok cal" and "d * 1440 \<le> a"
    and "working_day cal hs d \<Longrightarrow> d * 1440 + bs_end_time cal \<le> a"
  shows "business_between cal hs a (d * 1440 + bs_start_time cal + 1440) = 0"
proof -
  let ?next = "(d + 1) * 1440" and ?stop = "d * 1440 + bs_start_time cal + 1440"
  have last: "?stop = ?next + bs_start_time cal" by simp
  have morning: "business_between cal hs b ?stop = 0" if "?next \<le> b" for b
    using before_open_none [OF assms(1) that] last by (metis order_refl)
  have "business_between cal hs a ?next = 0"
  proof (rule business_between_none)
    fix m assume "a \<le> m" and "m < ?next"
    then show "\<not> business_minute cal hs m"
      using minute_of_day [of d m] assms by (auto simp: business_minute_def)
  qed
  then show ?thesis
    using assms(1) morning business_between_split [of a ?next ?stop cal hs]
    by (cases "?next \<le> a") (auto simp: calendar_ok_def)
qed

lemma business_loop_counts:
  assumes "calendar_ok cal" and "business_loop fuel cal hs cursor remaining = Inr r" and "0 < remaining"
  shows "cursor \<le> r \<and> business_between cal hs cursor r = remaining \<and> business_minute cal hs (r - 1)"
  using assms(2,3)
proof (induction fuel arbitrary: cursor remaining)
  case 0
  then show ?case by simp
next
  case (Suc fuel)
  let ?d = "day_of cursor"
  let ?open = "?d * 1440 + bs_start_time cal" and ?close = "?d * 1440 + bs_end_time cal"
  note day = day_bounds [of cursor]
  have hours: "?open < ?close" "?close < ?open + 1440" "cursor \<le> ?open + 1440"
    using assms(1) day by (auto simp: calendar_ok_def)
  show ?case
  proof (cases "working_day cal hs ?d \<and> cursor < ?close")
    case False
    then have "business_loop fuel cal hs (?open + 1440) remaining = Inr r"
      using Suc.prems by (auto simp: working_day_def Let_def)
    from Suc.IH [OF this Suc.prems(2)]
    have IH: "?open + 1440 \<le> r" "business_between cal hs (?open + 1440) r = remaining"
        "business_minute cal hs (r - 1)" by auto
    have "business_between cal hs cursor (?open + 1440) = 0"
      using closed_none [OF assms(1) day(1)] False by force
    with IH hours show ?thesis using business_between_split [of cursor "?open + 1440" r] by simp
  next
    case True
    define c where "c = (if cursor < ?open then ?open else cursor)"
    have c: "cursor \<le> c" "?open \<le> c" "c < ?close" using True hours by (auto simp: c_def)
    have before: "business_between cal hs cursor c = 0"
      using before_open_none [OF assms(1) day(1), of c hs] business_between_none [of c c]
      by (auto simp: c_def)
    note span = open_hours_all [OF assms(1) conjunct1 [OF True] c(2)]
    show ?thesis
    proof (cases "remaining \<le> nat (?close - c)")
      case fits: True
      then have r: "r = c + int remaining"
        using Suc.prems True by (auto simp: working_day_def Let_def c_def)
      have "r \<le> ?close" "c < r" using fits c Suc.prems(2) by (auto simp: r)
      from span(1) [OF this(1)] span(2) [OF this] c(1) before r \<open>c < r\<close>
      show ?thesis using business_between_split [of cursor c r cal hs] by simp
    next
      case False
      let ?rest = "remaining - nat (?close - c)"
      have "business_loop fuel cal hs (?open + 1440) ?rest = Inr r"
        using Suc.prems True False by (auto simp: working_day_def Let_def c_def)
      from Suc.IH [OF this] False
      have IH: "?open + 1440 \<le> r" "business_between cal hs (?open + 1440) r = ?rest"
          "business_minute cal hs (r - 1)" by auto
      have "business_between cal hs c ?close = nat (?close - c)" by (rule span(1)) simp
      moreover have "business_between cal hs ?close (?open + 1440) = 0"
        using closed_none [OF assms(1), of ?d ?close hs] assms(1) by (simp add: calendar_ok_def)
      ultimately show ?thesis
        using before IH c hours False
          business_between_split [of cursor c r cal hs] business_between_split [of c ?close r cal hs]
          business_between_split [of ?close "?open + 1440" r cal hs]
        by simp
    qed
  qed
qed

section \<open>The bound is enough\<close>

lemma business_loop_returns:
  assumes "calendar_ok cal" and "day_of cursor = d" and "cursor \<le> d * 1440 + bs_start_time cal"
    and "0 < remaining"
    and "remaining \<le> length (filter (working_day cal hs) [d..d + int fuel - 1])"
  shows "\<exists>r. business_loop fuel cal hs cursor remaining = Inr r"
  using assms(2-)
proof (induction fuel arbitrary: cursor d remaining)
  case 0
  then show ?case by simp
next
  case (Suc fuel)
  let ?open = "d * 1440 + bs_start_time cal" and ?close = "d * 1440 + bs_end_time cal"
  have days: "[d..d + int (Suc fuel) - 1] = d # [d + 1..(d + 1) + int fuel - 1]"
    using upto_rec1 [of d "d + int fuel"] by simp
  have day: "day_of (?open + 1440) = d + 1"
    using minute_of_day(1) [of "d + 1" "?open + 1440"] assms(1) by (simp add: calendar_ok_def)
  have at_open: "?open + 1440 \<le> (d + 1) * 1440 + bs_start_time cal" by simp
  have hours: "bs_start_time cal < bs_end_time cal" using assms(1) by (simp add: calendar_ok_def)
  note IH = Suc.IH [OF day at_open]
  show ?case
  proof (cases "working_day cal hs d")
    case False
    then have "business_loop (Suc fuel) cal hs cursor remaining =
        business_loop fuel cal hs (?open + 1440) remaining"
      using Suc.prems by (auto simp: working_day_def Let_def)
    with IH Suc.prems(3,4) False days show ?thesis by simp
  next
    case True
    let ?usable = "nat (bs_end_time cal - bs_start_time cal)"
    have "max cursor ?open = ?open" using Suc.prems(2) by simp
    then have step: "business_loop (Suc fuel) cal hs cursor remaining =
        (if remaining \<le> ?usable then Inr (?open + int remaining)
         else business_loop fuel cal hs (?open + 1440) (remaining - ?usable))"
      using Suc.prems True hours by (auto simp: working_day_def Let_def)
    have "?usable \<noteq> 0" using hours by simp
    then have "\<exists>r. business_loop fuel cal hs (?open + 1440) (remaining - ?usable) = Inr r"
      if "\<not> remaining \<le> ?usable"
      using IH [of "remaining - ?usable"] that Suc.prems(4) True days by simp
    with step show ?thesis by auto
  qed
qed

text \<open>Every seven days in a row hold each weekday once.\<close>

lemma weekday_in_week:
  assumes "0 \<le> w" and "w \<le> 6"
  shows "weekday (d + (w - weekday d) mod 7) = w"
proof -
  have "(d + 3 + (w - (d + 3) mod 7) mod 7) mod 7 = (d + 3 + (w - (d + 3))) mod 7"
    by (simp only: mod_add_right_eq mod_diff_right_eq)
  then show ?thesis using assms by (simp add: weekday_def algebra_simps)
qed

lemma weeks_have_weekdays:
  assumes "0 \<le> w" and "w \<le> 6" and "w \<in> set ws"
  shows "k \<le> length (filter (\<lambda>d'. weekday d' \<in> set ws) [d..d + 7 * int k - 1])"
proof (induction k arbitrary: d)
  case 0
  then show ?case by simp
next
  case (Suc k)
  let ?x = "d + (w - weekday d) mod 7"
  have "d \<le> ?x" "?x < d + 7" using pos_mod_sign [of 7] pos_mod_bound [of 7] by auto
  then have "?x \<in> set (filter (\<lambda>d'. weekday d' \<in> set ws) [d..d + 7 - 1])"
    using weekday_in_week [OF assms(1,2), of d] assms(3) by simp
  then have "1 \<le> length (filter (\<lambda>d'. weekday d' \<in> set ws) [d..d + 7 - 1])"
    by (metis length_pos_if_in_set Suc_leI One_nat_def)
  moreover have "[d..d + 7 * int (Suc k) - 1] = [d..d + 7 - 1] @ [d + 7..d + 7 + 7 * int k - 1]"
    using upto_split1 [of d "d + 7" "d + 7 * int (Suc k) - 1"] by (cases k) (simp_all add: algebra_simps)
  ultimately show ?case using Suc.IH [of "d + 7"] by (simp only: filter_append length_append)
qed

lemma filter_not_in:
  assumes "distinct xs"
  shows "length (filter P xs) \<le> length (filter (\<lambda>x. x \<notin> set hs \<and> P x) xs) + length hs"
proof -
  have "length (filter P xs) = card {x \<in> set xs. P x}"
    using assms by (simp add: distinct_card [symmetric])
  also have "\<dots> \<le> card ({x \<in> set xs. x \<notin> set hs \<and> P x} \<union> set hs)"
    by (intro card_mono) auto
  also have "\<dots> \<le> card {x \<in> set xs. x \<notin> set hs \<and> P x} + card (set hs)" by (rule card_Un_le)
  also have "card {x \<in> set xs. x \<notin> set hs \<and> P x} = length (filter (\<lambda>x. x \<notin> set hs \<and> P x) xs)"
    using assms by (simp add: distinct_card [symmetric])
  also have "card (set hs) \<le> length hs" by (rule card_length)
  finally show ?thesis by simp
qed

lemma enough_working_days:
  assumes "calendar_ok cal"
  shows "n \<le> length (filter (working_day cal hs) [d..d + int (7 * (n + length hs)) - 1])"
proof -
  let ?days = "[d..d + int (7 * (n + length hs)) - 1]"
  obtain w where w: "w \<in> set (bs_weekdays cal)" using assms by (cases "bs_weekdays cal") (auto simp: calendar_ok_def)
  then have "0 \<le> w" "w \<le> 6" using assms by (auto simp: calendar_ok_def)
  from weeks_have_weekdays [OF this w, of "n + length hs" d]
  have "n + length hs \<le> length (filter (\<lambda>d'. weekday d' \<in> set (bs_weekdays cal)) ?days)" by simp
  moreover have "\<dots> \<le> length (filter (\<lambda>x. x \<notin> set hs \<and> weekday x \<in> set (bs_weekdays cal)) ?days) + length hs"
    by (rule filter_not_in) simp
  moreover have "(\<lambda>x. x \<notin> set hs \<and> weekday x \<in> set (bs_weekdays cal)) = working_day cal hs"
    by (simp add: fun_eq_iff working_day_def)
  ultimately show ?thesis by simp
qed

lemma business_fuel_enough:
  assumes "calendar_ok cal" and "0 < minutes"
  shows "\<exists>r. business_loop (business_fuel minutes hs) cal hs cursor minutes = Inr r"
proof -
  let ?d = "day_of cursor" and ?n = "7 * (minutes + length hs)"
  have days: "minutes \<le> length (filter (working_day cal hs) [d..d + int ?n - 1])" for d
    using enough_working_days [OF assms(1)] .
  show ?thesis
  proof (cases "cursor \<le> ?d * 1440 + bs_start_time cal")
    case True
    have "[?d..?d + int (Suc ?n) - 1] = [?d..?d + int ?n - 1] @ [?d + int ?n]"
      using upto_rec2 [of ?d "?d + int ?n"] by simp
    then have "minutes \<le> length (filter (working_day cal hs) [?d..?d + int (Suc ?n) - 1])"
      using days [of ?d] by simp
    from business_loop_returns [OF assms(1) refl True assms(2) this] show ?thesis
      by (simp add: business_fuel_def)
  next
    case False
    let ?next = "?d * 1440 + bs_start_time cal + 1440"
    have day: "day_of ?next = ?d + 1"
      using minute_of_day(1) [of "?d + 1" ?next] assms(1) by (simp add: calendar_ok_def)
    have returns: "\<exists>r. business_loop ?n cal hs ?next m = Inr r" if "0 < m" and "m \<le> minutes" for m
      using business_loop_returns [OF assms(1) day _ that(1)] le_trans [OF that(2) days [of "?d + 1"]] by simp
    have "business_loop (Suc ?n) cal hs cursor minutes = business_loop ?n cal hs ?next minutes
        \<or> (\<exists>r. business_loop (Suc ?n) cal hs cursor minutes = Inr r)
        \<or> (\<exists>u. u < minutes \<and>
            business_loop (Suc ?n) cal hs cursor minutes = business_loop ?n cal hs ?next (minutes - u))"
      using assms(2) not_le [of minutes] by (simp add: Let_def) blast
    with returns assms(2) show ?thesis
      unfolding business_fuel_def by (metis diff_le_self order_refl zero_less_diff)
  qed
qed

section \<open>The deadline is exact\<close>

lemma validated_calendar_ok:
  assumes "validate_calendar known_zone (bs_timezone_name cal) (bs_weekdays cal) (bs_start_time cal)
      (bs_end_time cal) = Inr ()"
    and "0 \<le> bs_start_time cal" and "bs_end_time cal < 1440"
  shows "calendar_ok cal"
  using assms by (auto simp: validate_calendar_def calendar_ok_def split: if_splits)

text \<open>
  C12. The deadline of a positive number of business minutes always exists for an accepted calendar, and
  it is exact: the wall-clock interval from the (minute-truncated) start to the deadline holds that
  many business minutes and its last minute is one of them, so no earlier deadline would do and no
  closed time is added at the end.
\<close>

theorem business_deadline_exact:
  assumes "calendar_ok cal" and "0 < minutes"
  shows "\<exists>r. add_business_minutes to_local to_utc start minutes cal hs
        = Inr (to_utc (bs_timezone_name cal) (r * 60000000))
      \<and> to_local (bs_timezone_name cal) start div 60000000 \<le> r
      \<and> business_between cal hs (to_local (bs_timezone_name cal) start div 60000000) r = minutes
      \<and> business_minute cal hs (r - 1)"
proof -
  let ?c = "to_local (bs_timezone_name cal) start div 60000000"
  obtain r where r: "business_loop (business_fuel minutes hs) cal hs ?c minutes = Inr r"
    using business_fuel_enough [OF assms] by blast
  with business_loop_counts [OF assms(1) r assms(2)] assms(2) show ?thesis
    by (auto simp: add_business_minutes_def)
qed

text \<open>Monday to Friday from 9:00 to 17:00, with a holiday on the second day of 1970 (a Friday).\<close>

definition example_calendar :: business_schedule where
  "example_calendar = \<lparr>bs_id = 1, bs_name = ''Office'', bs_timezone_name = ''UTC'',
     bs_weekdays = [0, 1, 2, 3, 4], bs_start_time = 540, bs_end_time = 1020, bs_active = True,
     bs_tenant_id = 2, bs_holidays = []\<rparr>"

theorem business_deadline_exact_witness:
  "add_business_minutes (\<lambda>_ t. t) (\<lambda>_ t. t) (990 * 60000000) 60 example_calendar [1] = Inr (6330 * 60000000)
   \<and> business_between example_calendar [1] 990 6330 = 60"
proof -
  have ok: "calendar_ok example_calendar" by (simp add: calendar_ok_def example_calendar_def)
  have computed: "add_business_minutes (\<lambda>_ t. t) (\<lambda>_ t. t) (990 * 60000000) 60 example_calendar [1]
      = Inr (6330 * 60000000)"
    by code_simp
  from business_deadline_exact [OF ok, of 60 "\<lambda>_ t. t" "\<lambda>_ t. t" "990 * 60000000" "[1]"] computed
  show ?thesis by auto
qed

text \<open>A longer duration is never due earlier.\<close>

lemma business_deadline_unique:
  assumes "c \<le> r" and "business_minute cal hs (r - 1)" and "c \<le> r'"
    and "business_between cal hs c r \<le> business_between cal hs c r'"
  shows "r \<le> r'"
proof (rule ccontr)
  assume "\<not> r \<le> r'"
  then have "r' \<le> r - 1" by simp
  then have "business_between cal hs r' r \<noteq> 0"
    using assms(2) by (auto simp: business_between_def filter_empty_conv)
  then show False
    using assms(3,4) \<open>r' \<le> r - 1\<close> business_between_split [of c r' r cal hs] by simp
qed

end
