(* ===== verification/SLA.thy ===== *)
theory SLA
  imports Platform Business_Time
begin

text \<open>
  Service-level agreements (\<^verbatim>\<open>app.py\<close>, \<^verbatim>\<open>attach_slas\<close> to \<^verbatim>\<open>sync_slas\<close> and
  \<^verbatim>\<open>process_sla_breaches\<close>): which definitions apply to a new record, the clock of an SLA that starts,
  pauses, resumes and stops with the state of its record, the move to the definitions of a new
  priority, and the escalation of breaches. Client tickets are not part of the model's tables: an SLA
  cannot be attached to one here, the choice between an organisation's own definitions and the
  tenant's is modelled all the same.
\<close>

section \<open>The group that owns a ticket\<close>

definition ticket_owning_group :: "db \<Rightarrow> ticket \<Rightarrow> support_group option" where
  "ticket_owning_group s t =
     (case (if tk_kind t = ''change'' then find (\<lambda>w. ow_ticket_id w = tk_id t) (db_ownerships s) else None) of
        Some w \<Rightarrow> get_row g_id (ow_group_id w) (db_groups s)
      | None \<Rightarrow>
          (case find (\<lambda>a. ta_ticket_id a = tk_id t) (db_assignments s) of
             Some a \<Rightarrow> get_row g_id (ta_group_id a) (db_groups s)
           | None \<Rightarrow> None))"

section \<open>The clock of an SLA\<close>

definition add_sla_event :: "nat \<Rightarrow> string \<Rightarrow> string \<Rightarrow> nat \<Rightarrow> db \<Rightarrow> db" where
  "add_sla_event task_sla_id event_type details tenant_id s =
     s\<lparr>db_sla_events := db_sla_events s @
       [\<lparr>se_id = next_id se_id (db_sla_events s), se_task_sla_id = task_sla_id,
         se_event_type = event_type, se_occurred_at = db_clock s, se_details = details,
         se_tenant_id = tenant_id\<rparr>]\<rparr>"

definition save_sla :: "task_sla \<Rightarrow> db \<Rightarrow> db" where
  "save_sla task_sla s = s\<lparr>db_task_slas := put_row sl_id task_sla (db_task_slas s)\<rparr>"

definition sla_definition_of :: "db \<Rightarrow> task_sla \<Rightarrow> sla_definition result" where
  "sla_definition_of s task_sla =
     (case get_row sd_id (sl_definition_id task_sla) (db_sla_definitions s) of
        None \<Rightarrow> Inl (AttributeError ''definition'')
      | Some d \<Rightarrow> Inr d)"

text \<open>\<^verbatim>\<open>int(delta.total_seconds())\<close>: whole seconds, rounded towards zero.\<close>

definition whole_seconds :: "int \<Rightarrow> int" where
  "whole_seconds us = (if 0 \<le> us then us div 1000000 else - ((- us) div 1000000))"

definition show_int :: "int \<Rightarrow> string" where
  "show_int n = (if n < 0 then CHR ''-'' # show_nat (nat (- n)) else show_nat (nat n))"

definition closed_sla :: "task_sla \<Rightarrow> bool" where
  "closed_sla t \<longleftrightarrow> sl_stage t = ''Completed'' \<or> sl_stage t = ''Cancelled''"

definition slas_of :: "db \<Rightarrow> string \<Rightarrow> nat \<Rightarrow> task_sla list" where
  "slas_of s target_type target_id =
     filter (\<lambda>t. sl_target_type t = target_type \<and> sl_target_id t = target_id) (db_task_slas s)"

definition sla_stop_states :: "string list" where
  "sla_stop_states = [''Resolved'', ''Closed'', ''Completed'', ''Closed Complete'', ''Closed Incomplete'',
     ''Closed Skipped'', ''Solved'']"

definition pause_state_set :: "sla_definition \<Rightarrow> string list" where
  "pause_state_set d = map strip (split_on CHR '','' (sd_pause_states d))"

definition sync_sla :: "string \<Rightarrow> task_sla \<Rightarrow> db \<Rightarrow> db result" where
  "sync_sla state task_sla s =
     (if closed_sla task_sla then Inr s
      else bindE (sla_definition_of s task_sla) (\<lambda>d.
        let note = (\<lambda>ev details. add_sla_event (sl_id task_sla) ev details (sd_tenant_id d)) in
        if state = ''Cancelled'' \<or> state = ''Rejected'' then
          Inr (note ''Cancelled'' ''Stopped: the record was cancelled''
            (save_sla (task_sla\<lparr>sl_stage := ''Cancelled'', sl_stopped_at := Some (db_clock s)\<rparr>) s))
        else if state \<in> set sla_stop_states then
          Inr (note ''Completed'' (''Stopped in state '' @ state)
            (save_sla (task_sla\<lparr>sl_stage := ''Completed'', sl_stopped_at := Some (db_clock s)\<rparr>) s))
        else if state \<in> set (pause_state_set d) \<and> sl_stage task_sla = ''In Progress'' then
          Inr (note ''Paused'' (''Paused in state '' @ state)
            (save_sla (task_sla\<lparr>sl_stage := ''Paused'', sl_paused_at := Some (db_clock s)\<rparr>) s))
        else if state \<notin> set (pause_state_set d) \<and> sl_stage task_sla = ''Paused'' then
          (case sl_paused_at task_sla of
             None \<Rightarrow> Inl (AttributeError ''tzinfo'')
           | Some since \<Rightarrow>
               let paused = whole_seconds (db_clock s - since) in
               Inr (note ''Resumed'' (''Resumed after '' @ show_int paused @ '' seconds'')
                 (save_sla (task_sla\<lparr>sl_paused_seconds := sl_paused_seconds task_sla + paused,
                    sl_breach_at := sl_breach_at task_sla + paused * 1000000,
                    sl_paused_at := None, sl_stage := ''In Progress''\<rparr>) s)))
        else Inr s))"

definition sync_slas :: "string \<Rightarrow> nat \<Rightarrow> string \<Rightarrow> db \<Rightarrow> db result" where
  "sync_slas target_type target_id state s = foldE (sync_sla state) (slas_of s target_type target_id) s"

section \<open>Attaching SLAs to a record\<close>

definition sla_target_tenant :: "db \<Rightarrow> string \<Rightarrow> nat \<Rightarrow> nat option" where
  "sla_target_tenant s target_type target_id =
     (if target_type = ''ticket'' then map_option tk_tenant_id (get_row tk_id target_id (db_tickets s))
      else if target_type = ''ritm'' then map_option ri_tenant_id (get_row ri_id target_id (db_ritms s))
      else None)"

text \<open>The definitions of the record's tenant, an organisation's own before the tenant-wide ones.\<close>

definition applicable_definitions :: "db \<Rightarrow> string \<Rightarrow> nat \<Rightarrow> nat option \<Rightarrow> sla_definition list" where
  "applicable_definitions s target_type tenant organization_id =
     (let definitions = filter (\<lambda>d. sd_target_type d = target_type \<and> sd_active d \<and> sd_tenant_id d = tenant)
            (db_sla_definitions s);
          definitions = filter (\<lambda>d. sd_client_organization_id d = None
            \<or> sd_client_organization_id d = organization_id) definitions
      in if organization_id = None then definitions
         else let overridden = map sd_priority
                    (filter (\<lambda>d. sd_client_organization_id d = organization_id) definitions)
              in filter (\<lambda>d. sd_client_organization_id d = organization_id
                           \<or> sd_priority d \<notin> set overridden) definitions)"

definition sla_deadline :: "db \<Rightarrow> datetime \<Rightarrow> sla_definition \<Rightarrow> datetime result" where
  "sla_deadline s started d =
     (case (case sd_schedule_id d of None \<Rightarrow> None | Some i \<Rightarrow> get_row bs_id i (db_schedules s)) of
        Some schedule \<Rightarrow> add_business_minutes (db_to_local s) (db_to_utc s) started (sd_duration_minutes d)
          schedule (map sh_holiday_date (bs_holidays schedule))
      | None \<Rightarrow> Inr (started + int (sd_duration_minutes d) * 60000000))"

definition has_open_sla :: "db \<Rightarrow> nat \<Rightarrow> string \<Rightarrow> nat \<Rightarrow> bool" where
  "has_open_sla s definition_id target_type target_id =
     list_ex (\<lambda>t. sl_definition_id t = definition_id \<and> sl_stage t \<noteq> ''Cancelled'') (slas_of s target_type target_id)"

definition attach_sla ::
    "string \<Rightarrow> nat \<Rightarrow> string option \<Rightarrow> datetime option \<Rightarrow> sla_definition \<Rightarrow> db \<Rightarrow> db result" where
  "attach_sla target_type target_id priority started_at d s =
     (if truthy (sd_priority d) \<and> sd_priority d \<noteq> priority then Inr s
      else if has_open_sla s (sd_id d) target_type target_id then Inr s
      else let started = opt (db_clock s) started_at in
        bindE (sla_deadline s started d) (\<lambda>breach_at.
          let i = next_id sl_id (db_task_slas s) in
          Inr (add_sla_event i ''Started'' (''Target '' @ isoformat breach_at) (sd_tenant_id d)
            (s\<lparr>db_task_slas := db_task_slas s @
              [\<lparr>sl_id = i, sl_tenant_id = fill_tenant s target_type target_id, sl_definition_id = sd_id d,
                sl_target_type = target_type, sl_target_id = target_id, sl_stage = ''In Progress'',
                sl_started_at = started, sl_breach_at = breach_at, sl_stopped_at = None,
                sl_paused_at = None, sl_paused_seconds = 0, sl_breached = False\<rparr>]\<rparr>))))"

definition attach_slas ::
    "string \<Rightarrow> nat \<Rightarrow> string option \<Rightarrow> nat option \<Rightarrow> datetime option \<Rightarrow> db \<Rightarrow> db result" where
  "attach_slas target_type target_id priority organization_id started_at s =
     (case sla_target_tenant s target_type target_id of
        None \<Rightarrow> Inr s
      | Some tenant \<Rightarrow> foldE (attach_sla target_type target_id priority started_at)
                         (applicable_definitions s target_type tenant organization_id) s)"

section \<open>A new priority\<close>

definition other_priority :: "db \<Rightarrow> string option \<Rightarrow> task_sla \<Rightarrow> bool result" where
  "other_priority s priority task_sla =
     (if closed_sla task_sla then Inr False
      else bindE (sla_definition_of s task_sla)
             (\<lambda>d. Inr (truthy (sd_priority d) \<and> sd_priority d \<noteq> priority)))"

definition paused_total :: "datetime \<Rightarrow> task_sla \<Rightarrow> int" where
  "paused_total current task_sla =
     sl_paused_seconds task_sla +
     (case sl_paused_at task_sla of
        Some since \<Rightarrow> if sl_stage task_sla = ''Paused'' then whole_seconds (current - since) else 0
      | None \<Rightarrow> 0)"

definition cancel_replaced_sla :: "string option \<Rightarrow> task_sla \<Rightarrow> db \<Rightarrow> db result" where
  "cancel_replaced_sla priority task_sla s =
     bindE (sla_definition_of s task_sla) (\<lambda>d.
       Inr (add_sla_event (sl_id task_sla) ''Cancelled''
         (''Replaced: priority changed to '' @ opt ''None'' priority) (sd_tenant_id d)
         (save_sla (task_sla\<lparr>sl_stage := ''Cancelled'', sl_stopped_at := Some (db_clock s)\<rparr>) s)))"

definition carry_pause :: "nat list \<Rightarrow> int \<Rightarrow> task_sla \<Rightarrow> db \<Rightarrow> db" where
  "carry_pause existing paused_seconds task_sla s =
     (if sl_id task_sla \<notin> set existing \<and> paused_seconds \<noteq> 0
      then save_sla (task_sla\<lparr>sl_paused_seconds := paused_seconds,
             sl_breach_at := sl_breach_at task_sla + paused_seconds * 1000000\<rparr>) s
      else s)"

definition retarget_slas ::
    "string \<Rightarrow> nat \<Rightarrow> string option \<Rightarrow> string \<Rightarrow> nat option \<Rightarrow> db \<Rightarrow> db result" where
  "retarget_slas target_type target_id priority state organization_id s =
     bindE (filterE (other_priority s priority) (slas_of s target_type target_id)) (\<lambda>replaced.
       if replaced = [] then Inr s
       else let started = Min (set (map sl_started_at replaced));
                paused_seconds = Max (set (map (paused_total (db_clock s)) replaced))
       in bindE (foldE (cancel_replaced_sla priority) replaced s) (\<lambda>s.
          let existing = map sl_id (slas_of s target_type target_id) in
          bindE (attach_slas target_type target_id priority organization_id (Some started) s) (\<lambda>s.
          sync_slas target_type target_id state
            (fold (carry_pause existing paused_seconds) (slas_of s target_type target_id) s))))"

section \<open>Breaches\<close>

definition overdue :: "datetime \<Rightarrow> task_sla \<Rightarrow> bool" where
  "overdue current t \<longleftrightarrow> sl_stage t = ''In Progress'' \<and> \<not> sl_breached t \<and> sl_breach_at t \<le> current"

definition breach_recipients :: "db \<Rightarrow> ticket \<Rightarrow> nat list" where
  "breach_recipients s t =
     remdups ((case ticket_owning_group s t of
                 None \<Rightarrow> []
               | Some g \<Rightarrow> (case g_manager_id g of None \<Rightarrow> [] | Some m \<Rightarrow> [m]))
       @ (case tk_assignee_id t of None \<Rightarrow> [] | Some a \<Rightarrow> [a]))"

definition process_sla_breach :: "task_sla \<Rightarrow> db \<Rightarrow> db result" where
  "process_sla_breach task_sla s =
     bindE (sla_definition_of s task_sla) (\<lambda>d.
       let s = save_sla (task_sla\<lparr>sl_breached := True\<rparr>) s;
           s = add_sla_event (sl_id task_sla) ''Breached'' (''Breached at '' @ isoformat (db_clock s))
                 (sd_tenant_id d) s;
           ticket = (if sl_target_type task_sla = ''ticket''
                     then (case get_row tk_id (sl_target_id task_sla) (db_tickets s) of
                             None \<Rightarrow> None
                           | Some t \<Rightarrow> if tk_tenant_id t = sd_tenant_id d then Some t else None)
                     else None);
           reference = (case ticket of None \<Rightarrow> sl_target_type task_sla @ '':'' @ show_nat (sl_target_id task_sla)
                        | Some t \<Rightarrow> tk_number t);
           recipients = (case ticket of None \<Rightarrow> [] | Some t \<Rightarrow> breach_recipients s t);
           s = (case ticket of
                  None \<Rightarrow> s
                | Some t \<Rightarrow>
                    queue_workflow_event ''ticket.sla_breached'' ''ticket'' (tk_id t)
                      (ticket_workflow_context t None @ [(''sla_name'', JStr (sd_name d))]) (tk_tenant_id t)
                      (log_history ''ticket'' (tk_id t) ''SLA breached'' None None None (sd_name d) None s))
       in Inr (fold (\<lambda>user_id. create_notification user_id (''SLA breached: '' @ reference)
                (sd_name d @ '' breached for '' @ reference @ ''. Immediate attention is required.'')
                (sd_tenant_id d) (Some (sl_target_type task_sla)) (Some (sl_target_id task_sla))
                (Some ''sla.breached'') [(''reference'', reference), (''sla_name'', sd_name d)]) recipients s))"

definition breach_batch :: "nat \<Rightarrow> db \<Rightarrow> task_sla list" where
  "breach_batch limit s = take limit (sort_key sl_breach_at (filter (overdue (db_clock s)) (db_task_slas s)))"

definition process_sla_breaches :: "nat \<Rightarrow> db \<Rightarrow> (nat \<times> db) result" where
  "process_sla_breaches limit s =
     bindE (foldE process_sla_breach (breach_batch limit s) s)
       (\<lambda>s'. Inr (length (breach_batch limit s), s'))"

section \<open>What the SLA operations leave alone\<close>

definition sla_core :: "db \<Rightarrow> db" where
  "sla_core s = s\<lparr>db_task_slas := [], db_sla_events := []\<rparr>"

lemma sla_core_simps [simp]:
  "sla_core (add_sla_event i ev details tenant s) = sla_core s"
  "sla_core (save_sla t s) = sla_core s"
  "sla_core (s\<lparr>db_task_slas := rows\<rparr>) = sla_core s"
  "db_task_slas (add_sla_event i ev details tenant s) = db_task_slas s"
  "db_task_slas (save_sla t s) = put_row sl_id t (db_task_slas s)"
  by (simp_all add: sla_core_def add_sla_event_def save_sla_def)

lemma sla_core_fields:
  assumes "sla_core s' = sla_core s"
  shows "db_clock s' = db_clock s" and "db_tickets s' = db_tickets s" and "db_ritms s' = db_ritms s"
    and "db_sla_definitions s' = db_sla_definitions s" and "db_schedules s' = db_schedules s"
    and "db_to_local s' = db_to_local s" and "db_to_utc s' = db_to_utc s"
  using arg_cong [OF assms, of db_clock] arg_cong [OF assms, of db_tickets]
    arg_cong [OF assms, of db_ritms] arg_cong [OF assms, of db_sla_definitions]
    arg_cong [OF assms, of db_schedules] arg_cong [OF assms, of db_to_local]
    arg_cong [OF assms, of db_to_utc]
  by (simp_all add: sla_core_def)

text \<open>
  The operations on SLAs touch the SLA tables only. The contract is a locale, so that the handlers that
  call them get every other table back unchanged.
\<close>

locale sla_only =
  fixes f :: "db \<Rightarrow> db result"
  assumes core: "f s = Inr s' \<Longrightarrow> sla_core s' = sla_core s"
begin

lemma fields:
  assumes "f s = Inr s'"
  shows "db_clock s' = db_clock s"
    and "db_current_user s' = db_current_user s"
    and "db_platform s' = db_platform s"
    and "db_settings s' = db_settings s"
    and "db_acting_role s' = db_acting_role s"
    and "db_request_id s' = db_request_id s"
    and "db_source_ip s' = db_source_ip s"
    and "db_user_agent s' = db_user_agent s"
    and "db_security_context s' = db_security_context s"
    and "db_uuid s' = db_uuid s"
    and "db_mac s' = db_mac s"
    and "db_key_ok s' = db_key_ok s"
    and "db_sha s' = db_sha s"
    and "db_to_local s' = db_to_local s"
    and "db_to_utc s' = db_to_utc s"
    and "db_users s' = db_users s"
    and "db_delegations s' = db_delegations s"
    and "db_tickets s' = db_tickets s"
    and "db_enterprise_records s' = db_enterprise_records s"
    and "db_catalog_items s' = db_catalog_items s"
    and "db_routings s' = db_routings s"
    and "db_cis s' = db_cis s"
    and "db_ci_permissions s' = db_ci_permissions s"
    and "db_ci_relationships s' = db_ci_relationships s"
    and "db_service_cis s' = db_service_cis s"
    and "db_outages s' = db_outages s"
    and "db_notifications s' = db_notifications s"
    and "db_notification_templates s' = db_notification_templates s"
    and "db_groups s' = db_groups s"
    and "db_group_members s' = db_group_members s"
    and "db_chains s' = db_chains s"
    and "db_policies s' = db_policies s"
    and "db_authority_groups s' = db_authority_groups s"
    and "db_offerings s' = db_offerings s"
    and "db_categories s' = db_categories s"
    and "db_subcategories s' = db_subcategories s"
    and "db_schedules s' = db_schedules s"
    and "db_sla_definitions s' = db_sla_definitions s"
    and "db_requests s' = db_requests s"
    and "db_ritms s' = db_ritms s"
    and "db_catalog_tasks s' = db_catalog_tasks s"
    and "db_task_controls s' = db_task_controls s"
    and "db_governances s' = db_governances s"
    and "db_freezes s' = db_freezes s"
    and "db_reviews s' = db_reviews s"
    and "db_ownerships s' = db_ownerships s"
    and "db_assignments s' = db_assignments s"
    and "db_record_links s' = db_record_links s"
    and "db_history s' = db_history s"
    and "db_op_tasks s' = db_op_tasks s"
    and "db_task_cis s' = db_task_cis s"
    and "db_problem_profiles s' = db_problem_profiles s"
    and "db_revisions s' = db_revisions s"
    and "db_templates s' = db_templates s"
    and "db_rules s' = db_rules s"
    and "db_outbox s' = db_outbox s"
    and "db_connections s' = db_connections s"
    and "db_workflow_definitions s' = db_workflow_definitions s"
    and "db_workflow_versions s' = db_workflow_versions s"
    and "db_workflow_jobs s' = db_workflow_jobs s"
    and "db_workflow_executions s' = db_workflow_executions s"
    and "db_workflow_steps s' = db_workflow_steps s"
    and "db_audits s' = db_audits s"
    and "db_audit_keys s' = db_audit_keys s"
    and "db_role_grants s' = db_role_grants s"
proof -
  have eq: "s'\<lparr>db_task_slas := [], db_sla_events := []\<rparr> = s\<lparr>db_task_slas := [], db_sla_events := []\<rparr>"
    using core [OF assms] by (simp add: sla_core_def)
  show "db_clock s' = db_clock s" using arg_cong [OF eq, of db_clock] by simp
  show "db_current_user s' = db_current_user s" using arg_cong [OF eq, of db_current_user] by simp
  show "db_platform s' = db_platform s" using arg_cong [OF eq, of db_platform] by simp
  show "db_settings s' = db_settings s" using arg_cong [OF eq, of db_settings] by simp
  show "db_acting_role s' = db_acting_role s" using arg_cong [OF eq, of db_acting_role] by simp
  show "db_request_id s' = db_request_id s" using arg_cong [OF eq, of db_request_id] by simp
  show "db_source_ip s' = db_source_ip s" using arg_cong [OF eq, of db_source_ip] by simp
  show "db_user_agent s' = db_user_agent s" using arg_cong [OF eq, of db_user_agent] by simp
  show "db_security_context s' = db_security_context s" using arg_cong [OF eq, of db_security_context] by simp
  show "db_uuid s' = db_uuid s" using arg_cong [OF eq, of db_uuid] by simp
  show "db_mac s' = db_mac s" using arg_cong [OF eq, of db_mac] by simp
  show "db_key_ok s' = db_key_ok s" using arg_cong [OF eq, of db_key_ok] by simp
  show "db_sha s' = db_sha s" using arg_cong [OF eq, of db_sha] by simp
  show "db_to_local s' = db_to_local s" using arg_cong [OF eq, of db_to_local] by simp
  show "db_to_utc s' = db_to_utc s" using arg_cong [OF eq, of db_to_utc] by simp
  show "db_users s' = db_users s" using arg_cong [OF eq, of db_users] by simp
  show "db_delegations s' = db_delegations s" using arg_cong [OF eq, of db_delegations] by simp
  show "db_tickets s' = db_tickets s" using arg_cong [OF eq, of db_tickets] by simp
  show "db_enterprise_records s' = db_enterprise_records s" using arg_cong [OF eq, of db_enterprise_records] by simp
  show "db_catalog_items s' = db_catalog_items s" using arg_cong [OF eq, of db_catalog_items] by simp
  show "db_routings s' = db_routings s" using arg_cong [OF eq, of db_routings] by simp
  show "db_cis s' = db_cis s" using arg_cong [OF eq, of db_cis] by simp
  show "db_ci_permissions s' = db_ci_permissions s" using arg_cong [OF eq, of db_ci_permissions] by simp
  show "db_ci_relationships s' = db_ci_relationships s" using arg_cong [OF eq, of db_ci_relationships] by simp
  show "db_service_cis s' = db_service_cis s" using arg_cong [OF eq, of db_service_cis] by simp
  show "db_outages s' = db_outages s" using arg_cong [OF eq, of db_outages] by simp
  show "db_notifications s' = db_notifications s" using arg_cong [OF eq, of db_notifications] by simp
  show "db_notification_templates s' = db_notification_templates s" using arg_cong [OF eq, of db_notification_templates] by simp
  show "db_groups s' = db_groups s" using arg_cong [OF eq, of db_groups] by simp
  show "db_group_members s' = db_group_members s" using arg_cong [OF eq, of db_group_members] by simp
  show "db_chains s' = db_chains s" using arg_cong [OF eq, of db_chains] by simp
  show "db_policies s' = db_policies s" using arg_cong [OF eq, of db_policies] by simp
  show "db_authority_groups s' = db_authority_groups s" using arg_cong [OF eq, of db_authority_groups] by simp
  show "db_offerings s' = db_offerings s" using arg_cong [OF eq, of db_offerings] by simp
  show "db_categories s' = db_categories s" using arg_cong [OF eq, of db_categories] by simp
  show "db_subcategories s' = db_subcategories s" using arg_cong [OF eq, of db_subcategories] by simp
  show "db_schedules s' = db_schedules s" using arg_cong [OF eq, of db_schedules] by simp
  show "db_sla_definitions s' = db_sla_definitions s" using arg_cong [OF eq, of db_sla_definitions] by simp
  show "db_requests s' = db_requests s" using arg_cong [OF eq, of db_requests] by simp
  show "db_ritms s' = db_ritms s" using arg_cong [OF eq, of db_ritms] by simp
  show "db_catalog_tasks s' = db_catalog_tasks s" using arg_cong [OF eq, of db_catalog_tasks] by simp
  show "db_task_controls s' = db_task_controls s" using arg_cong [OF eq, of db_task_controls] by simp
  show "db_governances s' = db_governances s" using arg_cong [OF eq, of db_governances] by simp
  show "db_freezes s' = db_freezes s" using arg_cong [OF eq, of db_freezes] by simp
  show "db_reviews s' = db_reviews s" using arg_cong [OF eq, of db_reviews] by simp
  show "db_ownerships s' = db_ownerships s" using arg_cong [OF eq, of db_ownerships] by simp
  show "db_assignments s' = db_assignments s" using arg_cong [OF eq, of db_assignments] by simp
  show "db_record_links s' = db_record_links s" using arg_cong [OF eq, of db_record_links] by simp
  show "db_history s' = db_history s" using arg_cong [OF eq, of db_history] by simp
  show "db_op_tasks s' = db_op_tasks s" using arg_cong [OF eq, of db_op_tasks] by simp
  show "db_task_cis s' = db_task_cis s" using arg_cong [OF eq, of db_task_cis] by simp
  show "db_problem_profiles s' = db_problem_profiles s" using arg_cong [OF eq, of db_problem_profiles] by simp
  show "db_revisions s' = db_revisions s" using arg_cong [OF eq, of db_revisions] by simp
  show "db_templates s' = db_templates s" using arg_cong [OF eq, of db_templates] by simp
  show "db_rules s' = db_rules s" using arg_cong [OF eq, of db_rules] by simp
  show "db_outbox s' = db_outbox s" using arg_cong [OF eq, of db_outbox] by simp
  show "db_connections s' = db_connections s" using arg_cong [OF eq, of db_connections] by simp
  show "db_workflow_definitions s' = db_workflow_definitions s" using arg_cong [OF eq, of db_workflow_definitions] by simp
  show "db_workflow_versions s' = db_workflow_versions s" using arg_cong [OF eq, of db_workflow_versions] by simp
  show "db_workflow_jobs s' = db_workflow_jobs s" using arg_cong [OF eq, of db_workflow_jobs] by simp
  show "db_workflow_executions s' = db_workflow_executions s" using arg_cong [OF eq, of db_workflow_executions] by simp
  show "db_workflow_steps s' = db_workflow_steps s" using arg_cong [OF eq, of db_workflow_steps] by simp
  show "db_audits s' = db_audits s" using arg_cong [OF eq, of db_audits] by simp
  show "db_audit_keys s' = db_audit_keys s" using arg_cong [OF eq, of db_audit_keys] by simp
  show "db_role_grants s' = db_role_grants s" using arg_cong [OF eq, of db_role_grants] by simp
qed

end

lemma foldE_sla_core:
  assumes "\<And>x s s'. f x s = Inr s' \<Longrightarrow> sla_core s' = sla_core s" and "foldE f xs s = Inr s'"
  shows "sla_core s' = sla_core s"
  using foldE_invariant [of xs "\<lambda>s'. sla_core s' = sla_core s" f s s'] assms by simp

interpretation sync_slas: sla_only "sync_slas target_type target_id state" for target_type target_id state
proof
  fix s s'
  have "sync_sla state t s = Inr s' \<Longrightarrow> sla_core s' = sla_core s" for t s s'
    by (auto simp: sync_sla_def bindE_Inr_iff Let_def split: if_splits option.splits)
  then show "sync_slas target_type target_id state s = Inr s' \<Longrightarrow> sla_core s' = sla_core s"
    unfolding sync_slas_def by (rule foldE_sla_core)
qed

interpretation attach_slas: sla_only "attach_slas target_type target_id priority organization_id started_at"
  for target_type target_id priority organization_id started_at
proof
  fix s s'
  have "attach_sla target_type target_id priority started_at d s = Inr s' \<Longrightarrow> sla_core s' = sla_core s" for d s s'
    by (auto simp: attach_sla_def bindE_Inr_iff Let_def split: if_splits)
  then show "attach_slas target_type target_id priority organization_id started_at s = Inr s' \<Longrightarrow>
      sla_core s' = sla_core s"
    unfolding attach_slas_def by (auto intro: foldE_sla_core split: option.splits)
qed

interpretation retarget_slas: sla_only "retarget_slas target_type target_id priority state organization_id"
  for target_type target_id priority state organization_id
proof
  fix s s'
  have "cancel_replaced_sla priority t s = Inr s' \<Longrightarrow> sla_core s' = sla_core s" for t s s'
    by (auto simp: cancel_replaced_sla_def bindE_Inr_iff)
  then have cancel: "foldE (cancel_replaced_sla priority) ts s = Inr s' \<Longrightarrow> sla_core s' = sla_core s" for ts s s'
    by (rule foldE_sla_core)
  have carry: "sla_core (fold (carry_pause existing paused) xs s) = sla_core s" for existing paused xs s
    by (rule fold_unchanged) (simp add: carry_pause_def)
  assume "retarget_slas target_type target_id priority state organization_id s = Inr s'"
  then show "sla_core s' = sla_core s"
    by (auto simp: retarget_slas_def bindE_Inr_iff Let_def carry split: if_splits
        dest!: cancel attach_slas.core sync_slas.core)
qed

section \<open>The SLA table is well formed\<close>

definition pause_recorded :: "task_sla \<Rightarrow> bool" where
  "pause_recorded t \<longleftrightarrow> (sl_stage t = ''Paused'' \<longrightarrow> sl_paused_at t \<noteq> None)"

definition sla_wf :: "db \<Rightarrow> bool" where
  "sla_wf s \<longleftrightarrow> distinct (map sl_id (db_task_slas s))
     \<and> list_all (\<lambda>t. get_row sd_id (sl_definition_id t) (db_sla_definitions s) \<noteq> None
         \<and> pause_recorded t) (db_task_slas s)"

lemma sla_wf_map:
  assumes "sla_wf s" and "sla_core s' = sla_core s" and "db_task_slas s' = map f (db_task_slas s)"
    and "\<And>t. sl_id (f t) = sl_id t" and "\<And>t. sl_definition_id (f t) = sl_definition_id t"
    and "\<And>t. pause_recorded t \<Longrightarrow> pause_recorded (f t)"
  shows "sla_wf s'"
  using assms by (auto simp: sla_wf_def list_all_iff o_def sla_core_fields [OF assms(2)])

definition on_record :: "string \<Rightarrow> nat \<Rightarrow> task_sla \<Rightarrow> bool" where
  "on_record target_type target_id t \<longleftrightarrow> sl_target_type t = target_type \<and> sl_target_id t = target_id"

lemma slas_of_alt: "slas_of s target_type target_id = filter (on_record target_type target_id) (db_task_slas s)"
  by (simp add: slas_of_def on_record_def [abs_def])

text \<open>What one synchronisation makes of an SLA whose definition is \<open>d\<close>.\<close>

definition synced :: "datetime \<Rightarrow> string \<Rightarrow> sla_definition \<Rightarrow> task_sla \<Rightarrow> task_sla" where
  "synced clock state d t =
     (if closed_sla t then t
      else if state = ''Cancelled'' \<or> state = ''Rejected''
        then t\<lparr>sl_stage := ''Cancelled'', sl_stopped_at := Some clock\<rparr>
      else if state \<in> set sla_stop_states then t\<lparr>sl_stage := ''Completed'', sl_stopped_at := Some clock\<rparr>
      else if state \<in> set (pause_state_set d) \<and> sl_stage t = ''In Progress''
        then t\<lparr>sl_stage := ''Paused'', sl_paused_at := Some clock\<rparr>
      else if state \<notin> set (pause_state_set d) \<and> sl_stage t = ''Paused''
        then let paused = whole_seconds (clock - the (sl_paused_at t)) in
             t\<lparr>sl_paused_seconds := sl_paused_seconds t + paused,
               sl_breach_at := sl_breach_at t + paused * 1000000, sl_paused_at := None,
               sl_stage := ''In Progress''\<rparr>
      else t)"

definition synced_in :: "db \<Rightarrow> string \<Rightarrow> task_sla \<Rightarrow> task_sla" where
  "synced_in s state t =
     (case get_row sd_id (sl_definition_id t) (db_sla_definitions s) of
        None \<Rightarrow> t | Some d \<Rightarrow> synced (db_clock s) state d t)"

lemma synced_keeps [simp]:
  "sl_id (synced c st d t) = sl_id t" "sl_target_type (synced c st d t) = sl_target_type t"
  "sl_target_id (synced c st d t) = sl_target_id t" "sl_definition_id (synced c st d t) = sl_definition_id t"
  "sl_started_at (synced c st d t) = sl_started_at t" "sl_breached (synced c st d t) = sl_breached t"
  by (simp_all add: synced_def Let_def)

lemma synced_in_keeps [simp]:
  "sl_id (synced_in s st t) = sl_id t" "sl_target_type (synced_in s st t) = sl_target_type t"
  "sl_target_id (synced_in s st t) = sl_target_id t" "sl_definition_id (synced_in s st t) = sl_definition_id t"
  "sl_started_at (synced_in s st t) = sl_started_at t" "sl_breached (synced_in s st t) = sl_breached t"
  "on_record ty i (synced_in s st t) = on_record ty i t"
  by (simp_all add: synced_in_def on_record_def split: option.split)

lemma synced_pause_recorded: "pause_recorded t \<Longrightarrow> pause_recorded (synced c st d t)"
  by (auto simp: synced_def pause_recorded_def Let_def)

lemma sync_sla_synced:
  assumes "t \<in> set (db_task_slas s)" and "distinct (map sl_id (db_task_slas s))"
    and d: "get_row sd_id (sl_definition_id t) (db_sla_definitions s) = Some d"
    and "pause_recorded t"
  shows "\<exists>s'. sync_sla state t s = Inr s' \<and> sla_core s' = sla_core s
      \<and> db_task_slas s' = put_row sl_id (synced (db_clock s) state d t) (db_task_slas s)"
proof -
  have "put_row sl_id t (db_task_slas s) = db_task_slas s"
    using put_row_map [OF assms(2,1), of "\<lambda>t. t"] by simp
  then show ?thesis
    using assms(4) d
    by (auto simp: sync_sla_def synced_def sla_definition_of_def pause_recorded_def Let_def split: option.splits)
qed

text \<open>
  Synchronising the SLAs of a record with its state never fails on a well-formed SLA table, keeps it
  well formed, changes nothing but the SLAs of that record and the SLA events, and makes of each of
  them exactly what the clock rules say of it.
\<close>

lemma sync_slas_rows:
  assumes "sla_wf s"
  shows "\<exists>s'. sync_slas target_type target_id state s = Inr s' \<and> sla_wf s' \<and> sla_core s' = sla_core s
      \<and> db_task_slas s' = map (\<lambda>t. if on_record target_type target_id t then synced_in s state t else t)
          (db_task_slas s)"
proof -
  let ?slas = "slas_of s target_type target_id"
  have wf: "distinct (map sl_id (db_task_slas s))"
      "\<And>t. t \<in> set (db_task_slas s) \<Longrightarrow> \<exists>d. get_row sd_id (sl_definition_id t) (db_sla_definitions s) = Some d"
      "\<And>t. t \<in> set (db_task_slas s) \<Longrightarrow> pause_recorded t"
    using assms by (auto simp: sla_wf_def list_all_iff)
  have "\<exists>s'. foldE (sync_sla state) ?slas s = Inr s' \<and> sla_core s' = sla_core s \<and>
      db_task_slas s' = map (\<lambda>t. if sl_id t \<in> sl_id ` set ?slas then synced_in s state t else t) (db_task_slas s)"
  proof (rule foldE_map_rows)
    fix t s1
    assume t: "t \<in> set ?slas" and core: "sla_core s1 = sla_core s"
      and mem: "t \<in> set (db_task_slas s1)" and dist: "distinct (map sl_id (db_task_slas s1))"
    from t have "t \<in> set (db_task_slas s)" by (simp add: slas_of_alt)
    with wf obtain d where d: "get_row sd_id (sl_definition_id t) (db_sla_definitions s1) = Some d"
        and p: "pause_recorded t"
      using sla_core_fields [OF core] by metis
    then have row: "synced_in s state t = synced (db_clock s1) state d t"
      using sla_core_fields [OF core] by (simp add: synced_in_def)
    from sync_sla_synced [OF mem dist d p, of state] row core
    show "\<exists>s'. sync_sla state t s1 = Inr s' \<and> sla_core s' = sla_core s \<and>
        db_task_slas s' = map (\<lambda>r. if sl_id r = sl_id t then synced_in s state r else r) (db_task_slas s1)"
      using put_row_map [OF dist mem, of "synced_in s state"] by auto
  qed (simp_all add: slas_of_alt wf distinct_map_filter subset_iff)
  then obtain s' where s': "sync_slas target_type target_id state s = Inr s'" "sla_core s' = sla_core s"
      "db_task_slas s' = map (\<lambda>t. if on_record target_type target_id t then synced_in s state t else t)
         (db_task_slas s)"
    unfolding sync_slas_def slas_of_alt map_filter_keys [OF wf(1)] by auto
  moreover have "sla_wf s'"
    by (rule sla_wf_map [OF assms s'(2,3)])
      (auto simp: synced_in_def synced_pause_recorded split: option.split)
  ultimately show ?thesis by blast
qed

lemma synced_stops:
  assumes "state \<in> set ([''Cancelled'', ''Rejected''] @ sla_stop_states)"
  shows "closed_sla (synced c state d t)"
  using assms by (auto simp: synced_def closed_sla_def)

text \<open>
  When a record is resolved, closed, completed, cancelled or rejected, synchronising its SLAs
  succeeds and stops every one of them; the SLA table stays well formed and nothing outside the SLA
  tables, and no SLA of another record, is touched.
\<close>

theorem sync_slas_stops_clocks:
  assumes wf: "sla_wf s" and stop: "state \<in> set ([''Cancelled'', ''Rejected''] @ sla_stop_states)"
  shows "\<exists>s'. sync_slas target_type target_id state s = Inr s' \<and> sla_wf s' \<and> sla_core s' = sla_core s
      \<and> list_all closed_sla (slas_of s' target_type target_id)
      \<and> filter (\<lambda>t. \<not> on_record target_type target_id t) (db_task_slas s')
        = filter (\<lambda>t. \<not> on_record target_type target_id t) (db_task_slas s)"
proof -
  let ?f = "\<lambda>t. if on_record target_type target_id t then synced_in s state t else t"
  obtain s' where s': "sync_slas target_type target_id state s = Inr s'" "sla_wf s'"
      "sla_core s' = sla_core s" "db_task_slas s' = map ?f (db_task_slas s)"
    using sync_slas_rows [OF wf] by blast
  have closed: "closed_sla (synced_in s state t)" if "t \<in> set (db_task_slas s)" for t
    using that wf synced_stops [OF stop] by (auto simp: sla_wf_def list_all_iff synced_in_def)
  then have "list_all closed_sla (slas_of s' target_type target_id)"
    by (auto simp: slas_of_alt s'(4) list_all_iff)
  moreover have "filter (\<lambda>t. \<not> on_record target_type target_id t) (map ?f xs) =
      filter (\<lambda>t. \<not> on_record target_type target_id t) xs" for xs
    by (induction xs) auto
  ultimately show ?thesis using s' by auto
qed

definition example_definition :: sla_definition where
  "example_definition = \<lparr>sd_id = 4, sd_name = ''P2 resolution'', sd_target_type = ''ticket'',
     sd_priority = Some ''P2'', sd_duration_minutes = 60, sd_pause_states = ''Pending, On Hold'',
     sd_active = True, sd_schedule_id = None, sd_agreement_type = ''SLA'', sd_counterparty = [],
     sd_tenant_id = 2, sd_client_organization_id = None\<rparr>"

definition example_sla :: task_sla where
  "example_sla = \<lparr>sl_id = 7, sl_tenant_id = Some 2, sl_definition_id = 4, sl_target_type = ''ticket'',
     sl_target_id = 9, sl_stage = ''In Progress'', sl_started_at = 0, sl_breach_at = 3600000000,
     sl_stopped_at = None, sl_paused_at = None, sl_paused_seconds = 0, sl_breached = False\<rparr>"

definition example_sla_db :: db where
  "example_sla_db = empty_db\<lparr>db_sla_definitions := [example_definition], db_task_slas := [example_sla]\<rparr>"

lemma example_sla_wf: "sla_wf example_sla_db"
  by (simp add: sla_wf_def pause_recorded_def example_sla_db_def example_sla_def example_definition_def
      get_row_Cons)

theorem sync_slas_stops_clocks_witness:
  "\<exists>s'. sync_slas ''ticket'' 9 ''Resolved'' example_sla_db = Inr s'
     \<and> list_all closed_sla (slas_of s' ''ticket'' 9)"
  using sync_slas_stops_clocks [OF example_sla_wf, of "''Resolved''" "''ticket''" 9]
  by (auto simp: sla_stop_states_def)

text \<open>
  C13. Time spent paused does not count: an SLA that is paused by one state of its record and resumed by
  a later one comes back in progress with its deadline moved by exactly the whole seconds in between,
  those seconds added to its paused time, and nothing else changed.
\<close>

theorem pause_moves_deadline:
  assumes wf: "sla_wf s" and t: "t \<in> set (slas_of s ty i)" "sl_stage t = ''In Progress''"
    and d: "get_row sd_id (sl_definition_id t) (db_sla_definitions s) = Some d"
    and pause: "waiting \<in> set (pause_state_set d)" "waiting \<notin> set ([''Cancelled'', ''Rejected''] @ sla_stop_states)"
    and resume: "working \<notin> set (pause_state_set d)" "working \<notin> set ([''Cancelled'', ''Rejected''] @ sla_stop_states)"
  shows "\<exists>s1 s2. sync_slas ty i waiting s = Inr s1 \<and> sync_slas ty i working (s1\<lparr>db_clock := c\<rparr>) = Inr s2
      \<and> get_row sl_id (sl_id t) (db_task_slas s2) =
          Some (t\<lparr>sl_breach_at := sl_breach_at t + whole_seconds (c - db_clock s) * 1000000,
            sl_paused_seconds := sl_paused_seconds t + whole_seconds (c - db_clock s),
            sl_paused_at := None\<rparr>)"
proof -
  let ?f = "\<lambda>s st t. if on_record ty i t then synced_in s st t else t"
  obtain s1 where s1: "sync_slas ty i waiting s = Inr s1" "sla_wf s1" "sla_core s1 = sla_core s"
      "db_task_slas s1 = map (?f s waiting) (db_task_slas s)"
    using sync_slas_rows [OF wf] by blast
  let ?s1 = "s1\<lparr>db_clock := c\<rparr>"
  have "sla_wf ?s1" using s1(2) by (simp add: sla_wf_def)
  then obtain s2 where s2: "sync_slas ty i working ?s1 = Inr s2" "sla_wf s2"
      "db_task_slas s2 = map (?f ?s1 working) (db_task_slas s1)"
    using sync_slas_rows [of ?s1 ty i working] by auto
  have on: "on_record ty i t" "t \<in> set (db_task_slas s)" using t(1) by (simp_all add: slas_of_alt)
  let ?t1 = "t\<lparr>sl_stage := ''Paused'', sl_paused_at := Some (db_clock s)\<rparr>"
  let ?t2 = "t\<lparr>sl_breach_at := sl_breach_at t + whole_seconds (c - db_clock s) * 1000000,
            sl_paused_seconds := sl_paused_seconds t + whole_seconds (c - db_clock s),
            sl_paused_at := None\<rparr>"
  have first: "?f s waiting t = ?t1"
    using on(1) t(2) d pause by (auto simp: synced_in_def synced_def closed_sla_def)
  have second: "?f ?s1 working ?t1 = ?t2"
    using on(1) t(2) d resume sla_core_fields [OF s1(3)]
    by (cases t) (auto simp: synced_in_def synced_def closed_sla_def on_record_def Let_def)
  have "?t1 \<in> set (db_task_slas s1)" 
    unfolding s1(4) set_map by (rule image_eqI [where x = t]) (use first on(2) in simp_all)
  then have mem: "?t2 \<in> set (db_task_slas s2)"
    unfolding s2(3) set_map by - (rule image_eqI [where x = ?t1], use second in simp_all)
  have "get_row sl_id (sl_id ?t2) (db_task_slas s2) = Some ?t2"
    by (rule get_row_distinct [OF _ mem]) (use s2(2) in \<open>simp add: sla_wf_def\<close>)
  then have "get_row sl_id (sl_id t) (db_task_slas s2) = Some ?t2" by simp
  with s1(1) s2(1) show ?thesis by blast
qed

theorem pause_moves_deadline_witness:
  "\<exists>s1 s2. sync_slas ''ticket'' 9 ''Pending'' example_sla_db = Inr s1
     \<and> sync_slas ''ticket'' 9 ''In Progress'' (s1\<lparr>db_clock := 90000000\<rparr>) = Inr s2
     \<and> get_row sl_id 7 (db_task_slas s2) =
         Some (example_sla\<lparr>sl_breach_at := 3690000000, sl_paused_seconds := 90\<rparr>)"
proof -
  have pauses: "pause_state_set example_definition = [''Pending'', ''On Hold'']" by code_simp
  have d: "get_row sd_id (sl_definition_id example_sla) (db_sla_definitions example_sla_db) = Some example_definition"
    by code_simp
  have secs: "whole_seconds 90000000 = 90" by code_simp
  have zero: "db_clock example_sla_db = 0" by (simp add: example_sla_db_def empty_db_def)
  have row: "example_sla \<in> set (slas_of example_sla_db ''ticket'' 9)" "sl_stage example_sla = ''In Progress''"
    by (simp_all add: slas_of_def example_sla_db_def example_sla_def)
  have "\<exists>s1 s2. sync_slas ''ticket'' 9 ''Pending'' example_sla_db = Inr s1
     \<and> sync_slas ''ticket'' 9 ''In Progress'' (s1\<lparr>db_clock := 90000000\<rparr>) = Inr s2
     \<and> get_row sl_id (sl_id example_sla) (db_task_slas s2) =
          Some (example_sla\<lparr>sl_breach_at := sl_breach_at example_sla + whole_seconds (90000000 - db_clock example_sla_db) * 1000000,
            sl_paused_seconds := sl_paused_seconds example_sla + whole_seconds (90000000 - db_clock example_sla_db),
            sl_paused_at := None\<rparr>)"
    by (rule pause_moves_deadline [OF example_sla_wf row d]) (simp_all add: pauses sla_stop_states_def)
  then show ?thesis by (simp add: zero secs) (simp add: example_sla_def)
qed

section \<open>Attaching\<close>

text \<open>
  What the administration pages and the primary key keep of the configuration: distinct definitions
  with positive durations, accepted calendars.
\<close>

definition sla_config_ok :: "db \<Rightarrow> bool" where
  "sla_config_ok s \<longleftrightarrow> distinct (map sd_id (db_sla_definitions s)) \<and> list_all (\<lambda>d. 0 < sd_duration_minutes d) (db_sla_definitions s)
     \<and> list_all calendar_ok (db_schedules s)"

text \<open>At most one SLA that was not cancelled, for a definition and a record.\<close>

definition sla_place :: "task_sla \<Rightarrow> nat \<times> string \<times> nat" where
  "sla_place t = (sl_definition_id t, sl_target_type t, sl_target_id t)"

definition sla_unique :: "db \<Rightarrow> bool" where
  "sla_unique s \<longleftrightarrow> distinct (map sla_place (filter (\<lambda>t. sl_stage t \<noteq> ''Cancelled'') (db_task_slas s)))"

lemma sla_deadline_total:
  assumes "sla_config_ok s" and "d \<in> set (db_sla_definitions s)"
  shows "\<exists>b. sla_deadline s started d = Inr b"
proof -
  have pos: "0 < sd_duration_minutes d" using assms by (simp add: sla_config_ok_def list_all_iff)
  have cal: "calendar_ok cal" if "get_row bs_id i (db_schedules s) = Some cal" for i cal
    using get_row_key [OF that] assms(1) by (simp add: sla_config_ok_def list_all_iff)
  have "\<exists>b. add_business_minutes f g started (sd_duration_minutes d) cal hs = Inr b"
    if "calendar_ok cal" for f g cal hs
    using business_fuel_enough [OF that pos, of hs "f (bs_timezone_name cal) started div 60000000"] pos
    by (auto simp: add_business_minutes_def)
  with cal show ?thesis by (auto simp: sla_deadline_def split: option.split)
qed

lemma applicable_definitions_in:
  "d \<in> set (applicable_definitions s ty tenant org) \<Longrightarrow>
    d \<in> set (db_sla_definitions s) \<and> sd_target_type d = ty \<and> sd_active d \<and> sd_tenant_id d = tenant"
  by (auto simp: applicable_definitions_def Let_def split: if_splits)

text \<open>A definition that another run of the loop would pass over.\<close>

definition settled :: "string \<Rightarrow> nat \<Rightarrow> string option \<Rightarrow> sla_definition \<Rightarrow> db \<Rightarrow> bool" where
  "settled ty i priority d s \<longleftrightarrow> truthy (sd_priority d) \<and> sd_priority d \<noteq> priority \<or> has_open_sla s (sd_id d) ty i"

lemma settled_idle: "settled ty i priority d s \<Longrightarrow> attach_sla ty i priority started_at d s = Inr s"
  by (auto simp: settled_def attach_sla_def)

text \<open>The row a definition gives a record.\<close>

definition fresh_sla :: "string \<Rightarrow> nat \<Rightarrow> datetime \<Rightarrow> sla_definition \<Rightarrow> db \<Rightarrow> task_sla \<Rightarrow> bool" where
  "fresh_sla ty i started d s t \<longleftrightarrow> sl_id t = next_id sl_id (db_task_slas s) \<and> sl_definition_id t = sd_id d
     \<and> sl_target_type t = ty \<and> sl_target_id t = i \<and> sl_stage t = ''In Progress'' \<and> sl_started_at t = started
     \<and> sl_paused_at t = None \<and> \<not> sl_breached t"

lemma attach_sla_adds:
  assumes "\<not> settled ty i priority d s" and "sla_deadline s (opt (db_clock s) started_at) d = Inr b"
  shows "\<exists>t s'. attach_sla ty i priority started_at d s = Inr s' \<and> sla_core s' = sla_core s
      \<and> db_task_slas s' = db_task_slas s @ [t] \<and> fresh_sla ty i (opt (db_clock s) started_at) d s t"
  using assms by (auto simp: settled_def attach_sla_def fresh_sla_def Let_def)

lemma sla_wf_append:
  assumes "sla_wf s" and "sla_core s' = sla_core s" and "db_task_slas s' = db_task_slas s @ [t]"
    and "d \<in> set (db_sla_definitions s)" and "fresh_sla ty i started d s t"
  shows "sla_wf s'"
proof -
  have "sl_id t \<notin> sl_id ` set (db_task_slas s)"
    using assms(5) next_id_unused [of sl_id "db_task_slas s"] by (simp add: fresh_sla_def)
  moreover have "get_row sd_id (sl_definition_id t) (db_sla_definitions s) \<noteq> None"
    using assms(4,5) by (auto simp: fresh_sla_def get_row_None_iff)
  ultimately show ?thesis
    using assms by (auto simp: sla_wf_def list_all_iff pause_recorded_def fresh_sla_def
        sla_core_fields [OF assms(2)])
qed

lemma sla_unique_append:
  assumes "sla_unique s" and "db_task_slas s' = db_task_slas s @ [t]" and "fresh_sla ty i started d s t"
    and "\<not> has_open_sla s (sd_id d) ty i"
  shows "sla_unique s'"
  using assms
  by (auto simp: sla_unique_def has_open_sla_def slas_of_def sla_place_def fresh_sla_def list_ex_iff)

lemma attach_sla_step:
  assumes "sla_wf s" and "sla_config_ok s" and "d \<in> set (db_sla_definitions s)"
  shows "\<exists>s' new. attach_sla ty i priority started_at d s = Inr s' \<and> sla_wf s' \<and> sla_core s' = sla_core s
      \<and> (sla_unique s \<longrightarrow> sla_unique s') \<and> settled ty i priority d s' \<and> db_task_slas s' = db_task_slas s @ new
      \<and> list_all (\<lambda>t. \<not> (truthy (sd_priority d) \<and> sd_priority d \<noteq> priority) \<and> sl_definition_id t = sd_id d
            \<and> on_record ty i t \<and> sl_started_at t = opt (db_clock s) started_at) new"
proof (cases "settled ty i priority d s")
  case True
  with assms settled_idle [OF True] show ?thesis by (intro exI [of _ s] exI [of _ "[]"]) simp
next
  case False
  obtain b where "sla_deadline s (opt (db_clock s) started_at) d = Inr b"
    using sla_deadline_total [OF assms(2,3)] by blast
  from attach_sla_adds [OF False this] obtain t s' where
    s': "attach_sla ty i priority started_at d s = Inr s'" "sla_core s' = sla_core s"
      "db_task_slas s' = db_task_slas s @ [t]" "fresh_sla ty i (opt (db_clock s) started_at) d s t"
    by blast
  have "settled ty i priority d s'"
    using s'(3,4) by (auto simp: settled_def has_open_sla_def slas_of_def fresh_sla_def)
  moreover have "sla_unique s \<Longrightarrow> sla_unique s'"
    using sla_unique_append [OF _ s'(3,4)] False by (simp add: settled_def)
  ultimately show ?thesis
    using s' sla_wf_append [OF assms(1) s'(2,3) assms(3) s'(4)] False
    by (intro exI [of _ s'] exI [of _ "[t]"]) (auto simp: fresh_sla_def on_record_def settled_def)
qed

lemma settled_append:
  "settled ty i p d s \<Longrightarrow> db_task_slas s' = db_task_slas s @ new \<Longrightarrow> settled ty i p d s'"
  by (auto simp: settled_def has_open_sla_def slas_of_def)

lemma attach_loop:
  assumes "set ds \<subseteq> set (db_sla_definitions s)" and "sla_wf s" and "sla_config_ok s"
  shows "\<exists>s' new. foldE (attach_sla ty i priority started_at) ds s = Inr s' \<and> sla_wf s' \<and> sla_core s' = sla_core s
      \<and> (sla_unique s \<longrightarrow> sla_unique s') \<and> list_all (\<lambda>d. settled ty i priority d s') ds
      \<and> db_task_slas s' = db_task_slas s @ new
      \<and> list_all (\<lambda>t. on_record ty i t \<and> sl_started_at t = opt (db_clock s) started_at
          \<and> list_ex (\<lambda>d. sl_definition_id t = sd_id d \<and> \<not> (truthy (sd_priority d) \<and> sd_priority d \<noteq> priority)) ds) new"
  using assms
proof (induction ds arbitrary: s)
  case Nil
  then show ?case by simp
next
  case (Cons d ds)
  obtain s1 new1 where s1: "attach_sla ty i priority started_at d s = Inr s1" "sla_wf s1" "sla_core s1 = sla_core s"
      "sla_unique s \<longrightarrow> sla_unique s1" "settled ty i priority d s1" "db_task_slas s1 = db_task_slas s @ new1"
      "list_all (\<lambda>t. \<not> (truthy (sd_priority d) \<and> sd_priority d \<noteq> priority) \<and> sl_definition_id t = sd_id d
            \<and> on_record ty i t \<and> sl_started_at t = opt (db_clock s) started_at) new1"
    using attach_sla_step [OF Cons.prems(2,3)] Cons.prems(1) by (meson list.set_intros(1) subset_iff)
  note core = sla_core_fields [OF s1(3)]
  have "sla_config_ok s1" "set ds \<subseteq> set (db_sla_definitions s1)"
    using Cons.prems by (simp_all add: sla_config_ok_def core)
  from Cons.IH [OF this(2) s1(2) this(1)] obtain s' new where
    s': "foldE (attach_sla ty i priority started_at) ds s1 = Inr s'" "sla_wf s'" "sla_core s' = sla_core s1"
      "sla_unique s1 \<longrightarrow> sla_unique s'" "list_all (\<lambda>d. settled ty i priority d s') ds"
      "db_task_slas s' = db_task_slas s1 @ new"
      "list_all (\<lambda>t. on_record ty i t \<and> sl_started_at t = opt (db_clock s) started_at
          \<and> list_ex (\<lambda>d. sl_definition_id t = sd_id d \<and> \<not> (truthy (sd_priority d) \<and> sd_priority d \<noteq> priority)) ds) new"
    unfolding core by blast
  show ?case
    using s1 s' settled_append [OF s1(5) s'(6)]
    by (intro exI [of _ s'] exI [of _ "new1 @ new"]) (auto simp: list_all_iff)
qed

lemma foldE_idle: "(\<And>x. x \<in> set xs \<Longrightarrow> f x s = Inr s) \<Longrightarrow> foldE f xs s = Inr s"
  by (induction xs) auto

lemma applicable_definitions_core:
  assumes "sla_core s' = sla_core s"
  shows "applicable_definitions s' ty tenant org = applicable_definitions s ty tenant org"
  by (simp add: applicable_definitions_def sla_core_fields [OF assms])

lemma sla_target_tenant_core:
  assumes "sla_core s' = sla_core s"
  shows "sla_target_tenant s' ty i = sla_target_tenant s ty i"
  by (simp add: sla_target_tenant_def sla_core_fields [OF assms])

lemma attach_slas_step:
  assumes "sla_wf s" and "sla_config_ok s"
  shows "\<exists>s' new. attach_slas ty i priority org started_at s = Inr s' \<and> sla_wf s' \<and> sla_core s' = sla_core s
      \<and> (sla_unique s \<longrightarrow> sla_unique s') \<and> attach_slas ty i priority org started_at s' = Inr s'
      \<and> db_task_slas s' = db_task_slas s @ new
      \<and> list_all (\<lambda>t. on_record ty i t \<and> sl_started_at t = opt (db_clock s) started_at
          \<and> (\<exists>d \<in> set (db_sla_definitions s). sl_definition_id t = sd_id d
               \<and> Some (sd_tenant_id d) = sla_target_tenant s ty i
               \<and> \<not> (truthy (sd_priority d) \<and> sd_priority d \<noteq> priority))) new"
proof (cases "sla_target_tenant s ty i")
  case None
  then show ?thesis using assms by (intro exI [of _ s] exI [of _ "[]"]) (simp add: attach_slas_def)
next
  case (Some tenant)
  let ?ds = "applicable_definitions s ty tenant org"
  have "set ?ds \<subseteq> set (db_sla_definitions s)" using applicable_definitions_in by blast
  from attach_loop [OF this assms, of ty i priority started_at] obtain s' new where
    s': "foldE (attach_sla ty i priority started_at) ?ds s = Inr s'" "sla_wf s'" "sla_core s' = sla_core s"
      "sla_unique s \<longrightarrow> sla_unique s'" "list_all (\<lambda>d. settled ty i priority d s') ?ds"
      "db_task_slas s' = db_task_slas s @ new"
      "list_all (\<lambda>t. on_record ty i t \<and> sl_started_at t = opt (db_clock s) started_at
          \<and> list_ex (\<lambda>d. sl_definition_id t = sd_id d \<and> \<not> (truthy (sd_priority d) \<and> sd_priority d \<noteq> priority)) ?ds) new"
    by blast
  have "foldE (attach_sla ty i priority started_at) ?ds s' = Inr s'"
    using s'(5) by (intro foldE_idle settled_idle) (simp add: list_all_iff)
  then have "attach_slas ty i priority org started_at s' = Inr s'"
    using Some by (simp add: attach_slas_def sla_target_tenant_core [OF s'(3)] applicable_definitions_core [OF s'(3)])
  moreover have "\<exists>d \<in> set (db_sla_definitions s). sl_definition_id t = sd_id d \<and> Some (sd_tenant_id d) = Some tenant
      \<and> \<not> (truthy (sd_priority d) \<and> sd_priority d \<noteq> priority)"
    if "list_ex (\<lambda>d. sl_definition_id t = sd_id d \<and> \<not> (truthy (sd_priority d) \<and> sd_priority d \<noteq> priority)) ?ds" for t
    using that applicable_definitions_in by (fastforce simp: list_ex_iff)
  ultimately show ?thesis
    using s' Some
    by (intro exI [of _ s'] exI [of _ new]) (auto simp: attach_slas_def list_all_iff)
qed

text \<open>
  C14. With positive durations and accepted calendars, attaching SLAs to a record always succeeds, keeps
  the table well formed with at most one SLA in force for a definition and a record, uses only
  definitions of the record's own tenant, and is idempotent: a second call changes nothing.
\<close>

theorem attach_slas_idempotent:
  assumes "sla_wf s" and "sla_unique s" and "sla_config_ok s"
  shows "\<exists>s' new. attach_slas ty i priority org started_at s = Inr s' \<and> sla_wf s' \<and> sla_unique s'
      \<and> sla_core s' = sla_core s \<and> attach_slas ty i priority org started_at s' = Inr s'
      \<and> db_task_slas s' = db_task_slas s @ new
      \<and> list_all (\<lambda>t. \<exists>d \<in> set (db_sla_definitions s).
           sl_definition_id t = sd_id d \<and> Some (sd_tenant_id d) = sla_target_tenant s ty i) new"
proof -
  obtain s' new where "attach_slas ty i priority org started_at s = Inr s'" "sla_wf s'" "sla_core s' = sla_core s"
      "sla_unique s \<longrightarrow> sla_unique s'" "attach_slas ty i priority org started_at s' = Inr s'"
      "db_task_slas s' = db_task_slas s @ new"
      "list_all (\<lambda>t. on_record ty i t \<and> sl_started_at t = opt (db_clock s) started_at
          \<and> (\<exists>d \<in> set (db_sla_definitions s). sl_definition_id t = sd_id d
               \<and> Some (sd_tenant_id d) = sla_target_tenant s ty i
               \<and> \<not> (truthy (sd_priority d) \<and> sd_priority d \<noteq> priority))) new"
    using attach_slas_step [OF assms(1,3)] by blast
  with assms(2) show ?thesis
    by (intro exI [of _ s'] exI [of _ new]) (auto simp: list_all_iff)
qed

theorem attach_slas_idempotent_witness:
  "\<exists>s'. attach_slas ''ticket'' 9 (Some ''P2'') None None example_sla_db = Inr s' \<and> sla_unique s'"
proof -
  have "sla_unique example_sla_db" by (simp add: sla_unique_def example_sla_db_def)
  moreover have "sla_config_ok example_sla_db"
    by (simp add: sla_config_ok_def example_sla_db_def example_definition_def empty_db_def)
  ultimately show ?thesis
    using attach_slas_idempotent [OF example_sla_wf, of "''ticket''" 9 "Some ''P2''" None None] by blast
qed

section \<open>Changing the priority\<close>

lemma other_priority_total:
  assumes "sla_wf s" and "t \<in> set (db_task_slas s)"
  shows "\<exists>d. get_row sd_id (sl_definition_id t) (db_sla_definitions s) = Some d \<and>
    other_priority s priority t = Inr (\<not> closed_sla t \<and> truthy (sd_priority d) \<and> sd_priority d \<noteq> priority)"
  using assms by (auto simp: sla_wf_def list_all_iff other_priority_def sla_definition_of_def)

definition cancelled_sla :: "datetime \<Rightarrow> task_sla \<Rightarrow> task_sla" where
  "cancelled_sla clock t = t\<lparr>sl_stage := ''Cancelled'', sl_stopped_at := Some clock\<rparr>"

lemma cancel_loop:
  assumes wf: "sla_wf s" and xs: "xs = filter P (db_task_slas s)"
  shows "\<exists>s'. foldE (cancel_replaced_sla priority) xs s = Inr s' \<and> sla_core s' = sla_core s \<and> sla_wf s' \<and>
    db_task_slas s' = map (\<lambda>t. if P t then cancelled_sla (db_clock s) t else t) (db_task_slas s)"
proof -
  have dist: "distinct (map sl_id (db_task_slas s))" using wf by (simp add: sla_wf_def)
  have "\<exists>s'. foldE (cancel_replaced_sla priority) xs s = Inr s' \<and> sla_core s' = sla_core s \<and>
      db_task_slas s' = map (\<lambda>t. if sl_id t \<in> sl_id ` set xs then cancelled_sla (db_clock s) t else t) (db_task_slas s)"
  proof (rule foldE_map_rows)
    fix t s1
    assume t: "t \<in> set xs" and core: "sla_core s1 = sla_core s"
      and mem: "t \<in> set (db_task_slas s1)" and dist: "distinct (map sl_id (db_task_slas s1))"
    from t wf obtain d where "get_row sd_id (sl_definition_id t) (db_sla_definitions s1) = Some d"
      using sla_core_fields [OF core] by (auto simp: xs sla_wf_def list_all_iff)
    then show "\<exists>s'. cancel_replaced_sla priority t s1 = Inr s' \<and> sla_core s' = sla_core s \<and>
        db_task_slas s' = map (\<lambda>r. if sl_id r = sl_id t then cancelled_sla (db_clock s) r else r) (db_task_slas s1)"
      using core put_row_map [OF dist mem, of "cancelled_sla (db_clock s)"] sla_core_fields [OF core]
      by (simp add: cancel_replaced_sla_def sla_definition_of_def cancelled_sla_def)
  qed (simp_all add: xs dist distinct_map_filter subset_iff cancelled_sla_def)
  then obtain s' where s': "foldE (cancel_replaced_sla priority) xs s = Inr s'" "sla_core s' = sla_core s"
      "db_task_slas s' = map (\<lambda>t. if P t then cancelled_sla (db_clock s) t else t) (db_task_slas s)"
    unfolding xs map_filter_keys [OF dist] by blast
  moreover have "sla_wf s'"
    by (rule sla_wf_map [OF wf s'(2,3)]) (auto simp: cancelled_sla_def pause_recorded_def)
  ultimately show ?thesis by blast
qed

definition carried :: "int \<Rightarrow> task_sla \<Rightarrow> task_sla" where
  "carried paused t = t\<lparr>sl_paused_seconds := paused, sl_breach_at := sl_breach_at t + paused * 1000000\<rparr>"

text \<open>Two rows of one SLA that differ in its clock at most.\<close>

definition same_sla :: "task_sla \<Rightarrow> task_sla \<Rightarrow> bool" where
  "same_sla t t' \<longleftrightarrow> sl_id t' = sl_id t \<and> sl_definition_id t' = sl_definition_id t
     \<and> sl_target_type t' = sl_target_type t \<and> sl_target_id t' = sl_target_id t
     \<and> sl_stage t' = sl_stage t \<and> sl_started_at t' = sl_started_at t"

lemma carry_loop:
  assumes wf: "sla_wf s"
  shows "\<exists>g. db_task_slas (fold (carry_pause existing paused) (slas_of s ty i) s) = map g (db_task_slas s)
    \<and> (\<forall>t. same_sla t (g t))
    \<and> sla_core (fold (carry_pause existing paused) (slas_of s ty i) s) = sla_core s
    \<and> sla_wf (fold (carry_pause existing paused) (slas_of s ty i) s)"
proof -
  let ?s' = "fold (carry_pause existing paused) (slas_of s ty i) s"
  let ?h = "\<lambda>t. if sl_id t \<notin> set existing \<and> paused \<noteq> 0 then carried paused t else t"
  let ?g = "\<lambda>t. if on_record ty i t then ?h t else t"
  have dist: "distinct (map sl_id (db_task_slas s))" using wf by (simp add: sla_wf_def)
  have "sla_core ?s' = sla_core s \<and>
      db_task_slas ?s' = map (\<lambda>t. if sl_id t \<in> sl_id ` set (slas_of s ty i) then ?h t else t) (db_task_slas s)"
  proof (rule fold_map_rows)
    fix t s1
    assume "sla_core s1 = sla_core s" and mem: "t \<in> set (db_task_slas s1)"
      and dist: "distinct (map sl_id (db_task_slas s1))"
    moreover have "map (\<lambda>r. if sl_id r = sl_id t then ?h r else r) (db_task_slas s1) =
        (if sl_id t \<notin> set existing \<and> paused \<noteq> 0 then put_row sl_id (carried paused t) (db_task_slas s1)
         else db_task_slas s1)"
      using put_row_map [OF dist mem, of ?h] put_row_map [OF dist mem, of "\<lambda>t. t"]
      by (auto simp: carried_def)
    ultimately show "sla_core (carry_pause existing paused t s1) = sla_core s \<and>
        db_task_slas (carry_pause existing paused t s1) =
          map (\<lambda>r. if sl_id r = sl_id t then ?h r else r) (db_task_slas s1)"
      by (auto simp: carry_pause_def carried_def)
  qed (simp_all add: slas_of_alt dist distinct_map_filter subset_iff carried_def)
  then have s': "sla_core ?s' = sla_core s" "db_task_slas ?s' = map ?g (db_task_slas s)"
    unfolding slas_of_alt map_filter_keys [OF dist] by auto
  moreover have "sla_wf ?s'"
    by (rule sla_wf_map [OF wf s']) (auto simp: carried_def pause_recorded_def)
  ultimately show ?thesis by (intro exI [of _ ?g]) (auto simp: same_sla_def carried_def)
qed

definition under_other_priority :: "db \<Rightarrow> string option \<Rightarrow> task_sla \<Rightarrow> bool" where
  "under_other_priority s priority t \<longleftrightarrow> \<not> closed_sla t \<and>
     (case get_row sd_id (sl_definition_id t) (db_sla_definitions s) of
        None \<Rightarrow> False | Some d \<Rightarrow> truthy (sd_priority d) \<and> sd_priority d \<noteq> priority)"

lemma under_other_priority_weaken:
  assumes "closed_sla t \<Longrightarrow> closed_sla t'" and "sl_definition_id t' = sl_definition_id t"
    and "under_other_priority s priority t'"
  shows "under_other_priority s priority t"
  using assms by (auto simp: under_other_priority_def)

lemma under_other_priority_core:
  assumes "sla_core s' = sla_core s"
  shows "under_other_priority s' priority t = under_other_priority s priority t"
  by (simp add: under_other_priority_def sla_core_fields [OF assms])

lemma replaced_slas:
  assumes "sla_wf s"
  shows "filterE (other_priority s priority) (slas_of s ty i)
      = Inr (filter (under_other_priority s priority) (slas_of s ty i))"
  by (rule filterE_total)
    (use other_priority_total [OF assms] in \<open>force simp: slas_of_alt under_other_priority_def\<close>)

lemma synced_in_closed: "closed_sla t \<Longrightarrow> closed_sla (synced_in s state t)"
  by (simp add: synced_in_def synced_def split: option.split)

lemma fresh_not_other:
  assumes "distinct (map sd_id (db_sla_definitions s))" and "d \<in> set (db_sla_definitions s)"
    and "sl_definition_id t = sd_id d" and "\<not> (truthy (sd_priority d) \<and> sd_priority d \<noteq> priority)"
  shows "\<not> under_other_priority s priority t"
  using get_row_distinct [OF assms(1,2)] assms(3,4) by (simp add: under_other_priority_def)

lemma attach_slas_at_priority:
  assumes "sla_wf s" and "sla_config_ok s"
  shows "\<exists>s' new. attach_slas ty i priority org (Some started) s = Inr s' \<and> sla_wf s' \<and> sla_core s' = sla_core s
      \<and> db_task_slas s' = db_task_slas s @ new
      \<and> list_all (\<lambda>t. sl_started_at t = started \<and> \<not> under_other_priority s priority t) new"
proof -
  have ids: "distinct (map sd_id (db_sla_definitions s))" using assms(2) by (simp add: sla_config_ok_def)
  obtain s' new where s': "attach_slas ty i priority org (Some started) s = Inr s'" "sla_wf s'"
      "sla_core s' = sla_core s" "db_task_slas s' = db_task_slas s @ new"
      "list_all (\<lambda>t. on_record ty i t \<and> sl_started_at t = opt (db_clock s) (Some started)
          \<and> (\<exists>d \<in> set (db_sla_definitions s). sl_definition_id t = sd_id d
               \<and> Some (sd_tenant_id d) = sla_target_tenant s ty i
               \<and> \<not> (truthy (sd_priority d) \<and> sd_priority d \<noteq> priority))) new"
    using attach_slas_step [OF assms] by blast
  from s'(5) have "list_all (\<lambda>t. sl_started_at t = started \<and> \<not> under_other_priority s priority t) new"
    by (auto simp: list_all_iff dest: fresh_not_other [OF ids])
  with s'(1-4) show ?thesis by blast
qed

text \<open>
  C15. Changing the priority of a record moves its clocks without resetting them: the operation always
  succeeds under an accepted configuration, leaves no SLA of the record running under the definition
  of another priority, and every SLA it starts counts from the earliest start of those it replaces.
\<close>

theorem retarget_keeps_clock:
  assumes wf: "sla_wf s" and cfg: "sla_config_ok s"
  shows "\<exists>s'. retarget_slas ty i priority state org s = Inr s' \<and> sla_wf s' \<and> sla_core s' = sla_core s
      \<and> filter (under_other_priority s' priority) (slas_of s' ty i) = []
      \<and> list_all (\<lambda>t. sl_id t \<in> sl_id ` set (db_task_slas s) \<or>
           sl_started_at t = Min (sl_started_at ` {t \<in> set (slas_of s ty i). under_other_priority s priority t}))
          (slas_of s' ty i)"
proof -
  let ?repl = "filter (under_other_priority s priority) (slas_of s ty i)"
  let ?P = "\<lambda>t. on_record ty i t \<and> under_other_priority s priority t"
  let ?start = "Min (sl_started_at ` {t \<in> set (slas_of s ty i). under_other_priority s priority t})"
  have repl: "?repl = filter ?P (db_task_slas s)" by (simp add: slas_of_alt conj_commute)
  show ?thesis
  proof (cases "?repl = []")
    case True
    then have "retarget_slas ty i priority state org s = Inr s"
      by (simp add: retarget_slas_def replaced_slas [OF wf])
    with wf True show ?thesis by (auto simp: list_all_iff slas_of_alt)
  next
    case False
    define clock where "clock = db_clock s"
    obtain s1 where s1: "foldE (cancel_replaced_sla priority) ?repl s = Inr s1" "sla_core s1 = sla_core s" "sla_wf s1"
        "db_task_slas s1 = map (\<lambda>t. if ?P t then cancelled_sla clock t else t) (db_task_slas s)"
      using cancel_loop [OF wf repl] unfolding clock_def by blast
    note f1 = sla_core_fields [OF s1(2)]
    have cfg1: "sla_config_ok s1" using cfg by (simp add: sla_config_ok_def f1)
    let ?started = "Min (set (map sl_started_at ?repl))"
    have start: "?started = ?start" by (auto intro: arg_cong [of _ _ Min])
    obtain s2 new where s2: "attach_slas ty i priority org (Some ?started) s1 = Inr s2" "sla_wf s2"
        "sla_core s2 = sla_core s1" "db_task_slas s2 = db_task_slas s1 @ new"
        "list_all (\<lambda>t. sl_started_at t = ?started \<and> \<not> under_other_priority s1 priority t) new"
      using attach_slas_at_priority [OF s1(3) cfg1] by blast
    have new: "sl_started_at t = ?start \<and> \<not> under_other_priority s priority t" if "t \<in> set new" for t
      using that s2(5) unfolding start list_all_iff under_other_priority_core [OF s1(2)] by blast
    let ?paused = "Max (set (map (paused_total (db_clock s)) ?repl))"
    define s3 where "s3 = fold (carry_pause (map sl_id (slas_of s1 ty i)) ?paused) (slas_of s2 ty i) s2"
    obtain g where g: "db_task_slas s3 = map g (db_task_slas s2)" "sla_core s3 = sla_core s2" "sla_wf s3"
        and g': "\<And>t. same_sla t (g t)"
      using carry_loop [OF s2(2)] unfolding s3_def by metis
    obtain s' where s': "sync_slas ty i state s3 = Inr s'" "sla_wf s'" "sla_core s' = sla_core s3"
        "db_task_slas s' = map (\<lambda>t. if on_record ty i t then synced_in s3 state t else t) (db_task_slas s3)"
      using sync_slas_rows [OF g(3)] by blast
    have core: "sla_core s' = sla_core s" using s'(3) g(2) s2(3) s1(2) by simp
    have run: "retarget_slas ty i priority state org s = Inr s'"
      using False s1(1) s2(1) s'(1) by (simp add: retarget_slas_def replaced_slas [OF wf] Let_def s3_def)
    have row: "\<not> under_other_priority s priority t \<and> (sl_id t \<in> sl_id ` set (db_task_slas s) \<or> sl_started_at t = ?start)"
      if "t \<in> set (slas_of s' ty i)" for t
    proof -
      from that obtain t2 where t2: "t2 \<in> set (db_task_slas s2)" "t = synced_in s3 state (g t2)" "on_record ty i t"
        by (auto simp: slas_of_alt s'(4) g(1) split: if_splits)
      have keep: "sl_definition_id t = sl_definition_id t2" "sl_id t = sl_id t2" "sl_started_at t = sl_started_at t2"
          "closed_sla t2 \<Longrightarrow> closed_sla t" "on_record ty i t2"
        using g' [of t2] t2(2,3) synced_in_closed [of "g t2"] by (auto simp: same_sla_def closed_sla_def on_record_def)
      from t2(1) consider "t2 \<in> set new" | t0 where "t0 \<in> set (db_task_slas s)"
          "t2 = (if ?P t0 then cancelled_sla clock t0 else t0)"
        unfolding s2(4) s1(4) by auto
      then show ?thesis
      proof cases
        case 1
        then show ?thesis using new under_other_priority_weaken [of t2 t s priority] keep by auto
      next
        case 2
        then have "\<not> under_other_priority s priority t2" "sl_id t2 = sl_id t0"
          using keep(5) by (auto simp: cancelled_sla_def under_other_priority_def closed_sla_def on_record_def)
        with 2(1) show ?thesis using under_other_priority_weaken [of t2 t s priority] keep by auto
      qed
    qed
    then show ?thesis
      using run s'(2) core
      by (auto simp: filter_empty_conv list_all_iff under_other_priority_core [OF core])
  qed
qed

theorem retarget_keeps_clock_witness:
  "\<exists>s'. retarget_slas ''ticket'' 9 (Some ''P1'') ''In Progress'' None example_sla_db = Inr s'
     \<and> filter (under_other_priority s' (Some ''P1'')) (slas_of s' ''ticket'' 9) = []"
proof -
  have "sla_config_ok example_sla_db"
    by (simp add: sla_config_ok_def example_sla_db_def example_definition_def empty_db_def)
  with retarget_keeps_clock [OF example_sla_wf, of "''ticket''" 9 "Some ''P1''" "''In Progress''" None]
  show ?thesis by blast
qed

section \<open>Breaches\<close>

lemma process_sla_breach_effect:
  assumes "sla_definition_of s t = Inr d"
  shows "\<exists>s'. process_sla_breach t s = Inr s'
      \<and> db_task_slas s' = put_row sl_id (t\<lparr>sl_breached := True\<rparr>) (db_task_slas s)
      \<and> db_sla_definitions s' = db_sla_definitions s \<and> db_clock s' = db_clock s
      \<and> map (\<lambda>e. (se_event_type e, se_task_sla_id e)) (db_sla_events s')
        = map (\<lambda>e. (se_event_type e, se_task_sla_id e)) (db_sla_events s) @ [(''Breached'', sl_id t)]"
  using assms
  by (simp add: process_sla_breach_def Let_def fold_unchanged [where g = db_task_slas]
      fold_unchanged [where g = db_sla_definitions] fold_unchanged [where g = db_clock]
      fold_unchanged [where g = db_sla_events] save_sla_def add_sla_event_def split: option.split)

lemma breach_events:
  assumes "foldE process_sla_breach xs s = Inr s'"
  shows "map (\<lambda>e. (se_event_type e, se_task_sla_id e)) (db_sla_events s')
        = map (\<lambda>e. (se_event_type e, se_task_sla_id e)) (db_sla_events s) @ map (\<lambda>t. (''Breached'', sl_id t)) xs"
  using assms
proof (induction xs arbitrary: s)
  case Nil
  then show ?case by simp
next
  case (Cons t xs)
  then obtain s1 where s1: "process_sla_breach t s = Inr s1" "foldE process_sla_breach xs s1 = Inr s'"
    by (auto simp: bindE_Inr_iff)
  then obtain d where "sla_definition_of s t = Inr d"
    by (auto simp: process_sla_breach_def bindE_Inr_iff)
  from process_sla_breach_effect [OF this] s1(1) Cons.IH [OF s1(2)] show ?case by auto
qed

lemma breach_batch_rows:
  assumes "distinct (map sl_id (db_task_slas s))"
  shows "set (breach_batch limit s) \<subseteq> set (filter (overdue (db_clock s)) (db_task_slas s))"
    and "distinct (map sl_id (breach_batch limit s))"
proof -
  let ?all = "sort_key sl_breach_at (filter (overdue (db_clock s)) (db_task_slas s))"
  show "set (breach_batch limit s) \<subseteq> set (filter (overdue (db_clock s)) (db_task_slas s))"
    by (auto simp: breach_batch_def dest: in_set_takeD)
  have "distinct (map sl_id ?all)"
    using distinct_map_filter [OF assms, of "overdue (db_clock s)"]
    by (simp add: distinct_map)
  then show "distinct (map sl_id (breach_batch limit s))"
    by (simp add: breach_batch_def take_map [symmetric] distinct_take)
qed

text \<open>
  C16. Breach processing on a well-formed SLA table always completes. It takes at most the given number
  of overdue SLAs, flags exactly those and no other, records exactly one breach event for each, and
  when the limit covers all overdue SLAs none is left: an SLA is escalated once and not missed.
\<close>

theorem breaches_escalated_once:
  assumes wf: "sla_wf s"
  shows "\<exists>s'. process_sla_breaches limit s = Inr (length (breach_batch limit s), s')
      \<and> length (breach_batch limit s) \<le> limit
      \<and> db_task_slas s' = map (\<lambda>t. if t \<in> set (breach_batch limit s) then t\<lparr>sl_breached := True\<rparr> else t) (db_task_slas s)
      \<and> map (\<lambda>e. (se_event_type e, se_task_sla_id e)) (db_sla_events s')
        = map (\<lambda>e. (se_event_type e, se_task_sla_id e)) (db_sla_events s)
          @ map (\<lambda>t. (''Breached'', sl_id t)) (breach_batch limit s)
      \<and> (length (filter (overdue (db_clock s)) (db_task_slas s)) \<le> limit
         \<longrightarrow> filter (overdue (db_clock s)) (db_task_slas s') = [])"
proof -
  let ?xs = "breach_batch limit s" and ?h = "\<lambda>t. t\<lparr>sl_breached := True\<rparr>"
  have dist: "distinct (map sl_id (db_task_slas s))" using wf by (simp add: sla_wf_def)
  note batch = breach_batch_rows [OF dist, of limit]
  have "\<exists>s'. foldE process_sla_breach ?xs s = Inr s' \<and> db_sla_definitions s' = db_sla_definitions s \<and>
      db_task_slas s' = map (\<lambda>t. if sl_id t \<in> sl_id ` set ?xs then ?h t else t) (db_task_slas s)"
  proof (rule foldE_map_rows)
    fix t and s1 :: db
    assume t: "t \<in> set ?xs" and defs: "db_sla_definitions s1 = db_sla_definitions s"
      and mem: "t \<in> set (db_task_slas s1)" and dist: "distinct (map sl_id (db_task_slas s1))"
    from t batch(1) wf obtain d where "sla_definition_of s1 t = Inr d"
      using defs by (fastforce simp: sla_wf_def list_all_iff sla_definition_of_def)
    from process_sla_breach_effect [OF this] defs
    show "\<exists>s'. process_sla_breach t s1 = Inr s' \<and> db_sla_definitions s' = db_sla_definitions s \<and>
        db_task_slas s' = map (\<lambda>r. if sl_id r = sl_id t then ?h r else r) (db_task_slas s1)"
      using put_row_map [OF dist mem, of ?h] by auto
  qed (use dist batch in auto)
  then obtain s' where s': "foldE process_sla_breach ?xs s = Inr s'"
      "db_task_slas s' = map (\<lambda>t. if sl_id t \<in> sl_id ` set ?xs then ?h t else t) (db_task_slas s)" by blast
  have "sl_id t \<in> sl_id ` set ?xs \<longleftrightarrow> t \<in> set ?xs" if "t \<in> set (db_task_slas s)" for t
  proof
    assume "sl_id t \<in> sl_id ` set ?xs"
    then obtain x where "x \<in> set ?xs" "sl_id t = sl_id x" by auto
    moreover from this(1) have "x \<in> set (db_task_slas s)" using batch(1) by auto
    ultimately show "t \<in> set ?xs" using row_of_key [OF dist that] by metis
  qed simp
  then have rows: "db_task_slas s' = map (\<lambda>t. if t \<in> set ?xs then ?h t else t) (db_task_slas s)"
    unfolding s'(2) by (intro map_cong) auto
  have "set ?xs = set (filter (overdue (db_clock s)) (db_task_slas s))"
    if "length (filter (overdue (db_clock s)) (db_task_slas s)) \<le> limit"
    using that by (simp add: breach_batch_def)
  then have "length (filter (overdue (db_clock s)) (db_task_slas s)) \<le> limit \<longrightarrow>
      filter (overdue (db_clock s)) (db_task_slas s') = []"
    by (auto simp: rows filter_empty_conv overdue_def)
  then show ?thesis
    using s'(1) rows breach_events [OF s'(1)]
    by (auto simp: process_sla_breaches_def breach_batch_def)
qed

theorem breaches_escalated_once_witness:
  "\<exists>s'. process_sla_breaches 50 (example_sla_db\<lparr>db_clock := 3600000000\<rparr>) = Inr (1, s')
     \<and> filter (overdue 3600000000) (db_task_slas s') = []"
proof -
  let ?s = "example_sla_db\<lparr>db_clock := 3600000000\<rparr>"
  have wf: "sla_wf ?s" using example_sla_wf by (simp add: sla_wf_def)
  have all: "filter (overdue 3600000000) (db_task_slas ?s) = [example_sla]"
    by (simp add: example_sla_db_def example_sla_def overdue_def)
  then have batch: "breach_batch 50 ?s = [example_sla]" by (simp add: breach_batch_def)
  show ?thesis using breaches_escalated_once [OF wf, of 50] all by (auto simp: batch)
qed

section \<open>Ending one record among many\<close>

lemma sync_slas_ended:
  assumes "sla_wf s"
  shows "\<exists>s'. sync_slas ty j st s = Inr s' \<and> sla_wf s' \<and> sla_core s' = sla_core s
    \<and> (list_all closed_sla (slas_of s ty i) \<longrightarrow> list_all closed_sla (slas_of s' ty i))
    \<and> (i = j \<and> st \<in> set ([''Cancelled'', ''Rejected''] @ sla_stop_states) \<longrightarrow> list_all closed_sla (slas_of s' ty i))"
proof -
  let ?f = "\<lambda>t. if on_record ty j t then synced_in s st t else t"
  obtain s' where s': "sync_slas ty j st s = Inr s'" "sla_wf s'" "sla_core s' = sla_core s"
      "db_task_slas s' = map ?f (db_task_slas s)"
    using sync_slas_rows [OF assms] by blast
  have "\<exists>d. get_row sd_id (sl_definition_id t) (db_sla_definitions s) = Some d" if "t \<in> set (db_task_slas s)" for t
    using that assms by (auto simp: sla_wf_def list_all_iff)
  then have "closed_sla (synced_in s st t)"
    if "t \<in> set (db_task_slas s)" and "st \<in> set ([''Cancelled'', ''Rejected''] @ sla_stop_states)" for t
    using that synced_stops by (fastforce simp: synced_in_def)
  with s' show ?thesis
    by (intro exI [of _ s']) (auto simp: slas_of_alt list_all_iff synced_in_closed)
qed

end
