(* ===== verification/Lifecycle.thy ===== *)
theory Lifecycle
  imports Prelude
begin

text \<open>
  The state machines of \<^verbatim>\<open>serviceops_core/task_lifecycle.py\<close>: the transition tables of tickets,
  enterprise records, catalog tasks and operational tasks, the look-up every transition handler uses,
  and the lifecycle track shown to users. The locale \<open>lifecycle\<close> states what a transition table owes
  its users (every state may be kept, every target is a state of the table, a final state is never
  left) and derives what holds along every run; each of the four tables interprets it.
\<close>

type_synonym transition_table = "(string \<times> string list) list"

definition FINISHED_TICKET_STATES :: "string list" where
  "FINISHED_TICKET_STATES = [''Resolved'', ''Closed'', ''Cancelled'', ''Rejected'']"

definition FINISHED_REQUEST_STATES :: "string list" where
  "FINISHED_REQUEST_STATES = [''Closed Complete'', ''Closed Incomplete'', ''Cancelled'']"

definition TICKET_TRANSITIONS :: transition_table where
  "TICKET_TRANSITIONS =
    [(''New'', [''New'', ''In Progress'', ''Pending'', ''Resolved'', ''Cancelled'']),
     (''In Progress'', [''In Progress'', ''Pending'', ''Resolved'', ''Cancelled'']),
     (''Pending'', [''Pending'', ''In Progress'', ''Resolved'', ''Cancelled'']),
     (''Resolved'', [''Resolved'', ''In Progress'', ''Closed'']),
     (''Closed'', [''Closed'']),
     (''Cancelled'', [''Cancelled'']),
     (''Approved'', [''Approved'', ''In Progress'', ''Cancelled'']),
     (''Awaiting Approval'', [''Awaiting Approval'', ''Cancelled'']),
     (''Rejected'', [''Rejected''])]"

definition ENTERPRISE_TRANSITIONS :: transition_table where
  "ENTERPRISE_TRANSITIONS =
    [(''New'', [''New'', ''Open'', ''In Progress'', ''Pending'', ''Resolved'', ''Completed'', ''Closed'']),
     (''Open'', [''Open'', ''In Progress'', ''Pending'', ''Resolved'', ''Completed'', ''Closed'']),
     (''In Progress'', [''In Progress'', ''Pending'', ''Resolved'', ''Completed'', ''Closed'']),
     (''Pending'', [''Pending'', ''In Progress'', ''Resolved'', ''Completed'', ''Closed'']),
     (''Resolved'', [''Resolved'', ''In Progress'', ''Closed'']),
     (''Completed'', [''Completed'', ''Closed'']),
     (''Closed'', [''Closed'']),
     (''Approved'', [''Approved'', ''In Progress'', ''Pending'', ''Completed'', ''Closed'']),
     (''Awaiting Approval'', [''Awaiting Approval'']),
     (''Rejected'', [''Rejected''])]"

definition CATALOG_TASK_TRANSITIONS :: transition_table where
  "CATALOG_TASK_TRANSITIONS =
    [(''Open'', [''Open'', ''Work in Progress'', ''Pending'', ''Closed Complete'', ''Closed Incomplete'',
                 ''Closed Skipped'']),
     (''Work in Progress'', [''Work in Progress'', ''Pending'', ''Closed Complete'', ''Closed Incomplete'',
                 ''Closed Skipped'']),
     (''Pending'', [''Pending'', ''Work in Progress'', ''Closed Complete'', ''Closed Incomplete'',
                 ''Closed Skipped'']),
     (''Closed Complete'', [''Closed Complete'']),
     (''Closed Incomplete'', [''Closed Incomplete'']),
     (''Closed Skipped'', [''Closed Skipped''])]"

definition OPERATIONAL_TASK_TRANSITIONS :: transition_table where
  "OPERATIONAL_TASK_TRANSITIONS =
    [(''Open'', [''Open'', ''Work in Progress'', ''Pending'', ''Closed Complete'', ''Closed Incomplete'',
                 ''Cancelled'']),
     (''Work in Progress'', [''Work in Progress'', ''Pending'', ''Closed Complete'', ''Closed Incomplete'',
                 ''Cancelled'']),
     (''Pending'', [''Pending'', ''Work in Progress'', ''Closed Complete'', ''Closed Incomplete'',
                 ''Cancelled'']),
     (''Closed Complete'', [''Closed Complete'']),
     (''Closed Incomplete'', [''Closed Incomplete'']),
     (''Cancelled'', [''Cancelled''])]"

definition STATE_TRACK_ORDER :: "(string \<times> string list) list" where
  "STATE_TRACK_ORDER =
    [(''incident'', [''New'', ''In Progress'', ''Pending'', ''Resolved'', ''Closed'']),
     (''request'', [''New'', ''In Progress'', ''Pending'', ''Resolved'', ''Closed'']),
     (''change'', [''New'', ''Awaiting Approval'', ''Approved'', ''In Progress'', ''Pending'', ''Resolved'',
                   ''Closed'']),
     (''problem'', [''New'', ''Open'', ''In Progress'', ''Pending'', ''Resolved'', ''Completed'', ''Closed'']),
     (''ritm'', [''Awaiting Approval'', ''Open'', ''Closed Complete'']),
     (''catalog_task'', [''Open'', ''Work in Progress'', ''Pending'', ''Closed Complete''])]"

definition allowed_states :: "transition_table \<Rightarrow> string \<Rightarrow> string list" where
  "allowed_states transition_table current_state =
     opt [current_state] (map_of transition_table current_state)"

text \<open>\<^verbatim>\<open>order.index(x)\<close> for a member of the list.\<close>

fun index_of :: "'a \<Rightarrow> 'a list \<Rightarrow> nat" where
  "index_of x [] = 0"
| "index_of x (y # ys) = (if x = y then 0 else Suc (index_of x ys))"

definition build_state_track :: "string \<Rightarrow> string \<Rightarrow> (string \<times> string) list" where
  "build_state_track kind current_state =
     (let order = opt (opt [] (map_of STATE_TRACK_ORDER ''incident'')) (map_of STATE_TRACK_ORDER kind) in
      if current_state \<notin> set order
      then map (\<lambda>step. (step, ''upcoming'')) order @ [(current_state, ''current'')]
      else let idx = index_of current_state order in
           map (\<lambda>(i, step). (step, if i < idx then ''done'' else if i = idx then ''current'' else ''upcoming''))
             (enumerate 0 order))"

section \<open>What a transition table owes its users\<close>

text \<open>A run: any number of allowed moves.\<close>

inductive run :: "transition_table \<Rightarrow> string \<Rightarrow> string \<Rightarrow> bool" for table s where
  stay: "run table s s"
| move: "run table s t \<Longrightarrow> u \<in> set (allowed_states table t) \<Longrightarrow> run table s u"

inductive_simps run_iff: "run table s t"

lemma run_trans: "run table s t \<Longrightarrow> run table t u \<Longrightarrow> run table s u"
  by (rotate_tac, induction rule: run.induct) (blast intro: run.intros)+

locale lifecycle =
  fixes table :: transition_table and final :: "string list"
  assumes reflexive: "list_all (\<lambda>(s, ts). s \<in> set ts) table"
    and closed: "list_all (\<lambda>(s, ts). list_all (\<lambda>t. map_of table t \<noteq> None) ts) table"
    and final_kept: "list_all (\<lambda>s. map_of table s = Some [s]) final"
begin

lemma stay_allowed: "s \<in> set (allowed_states table s)"
  using reflexive map_of_SomeD [of table s]
  by (fastforce simp: allowed_states_def list_all_iff split: option.split)

lemma allowed_known:
  assumes "map_of table s \<noteq> None" and "t \<in> set (allowed_states table s)"
  shows "map_of table t \<noteq> None"
  using assms closed map_of_SomeD [of table s]
  by (fastforce simp: allowed_states_def list_all_iff)

lemma final_absorbing: "s \<in> set final \<Longrightarrow> run table s t \<Longrightarrow> t = s"
proof -
  assume "s \<in> set final"
  then have keep: "allowed_states table s = [s]"
    using final_kept by (auto simp: allowed_states_def list_all_iff)
  assume "run table s t"
  then show "t = s"
    by (induction rule: run.induct) (use keep in auto)
qed

lemma run_known: "map_of table s \<noteq> None \<Longrightarrow> run table s t \<Longrightarrow> map_of table t \<noteq> None"
  by (rotate_tac, induction rule: run.induct) (use allowed_known in blast)+

lemma unknown_kept: "map_of table s = None \<Longrightarrow> run table s t \<Longrightarrow> t = s"
  by (rotate_tac, induction rule: run.induct) (auto simp: allowed_states_def)

end

interpretation ticket_lifecycle: lifecycle TICKET_TRANSITIONS "[''Closed'', ''Cancelled'', ''Rejected'']"
  by unfold_locales (simp_all add: TICKET_TRANSITIONS_def)

interpretation enterprise_lifecycle: lifecycle ENTERPRISE_TRANSITIONS "[''Closed'', ''Rejected'']"
  by unfold_locales (simp_all add: ENTERPRISE_TRANSITIONS_def)

interpretation catalog_task_lifecycle: lifecycle CATALOG_TASK_TRANSITIONS
    "[''Closed Complete'', ''Closed Incomplete'', ''Closed Skipped'']"
  by unfold_locales (simp_all add: CATALOG_TASK_TRANSITIONS_def)

interpretation operational_task_lifecycle: lifecycle OPERATIONAL_TASK_TRANSITIONS
    "[''Closed Complete'', ''Closed Incomplete'', ''Cancelled'']"
  by unfold_locales (simp_all add: OPERATIONAL_TASK_TRANSITIONS_def)

text \<open>
  A ticket that is Closed, Cancelled or Rejected never leaves that state, however many moves the
  lifecycle table allows.
\<close>

theorem ticket_lifecycle_ends:
  "s \<in> set [''Closed'', ''Cancelled'', ''Rejected''] \<Longrightarrow> run TICKET_TRANSITIONS s t \<Longrightarrow> t = s"
  by (rule ticket_lifecycle.final_absorbing)

theorem ticket_lifecycle_ends_witness:
  "run TICKET_TRANSITIONS ''Closed'' ''Closed'' \<and> \<not> run TICKET_TRANSITIONS ''Closed'' ''In Progress''"
  using run.stay ticket_lifecycle_ends [of "''Closed''" "''In Progress''"] by auto

lemma open_ticket_can_finish:
  assumes "s \<in> set (map fst TICKET_TRANSITIONS)"
  shows "\<exists>t \<in> set FINISHED_TICKET_STATES. t \<in> set (allowed_states TICKET_TRANSITIONS s)"
  using assms
  by (auto simp: TICKET_TRANSITIONS_def FINISHED_TICKET_STATES_def allowed_states_def)

section \<open>The lifecycle track\<close>

lemma index_of_less: "x \<in> set xs \<Longrightarrow> index_of x xs < length xs"
  by (induction xs) auto

lemma nth_index_of: "x \<in> set xs \<Longrightarrow> xs ! index_of x xs = x"
  by (induction xs) auto

lemma index_of_nth: "distinct xs \<Longrightarrow> i < length xs \<Longrightarrow> index_of (xs ! i) xs = i"
  by (rule ccontr) (metis nth_mem index_of_less nth_index_of nth_eq_iff_index_eq)

lemma filter_enumerate_single:
  "i < length xs \<Longrightarrow> filter (\<lambda>(j, x). j = n + i) (enumerate n xs) = [(n + i, xs ! i)]"
proof (induction xs arbitrary: n i)
  case Nil
  then show ?case by simp
next
  case (Cons x xs)
  show ?case
  proof (cases i)
    case 0
    have "filter (\<lambda>(j, y). j = n) (enumerate (Suc n) xs) = []"
      by (auto simp: filter_empty_conv in_set_enumerate_eq)
    with 0 show ?thesis by simp
  next
    case (Suc k)
    with Cons show ?thesis using Cons.IH [of k "Suc n"] by simp
  qed
qed

text \<open>
  The track marks exactly one step as current, and it is the state the record is in: for every kind
  of record and every state, known or not.
\<close>

theorem state_track_current:
  "filter (\<lambda>(name, status). status = ''current'') (build_state_track kind current_state) =
     [(current_state, ''current'')]"
proof -
  define order where
    "order = opt (opt [] (map_of STATE_TRACK_ORDER ''incident'')) (map_of STATE_TRACK_ORDER kind)"
  show ?thesis
  proof (cases "current_state \<in> set order")
    case False
    then have "build_state_track kind current_state =
        map (\<lambda>step. (step, ''upcoming'')) order @ [(current_state, ''current'')]"
      by (simp add: build_state_track_def order_def Let_def)
    then show ?thesis by (simp add: filter_map o_def)
  next
    case True
    let ?i = "index_of current_state order"
    let ?mark = "\<lambda>(i, step). (step :: string,
        if i < ?i then ''done'' else if i = ?i then ''current'' else ''upcoming'')"
    have track: "build_state_track kind current_state = map ?mark (enumerate 0 order)"
      using True by (simp add: build_state_track_def Let_def flip: order_def)
    have pick: "(\<lambda>(name, status). status = ''current'') \<circ> ?mark = (\<lambda>(j, x). j = 0 + ?i)"
      by (auto simp: fun_eq_iff)
    show ?thesis
      unfolding track filter_map pick filter_enumerate_single [OF index_of_less [OF True]]
      by (simp add: nth_index_of [OF True])
  qed
qed

end
