(* ===== verification/Tasks.thy ===== *)
theory Tasks
  imports Platform Lifecycle
begin

text \<open>
  Operational tasks, the work items of a change, problem or incident (\<^verbatim>\<open>app.py\<close>): the rules that keep
  a change task waiting for its change, its transition, the event it publishes, and the cancellation
  of a record's unfinished tasks. The latest approval chain of a record, which the rules read, is here
  too.
\<close>

section \<open>The latest approval chain of a record\<close>

definition approval_chain_for :: "db \<Rightarrow> string \<Rightarrow> nat \<Rightarrow> approval_chain option" where
  "approval_chain_for s target_type target_id =
     (case rev (sort_key ch_id (filter (\<lambda>c. ch_target_type c = target_type \<and> ch_target_id c = target_id)
              (db_chains s))) of
        [] \<Rightarrow> None | c # _ \<Rightarrow> Some c)"

section \<open>Events of change tasks\<close>

definition parent_ticket :: "db \<Rightarrow> operational_task \<Rightarrow> ticket option" where
  "parent_ticket s task =
     (if ot_parent_type task = ''ticket'' then get_row tk_id (ot_parent_id task) (db_tickets s) else None)"

definition change_task_event_payload :: "db \<Rightarrow> operational_task \<Rightarrow> string \<Rightarrow> (string \<times> json) list" where
  "change_task_event_payload s task previous_state =
     [(''number'', JStr (ot_number task)),
      (''ticket'', jstr (map_option tk_number (parent_ticket s task))),
      (''title'', JStr (ot_title task)), (''task_type'', JStr (ot_task_type task)),
      (''state'', JStr (ot_state task)), (''previous_state'', JStr previous_state),
      (''required'', JBool (ot_required task)), (''sequence'', JInt (int (ot_sequence task))),
      (''assignment_group'', jstr (map_option g_name (get_row g_id (ot_assignment_group_id task) (db_groups s)))),
      (''assignee'', jstr (case ot_assignee_id task of
         None \<Rightarrow> None | Some u \<Rightarrow> map_option u_name (get_user s u)))]"

definition queue_change_task_state_event :: "operational_task \<Rightarrow> string \<Rightarrow> db \<Rightarrow> db" where
  "queue_change_task_state_event task previous_state s =
     (case parent_ticket s task of
        None \<Rightarrow> s
      | Some ticket \<Rightarrow>
          let payload = change_task_event_payload s task previous_state in
          if list_ex (\<lambda>c. event_matches (ic_event_types_json c) ''change_task.state_changed'' payload)
               (event_connections s (tk_tenant_id ticket))
          then add_outbox ''change_task.state_changed'' (sort_key fst payload) (tk_tenant_id ticket) s
          else s)"

interpretation queue_change_task_state_event: log_only "queue_change_task_state_event task previous_state"
  for task previous_state
  by unfold_locales
    (auto simp: queue_change_task_state_event_def Let_def db_core_def add_outbox_def split: option.split)

section \<open>The unlocking rules of change tasks\<close>

text \<open>\<open>Some\<close> a reason when the task has to stay Pending.\<close>

definition change_task_gate_block :: "db \<Rightarrow> operational_task \<Rightarrow> string \<Rightarrow> string option" where
  "change_task_gate_block s task new_state =
     (if ot_task_kind task \<noteq> ''change'' \<or> new_state \<in> set [''Pending'', ''Cancelled''] then None
      else if ot_task_type task = ''Planning'' then None
      else (case get_row tk_id (ot_parent_id task) (db_tickets s) of
          None \<Rightarrow> None
        | Some ticket \<Rightarrow>
            let siblings = filter (\<lambda>t. ot_parent_type t = ''ticket'' \<and> ot_parent_id t = tk_id ticket
                  \<and> ot_task_kind t = ''change'') (db_op_tasks s) in
            if ot_task_type task = ''Implementation'' then
              (case approval_chain_for s ''ticket'' (tk_id ticket) of
                 Some chain \<Rightarrow> if ch_state chain \<noteq> ''Approved'' then Some ''awaiting approvals'' else None
               | None \<Rightarrow> None)
            else if ot_task_type task = ''Testing'' then
              (let implementation_tasks = filter (\<lambda>t. ot_task_type t = ''Implementation'') siblings in
               if implementation_tasks \<noteq> [] \<and> \<not> list_ex (\<lambda>t. ot_state t = ''Closed Complete'') implementation_tasks
               then Some ''awaiting implementation'' else None)
            else if ot_task_type task = ''Review'' then
              (let prerequisite_tasks = filter (\<lambda>t. ot_task_type t \<in> set [''Implementation'', ''Testing'']
                     \<and> ot_required t \<and> ot_id t \<noteq> ot_id task) siblings;
                   incomplete = filter (\<lambda>t. ot_state t \<notin> set [''Closed Complete'', ''Closed Incomplete'', ''Cancelled''])
                     prerequisite_tasks
               in if incomplete \<noteq> [] then Some ''awaiting implementation and testing'' else None)
            else None))"

definition save_op_task :: "operational_task \<Rightarrow> db \<Rightarrow> db" where
  "save_op_task task s = s\<lparr>db_op_tasks := put_row ot_id task (db_op_tasks s)\<rparr>"

definition transition_operational_task :: "operational_task \<Rightarrow> string \<Rightarrow> db \<Rightarrow> db result" where
  "transition_operational_task task new_state s =
     (if new_state \<notin> set (allowed_states OPERATIONAL_TASK_TRANSITIONS (ot_state task))
      then Inl (Abort 409 ''cannot move'')
      else (case change_task_gate_block s task new_state of
          Some block \<Rightarrow> Inl (Abort 409 block)
        | None \<Rightarrow>
            let task' = task\<lparr>ot_state := new_state\<rparr>; s = save_op_task task' s in
            Inr (if ot_task_kind task = ''change'' \<and> new_state \<noteq> ot_state task
                 then queue_change_task_state_event task' (ot_state task) s else s)))"

section \<open>Cancelling the unfinished tasks of a record\<close>

definition OPEN_TASK_END_STATES :: "string list" where
  "OPEN_TASK_END_STATES = [''Closed Complete'', ''Closed Incomplete'', ''Closed Skipped'', ''Cancelled'']"

definition open_child_task :: "string \<Rightarrow> nat \<Rightarrow> operational_task \<Rightarrow> bool" where
  "open_child_task parent_type parent_id t \<longleftrightarrow> ot_parent_type t = parent_type \<and> ot_parent_id t = parent_id
     \<and> ot_state t \<notin> set OPEN_TASK_END_STATES"

definition open_child_tasks :: "db \<Rightarrow> string \<Rightarrow> nat \<Rightarrow> operational_task list" where
  "open_child_tasks s parent_type parent_id = filter (open_child_task parent_type parent_id) (db_op_tasks s)"

definition cancel_child_task :: "string \<Rightarrow> nat \<Rightarrow> string \<Rightarrow> operational_task \<Rightarrow> db \<Rightarrow> db" where
  "cancel_child_task parent_number tenant outcome task s =
     (let previous = ot_state task; task' = task\<lparr>ot_state := ''Cancelled''\<rparr>;
          s = save_op_task task' s;
          s = (if ot_task_kind task = ''change'' then queue_change_task_state_event task' previous s else s)
      in (case ot_assignee_id task of
            None \<Rightarrow> s
          | Some u \<Rightarrow> create_notification u (ot_number task @ '' was cancelled'')
              (parent_number @ '' was '' @ lower outcome @ '', so its task '' @ ot_number task @ '' is no longer needed.'')
              tenant (Some ''operational_task'') (Some (ot_id task)) (Some ''task.cancelled'') [] s))"

text \<open>The parent record is given by its id, its number and its tenant.\<close>

definition cancel_open_child_tasks :: "string \<Rightarrow> nat \<Rightarrow> string \<Rightarrow> nat \<Rightarrow> string \<Rightarrow> db \<Rightarrow> db" where
  "cancel_open_child_tasks parent_type parent_id parent_number tenant outcome s =
     (let tasks = open_child_tasks s parent_type parent_id;
          s = fold (cancel_child_task parent_number tenant outcome) tasks s
      in if tasks \<noteq> []
         then log_history parent_type parent_id ''Tasks cancelled'' None None None
                (parent_number @ '' was '' @ lower outcome @ '': '' @ join '', '' (map ot_number tasks)) None s
         else s)"

section \<open>What the task operations leave alone\<close>

lemma cancel_child_task_frame [simp]:
  "db_clock (cancel_child_task parent_number tenant outcome task s) = db_clock s"
  "db_current_user (cancel_child_task parent_number tenant outcome task s) = db_current_user s"
  "db_platform (cancel_child_task parent_number tenant outcome task s) = db_platform s"
  "db_settings (cancel_child_task parent_number tenant outcome task s) = db_settings s"
  "db_acting_role (cancel_child_task parent_number tenant outcome task s) = db_acting_role s"
  "db_request_id (cancel_child_task parent_number tenant outcome task s) = db_request_id s"
  "db_source_ip (cancel_child_task parent_number tenant outcome task s) = db_source_ip s"
  "db_user_agent (cancel_child_task parent_number tenant outcome task s) = db_user_agent s"
  "db_security_context (cancel_child_task parent_number tenant outcome task s) = db_security_context s"
  "db_uuid (cancel_child_task parent_number tenant outcome task s) = db_uuid s"
  "db_mac (cancel_child_task parent_number tenant outcome task s) = db_mac s"
  "db_key_ok (cancel_child_task parent_number tenant outcome task s) = db_key_ok s"
  "db_sha (cancel_child_task parent_number tenant outcome task s) = db_sha s"
  "db_to_local (cancel_child_task parent_number tenant outcome task s) = db_to_local s"
  "db_to_utc (cancel_child_task parent_number tenant outcome task s) = db_to_utc s"
  "db_users (cancel_child_task parent_number tenant outcome task s) = db_users s"
  "db_delegations (cancel_child_task parent_number tenant outcome task s) = db_delegations s"
  "db_tickets (cancel_child_task parent_number tenant outcome task s) = db_tickets s"
  "db_enterprise_records (cancel_child_task parent_number tenant outcome task s) = db_enterprise_records s"
  "db_catalog_items (cancel_child_task parent_number tenant outcome task s) = db_catalog_items s"
  "db_routings (cancel_child_task parent_number tenant outcome task s) = db_routings s"
  "db_cis (cancel_child_task parent_number tenant outcome task s) = db_cis s"
  "db_ci_permissions (cancel_child_task parent_number tenant outcome task s) = db_ci_permissions s"
  "db_ci_relationships (cancel_child_task parent_number tenant outcome task s) = db_ci_relationships s"
  "db_service_cis (cancel_child_task parent_number tenant outcome task s) = db_service_cis s"
  "db_outages (cancel_child_task parent_number tenant outcome task s) = db_outages s"
  "db_notification_templates (cancel_child_task parent_number tenant outcome task s) = db_notification_templates s"
  "db_groups (cancel_child_task parent_number tenant outcome task s) = db_groups s"
  "db_group_members (cancel_child_task parent_number tenant outcome task s) = db_group_members s"
  "db_chains (cancel_child_task parent_number tenant outcome task s) = db_chains s"
  "db_policies (cancel_child_task parent_number tenant outcome task s) = db_policies s"
  "db_authority_groups (cancel_child_task parent_number tenant outcome task s) = db_authority_groups s"
  "db_offerings (cancel_child_task parent_number tenant outcome task s) = db_offerings s"
  "db_categories (cancel_child_task parent_number tenant outcome task s) = db_categories s"
  "db_subcategories (cancel_child_task parent_number tenant outcome task s) = db_subcategories s"
  "db_schedules (cancel_child_task parent_number tenant outcome task s) = db_schedules s"
  "db_sla_definitions (cancel_child_task parent_number tenant outcome task s) = db_sla_definitions s"
  "db_task_slas (cancel_child_task parent_number tenant outcome task s) = db_task_slas s"
  "db_sla_events (cancel_child_task parent_number tenant outcome task s) = db_sla_events s"
  "db_requests (cancel_child_task parent_number tenant outcome task s) = db_requests s"
  "db_ritms (cancel_child_task parent_number tenant outcome task s) = db_ritms s"
  "db_catalog_tasks (cancel_child_task parent_number tenant outcome task s) = db_catalog_tasks s"
  "db_task_controls (cancel_child_task parent_number tenant outcome task s) = db_task_controls s"
  "db_governances (cancel_child_task parent_number tenant outcome task s) = db_governances s"
  "db_freezes (cancel_child_task parent_number tenant outcome task s) = db_freezes s"
  "db_reviews (cancel_child_task parent_number tenant outcome task s) = db_reviews s"
  "db_ownerships (cancel_child_task parent_number tenant outcome task s) = db_ownerships s"
  "db_assignments (cancel_child_task parent_number tenant outcome task s) = db_assignments s"
  "db_record_links (cancel_child_task parent_number tenant outcome task s) = db_record_links s"
  "db_task_cis (cancel_child_task parent_number tenant outcome task s) = db_task_cis s"
  "db_problem_profiles (cancel_child_task parent_number tenant outcome task s) = db_problem_profiles s"
  "db_revisions (cancel_child_task parent_number tenant outcome task s) = db_revisions s"
  "db_templates (cancel_child_task parent_number tenant outcome task s) = db_templates s"
  "db_rules (cancel_child_task parent_number tenant outcome task s) = db_rules s"
  "db_connections (cancel_child_task parent_number tenant outcome task s) = db_connections s"
  "db_workflow_definitions (cancel_child_task parent_number tenant outcome task s) = db_workflow_definitions s"
  "db_workflow_versions (cancel_child_task parent_number tenant outcome task s) = db_workflow_versions s"
  "db_workflow_executions (cancel_child_task parent_number tenant outcome task s) = db_workflow_executions s"
  "db_workflow_steps (cancel_child_task parent_number tenant outcome task s) = db_workflow_steps s"
  "db_audit_keys (cancel_child_task parent_number tenant outcome task s) = db_audit_keys s"
  "db_role_grants (cancel_child_task parent_number tenant outcome task s) = db_role_grants s"
  by (simp_all add: cancel_child_task_def save_op_task_def Let_def split: option.split)

lemma cancel_open_child_tasks_frame [simp]:
  "db_clock (cancel_open_child_tasks parent_type parent_id parent_number tenant outcome s) = db_clock s"
  "db_current_user (cancel_open_child_tasks parent_type parent_id parent_number tenant outcome s) = db_current_user s"
  "db_platform (cancel_open_child_tasks parent_type parent_id parent_number tenant outcome s) = db_platform s"
  "db_settings (cancel_open_child_tasks parent_type parent_id parent_number tenant outcome s) = db_settings s"
  "db_acting_role (cancel_open_child_tasks parent_type parent_id parent_number tenant outcome s) = db_acting_role s"
  "db_request_id (cancel_open_child_tasks parent_type parent_id parent_number tenant outcome s) = db_request_id s"
  "db_source_ip (cancel_open_child_tasks parent_type parent_id parent_number tenant outcome s) = db_source_ip s"
  "db_user_agent (cancel_open_child_tasks parent_type parent_id parent_number tenant outcome s) = db_user_agent s"
  "db_security_context (cancel_open_child_tasks parent_type parent_id parent_number tenant outcome s) = db_security_context s"
  "db_uuid (cancel_open_child_tasks parent_type parent_id parent_number tenant outcome s) = db_uuid s"
  "db_mac (cancel_open_child_tasks parent_type parent_id parent_number tenant outcome s) = db_mac s"
  "db_key_ok (cancel_open_child_tasks parent_type parent_id parent_number tenant outcome s) = db_key_ok s"
  "db_sha (cancel_open_child_tasks parent_type parent_id parent_number tenant outcome s) = db_sha s"
  "db_to_local (cancel_open_child_tasks parent_type parent_id parent_number tenant outcome s) = db_to_local s"
  "db_to_utc (cancel_open_child_tasks parent_type parent_id parent_number tenant outcome s) = db_to_utc s"
  "db_users (cancel_open_child_tasks parent_type parent_id parent_number tenant outcome s) = db_users s"
  "db_delegations (cancel_open_child_tasks parent_type parent_id parent_number tenant outcome s) = db_delegations s"
  "db_tickets (cancel_open_child_tasks parent_type parent_id parent_number tenant outcome s) = db_tickets s"
  "db_enterprise_records (cancel_open_child_tasks parent_type parent_id parent_number tenant outcome s) = db_enterprise_records s"
  "db_catalog_items (cancel_open_child_tasks parent_type parent_id parent_number tenant outcome s) = db_catalog_items s"
  "db_routings (cancel_open_child_tasks parent_type parent_id parent_number tenant outcome s) = db_routings s"
  "db_cis (cancel_open_child_tasks parent_type parent_id parent_number tenant outcome s) = db_cis s"
  "db_ci_permissions (cancel_open_child_tasks parent_type parent_id parent_number tenant outcome s) = db_ci_permissions s"
  "db_ci_relationships (cancel_open_child_tasks parent_type parent_id parent_number tenant outcome s) = db_ci_relationships s"
  "db_service_cis (cancel_open_child_tasks parent_type parent_id parent_number tenant outcome s) = db_service_cis s"
  "db_outages (cancel_open_child_tasks parent_type parent_id parent_number tenant outcome s) = db_outages s"
  "db_notification_templates (cancel_open_child_tasks parent_type parent_id parent_number tenant outcome s) = db_notification_templates s"
  "db_groups (cancel_open_child_tasks parent_type parent_id parent_number tenant outcome s) = db_groups s"
  "db_group_members (cancel_open_child_tasks parent_type parent_id parent_number tenant outcome s) = db_group_members s"
  "db_chains (cancel_open_child_tasks parent_type parent_id parent_number tenant outcome s) = db_chains s"
  "db_policies (cancel_open_child_tasks parent_type parent_id parent_number tenant outcome s) = db_policies s"
  "db_authority_groups (cancel_open_child_tasks parent_type parent_id parent_number tenant outcome s) = db_authority_groups s"
  "db_offerings (cancel_open_child_tasks parent_type parent_id parent_number tenant outcome s) = db_offerings s"
  "db_categories (cancel_open_child_tasks parent_type parent_id parent_number tenant outcome s) = db_categories s"
  "db_subcategories (cancel_open_child_tasks parent_type parent_id parent_number tenant outcome s) = db_subcategories s"
  "db_schedules (cancel_open_child_tasks parent_type parent_id parent_number tenant outcome s) = db_schedules s"
  "db_sla_definitions (cancel_open_child_tasks parent_type parent_id parent_number tenant outcome s) = db_sla_definitions s"
  "db_task_slas (cancel_open_child_tasks parent_type parent_id parent_number tenant outcome s) = db_task_slas s"
  "db_sla_events (cancel_open_child_tasks parent_type parent_id parent_number tenant outcome s) = db_sla_events s"
  "db_requests (cancel_open_child_tasks parent_type parent_id parent_number tenant outcome s) = db_requests s"
  "db_ritms (cancel_open_child_tasks parent_type parent_id parent_number tenant outcome s) = db_ritms s"
  "db_catalog_tasks (cancel_open_child_tasks parent_type parent_id parent_number tenant outcome s) = db_catalog_tasks s"
  "db_task_controls (cancel_open_child_tasks parent_type parent_id parent_number tenant outcome s) = db_task_controls s"
  "db_governances (cancel_open_child_tasks parent_type parent_id parent_number tenant outcome s) = db_governances s"
  "db_freezes (cancel_open_child_tasks parent_type parent_id parent_number tenant outcome s) = db_freezes s"
  "db_reviews (cancel_open_child_tasks parent_type parent_id parent_number tenant outcome s) = db_reviews s"
  "db_ownerships (cancel_open_child_tasks parent_type parent_id parent_number tenant outcome s) = db_ownerships s"
  "db_assignments (cancel_open_child_tasks parent_type parent_id parent_number tenant outcome s) = db_assignments s"
  "db_record_links (cancel_open_child_tasks parent_type parent_id parent_number tenant outcome s) = db_record_links s"
  "db_task_cis (cancel_open_child_tasks parent_type parent_id parent_number tenant outcome s) = db_task_cis s"
  "db_problem_profiles (cancel_open_child_tasks parent_type parent_id parent_number tenant outcome s) = db_problem_profiles s"
  "db_revisions (cancel_open_child_tasks parent_type parent_id parent_number tenant outcome s) = db_revisions s"
  "db_templates (cancel_open_child_tasks parent_type parent_id parent_number tenant outcome s) = db_templates s"
  "db_rules (cancel_open_child_tasks parent_type parent_id parent_number tenant outcome s) = db_rules s"
  "db_connections (cancel_open_child_tasks parent_type parent_id parent_number tenant outcome s) = db_connections s"
  "db_workflow_definitions (cancel_open_child_tasks parent_type parent_id parent_number tenant outcome s) = db_workflow_definitions s"
  "db_workflow_versions (cancel_open_child_tasks parent_type parent_id parent_number tenant outcome s) = db_workflow_versions s"
  "db_workflow_executions (cancel_open_child_tasks parent_type parent_id parent_number tenant outcome s) = db_workflow_executions s"
  "db_workflow_steps (cancel_open_child_tasks parent_type parent_id parent_number tenant outcome s) = db_workflow_steps s"
  "db_audit_keys (cancel_open_child_tasks parent_type parent_id parent_number tenant outcome s) = db_audit_keys s"
  "db_role_grants (cancel_open_child_tasks parent_type parent_id parent_number tenant outcome s) = db_role_grants s"
  by (simp_all add: cancel_open_child_tasks_def Let_def
    fold_unchanged [where g = db_clock]
    fold_unchanged [where g = db_current_user]
    fold_unchanged [where g = db_platform]
    fold_unchanged [where g = db_settings]
    fold_unchanged [where g = db_acting_role]
    fold_unchanged [where g = db_request_id]
    fold_unchanged [where g = db_source_ip]
    fold_unchanged [where g = db_user_agent]
    fold_unchanged [where g = db_security_context]
    fold_unchanged [where g = db_uuid]
    fold_unchanged [where g = db_mac]
    fold_unchanged [where g = db_key_ok]
    fold_unchanged [where g = db_sha]
    fold_unchanged [where g = db_to_local]
    fold_unchanged [where g = db_to_utc]
    fold_unchanged [where g = db_users]
    fold_unchanged [where g = db_delegations]
    fold_unchanged [where g = db_tickets]
    fold_unchanged [where g = db_enterprise_records]
    fold_unchanged [where g = db_catalog_items]
    fold_unchanged [where g = db_routings]
    fold_unchanged [where g = db_cis]
    fold_unchanged [where g = db_ci_permissions]
    fold_unchanged [where g = db_ci_relationships]
    fold_unchanged [where g = db_service_cis]
    fold_unchanged [where g = db_outages]
    fold_unchanged [where g = db_notification_templates]
    fold_unchanged [where g = db_groups]
    fold_unchanged [where g = db_group_members]
    fold_unchanged [where g = db_chains]
    fold_unchanged [where g = db_policies]
    fold_unchanged [where g = db_authority_groups]
    fold_unchanged [where g = db_offerings]
    fold_unchanged [where g = db_categories]
    fold_unchanged [where g = db_subcategories]
    fold_unchanged [where g = db_schedules]
    fold_unchanged [where g = db_sla_definitions]
    fold_unchanged [where g = db_task_slas]
    fold_unchanged [where g = db_sla_events]
    fold_unchanged [where g = db_requests]
    fold_unchanged [where g = db_ritms]
    fold_unchanged [where g = db_catalog_tasks]
    fold_unchanged [where g = db_task_controls]
    fold_unchanged [where g = db_governances]
    fold_unchanged [where g = db_freezes]
    fold_unchanged [where g = db_reviews]
    fold_unchanged [where g = db_ownerships]
    fold_unchanged [where g = db_assignments]
    fold_unchanged [where g = db_record_links]
    fold_unchanged [where g = db_task_cis]
    fold_unchanged [where g = db_problem_profiles]
    fold_unchanged [where g = db_revisions]
    fold_unchanged [where g = db_templates]
    fold_unchanged [where g = db_rules]
    fold_unchanged [where g = db_connections]
    fold_unchanged [where g = db_workflow_definitions]
    fold_unchanged [where g = db_workflow_versions]
    fold_unchanged [where g = db_workflow_executions]
    fold_unchanged [where g = db_workflow_steps]
    fold_unchanged [where g = db_audit_keys]
    fold_unchanged [where g = db_role_grants])

section \<open>Cancelling is complete and touches nothing else\<close>

lemma cancel_child_task_rows:
  "db_op_tasks (cancel_child_task parent_number tenant outcome task s) =
     put_row ot_id (task\<lparr>ot_state := ''Cancelled''\<rparr>) (db_op_tasks s)"
  by (simp add: cancel_child_task_def save_op_task_def Let_def split: option.split)

lemma cancelled_not_open: "\<not> open_child_task parent_type parent_id (t\<lparr>ot_state := ''Cancelled''\<rparr>)"
  by (simp add: open_child_task_def OPEN_TASK_END_STATES_def)

lemma cancel_open_child_tasks_effect:
  assumes "distinct (map ot_id (db_op_tasks s))"
  shows "db_op_tasks (cancel_open_child_tasks parent_type parent_id parent_number tenant outcome s) =
      map (\<lambda>t. if open_child_task parent_type parent_id t then t\<lparr>ot_state := ''Cancelled''\<rparr> else t) (db_op_tasks s)"
proof -
  let ?h = "\<lambda>t. t\<lparr>ot_state := ''Cancelled''\<rparr>"
  let ?xs = "filter (open_child_task parent_type parent_id) (db_op_tasks s)"
  have "True \<and> db_op_tasks (fold (cancel_child_task parent_number tenant outcome) ?xs s) =
      map (\<lambda>t. if ot_id t \<in> ot_id ` set ?xs then ?h t else t) (db_op_tasks s)"
    by (rule fold_map_rows)
      (use assms in \<open>auto simp: cancel_child_task_rows put_row_map distinct_map_filter\<close>)
  then have loop: "db_op_tasks (fold (cancel_child_task parent_number tenant outcome) ?xs s) =
      map (\<lambda>t. if open_child_task parent_type parent_id t then ?h t else t) (db_op_tasks s)"
    unfolding map_filter_keys [OF assms] by blast
  show ?thesis
    unfolding cancel_open_child_tasks_def open_child_tasks_def Let_def using loop by (cases "?xs = []") simp_all
qed

text \<open>
  When a record ends, exactly its unfinished tasks become Cancelled: afterwards none of its tasks
  is open, its finished tasks and the tasks of every other record are as they were.
\<close>

theorem cancel_open_child_tasks_exact:
  assumes "distinct (map ot_id (db_op_tasks s))"
  shows "db_op_tasks (cancel_open_child_tasks parent_type parent_id parent_number tenant outcome s) =
      map (\<lambda>t. if open_child_task parent_type parent_id t then t\<lparr>ot_state := ''Cancelled''\<rparr> else t) (db_op_tasks s)
    \<and> open_child_tasks (cancel_open_child_tasks parent_type parent_id parent_number tenant outcome s)
        parent_type parent_id = []"
proof
  show rows: "db_op_tasks (cancel_open_child_tasks parent_type parent_id parent_number tenant outcome s) =
      map (\<lambda>t. if open_child_task parent_type parent_id t then t\<lparr>ot_state := ''Cancelled''\<rparr> else t) (db_op_tasks s)"
    by (rule cancel_open_child_tasks_effect [OF assms])
  show "open_child_tasks (cancel_open_child_tasks parent_type parent_id parent_number tenant outcome s)
      parent_type parent_id = []"
    unfolding open_child_tasks_def rows filter_empty_conv using cancelled_not_open by auto
qed

definition example_task :: operational_task where
  "example_task = blank_operational_task\<lparr>ot_id := 3, ot_number := ''CTASK0000003'', ot_task_kind := ''change'',
     ot_parent_type := ''ticket'', ot_parent_id := 9, ot_task_type := ''Testing'', ot_state := ''Pending'',
     ot_required := True\<rparr>"

theorem cancel_open_child_tasks_exact_witness:
  "map ot_state (db_op_tasks (cancel_open_child_tasks ''ticket'' 9 ''CHG0000009'' 2 ''Rejected''
     (empty_db\<lparr>db_op_tasks := [example_task]\<rparr>))) = [''Cancelled'']"
proof -
  have "distinct (map ot_id (db_op_tasks (empty_db\<lparr>db_op_tasks := [example_task]\<rparr>)))" by simp
  from cancel_open_child_tasks_exact [OF this, of "''ticket''" 9 "''CHG0000009''" 2 "''Rejected''"]
  show ?thesis
    by (simp add: open_child_task_def example_task_def OPEN_TASK_END_STATES_def)
qed

section \<open>Change tasks wait for their change\<close>

lemma transition_operational_task_ok:
  assumes "transition_operational_task task new_state s = Inr s'"
  shows "new_state \<in> set (allowed_states OPERATIONAL_TASK_TRANSITIONS (ot_state task))"
    and "change_task_gate_block s task new_state = None"
    and "db_op_tasks s' = put_row ot_id (task\<lparr>ot_state := new_state\<rparr>) (db_op_tasks s)"
  using assms
  by (auto simp: transition_operational_task_def save_op_task_def Let_def split: if_splits option.splits)

text \<open>
  An Implementation task of a change is worked on only when the change is authorised, and a required
  order holds among its tasks: if a transition of such a task to anything but Pending or Cancelled
  succeeds, the latest approval chain of the change is Approved (or it has none); for a Testing task
  some Implementation task is Closed Complete (or there is none); for a Review task every required
  Implementation and Testing task is finished. The state moves along the lifecycle table.
\<close>

theorem change_task_order:
  assumes run: "transition_operational_task task new_state s = Inr s'"
    and "ot_task_kind task = ''change''" and "new_state \<notin> set [''Pending'', ''Cancelled'']"
    and "get_row tk_id (ot_parent_id task) (db_tickets s) = Some ticket"
  shows "new_state \<in> set (allowed_states OPERATIONAL_TASK_TRANSITIONS (ot_state task))
    \<and> (ot_task_type task = ''Implementation'' \<longrightarrow>
        (case approval_chain_for s ''ticket'' (tk_id ticket) of None \<Rightarrow> True | Some chain \<Rightarrow> ch_state chain = ''Approved''))
    \<and> (ot_task_type task = ''Testing'' \<longrightarrow>
        (let impl = filter (\<lambda>t. ot_parent_type t = ''ticket'' \<and> ot_parent_id t = tk_id ticket
               \<and> ot_task_kind t = ''change'' \<and> ot_task_type t = ''Implementation'') (db_op_tasks s)
         in impl = [] \<or> list_ex (\<lambda>t. ot_state t = ''Closed Complete'') impl))
    \<and> (ot_task_type task = ''Review'' \<longrightarrow>
        list_all (\<lambda>t. ot_parent_type t = ''ticket'' \<and> ot_parent_id t = tk_id ticket \<and> ot_task_kind t = ''change''
            \<and> ot_task_type t \<in> set [''Implementation'', ''Testing''] \<and> ot_required t \<and> ot_id t \<noteq> ot_id task
          \<longrightarrow> ot_state t \<in> set [''Closed Complete'', ''Closed Incomplete'', ''Cancelled'']) (db_op_tasks s))"
proof -
  note ok = transition_operational_task_ok [OF run]
  from ok(2) assms(2-) show ?thesis
    by (intro conjI impI ok(1))
      (auto simp: change_task_gate_block_def Let_def list_ex_iff list_all_iff filter_empty_conv
        split: if_splits option.splits)
qed

theorem change_task_order_witness:
  "\<exists>s'. transition_operational_task example_task ''Work in Progress''
      (empty_db\<lparr>db_tickets := [blank_ticket\<lparr>tk_id := 9\<rparr>], db_op_tasks := [example_task]\<rparr>) = Inr s'
    \<and> ''Work in Progress'' \<in> set (allowed_states OPERATIONAL_TASK_TRANSITIONS (ot_state example_task))"
proof -
  let ?s = "empty_db\<lparr>db_tickets := [blank_ticket\<lparr>tk_id := 9\<rparr>], db_op_tasks := [example_task]\<rparr>"
  have "case transition_operational_task example_task ''Work in Progress'' ?s of Inl e \<Rightarrow> False | Inr _ \<Rightarrow> True"
    by code_simp
  then obtain s' where run: "transition_operational_task example_task ''Work in Progress'' ?s = Inr s'"
    by (auto split: sum.splits)
  have "get_row tk_id (ot_parent_id example_task) (db_tickets ?s) = Some (blank_ticket\<lparr>tk_id := 9\<rparr>)"
    by (simp add: example_task_def get_row_Cons)
  from change_task_order [OF run _ _ this] run show ?thesis by (auto simp: example_task_def)
qed

text \<open>
  A Testing task of a change without Implementation tasks is not held back by the approvals: it can
  be started while the approval chain of the change is still running, although the description of the
  rule has Testing wait until the change is authorised.
\<close>

theorem testing_starts_before_approval:
  "let chain = blank_approval_chain\<lparr>ch_id := 4, ch_target_type := ''ticket'', ch_target_id := 9, ch_state := ''Running''\<rparr>;
       s = empty_db\<lparr>db_tickets := [blank_ticket\<lparr>tk_id := 9, tk_kind := ''change'', tk_state := ''Awaiting Approval''\<rparr>],
             db_chains := [chain], db_op_tasks := [example_task]\<rparr>
   in approval_chain_for s ''ticket'' 9 = Some chain
      \<and> (case transition_operational_task example_task ''Work in Progress'' s of
           Inl e \<Rightarrow> False | Inr s' \<Rightarrow> map ot_state (db_op_tasks s') = [''Work in Progress''])"
  by (simp add: Let_def approval_chain_for_def example_task_def transition_operational_task_def
      allowed_states_def OPERATIONAL_TASK_TRANSITIONS_def change_task_gate_block_def get_row_Cons
      save_op_task_def put_row_def)

end
