(* ===== verification/Numbering.thy ===== *)
theory Numbering
  imports Models
begin

text \<open>
  Record numbers such as \<^verbatim>\<open>INC0000123\<close> (\<^verbatim>\<open>app.py\<close>, \<^verbatim>\<open>_next_in_sequence\<close> and its callers): the number
  after the highest one in use, allocated again on a collision and given up after ten attempts. In a
  request the highest number is read under an advisory lock, so one allocation is one step.
\<close>

text \<open>\<^verbatim>\<open>ORDER BY length(column) DESC, column DESC LIMIT 1\<close> (text compared by code point).\<close>

definition longer_or_higher :: "string \<Rightarrow> string \<Rightarrow> bool" where
  "longer_or_higher a b \<longleftrightarrow> length b < length a \<or> length a = length b \<and> b < a"

fun latest_of :: "string list \<Rightarrow> string option" where
  "latest_of [] = None"
| "latest_of (x # xs) =
     (case latest_of xs of None \<Rightarrow> Some x | Some y \<Rightarrow> if longer_or_higher y x then Some y else Some x)"

text \<open>\<^verbatim>\<open>f"{n:07d}"\<close>\<close>

definition format_07d :: "int \<Rightarrow> string" where
  "format_07d n = (if n < 0 then CHR ''-'' # pad0 6 (show_nat (nat (- n))) else pad0 7 (show_nat (nat n)))"

definition next_in_sequence :: "string list \<Rightarrow> string \<Rightarrow> nat \<Rightarrow> string" where
  "next_in_sequence numbers prefix fallback_id =
     (let latest = latest_of (filter (starts_with prefix) numbers);
          current = (case latest of
              None \<Rightarrow> 0
            | Some l \<Rightarrow> opt (int fallback_id) (int_of_str (drop (length prefix) l)))
      in prefix @ format_07d (current + 1))"

definition max_id :: "nat list \<Rightarrow> nat" where
  "max_id ids = foldr max ids 0"

definition next_number :: "db \<Rightarrow> string \<Rightarrow> string result" where
  "next_number s kind =
     (case map_of [(''incident'', ''INC''), (''change'', ''CHG'')] kind of
        None \<Rightarrow> Inl (KeyError kind)
      | Some prefix \<Rightarrow>
          Inr (next_in_sequence (map tk_number (db_tickets s)) prefix (max_id (map tk_id (db_tickets s)))))"

text \<open>The prefixes of \<^verbatim>\<open>DOMAIN_CONFIG\<close>.\<close>

definition domain_prefix :: "(string \<times> string) list" where
  "domain_prefix = [(''problem'', ''PRB''), (''customer'', ''CS''), (''hr'', ''HRC''), (''security'', ''SIR''),
     (''risk'', ''RSK''), (''portfolio'', ''PRJ''), (''field_service'', ''WO''), (''event'', ''EVT''),
     (''release'', ''REL'')]"

definition next_enterprise_number :: "db \<Rightarrow> string \<Rightarrow> string result" where
  "next_enterprise_number s domain =
     (case map_of domain_prefix domain of
        None \<Rightarrow> Inl (KeyError domain)
      | Some prefix \<Rightarrow>
          Inr (next_in_sequence (map er_number (db_enterprise_records s)) prefix
            (max_id (map er_id (db_enterprise_records s)))))"

definition next_operational_task_number :: "db \<Rightarrow> string \<Rightarrow> string" where
  "next_operational_task_number s task_kind =
     (let prefix = opt ''TASK'' (map_of [(''change'', ''CTASK''), (''problem'', ''PTASK''),
            (''event'', ''EVTASK''), (''incident'', ''ITASK'')] task_kind)
      in next_in_sequence (map ot_number (db_op_tasks s)) prefix (max_id (map ot_id (db_op_tasks s))))"

definition sequence_number :: "string list \<Rightarrow> nat list \<Rightarrow> string \<Rightarrow> string" where
  "sequence_number numbers ids prefix = next_in_sequence numbers prefix (max_id ids)"

text \<open>
  \<^verbatim>\<open>create_with_retry_on_number_collision\<close>: every attempt computes a fresh number; the unique
  constraint of the number column turns a number in use into another attempt.
\<close>

fun allocate_number :: "nat \<Rightarrow> string list \<Rightarrow> (string list \<Rightarrow> string) \<Rightarrow> string result" where
  "allocate_number 0 numbers compute = Inl (Abort 409 ''Could not allocate a unique record number'')"
| "allocate_number (Suc attempts) numbers compute =
     (let number = compute numbers in
      if number \<in> set numbers then allocate_number attempts numbers compute else Inr number)"

definition number_attempts :: nat where
  "number_attempts = 10"

section \<open>Decimal text\<close>

lemma is_digit_char_of: "d < 10 \<Longrightarrow> is_digit (char_of (48 + d :: nat))"
  by (simp add: is_digit_def)

lemma is_digit_value: "is_digit c \<Longrightarrow> 48 \<le> (of_char c :: nat) \<and> of_char c - 48 \<le> (9 :: nat)"
  by (auto simp: is_digit_def Let_def)

lemma show_nat_digits: "list_all is_digit (show_nat n)"
proof (induction n rule: show_nat.induct)
  case (1 n)
  then show ?case
    by (subst show_nat.simps) (auto simp: is_digit_char_of)
qed

lemma digits_value_append: "digits_value (a @ b) = digits_value a * 10 ^ length b + digits_value b"
proof (induction b rule: rev_induct)
  case Nil
  then show ?case by (simp add: digits_value_def)
next
  case (snoc c b)
  have "digits_value (xs @ [c]) = 10 * digits_value xs + (of_char c - 48)" for xs
    by (simp add: digits_value_def)
  from this [of "a @ b"] this [of b] snoc show ?case by simp
qed

lemma digits_value_Cons: "digits_value (c # b) = (of_char c - 48) * 10 ^ length b + digits_value b"
  using digits_value_append [of "[c]" b] by (simp add: digits_value_def)

lemma digits_value_show: "digits_value (show_nat n) = n"
proof (induction n rule: show_nat.induct)
  case (1 n)
  show ?case
  proof (cases "n < 10")
    case True
    then show ?thesis by (subst show_nat.simps) (simp add: digits_value_def)
  next
    case False
    then have "show_nat n = show_nat (n div 10) @ [char_of (48 + n mod 10)]"
      by (subst show_nat.simps) simp
    with 1 False show ?thesis
      by (simp add: digits_value_append) (simp add: digits_value_def)
  qed
qed

lemma digits_value_zeros: "digits_value (replicate k CHR ''0'' @ b) = digits_value b"
  by (induction k) (simp_all add: digits_value_Cons)

lemma digits_value_bound: "list_all is_digit b \<Longrightarrow> digits_value b < 10 ^ length b"
proof (induction b)
  case Nil
  then show ?case by (simp add: digits_value_def)
next
  case (Cons c b)
  then have "of_char c - 48 \<le> (9::nat)" using is_digit_value by simp
  then have "(of_char c - 48) * 10 ^ length b \<le> 9 * (10::nat) ^ length b" by (rule mult_le_mono1)
  moreover have "digits_value b < 10 ^ length b" using Cons by simp
  ultimately have "digits_value (c # b) < 10 * 10 ^ length b"
    unfolding digits_value_Cons by linarith
  then show ?case by simp
qed

lemma digits_less_value:
  assumes "length a = length b" and "list_all is_digit a" and "list_all is_digit b" and "a < b"
  shows "digits_value a < digits_value b"
  using assms
proof (induction a b rule: list_induct2)
  case Nil
  then show ?case by simp
next
  case (Cons x xs y ys)
  have d: "48 \<le> (of_char x :: nat)" "48 \<le> (of_char y :: nat)"
    using Cons.prems is_digit_value by simp_all
  from Cons.prems(3) consider "x < y" | "x = y" "xs < ys" by (auto simp: Cons_less_Cons)
  then show ?case
  proof cases
    case 1
    then have "(of_char x - 48) + 1 \<le> (of_char y - 48 :: nat)"
      using d by (simp add: less_char_def)
    then have "((of_char x - 48) + 1) * 10 ^ length xs \<le> (of_char y - 48) * (10::nat) ^ length xs"
      by (rule mult_le_mono1)
    with digits_value_bound [of xs] Cons.prems Cons.hyps show ?thesis
      by (simp add: digits_value_Cons)
  next
    case 2
    with Cons show ?thesis by (simp add: digits_value_Cons)
  qed
qed

lemma show_nat_not_Nil: "show_nat n \<noteq> []"
  by (subst show_nat.simps) simp

lemma hd_show_nat: "0 < n \<Longrightarrow> hd (show_nat n) \<noteq> CHR ''0''"
proof (induction n rule: show_nat.induct)
  case (1 n)
  show ?case
  proof (cases "n < 10")
    case True
    then have "hd (show_nat n) = char_of (48 + n)" by (subst show_nat.simps) simp
    moreover have "(of_char (char_of (48 + n) :: char) :: nat) \<noteq> of_char CHR ''0''" using True "1.prems" by simp
    ultimately show ?thesis by metis
  next
    case False
    then have "hd (show_nat n) = hd (show_nat (n div 10))"
      by (subst show_nat.simps) (simp add: show_nat_not_Nil)
    with 1 False show ?thesis by simp
  qed
qed

lemma is_space_digit: "is_digit c \<Longrightarrow> \<not> is_space c"
  by (auto simp: is_digit_def is_space_def Let_def)

lemma dropWhile_digits: "list_all is_digit d \<Longrightarrow> dropWhile is_space d = d"
  by (cases d) (auto simp: is_space_digit)

lemma strip_digits: "list_all is_digit d \<Longrightarrow> strip d = d"
  using dropWhile_digits [of "rev d"] by (simp add: strip_def dropWhile_digits)

lemma int_of_str_digits:
  assumes "list_all is_digit d" and "d \<noteq> []"
  shows "int_of_str d = Some (int (digits_value d))"
proof -
  obtain c cs where d: "d = c # cs" using assms(2) by (cases d) auto
  have "\<not> is_digit CHR ''-''" "\<not> is_digit CHR ''+''" by (simp_all add: is_digit_def)
  then have "c \<noteq> CHR ''-''" "c \<noteq> CHR ''+''" using assms(1) d by auto
  with assms(1) strip_digits [OF assms(1)] show ?thesis by (simp add: int_of_str_def d)
qed

section \<open>Fresh numbers\<close>

text \<open>A number as the allocator writes it: at least seven digits, more only without a leading zero.\<close>

definition proper_digits :: "string \<Rightarrow> bool" where
  "proper_digits d \<longleftrightarrow> list_all is_digit d \<and> 7 \<le> length d \<and> (length d = 7 \<or> hd d \<noteq> CHR ''0'')"

definition proper_number :: "string \<Rightarrow> string \<Rightarrow> bool" where
  "proper_number prefix n \<longleftrightarrow> starts_with prefix n \<and> proper_digits (drop (length prefix) n)"

lemma format_proper:
  "proper_digits (format_07d (int n + 1))" "digits_value (format_07d (int n + 1)) = Suc n"
proof -
  have f: "format_07d (int n + 1) = pad0 7 (show_nat (Suc n))"
    by (simp add: format_07d_def nat_add_distrib)
  show "digits_value (format_07d (int n + 1)) = Suc n"
    by (simp add: f pad0_def digits_value_zeros digits_value_show)
  have "is_digit CHR ''0''" by (simp add: is_digit_def)
  then show "proper_digits (format_07d (int n + 1))"
    using hd_show_nat [of "Suc n"] show_nat_digits [of "Suc n"]
    by (auto simp: f proper_digits_def pad0_def list_all_iff hd_append)
qed

lemma proper_digits_long:
  assumes "proper_digits d" and "7 < length d"
  shows "10 ^ (length d - 1) \<le> digits_value d"
proof -
  obtain c cs where d: "d = c # cs" using assms(2) by (cases d) auto
  have "is_digit c" "c \<noteq> CHR ''0''" using assms d by (auto simp: proper_digits_def)
  then have "(of_char c :: nat) \<noteq> of_char CHR ''0''" by (metis of_char_eq_iff)
  then have "1 \<le> (of_char c - 48 :: nat)" using is_digit_value [OF \<open>is_digit c\<close>] by (simp add: Suc_le_eq)
  then have "1 * 10 ^ length cs \<le> (of_char c - 48) * (10::nat) ^ length cs" by (rule mult_le_mono1)
  then have "10 ^ length cs \<le> digits_value d" unfolding d digits_value_Cons by linarith
  then show ?thesis by (simp add: d)
qed

lemma latest_of_greatest:
  assumes "latest_of xs = Some l"
  shows "l \<in> set xs \<and> (\<forall>x \<in> set xs. \<not> longer_or_higher x l)"
  using assms
proof (induction xs arbitrary: l)
  case Nil
  then show ?case by simp
next
  case (Cons x xs)
  show ?case
  proof (cases "latest_of xs")
    case None
    then have "xs = []" by (cases xs) (auto split: option.splits if_splits)
    with Cons.prems show ?thesis by (simp add: longer_or_higher_def)
  next
    case (Some y)
    have trans: "\<not> longer_or_higher y x \<Longrightarrow> \<not> longer_or_higher z y \<Longrightarrow> \<not> longer_or_higher z x" for z
      unfolding longer_or_higher_def by (metis less_linear less_trans linorder_neqE_nat)
    have irrefl: "\<not> longer_or_higher x x" and asym: "longer_or_higher y x \<Longrightarrow> \<not> longer_or_higher x y"
      by (auto simp: longer_or_higher_def)
    show ?thesis
    proof (cases "longer_or_higher y x")
      case True
      then have "l = y" using Cons.prems Some by simp
      then show ?thesis using Cons.IH [OF Some] asym [OF True] by simp
    next
      case False
      then have "l = x" using Cons.prems Some by simp
      then show ?thesis using Cons.IH [OF Some] trans [OF False] irrefl by simp
    qed
  qed
qed

lemma latest_of_None: "latest_of xs = None \<Longrightarrow> xs = []"
  by (cases xs) (auto split: option.splits if_splits)

lemma proper_value_less:
  assumes "proper_digits a" and "proper_digits b" and "\<not> longer_or_higher (p @ a) (p @ b)"
  shows "digits_value a \<le> digits_value b"
proof (cases "length a = length b")
  case True
  have "(p @ b < p @ a) = (b < a)" by (induction p) auto
  then have "a = b \<or> a < b" using assms(3) True by (auto simp: longer_or_higher_def)
  then show ?thesis
    using digits_less_value [OF True] assms(1,2) by (auto simp: proper_digits_def)
next
  case False
  then have "length a \<le> length b - 1" "7 < length b" using assms by (auto simp: longer_or_higher_def proper_digits_def)
  then have "(10::nat) ^ length a \<le> 10 ^ (length b - 1)" by (intro power_increasing) simp_all
  moreover have "digits_value a < 10 ^ length a"
    using digits_value_bound assms(1) by (simp add: proper_digits_def)
  ultimately have "digits_value a < 10 ^ (length b - 1)" by linarith
  with proper_digits_long [OF assms(2) \<open>7 < length b\<close>] show ?thesis by simp
qed

text \<open>
  C36. When every number with the prefix was written by the allocator, the next number is new, is itself
  in that form, and is higher than all of them, so allocation succeeds at the first attempt and goes
  on succeeding.
\<close>

theorem next_number_fresh:
  assumes "list_all (\<lambda>n. starts_with prefix n \<longrightarrow> proper_number prefix n) numbers"
  shows "let n = next_in_sequence numbers prefix fallback in
      n \<notin> set numbers \<and> proper_number prefix n
      \<and> allocate_number number_attempts numbers (\<lambda>ns. next_in_sequence ns prefix fallback) = Inr n
      \<and> list_all (\<lambda>m. starts_with prefix m \<longrightarrow>
          digits_value (drop (length prefix) m) < digits_value (drop (length prefix) n)) numbers"
proof -
  let ?ns = "filter (starts_with prefix) numbers"
  have form: "\<exists>d. m = prefix @ d \<and> proper_digits d" if "m \<in> set ?ns" for m
    using that assms by (auto simp: list_all_iff proper_number_def starts_with_def) (metis append_take_drop_id)
  obtain c where n: "next_in_sequence numbers prefix fallback = prefix @ format_07d (int c + 1)"
      and top: "\<And>m d. m \<in> set ?ns \<Longrightarrow> m = prefix @ d \<Longrightarrow> digits_value d \<le> c"
  proof (cases "latest_of ?ns")
    case None
    then have "next_in_sequence numbers prefix fallback = prefix @ format_07d (int 0 + 1)"
      by (simp add: next_in_sequence_def)
    with that [of 0] latest_of_None [OF None] show ?thesis by simp
  next
    case (Some l)
    note l = latest_of_greatest [OF Some]
    obtain dl where dl: "l = prefix @ dl" "proper_digits dl" using form l by blast
    then have "int_of_str (drop (length prefix) l) = Some (int (digits_value dl))"
      by (intro trans [OF arg_cong [of _ dl int_of_str] int_of_str_digits]) (auto simp: proper_digits_def)
    with Some have "next_in_sequence numbers prefix fallback = prefix @ format_07d (int (digits_value dl) + 1)"
      by (simp add: next_in_sequence_def)
    moreover have "digits_value d \<le> digits_value dl" if "m \<in> set ?ns" "m = prefix @ d" for m d
      using proper_value_less [OF _ dl(2), of d prefix] form [OF that(1)] l that dl(1) by auto
    ultimately show ?thesis using that by blast
  qed
  let ?n = "prefix @ format_07d (int c + 1)"
  have above: "digits_value (drop (length prefix) m) < digits_value (format_07d (int c + 1))"
    if "m \<in> set numbers" and "starts_with prefix m" for m
    using form [of m] top [of m] that by (auto simp: format_proper(2) less_Suc_eq_le)
  have "starts_with prefix ?n" by (simp add: starts_with_def)
  then have new: "?n \<notin> set numbers" using above [of ?n] by auto
  then have "allocate_number number_attempts numbers (\<lambda>ns. next_in_sequence ns prefix fallback) = Inr ?n"
    by (simp add: number_attempts_def numeral_eq_Suc n)
  with new above \<open>starts_with prefix ?n\<close> show ?thesis
    by (auto simp: n proper_number_def format_proper list_all_iff)
qed

theorem next_number_fresh_witness:
  "next_in_sequence [''INC0000008'', ''CHG0000012'', ''INC0000009''] ''INC'' 3 = ''INC0000010''
   \<and> ''INC0000010'' \<notin> set [''INC0000008'', ''CHG0000012'', ''INC0000009'']"
proof -
  let ?ns = "[''INC0000008'', ''CHG0000012'', ''INC0000009'']"
  have "list_all (\<lambda>n. starts_with ''INC'' n \<longrightarrow> proper_number ''INC'' n) ?ns" by code_simp
  from next_number_fresh [OF this, of 3]
  have "next_in_sequence ?ns ''INC'' 3 \<notin> set ?ns" by (simp only: Let_def simp_thms)
  moreover have "next_in_sequence ?ns ''INC'' 3 = ''INC0000010''" by code_simp
  ultimately show ?thesis by metis
qed

text \<open>
  The allocator is not robust against numbers that were padded wider: the longest number wins, not
  the highest, and when the number after it is in use every attempt computes it again, so allocation
  fails although free numbers exist.
\<close>

theorem wider_padding_blocks_allocation:
  "allocate_number number_attempts [''INC00000005'', ''INC0000006''] (\<lambda>ns. next_in_sequence ns ''INC'' 2)
     = Inl (Abort 409 ''Could not allocate a unique record number'')
   \<and> ''INC0000007'' \<notin> set [''INC00000005'', ''INC0000006'']"
  by code_simp

end
