(* ===== verification/Requests.thy ===== *)
theory Requests
  imports SLA Tasks Numbering
begin

text \<open>
  Catalog requests: a request (REQ) holds requested items (RITM), an item is fulfilled by catalog tasks
  (SCTASK). Modelled here from \<^verbatim>\<open>app.py\<close> are the routing of a fulfilment task, its creation and its
  transition, and the messages to the person a request is for, and from
  \<^verbatim>\<open>serviceops_core/request_withdrawal.py\<close> the rule that settles a request when none of its items is open.
\<close>

section \<open>Fulfilment tasks\<close>

definition catalog_fulfillment_group :: "db \<Rightarrow> catalog_item \<Rightarrow> support_group option" where
  "catalog_fulfillment_group s item =
     (let fallback = find (\<lambda>g. g_name g = ''Service Desk'' \<and> g_active g \<and> g_tenant_id g = cat_tenant_id item) (db_groups s) in
      case find (\<lambda>r. cr_catalog_item_id r = cat_id item) (db_routings s) of
        None \<Rightarrow> fallback
      | Some route \<Rightarrow>
          (if cr_active route
           then (case get_row g_id (cr_support_group_id route) (db_groups s) of
                   None \<Rightarrow> fallback
                 | Some g \<Rightarrow> if g_active g then Some g else fallback)
           else fallback))"

definition tasks_of_ritm :: "db \<Rightarrow> nat \<Rightarrow> catalog_task list" where
  "tasks_of_ritm s i = filter (\<lambda>t. ct_requested_item_id t = i) (db_catalog_tasks s)"

definition create_catalog_task :: "requested_item \<Rightarrow> db \<Rightarrow> db result" where
  "create_catalog_task ritm s =
     (if tasks_of_ritm s (ri_id ritm) \<noteq> [] then Inr s
      else (case get_row cat_id (ri_catalog_item_id ritm) (db_catalog_items s) of
          None \<Rightarrow> Inl (AttributeError ''item'')
        | Some item \<Rightarrow>
            (case catalog_fulfillment_group s item of
               None \<Rightarrow> Inl (Abort 409 ''no active fulfillment route and no active Service Desk fallback'')
             | Some team \<Rightarrow>
                 bindE (allocate_number number_attempts (map ct_number (db_catalog_tasks s))
                          (\<lambda>ns. sequence_number ns (map ct_id (db_catalog_tasks s)) ''SCTASK''))
                   (\<lambda>number.
                     let title = ''Fulfill '' @ cat_name item;
                         s = s\<lparr>db_catalog_tasks := db_catalog_tasks s @
                           [\<lparr>ct_id = next_id ct_id (db_catalog_tasks s), ct_number = number,
                             ct_requested_item_id = ri_id ritm, ct_title = title, ct_state = ''Open'',
                             ct_sequence = 1, ct_assignment_group_id = Some (g_id team), ct_assignee_id = None,
                             ct_due_at = ri_due_at ritm, ct_work_notes = [], ct_tenant_id = ri_tenant_id ritm\<rparr>]\<rparr>
                     in Inr (log_history ''ritm'' (ri_id ritm) ''Catalog task created'' None None None
                          (number @ '': '' @ title @ '' '' @ arrow @ '' '' @ g_name team) None s)))))"

definition ritm_linked_change :: "db \<Rightarrow> nat \<Rightarrow> ticket option" where
  "ritm_linked_change s i =
     (case find (\<lambda>l. rl_source_type l = ''ritm'' \<and> rl_source_id l = i \<and> rl_link_type l = ''requested_item_change'')
         (db_record_links s) of
        None \<Rightarrow> None
      | Some link \<Rightarrow> get_row tk_id (rl_target_id link) (db_tickets s))"

definition task_predecessor :: "db \<Rightarrow> catalog_task_control \<Rightarrow> catalog_task option" where
  "task_predecessor s control =
     (case cc_predecessor_task_id control of
        None \<Rightarrow> None | Some i \<Rightarrow> get_row ct_id i (db_catalog_tasks s))"

definition transition_catalog_task :: "catalog_task \<Rightarrow> string \<Rightarrow> db \<Rightarrow> db result" where
  "transition_catalog_task task new_state s =
     (if (case approval_chain_for s ''ritm'' (ct_requested_item_id task) of
            None \<Rightarrow> False | Some chain \<Rightarrow> ch_state chain \<noteq> ''Approved'')
        then Inl (Abort 409 ''Fulfillment cannot start until the requested item is approved.'')
      else if new_state = ''Work in Progress'' \<and>
           (case ritm_linked_change s (ct_requested_item_id task) of
              None \<Rightarrow> False | Some change \<Rightarrow> tk_state change \<in> set [''New'', ''Awaiting Approval''])
        then Inl (Abort 409 ''cannot start production work'')
      else if (case find (\<lambda>c. cc_task_id c = ct_id task) (db_task_controls s) of
           None \<Rightarrow> False
         | Some control \<Rightarrow>
             cc_execution_mode control = ''Sequential'' \<and>
             (case task_predecessor s control of
                None \<Rightarrow> False
              | Some predecessor \<Rightarrow> ct_state predecessor \<noteq> ''Closed Complete''
                  \<and> new_state \<notin> set [''Open'', ''Closed Skipped'']))
        then Inl (Abort 409 ''cannot start until predecessor is Closed Complete'')
      else if new_state \<notin> set (allowed_states CATALOG_TASK_TRANSITIONS (ct_state task))
        then Inl (Abort 409 ''cannot move'')
      else Inr (s\<lparr>db_catalog_tasks := put_row ct_id (task\<lparr>ct_state := new_state\<rparr>) (db_catalog_tasks s)\<rparr>))"

section \<open>Settling a request\<close>

definition ITEM_TERMINAL_STATES :: "string list" where
  "ITEM_TERMINAL_STATES = [''Closed Complete'', ''Closed Incomplete'', ''Closed Skipped'', ''Rejected'', ''Cancelled'']"

definition items_of_request :: "db \<Rightarrow> nat \<Rightarrow> requested_item list" where
  "items_of_request s i = filter (\<lambda>r. ri_request_id r = i) (db_ritms s)"

definition settled_state :: "string list \<Rightarrow> string" where
  "settled_state states =
     (if list_all (\<lambda>st. st = ''Cancelled'') states then ''Cancelled''
      else if list_all (\<lambda>st. st \<in> set [''Closed Complete'', ''Cancelled'']) states then ''Closed Complete''
      else ''Closed Incomplete'')"

definition settle_request :: "catalog_request \<Rightarrow> db \<Rightarrow> db" where
  "settle_request req s =
     (let states = map ri_state (items_of_request s (rq_id req)) in
      if states = [] \<or> list_ex (\<lambda>st. st \<notin> set ITEM_TERMINAL_STATES) states then s
      else let final = settled_state states in
        if rq_state req \<noteq> final
        then (let s = log_history ''request'' (rq_id req) ''State changed'' (Some ''state'') (Some (rq_state req)) (Some final)
                        [] None s
              in s\<lparr>db_requests := put_row rq_id
                   (req\<lparr>rq_state := final,
                      rq_closed_at := (case rq_closed_at req of None \<Rightarrow> Some (db_clock s) | Some t \<Rightarrow> Some t)\<rparr>)
                   (db_requests s)\<rparr>)
        else s)"

section \<open>Messages to the person a request is for\<close>

definition ritm_title :: "string \<Rightarrow> string \<Rightarrow> string" where
  "ritm_title item outcome = item @ opt [] (map_of
     [(''approved'', '' was approved and is being prepared''), (''rejected'', '' was not approved''),
      (''fulfilled'', '' is ready''), (''incomplete'', '' could not be completed'')] outcome)"

definition ritm_body :: "string \<Rightarrow> string \<Rightarrow> string" where
  "ritm_body number outcome = number @ opt [] (map_of
     [(''approved'', '' is with the fulfilment team.''), (''fulfilled'', '' was fulfilled.''),
      (''rejected'', '' was not approved.''), (''incomplete'', '' was closed without being completed.'')] outcome)"

definition notify_ritm_person :: "requested_item option \<Rightarrow> string \<Rightarrow> string \<Rightarrow> db \<Rightarrow> db" where
  "notify_ritm_person ritm outcome comments s =
     (case ritm of
        None \<Rightarrow> s
      | Some ritm \<Rightarrow>
          (case get_row rq_id (ri_request_id ritm) (db_requests s) of
             None \<Rightarrow> s
           | Some req \<Rightarrow>
               let item = (case get_row cat_id (ri_catalog_item_id ritm) (db_catalog_items s) of
                             None \<Rightarrow> ri_number ritm | Some i \<Rightarrow> cat_name i);
                   body = (if comments \<noteq> [] then comments else ritm_body (ri_number ritm) outcome)
               in create_notification (rq_requested_for_id req) (ritm_title item outcome) body (ri_tenant_id ritm) (Some ''ritm'')
                    (Some (ri_id ritm)) (Some (''ritm.'' @ outcome)) [] s))"

definition notify_request_outcome :: "approval_chain \<Rightarrow> string \<Rightarrow> string \<Rightarrow> db \<Rightarrow> db" where
  "notify_request_outcome chain outcome comments s =
     (if ch_target_type chain \<noteq> ''ritm'' then s
      else notify_ritm_person (get_row ri_id (ch_target_id chain) (db_ritms s)) outcome comments s)"

interpretation notify_ritm_person: log_only "notify_ritm_person ritm outcome comments" for ritm outcome comments
  by unfold_locales
    (simp_all add: notify_ritm_person_def Let_def create_notification.core_eq create_notification.history_appends
      create_notification.audits_append split: option.split)

interpretation notify_request_outcome: log_only "notify_request_outcome chain outcome comments"
  for chain outcome comments
  by unfold_locales
    (simp_all add: notify_request_outcome_def notify_ritm_person.core_eq notify_ritm_person.history_appends
      notify_ritm_person.audits_append)

section \<open>A request is settled exactly when no item is open\<close>

lemma settle_request_rows:
  "db_requests (settle_request req s) =
     (let states = map ri_state (items_of_request s (rq_id req)) in
      if states = [] \<or> list_ex (\<lambda>st. st \<notin> set ITEM_TERMINAL_STATES) states \<or> rq_state req = settled_state states
      then db_requests s
      else put_row rq_id (req\<lparr>rq_state := settled_state states,
             rq_closed_at := Some (opt (db_clock s) (rq_closed_at req))\<rparr>) (db_requests s))"
  by (simp add: settle_request_def Let_def split: option.split)

lemma settled_state_finished: "settled_state states \<in> set FINISHED_REQUEST_STATES"
  by (simp add: settled_state_def FINISHED_REQUEST_STATES_def)

text \<open>
  Settling closes a request exactly when it has items and none of them is open: then its state is a
  finished one, Cancelled only if every item was cancelled and Closed Complete only if every other
  item was completed; while an item is open the request is left alone. Settling again changes nothing.
\<close>

theorem settle_request_exact:
  assumes "get_row rq_id (rq_id req) (db_requests s) = Some req"
  shows "let items = items_of_request s (rq_id req); s' = settle_request req s in
      (items = [] \<or> list_ex (\<lambda>r. ri_state r \<notin> set ITEM_TERMINAL_STATES) items \<longrightarrow> s' = s)
      \<and> (items \<noteq> [] \<and> list_all (\<lambda>r. ri_state r \<in> set ITEM_TERMINAL_STATES) items \<longrightarrow>
         (\<exists>req'. get_row rq_id (rq_id req) (db_requests s') = Some req'
            \<and> rq_state req' \<in> set FINISHED_REQUEST_STATES
            \<and> (rq_state req' = ''Cancelled'' \<longleftrightarrow> list_all (\<lambda>r. ri_state r = ''Cancelled'') items)
            \<and> (rq_state req' = ''Closed Complete'' \<longrightarrow>
                list_all (\<lambda>r. ri_state r \<in> set [''Closed Complete'', ''Cancelled'']) items)
            \<and> settle_request req' s' = s'))"
proof -
  define items where "items = items_of_request s (rq_id req)"
  define final where "final = settled_state (map ri_state items)"
  have "\<exists>req'. get_row rq_id (rq_id req) (db_requests (settle_request req s)) = Some req' \<and> rq_state req' = final
      \<and> rq_id req' = rq_id req"
    if "items \<noteq> []" and "list_all (\<lambda>r. ri_state r \<in> set ITEM_TERMINAL_STATES) items"
    using that assms
    by (auto simp: settle_request_rows Let_def list_all_iff list_ex_iff get_put_row final_def
        simp flip: items_def)
  moreover have "settle_request req' (settle_request req s) = settle_request req s"
    if "rq_state req' = final" and "rq_id req' = rq_id req" for req'
  proof -
    have "items_of_request (settle_request req s) (rq_id req') = items"
      by (simp add: items_of_request_def items_def settle_request_def Let_def that)
    then show ?thesis using that by (simp add: settle_request_def [of req'] final_def Let_def)
  qed
  moreover have "final \<in> set FINISHED_REQUEST_STATES" unfolding final_def by (rule settled_state_finished)
  moreover have "final = ''Cancelled'' \<longleftrightarrow> list_all (\<lambda>r. ri_state r = ''Cancelled'') items"
      "final = ''Closed Complete'' \<longrightarrow> list_all (\<lambda>r. ri_state r \<in> set [''Closed Complete'', ''Cancelled'']) items"
    by (auto simp: final_def settled_state_def list_all_iff)
  moreover have "settle_request req s = s"
    if "items = [] \<or> list_ex (\<lambda>r. ri_state r \<notin> set ITEM_TERMINAL_STATES) items"
    using that by (auto simp: settle_request_def Let_def list_ex_iff simp flip: items_def)
  ultimately show ?thesis
    unfolding Let_def items_def [symmetric] by (intro conjI impI) (blast | fastforce)+
qed

definition example_request_db :: db where
  "example_request_db = empty_db\<lparr>db_requests := [blank_catalog_request\<lparr>rq_id := 3, rq_state := ''Open''\<rparr>],
     db_ritms := [blank_requested_item\<lparr>ri_id := 5, ri_request_id := 3, ri_state := ''Closed Complete''\<rparr>,
                  blank_requested_item\<lparr>ri_id := 6, ri_request_id := 3, ri_state := ''Rejected''\<rparr>]\<rparr>"

theorem settle_request_exact_witness:
  "\<exists>req'. get_row rq_id 3 (db_requests (settle_request (blank_catalog_request\<lparr>rq_id := 3, rq_state := ''Open''\<rparr>)
       example_request_db)) = Some req' \<and> rq_state req' \<in> set FINISHED_REQUEST_STATES \<and> rq_state req' \<noteq> ''Cancelled''"
proof -
  let ?req = "blank_catalog_request\<lparr>rq_id := 3, rq_state := ''Open''\<rparr>"
  have row: "get_row rq_id (rq_id ?req) (db_requests example_request_db) = Some ?req"
    by (simp add: example_request_db_def get_row_Cons)
  have items: "items_of_request example_request_db 3 =
      [blank_requested_item\<lparr>ri_id := 5, ri_request_id := 3, ri_state := ''Closed Complete''\<rparr>,
       blank_requested_item\<lparr>ri_id := 6, ri_request_id := 3, ri_state := ''Rejected''\<rparr>]"
    by (simp add: items_of_request_def example_request_db_def)
  from settle_request_exact [OF row] show ?thesis
    by (auto simp: Let_def items ITEM_TERMINAL_STATES_def)
qed

section \<open>What the request operations leave alone\<close>

lemma settle_request_frame [simp]:
  "db_clock (settle_request req s) = db_clock s"
  "db_current_user (settle_request req s) = db_current_user s"
  "db_platform (settle_request req s) = db_platform s"
  "db_settings (settle_request req s) = db_settings s"
  "db_acting_role (settle_request req s) = db_acting_role s"
  "db_request_id (settle_request req s) = db_request_id s"
  "db_source_ip (settle_request req s) = db_source_ip s"
  "db_user_agent (settle_request req s) = db_user_agent s"
  "db_security_context (settle_request req s) = db_security_context s"
  "db_uuid (settle_request req s) = db_uuid s"
  "db_mac (settle_request req s) = db_mac s"
  "db_key_ok (settle_request req s) = db_key_ok s"
  "db_sha (settle_request req s) = db_sha s"
  "db_to_local (settle_request req s) = db_to_local s"
  "db_to_utc (settle_request req s) = db_to_utc s"
  "db_users (settle_request req s) = db_users s"
  "db_delegations (settle_request req s) = db_delegations s"
  "db_tickets (settle_request req s) = db_tickets s"
  "db_enterprise_records (settle_request req s) = db_enterprise_records s"
  "db_catalog_items (settle_request req s) = db_catalog_items s"
  "db_routings (settle_request req s) = db_routings s"
  "db_cis (settle_request req s) = db_cis s"
  "db_ci_permissions (settle_request req s) = db_ci_permissions s"
  "db_ci_relationships (settle_request req s) = db_ci_relationships s"
  "db_service_cis (settle_request req s) = db_service_cis s"
  "db_outages (settle_request req s) = db_outages s"
  "db_notification_templates (settle_request req s) = db_notification_templates s"
  "db_groups (settle_request req s) = db_groups s"
  "db_group_members (settle_request req s) = db_group_members s"
  "db_chains (settle_request req s) = db_chains s"
  "db_policies (settle_request req s) = db_policies s"
  "db_authority_groups (settle_request req s) = db_authority_groups s"
  "db_offerings (settle_request req s) = db_offerings s"
  "db_categories (settle_request req s) = db_categories s"
  "db_subcategories (settle_request req s) = db_subcategories s"
  "db_schedules (settle_request req s) = db_schedules s"
  "db_sla_definitions (settle_request req s) = db_sla_definitions s"
  "db_task_slas (settle_request req s) = db_task_slas s"
  "db_sla_events (settle_request req s) = db_sla_events s"
  "db_ritms (settle_request req s) = db_ritms s"
  "db_catalog_tasks (settle_request req s) = db_catalog_tasks s"
  "db_task_controls (settle_request req s) = db_task_controls s"
  "db_governances (settle_request req s) = db_governances s"
  "db_freezes (settle_request req s) = db_freezes s"
  "db_reviews (settle_request req s) = db_reviews s"
  "db_ownerships (settle_request req s) = db_ownerships s"
  "db_assignments (settle_request req s) = db_assignments s"
  "db_record_links (settle_request req s) = db_record_links s"
  "db_op_tasks (settle_request req s) = db_op_tasks s"
  "db_task_cis (settle_request req s) = db_task_cis s"
  "db_problem_profiles (settle_request req s) = db_problem_profiles s"
  "db_revisions (settle_request req s) = db_revisions s"
  "db_templates (settle_request req s) = db_templates s"
  "db_rules (settle_request req s) = db_rules s"
  "db_connections (settle_request req s) = db_connections s"
  "db_workflow_definitions (settle_request req s) = db_workflow_definitions s"
  "db_workflow_versions (settle_request req s) = db_workflow_versions s"
  "db_workflow_executions (settle_request req s) = db_workflow_executions s"
  "db_workflow_steps (settle_request req s) = db_workflow_steps s"
  "db_audit_keys (settle_request req s) = db_audit_keys s"
  "db_role_grants (settle_request req s) = db_role_grants s"
  by (simp_all add: settle_request_def Let_def)

lemma create_catalog_task_shape:
  assumes "create_catalog_task ritm s = Inr s'"
  shows "s' = s \<or> (\<exists>rows details. s' = log_history ''ritm'' (ri_id ritm) ''Catalog task created'' None None None details None
      (s\<lparr>db_catalog_tasks := rows\<rparr>))"
  using assms by (auto simp: create_catalog_task_def bindE_Inr_iff Let_def split: if_splits option.splits)

lemma create_catalog_task_frame:
  assumes "create_catalog_task ritm s = Inr s'"
  shows "db_clock s' = db_clock s"
    and "db_current_user s' = db_current_user s"
    and "db_platform s' = db_platform s"
    and "db_settings s' = db_settings s"
    and "db_acting_role s' = db_acting_role s"
    and "db_request_id s' = db_request_id s"
    and "db_source_ip s' = db_source_ip s"
    and "db_user_agent s' = db_user_agent s"
    and "db_security_context s' = db_security_context s"
    and "db_uuid s' = db_uuid s"
    and "db_mac s' = db_mac s"
    and "db_key_ok s' = db_key_ok s"
    and "db_sha s' = db_sha s"
    and "db_to_local s' = db_to_local s"
    and "db_to_utc s' = db_to_utc s"
    and "db_users s' = db_users s"
    and "db_delegations s' = db_delegations s"
    and "db_tickets s' = db_tickets s"
    and "db_enterprise_records s' = db_enterprise_records s"
    and "db_catalog_items s' = db_catalog_items s"
    and "db_routings s' = db_routings s"
    and "db_cis s' = db_cis s"
    and "db_ci_permissions s' = db_ci_permissions s"
    and "db_ci_relationships s' = db_ci_relationships s"
    and "db_service_cis s' = db_service_cis s"
    and "db_outages s' = db_outages s"
    and "db_notification_templates s' = db_notification_templates s"
    and "db_groups s' = db_groups s"
    and "db_group_members s' = db_group_members s"
    and "db_chains s' = db_chains s"
    and "db_policies s' = db_policies s"
    and "db_authority_groups s' = db_authority_groups s"
    and "db_offerings s' = db_offerings s"
    and "db_categories s' = db_categories s"
    and "db_subcategories s' = db_subcategories s"
    and "db_schedules s' = db_schedules s"
    and "db_sla_definitions s' = db_sla_definitions s"
    and "db_task_slas s' = db_task_slas s"
    and "db_sla_events s' = db_sla_events s"
    and "db_requests s' = db_requests s"
    and "db_ritms s' = db_ritms s"
    and "db_task_controls s' = db_task_controls s"
    and "db_governances s' = db_governances s"
    and "db_freezes s' = db_freezes s"
    and "db_reviews s' = db_reviews s"
    and "db_ownerships s' = db_ownerships s"
    and "db_assignments s' = db_assignments s"
    and "db_record_links s' = db_record_links s"
    and "db_op_tasks s' = db_op_tasks s"
    and "db_task_cis s' = db_task_cis s"
    and "db_problem_profiles s' = db_problem_profiles s"
    and "db_revisions s' = db_revisions s"
    and "db_templates s' = db_templates s"
    and "db_rules s' = db_rules s"
    and "db_connections s' = db_connections s"
    and "db_workflow_definitions s' = db_workflow_definitions s"
    and "db_workflow_versions s' = db_workflow_versions s"
    and "db_workflow_executions s' = db_workflow_executions s"
    and "db_workflow_steps s' = db_workflow_steps s"
    and "db_audit_keys s' = db_audit_keys s"
    and "db_role_grants s' = db_role_grants s"
  using create_catalog_task_shape [OF assms] by auto

section \<open>Fulfilment tasks\<close>

lemma allocate_number_fresh: "allocate_number k numbers compute = Inr n \<Longrightarrow> n \<notin> set numbers"
  by (induction k) (auto simp: Let_def split: if_splits)

text \<open>
  Creating the fulfilment task of an approved item adds at most one task, open, with a new number and
  routed to an active team, and is idempotent.
\<close>

lemma create_catalog_task_once:
  assumes "create_catalog_task ritm s = Inr s'"
  shows "tasks_of_ritm s' (ri_id ritm) \<noteq> []"
    and "tasks_of_ritm s (ri_id ritm) = [] \<Longrightarrow>
      \<exists>t g. db_catalog_tasks s' = db_catalog_tasks s @ [t] \<and> ct_state t = ''Open''
        \<and> ct_number t \<notin> ct_number ` set (db_catalog_tasks s)
        \<and> g \<in> set (db_groups s) \<and> g_active g \<and> ct_assignment_group_id t = Some (g_id g)"
    and "create_catalog_task ritm s' = Inr s'"
proof -
  have team: "g \<in> set (db_groups s) \<and> g_active g" if "catalog_fulfillment_group s item = Some g" for g item
    using that by (auto simp: catalog_fulfillment_group_def Let_def find_Some_iff dest!: get_row_key
        split: option.splits if_splits)
  show new: "tasks_of_ritm s' (ri_id ritm) \<noteq> []"
    using assms by (auto simp: create_catalog_task_def tasks_of_ritm_def bindE_Inr_iff Let_def
        split: if_splits option.splits)
  then show "create_catalog_task ritm s' = Inr s'" by (simp add: create_catalog_task_def)
  assume "tasks_of_ritm s (ri_id ritm) = []"
  with assms show "\<exists>t g. db_catalog_tasks s' = db_catalog_tasks s @ [t] \<and> ct_state t = ''Open''
        \<and> ct_number t \<notin> ct_number ` set (db_catalog_tasks s)
        \<and> g \<in> set (db_groups s) \<and> g_active g \<and> ct_assignment_group_id t = Some (g_id g)"
    by (auto simp: create_catalog_task_def bindE_Inr_iff Let_def dest!: allocate_number_fresh
        split: option.splits) (use team in blast)
qed

text \<open>Fulfilment waits for the approval of the item, and a sequential task for its predecessor.\<close>

lemma transition_catalog_task_ok:
  assumes "transition_catalog_task task new_state s = Inr s'"
  shows "new_state \<in> set (allowed_states CATALOG_TASK_TRANSITIONS (ct_state task))"
    and "approval_chain_for s ''ritm'' (ct_requested_item_id task) = Some chain \<Longrightarrow> ch_state chain = ''Approved''"
    and "find (\<lambda>c. cc_task_id c = ct_id task) (db_task_controls s) = Some control \<Longrightarrow>
      cc_execution_mode control = ''Sequential'' \<Longrightarrow> task_predecessor s control = Some predecessor \<Longrightarrow>
      new_state \<notin> set [''Open'', ''Closed Skipped''] \<Longrightarrow> ct_state predecessor = ''Closed Complete''"
    and "db_catalog_tasks s' = put_row ct_id (task\<lparr>ct_state := new_state\<rparr>) (db_catalog_tasks s)"
  using assms by (auto simp: transition_catalog_task_def split: if_splits option.splits)

end
