(* ===== verification/Approvals.thy ===== *)
theory Approvals
  imports Requests
begin

text \<open>
  Approval chains (\<^verbatim>\<open>app.py\<close>): a chain has gates in sequence, a gate has votes. \<open>create_approval_chain\<close>
  starts one, \<open>decide_vote\<close> is the only way a vote is cast, \<open>cancel_approval_chain\<close> and the first half
  of \<^verbatim>\<open>supersede_change_approval\<close> end one early. A vote is found by its key, with the gate and the chain it
  belongs to; the refresh under a row lock that \<^verbatim>\<open>refresh_locked_approval\<close> does is the fact that a
  decision reads the current rows. The locale \<open>chain_protocol\<close> is what any set of moves owes an
  invariant of chains; the second half of the theory proves it of the modelled moves.
\<close>

section \<open>Rows\<close>

record approval_stage =
  stg_name :: string
  stg_mode :: "string option"
  stg_approver_ids :: "nat list"

definition save_chain :: "approval_chain \<Rightarrow> db \<Rightarrow> db" where
  "save_chain chain s = s\<lparr>db_chains := put_row ch_id chain (db_chains s)\<rparr>"

definition vote_rows :: "db \<Rightarrow> (approval_chain \<times> approval_gate \<times> approval_vote) list" where
  "vote_rows s = concat (map (\<lambda>c. concat (map (\<lambda>g. map (\<lambda>v. (c, g, v)) (gt_votes g)) (ch_gates c))) (db_chains s))"

definition locate_vote :: "db \<Rightarrow> nat \<Rightarrow> (approval_chain \<times> approval_gate \<times> approval_vote) option" where
  "locate_vote s vote_id = find (\<lambda>(c, g, v). v_id v = vote_id) (vote_rows s)"

definition set_target_state :: "string \<Rightarrow> nat \<Rightarrow> string \<Rightarrow> db \<Rightarrow> db" where
  "set_target_state target_type target_id state s =
     (if target_type = ''ticket'' then
        s\<lparr>db_tickets := upd_rows (\<lambda>t. tk_id t = target_id) (\<lambda>t. t\<lparr>tk_state := state\<rparr>) (db_tickets s)\<rparr>
      else if target_type = ''ritm'' then
        s\<lparr>db_ritms := upd_rows (\<lambda>r. ri_id r = target_id) (\<lambda>r. r\<lparr>ri_state := state\<rparr>) (db_ritms s)\<rparr>
      else if target_type = ''enterprise'' then
        s\<lparr>db_enterprise_records := upd_rows (\<lambda>r. er_id r = target_id) (\<lambda>r. r\<lparr>er_state := state\<rparr>)
            (db_enterprise_records s)\<rparr>
      else s)"

text \<open>The number and tenant of \<^verbatim>\<open>target_record\<close>, where the code reads them.\<close>

definition target_number_tenant :: "db \<Rightarrow> string \<Rightarrow> nat \<Rightarrow> (string \<times> nat) option" where
  "target_number_tenant s target_type target_id =
     (if target_type = ''ticket'' then map_option (\<lambda>t. (tk_number t, tk_tenant_id t)) (get_row tk_id target_id (db_tickets s))
      else if target_type = ''ritm'' then map_option (\<lambda>r. (ri_number r, ri_tenant_id r)) (get_row ri_id target_id (db_ritms s))
      else if target_type = ''enterprise'' then
        map_option (\<lambda>r. (er_number r, er_tenant_id r)) (get_row er_id target_id (db_enterprise_records s))
      else None)"

text \<open>\<^verbatim>\<open>record_tenant_id(record_reference(target_type, target_id))\<close>\<close>

definition record_tenant_id :: "db \<Rightarrow> string \<Rightarrow> nat \<Rightarrow> nat option" where
  "record_tenant_id s target_type target_id =
     (let request_tenant = (\<lambda>r. map_option rq_tenant_id (get_row rq_id (ri_request_id r) (db_requests s))) in
      if target_type = ''ticket'' then map_option tk_tenant_id (get_row tk_id target_id (db_tickets s))
      else if target_type = ''enterprise'' then map_option er_tenant_id (get_row er_id target_id (db_enterprise_records s))
      else if target_type = ''request'' then map_option rq_tenant_id (get_row rq_id target_id (db_requests s))
      else if target_type = ''ritm'' then Option.bind (get_row ri_id target_id (db_ritms s)) request_tenant
      else if target_type = ''sctask'' then
        Option.bind (get_row ct_id target_id (db_catalog_tasks s)) (\<lambda>t.
          Option.bind (get_row ri_id (ct_requested_item_id t) (db_ritms s)) request_tenant)
      else None)"

section \<open>Starting a chain\<close>

text \<open>The title and body of the request to decide; the default wording may be replaced by a template.\<close>

definition request_votes :: "approval_chain \<Rightarrow> approval_gate \<Rightarrow> string option \<Rightarrow> string option \<Rightarrow> db \<Rightarrow> db" where
  "request_votes chain gate notify_title notify_body s =
     (let using_default_wording = (notify_title = None \<and> notify_body = None);
          title = opt [] (or_str notify_title (Some (''Approval requested: '' @ gt_name gate)));
          body = opt [] (or_str notify_body
                   (Some (''Your decision is required for approval chain '' @ ch_name chain @ ''.'')))
      in fold (\<lambda>vote. create_notification (v_approver_id vote) title body (ch_tenant_id chain)
                 (Some ''approval_queue'') None (if using_default_wording then Some ''approval.requested'' else None)
                 [(''gate_name'', gt_name gate), (''chain_name'', ch_name chain)]) (gt_votes gate) s)"

definition opened_gate :: "approval_gate \<Rightarrow> approval_gate" where
  "opened_gate gate = gate\<lparr>gt_state := ''Requested'', gt_votes := map (\<lambda>v. v\<lparr>v_state := ''Requested''\<rparr>) (gt_votes gate)\<rparr>"

definition put_gate :: "approval_gate \<Rightarrow> approval_chain \<Rightarrow> approval_chain" where
  "put_gate gate chain = chain\<lparr>ch_gates := map (\<lambda>g. if gt_sequence g = gt_sequence gate then gate else g) (ch_gates chain)\<rparr>"

definition activate_gate :: "approval_chain \<Rightarrow> approval_gate \<Rightarrow> string option \<Rightarrow> string option \<Rightarrow> db \<Rightarrow> db" where
  "activate_gate chain gate notify_title notify_body s =
     request_votes chain gate notify_title notify_body (save_chain (put_gate (opened_gate gate) chain) s)"

text \<open>One vote for each approver, in order of their ids; keys are handed out one by one.\<close>

fun make_votes :: "nat \<Rightarrow> nat \<Rightarrow> nat list \<Rightarrow> approval_vote list" where
  "make_votes i tenant [] = []"
| "make_votes i tenant (a # as) =
     \<lparr>v_id = i, v_approver_id = a, v_delegated_from_id = None, v_state = ''Not Requested'', v_comments = [],
      v_decided_at = None, v_tenant_id = tenant\<rparr> # make_votes (Suc i) tenant as"

fun make_gates :: "nat \<Rightarrow> nat \<Rightarrow> nat \<Rightarrow> nat \<Rightarrow> approval_stage list \<Rightarrow> approval_gate list" where
  "make_gates gi vi sequence tenant [] = []"
| "make_gates gi vi sequence tenant (stage # stages) =
     (let approvers = sorted_list_of_set (set (stg_approver_ids stage)) in
      \<lparr>gt_id = gi, gt_sequence = sequence, gt_name = stg_name stage, gt_mode = opt ''all'' (stg_mode stage),
       gt_state = ''Pending'', gt_tenant_id = tenant, gt_votes = make_votes vi tenant approvers\<rparr>
      # make_gates (Suc gi) (vi + length approvers) (Suc sequence) tenant stages)"

definition all_gates :: "db \<Rightarrow> approval_gate list" where
  "all_gates s = concat (map ch_gates (db_chains s))"

definition all_votes :: "db \<Rightarrow> approval_vote list" where
  "all_votes s = concat (map gt_votes (all_gates s))"

definition create_approval_chain ::
    "string \<Rightarrow> string \<Rightarrow> nat \<Rightarrow> approval_stage list \<Rightarrow> string option \<Rightarrow> string option \<Rightarrow> db
       \<Rightarrow> (approval_chain \<times> db) result" where
  "create_approval_chain name target_type target_id stages first_gate_title first_gate_body s =
     (if stages = [] \<or> list_ex (\<lambda>stage. filter (\<lambda>i. i \<noteq> 0) (stg_approver_ids stage) = []) stages
      then Inl (ValueError ''Every approval stage must have at least one configured approver.'')
      else let
        tenant_id = (case record_tenant_id s target_type target_id of None \<Rightarrow> tenant_context_id s | Some t \<Rightarrow> t);
        chain = \<lparr>ch_id = next_id ch_id (db_chains s), ch_name = name, ch_target_type = target_type,
                 ch_target_id = target_id, ch_state = ''Running'', ch_current_stage = 1, ch_created_at = db_clock s,
                 ch_completed_at = None, ch_tenant_id = tenant_id,
                 ch_gates = make_gates (next_id gt_id (all_gates s)) (next_id v_id (all_votes s)) 1 tenant_id stages\<rparr>;
        s = s\<lparr>db_chains := db_chains s @ [chain]\<rparr>;
        first_gate = hd (ch_gates chain);
        s = activate_gate chain first_gate first_gate_title first_gate_body s;
        s = set_target_state target_type target_id ''Awaiting Approval'' s
      in Inr (put_gate (opened_gate first_gate) chain,
           log_history target_type target_id ''Approval requested'' None None None
             (name @ '' started with '' @ show_nat (length stages) @ '' stage(s).'') None s))"

section \<open>Ending a chain early\<close>

definition vote_pending :: "approval_vote \<Rightarrow> bool" where
  "vote_pending v \<longleftrightarrow> v_state v = ''Not Requested'' \<or> v_state v = ''Requested''"

definition dismiss_votes :: "approval_gate \<Rightarrow> approval_gate" where
  "dismiss_votes gate = gate\<lparr>gt_votes := map (\<lambda>v. if vote_pending v then v\<lparr>v_state := ''No Longer Required''\<rparr> else v)
     (gt_votes gate)\<rparr>"

definition close_gate :: "string \<Rightarrow> approval_gate \<Rightarrow> approval_gate" where
  "close_gate state gate =
     dismiss_votes (if gt_state gate = ''Pending'' \<or> gt_state gate = ''Requested''
                    then gate\<lparr>gt_state := state\<rparr> else gate)"

definition closed_chain :: "string \<Rightarrow> datetime \<Rightarrow> approval_chain \<Rightarrow> approval_chain" where
  "closed_chain state clock chain =
     chain\<lparr>ch_state := state, ch_completed_at := Some clock, ch_gates := map (close_gate state) (ch_gates chain)\<rparr>"

definition cancel_approval_chain :: "approval_chain option \<Rightarrow> db \<Rightarrow> db" where
  "cancel_approval_chain chain s =
     (case chain of
        None \<Rightarrow> s
      | Some chain \<Rightarrow>
          if ch_state chain \<noteq> ''Running'' then s
          else save_chain (closed_chain ''Cancelled'' (db_clock s) chain) s)"

text \<open>The part of \<^verbatim>\<open>supersede_change_approval\<close> that retires the previous chain.\<close>

definition supersede_chain :: "approval_chain option \<Rightarrow> db \<Rightarrow> db" where
  "supersede_chain previous s =
     (case previous of
        None \<Rightarrow> s
      | Some previous \<Rightarrow>
          if ch_state previous \<in> set [''Running'', ''Approved'']
          then save_chain (closed_chain ''Superseded'' (db_clock s) previous) s
          else s)"

section \<open>Deciding a vote\<close>

definition record_vote :: "nat \<Rightarrow> string \<Rightarrow> string \<Rightarrow> datetime \<Rightarrow> approval_gate \<Rightarrow> approval_gate" where
  "record_vote vote_id decision comments clock gate =
     gate\<lparr>gt_votes := map (\<lambda>v. if v_id v = vote_id
        then v\<lparr>v_state := decision, v_comments := comments, v_decided_at := Some clock\<rparr> else v) (gt_votes gate)\<rparr>"

definition gate_complete :: "approval_gate \<Rightarrow> bool" where
  "gate_complete gate \<longleftrightarrow>
     (let requested = filter (\<lambda>v. v_state v = ''Requested'') (gt_votes gate);
          approved = filter (\<lambda>v. v_state v = ''Approved'') (gt_votes gate);
          majority = length (gt_votes gate) div 2 + 1
      in gt_mode gate = ''any'' \<and> approved \<noteq> []
         \<or> gt_mode gate = ''all'' \<and> requested = []
         \<or> gt_mode gate = ''majority'' \<and> length approved \<ge> majority)"

text \<open>One rejection ends the chain: the deciding gate is Rejected, the others are closed.\<close>

definition rejected_chain :: "approval_gate \<Rightarrow> datetime \<Rightarrow> approval_chain \<Rightarrow> approval_chain" where
  "rejected_chain gate clock chain =
     chain\<lparr>ch_state := ''Rejected'', ch_completed_at := Some clock,
       ch_gates := map (\<lambda>g. if gt_sequence g = gt_sequence gate
           then dismiss_votes (gate\<lparr>gt_state := ''Rejected''\<rparr>)
           else close_gate ''Cancelled'' g) (ch_gates chain)\<rparr>"

definition approved_gate :: "approval_gate \<Rightarrow> approval_gate" where
  "approved_gate gate = gate\<lparr>gt_state := ''Approved'',
     gt_votes := map (\<lambda>v. if v_state v = ''Requested'' then v\<lparr>v_state := ''No Longer Required''\<rparr> else v) (gt_votes gate)\<rparr>"

definition next_gate :: "approval_chain \<Rightarrow> approval_gate \<Rightarrow> approval_gate option" where
  "next_gate chain gate = find (\<lambda>g. gt_sequence g = gt_sequence gate + 1) (ch_gates chain)"

definition after_rejection :: "approval_chain \<Rightarrow> string \<Rightarrow> db \<Rightarrow> db result" where
  "after_rejection chain comments s =
     (let s = set_target_state (ch_target_type chain) (ch_target_id chain) ''Rejected'' s in
      bindE (if ch_target_type chain \<in> set [''ticket'', ''ritm'']
             then sync_slas (ch_target_type chain) (ch_target_id chain) ''Rejected'' s else Inr s) (\<lambda>s.
      let s = (if ch_target_type chain = ''ritm'' then
                 (case get_row ri_id (ch_target_id chain) (db_ritms s) of
                    None \<Rightarrow> s
                  | Some ritm \<Rightarrow>
                      (case get_row rq_id (ri_request_id ritm) (db_requests s) of
                         None \<Rightarrow> s
                       | Some req \<Rightarrow> settle_request req
                           (s\<lparr>db_ritms := put_row ri_id (ritm\<lparr>ri_stage := ''Completed''\<rparr>) (db_ritms s)\<rparr>)))
               else s);
          s = (if ch_target_type chain \<in> set [''ticket'', ''enterprise''] then
                 (case target_number_tenant s (ch_target_type chain) (ch_target_id chain) of
                    None \<Rightarrow> s
                  | Some (number, tenant) \<Rightarrow>
                      cancel_open_child_tasks (ch_target_type chain) (ch_target_id chain) number tenant ''Rejected'' s)
               else s)
      in Inr (notify_request_outcome chain ''rejected'' comments s)))"

definition after_approval :: "approval_chain \<Rightarrow> string \<Rightarrow> db \<Rightarrow> db result" where
  "after_approval chain comments s =
     (let s = set_target_state (ch_target_type chain) (ch_target_id chain) ''Approved'' s in
      if ch_target_type chain = ''ritm'' then
        (case get_row ri_id (ch_target_id chain) (db_ritms s) of
           None \<Rightarrow> Inl (AttributeError ''stage'')
         | Some ritm \<Rightarrow>
             let ritm = ritm\<lparr>ri_stage := ''Fulfillment''\<rparr>;
                 s = s\<lparr>db_ritms := put_row ri_id ritm (db_ritms s)\<rparr>
             in bindE (create_catalog_task ritm s) (\<lambda>s. Inr (notify_request_outcome chain ''approved'' comments s)))
      else Inr s)"

definition decide_vote :: "nat \<Rightarrow> string \<Rightarrow> string \<Rightarrow> db \<Rightarrow> db result" where
  "decide_vote vote_id decision comments s =
     (case locate_vote s vote_id of
        None \<Rightarrow> Inl (KeyError ''vote'')
      | Some (chain, gate, vote) \<Rightarrow>
          if decision \<notin> set [''Approved'', ''Rejected''] then Inl (Abort 400 ''Choose Approved or Rejected.'')
          else if v_state vote \<noteq> ''Requested'' \<or> gt_state gate \<noteq> ''Requested'' \<or> ch_state chain \<noteq> ''Running''
            then Inl (Abort 409 ''This approval is no longer active.'')
          else let gate = record_vote vote_id decision comments (db_clock s) gate; chain = put_gate gate chain in
            if decision = ''Rejected'' then
              after_rejection chain comments (save_chain (rejected_chain gate (db_clock s) chain) s)
            else if \<not> gate_complete gate then Inr (save_chain chain s)
            else let chain = put_gate (approved_gate gate) chain in
              (case next_gate chain gate of
                 Some following \<Rightarrow>
                   Inr (activate_gate (chain\<lparr>ch_current_stage := gt_sequence following\<rparr>) following None None s)
               | None \<Rightarrow>
                   after_approval chain comments
                     (save_chain (chain\<lparr>ch_state := ''Approved'', ch_completed_at := Some (db_clock s)\<rparr>) s)))"

section \<open>One decision, seen from the chain\<close>

definition chain_decide ::
    "nat \<Rightarrow> string \<Rightarrow> string \<Rightarrow> datetime \<Rightarrow> approval_gate \<Rightarrow> approval_chain \<Rightarrow> approval_chain" where
  "chain_decide vote_id decision comments clock gate chain =
     (let gate = record_vote vote_id decision comments clock gate; chain = put_gate gate chain in
      if decision = ''Rejected'' then rejected_chain gate clock chain
      else if \<not> gate_complete gate then chain
      else let chain = put_gate (approved_gate gate) chain in
        (case next_gate chain gate of
           Some following \<Rightarrow> put_gate (opened_gate following) (chain\<lparr>ch_current_stage := gt_sequence following\<rparr>)
         | None \<Rightarrow> chain\<lparr>ch_state := ''Approved'', ch_completed_at := Some clock\<rparr>))"

definition votable :: "string \<Rightarrow> approval_vote \<Rightarrow> approval_gate \<Rightarrow> approval_chain \<Rightarrow> bool" where
  "votable decision vote gate chain \<longleftrightarrow> decision \<in> set [''Approved'', ''Rejected''] \<and> v_state vote = ''Requested''
     \<and> gt_state gate = ''Requested'' \<and> ch_state chain = ''Running'' \<and> gate \<in> set (ch_gates chain)
     \<and> vote \<in> set (gt_votes gate)"

lemma locate_vote_in:
  assumes "locate_vote s vote_id = Some (chain, gate, vote)"
  shows "chain \<in> set (db_chains s)" and "gate \<in> set (ch_gates chain)" and "vote \<in> set (gt_votes gate)"
    and "v_id vote = vote_id"
proof -
  have "(chain, gate, vote) \<in> set (vote_rows s) \<and> v_id vote = vote_id"
    using assms unfolding locate_vote_def find_Some_iff by (metis (mono_tags, lifting) nth_mem split_conv)
  then show "chain \<in> set (db_chains s)" "gate \<in> set (ch_gates chain)" "vote \<in> set (gt_votes gate)"
    "v_id vote = vote_id" by (auto simp: vote_rows_def)
qed

lemma chain_keys [simp]:
  "ch_id (put_gate g c) = ch_id c" "ch_target_type (put_gate g c) = ch_target_type c"
  "ch_target_id (put_gate g c) = ch_target_id c" "ch_state (put_gate g c) = ch_state c"
  "ch_tenant_id (put_gate g c) = ch_tenant_id c" "ch_current_stage (put_gate g c) = ch_current_stage c"
  "ch_id (rejected_chain g t c) = ch_id c" "ch_state (rejected_chain g t c) = ''Rejected''"
  "ch_id (closed_chain st t c) = ch_id c" "ch_state (closed_chain st t c) = st"
  by (simp_all add: put_gate_def rejected_chain_def closed_chain_def)

lemma chain_decide_id [simp]: "ch_id (chain_decide vote_id decision comments clock gate chain) = ch_id chain"
  by (simp add: chain_decide_def Let_def split: option.split)

lemma db_chains_simps [simp]:
  "db_chains (save_chain c s) = put_row ch_id c (db_chains s)"
  "db_chains (set_target_state ty i st s) = db_chains s"
  "db_chains (request_votes c g t b s) = db_chains s"
  by (simp_all add: save_chain_def set_target_state_def request_votes_def Let_def fold_unchanged [where g = db_chains])

lemma after_rejection_chains: "after_rejection chain comments s = Inr s' \<Longrightarrow> db_chains s' = db_chains s"
  by (auto simp: after_rejection_def Let_def bindE_Inr_iff dest!: sync_slas.fields(31)
      split: if_splits option.splits)

lemma after_approval_chains: "after_approval chain comments s = Inr s' \<Longrightarrow> db_chains s' = db_chains s"
  by (auto simp: after_approval_def Let_def bindE_Inr_iff dest!: create_catalog_task_frame(30)
      split: if_splits option.splits)

text \<open>The handler implements the decision on the chain row and touches no other chain.\<close>

lemma decide_vote_refines:
  assumes "decide_vote vote_id decision comments s = Inr s'"
  shows "\<exists>chain gate vote. locate_vote s vote_id = Some (chain, gate, vote) \<and> votable decision vote gate chain
    \<and> db_chains s' = put_row ch_id (chain_decide vote_id decision comments (db_clock s) gate chain) (db_chains s)"
proof -
  obtain chain gate vote where loc: "locate_vote s vote_id = Some (chain, gate, vote)"
    using assms by (auto simp: decide_vote_def split: option.splits)
  note mem = locate_vote_in [OF loc]
  have "votable decision vote gate chain"
    using assms loc mem(2,3) by (auto simp: decide_vote_def votable_def split: if_splits)
  moreover have "db_chains s' = put_row ch_id (chain_decide vote_id decision comments (db_clock s) gate chain) (db_chains s)"
    using assms loc
    by (auto simp: decide_vote_def chain_decide_def activate_gate_def Let_def
        dest!: after_rejection_chains after_approval_chains split: if_splits option.splits)
  ultimately show ?thesis using loc by blast
qed

section \<open>The invariant of a chain\<close>

definition gate_wf :: "approval_gate \<Rightarrow> bool" where
  "gate_wf g \<longleftrightarrow> gt_votes g \<noteq> [] \<and> gt_mode g \<in> set [''any'', ''all'', ''majority'']"

text \<open>What a gate needs to be Approved, by its mode.\<close>

definition quorum :: "approval_gate \<Rightarrow> bool" where
  "quorum g \<longleftrightarrow>
     (let approved = filter (\<lambda>v. v_state v = ''Approved'') (gt_votes g) in
      gt_mode g = ''any'' \<and> approved \<noteq> []
      \<or> gt_mode g = ''all'' \<and> approved = gt_votes g
      \<or> gt_mode g = ''majority'' \<and> 2 * length approved > length (gt_votes g))"

definition gate_done :: "approval_gate \<Rightarrow> bool" where
  "gate_done g \<longleftrightarrow> gt_state g = ''Approved'' \<and> quorum g
     \<and> list_all (\<lambda>v. v_state v \<in> set [''Approved'', ''No Longer Required'']) (gt_votes g)"

definition gate_open :: "approval_gate \<Rightarrow> bool" where
  "gate_open g \<longleftrightarrow> gt_state g = ''Requested'' \<and> \<not> gate_complete g
     \<and> list_all (\<lambda>v. v_state v \<in> set [''Approved'', ''Requested'']) (gt_votes g)"

definition gate_waiting :: "approval_gate \<Rightarrow> bool" where
  "gate_waiting g \<longleftrightarrow> gt_state g = ''Pending'' \<and> list_all (\<lambda>v. v_state v = ''Not Requested'') (gt_votes g)"

definition gate_closed :: "approval_gate \<Rightarrow> bool" where
  "gate_closed g \<longleftrightarrow> gt_state g \<notin> set [''Pending'', ''Requested''] \<and> list_all (\<lambda>v. \<not> vote_pending v) (gt_votes g)"

definition running_ok :: "approval_gate list \<Rightarrow> nat \<Rightarrow> bool" where
  "running_ok gates k \<longleftrightarrow> 0 < k \<and>
     (case drop (k - 1) gates of
        [] \<Rightarrow> False
      | g # rest \<Rightarrow> list_all gate_done (take (k - 1) gates) \<and> gate_open g \<and> list_all gate_waiting rest)"

definition chain_ok :: "approval_chain \<Rightarrow> bool" where
  "chain_ok c \<longleftrightarrow> map gt_sequence (ch_gates c) = [1..<Suc (length (ch_gates c))] \<and> list_all gate_wf (ch_gates c)
     \<and> (if ch_state c = ''Running'' then running_ok (ch_gates c) (ch_current_stage c)
        else if ch_state c = ''Approved'' then list_all gate_done (ch_gates c)
        else ch_state c \<in> set [''Rejected'', ''Cancelled'', ''Superseded''] \<and> list_all gate_closed (ch_gates c))"

lemma running_ok_split:
  "running_ok gates k \<longleftrightarrow> (\<exists>done g rest. gates = done @ g # rest \<and> k = Suc (length done)
     \<and> list_all gate_done done \<and> gate_open g \<and> list_all gate_waiting rest)"
proof
  assume "running_ok gates k"
  then obtain g rest where d: "drop (k - 1) gates = g # rest" "0 < k" and
    ok: "list_all gate_done (take (k - 1) gates)" "gate_open g" "list_all gate_waiting rest"
    by (auto simp: running_ok_def split: list.splits)
  have "gates = take (k - 1) gates @ g # rest" using d(1) append_take_drop_id [of "k - 1" gates] by simp
  moreover have "length (take (k - 1) gates) = k - 1"
    using d(1) by (metis drop_all length_take linorder_le_cases list.distinct(1) min.absorb2)
  ultimately show "\<exists>done g rest. gates = done @ g # rest \<and> k = Suc (length done)
     \<and> list_all gate_done done \<and> gate_open g \<and> list_all gate_waiting rest"
    using ok d(2) by (metis Suc_pred' One_nat_def)
qed (auto simp: running_ok_def)

lemma running_okI:
  "list_all gate_done xs \<Longrightarrow> gate_open g \<Longrightarrow> list_all gate_waiting ys \<Longrightarrow>
    running_ok (xs @ g # ys) (Suc (length xs))"
  by (auto simp: running_ok_split)

text \<open>Positions in a numbered list.\<close>

lemma numbered_split:
  assumes "map f (xs @ y # ys) = [1..<Suc (length (xs @ y # ys))]"
  shows "f y = Suc (length xs)" and "\<And>x. x \<in> set xs \<Longrightarrow> f x \<le> length xs"
    and "\<And>z. z \<in> set ys \<Longrightarrow> Suc (length xs) < f z"
    and "ys \<noteq> [] \<Longrightarrow> f (hd ys) = Suc (Suc (length xs))"
proof -
  let ?l = "xs @ y # ys"
  have nth: "f (?l ! i) = Suc i" if "i < length ?l" for i
    using arg_cong [OF assms, of "\<lambda>l. l ! i"] that by (simp add: nth_map del: upt_Suc map_append)
  show "f y = Suc (length xs)" using nth [of "length xs"] by simp
  show "f x \<le> length xs" if "x \<in> set xs" for x
    using that nth by (metis Suc_leI in_set_conv_nth length_append nth_append trans_less_add1)
  have tail: "f (ys ! i) = Suc (Suc (length xs + i))" if "i < length ys" for i
    using nth [of "Suc (length xs + i)"] that by (simp add: nth_append)
  then show "Suc (length xs) < f z" if "z \<in> set ys" for z
    using that by (auto simp: in_set_conv_nth)
  show "f (hd ys) = Suc (Suc (length xs))" if "ys \<noteq> []" using tail [of 0] that by (simp add: hd_conv_nth)
qed

lemma put_gate_split:
  assumes "map gt_sequence (xs @ g # ys) = [1..<Suc (length (xs @ g # ys))]"
    and "ch_gates c = xs @ g # ys" and "gt_sequence g' = gt_sequence g"
  shows "ch_gates (put_gate g' c) = xs @ g' # ys"
proof -
  note pos = numbered_split [OF assms(1)]
  have "map (\<lambda>h. if gt_sequence h = gt_sequence g' then g' else h) xs = xs"
    by (rule map_idI) (use pos assms(3) in force)
  moreover have "map (\<lambda>h. if gt_sequence h = gt_sequence g' then g' else h) ys = ys"
    by (rule map_idI) (use pos assms(3) in force)
  ultimately show ?thesis using assms(2,3) by (simp add: put_gate_def)
qed

lemma gate_keeps [simp]:
  "gt_sequence (record_vote i d c t g) = gt_sequence g" "gt_mode (record_vote i d c t g) = gt_mode g"
  "gt_state (record_vote i d c t g) = gt_state g"
  "gt_sequence (approved_gate g) = gt_sequence g" "gt_mode (approved_gate g) = gt_mode g"
  "gt_sequence (opened_gate g) = gt_sequence g" "gt_mode (opened_gate g) = gt_mode g"
  "gt_sequence (dismiss_votes g) = gt_sequence g" "gt_mode (dismiss_votes g) = gt_mode g"
  "gt_state (dismiss_votes g) = gt_state g"
  "gt_sequence (close_gate st g) = gt_sequence g" "gt_mode (close_gate st g) = gt_mode g"
  by (simp_all add: record_vote_def approved_gate_def opened_gate_def dismiss_votes_def close_gate_def)

lemma gate_wf_keeps [simp]:
  "gate_wf (record_vote i d c t g) = gate_wf g" "gate_wf (approved_gate g) = gate_wf g"
  "gate_wf (opened_gate g) = gate_wf g" "gate_wf (dismiss_votes g) = gate_wf g"
  "gate_wf (close_gate st g) = gate_wf g" "gate_wf (g\<lparr>gt_state := st\<rparr>) = gate_wf g"
  by (simp_all add: gate_wf_def record_vote_def approved_gate_def opened_gate_def dismiss_votes_def close_gate_def)

lemma dismiss_closes: "gt_state g \<notin> set [''Pending'', ''Requested''] \<Longrightarrow> gate_closed (dismiss_votes g)"
  by (auto simp: gate_closed_def dismiss_votes_def list_all_iff vote_pending_def)

lemma close_gate_closes: "st \<notin> set [''Pending'', ''Requested''] \<Longrightarrow> gate_closed (close_gate st g)"
  unfolding close_gate_def by (rule dismiss_closes) auto

lemma opened_gate_open: "gate_wf g \<Longrightarrow> gate_open (opened_gate g)"
  by (auto simp: gate_open_def opened_gate_def gate_wf_def gate_complete_def Let_def list_all_iff filter_map o_def
      filter_empty_conv)

lemma approved_gate_done:
  assumes "list_all (\<lambda>v. v_state v \<in> set [''Approved'', ''Requested'']) (gt_votes g)" and "gate_complete g"
  shows "gate_done (approved_gate g)"
proof -
  let ?f = "\<lambda>v. if v_state v = ''Requested'' then v\<lparr>v_state := ''No Longer Required''\<rparr> else v"
  have count: "filter (\<lambda>v. v_state v = ''Approved'') (map ?f vs) = filter (\<lambda>v. v_state v = ''Approved'') vs" for vs
    by (induction vs) auto
  have all: "filter (\<lambda>v. v_state v = ''Approved'') vs = vs \<and> map ?f vs = vs"
    if "list_all (\<lambda>v. v_state v \<in> set [''Approved'', ''Requested'']) vs"
      and "filter (\<lambda>v. v_state v = ''Requested'') vs = []" for vs
    using that by (induction vs) (auto split: if_splits)
  have "quorum (approved_gate g)"
    using assms all [of "gt_votes g"]
    by (auto simp: quorum_def gate_complete_def approved_gate_def count Let_def)
  moreover have "list_all (\<lambda>v. v_state v \<in> set [''Approved'', ''No Longer Required'']) (gt_votes (approved_gate g))"
    using assms(1) by (auto simp: approved_gate_def list_all_iff)
  ultimately show ?thesis by (simp add: gate_done_def approved_gate_def)
qed

lemma approval_recorded:
  assumes "gate_open g"
  shows "list_all (\<lambda>v. v_state v \<in> set [''Approved'', ''Requested'']) (gt_votes (record_vote i ''Approved'' c t g))"
  using assms by (auto simp: gate_open_def record_vote_def list_all_iff)

text \<open>The gate that is open for votes is the current one.\<close>

lemma votable_gate:
  assumes "chain_ok c" and "votable decision vote gate c"
  shows "\<exists>done rest. ch_gates c = done @ gate # rest \<and> ch_current_stage c = Suc (length done)
    \<and> list_all gate_done done \<and> gate_open gate \<and> list_all gate_waiting rest"
proof -
  have "running_ok (ch_gates c) (ch_current_stage c)" and req: "gt_state gate = ''Requested''"
      and mem: "gate \<in> set (ch_gates c)"
    using assms by (auto simp: chain_ok_def votable_def)
  then obtain "done" g rest where split: "ch_gates c = done @ g # rest" "ch_current_stage c = Suc (length done)"
      "list_all gate_done done" "gate_open g" "list_all gate_waiting rest"
    by (auto simp: running_ok_split)
  moreover have "gate = g"
    using mem req split(1,3,5) by (auto simp: list_all_iff gate_done_def gate_waiting_def)
  ultimately show ?thesis by blast
qed

lemma sequences_replace:
  "map gt_sequence (xs @ g # ys) = [1..<Suc (length (xs @ g # ys))] \<Longrightarrow> gt_sequence g' = gt_sequence g \<Longrightarrow>
    map gt_sequence (xs @ g' # ys) = [1..<Suc (length (xs @ g' # ys))]"
  by simp

lemma find_append: "find P (xs @ ys) = (case find P xs of None \<Rightarrow> find P ys | Some x \<Rightarrow> Some x)"
  by (induction xs) auto

text \<open>What a decision makes of the chain, case by case.\<close>

lemma chain_decide_cases:
  fixes i :: nat and comments :: string and clock :: datetime
  assumes ok: "chain_ok c" and v: "votable decision vote gate c"
    and split: "ch_gates c = done @ gate # rest"
  defines "g \<equiv> record_vote i decision comments clock gate"
  shows "chain_decide i decision comments clock gate c =
    (if decision = ''Rejected''
     then c\<lparr>ch_state := ''Rejected'', ch_completed_at := Some clock,
            ch_gates := map (close_gate ''Cancelled'') done @ dismiss_votes (g\<lparr>gt_state := ''Rejected''\<rparr>)
              # map (close_gate ''Cancelled'') rest\<rparr>
     else if \<not> gate_complete g then c\<lparr>ch_gates := done @ g # rest\<rparr>
     else case rest of
       [] \<Rightarrow> c\<lparr>ch_state := ''Approved'', ch_completed_at := Some clock, ch_gates := done @ [approved_gate g]\<rparr>
     | h # hs \<Rightarrow> c\<lparr>ch_current_stage := gt_sequence h,
                   ch_gates := done @ approved_gate g # opened_gate h # hs\<rparr>)"
proof -
  have seq: "map gt_sequence (done @ gate # rest) = [1..<Suc (length (done @ gate # rest))]"
    using ok split by (simp add: chain_ok_def)
  have seq_g: "map gt_sequence (done @ g # rest) = [1..<Suc (length (done @ g # rest))]"
    using sequences_replace [OF seq] by (simp add: g_def)
  note pos = numbered_split [OF seq_g]
  have put: "put_gate g c = c\<lparr>ch_gates := done @ g # rest\<rparr>"
    using put_gate_split [OF seq split] by (simp add: g_def put_gate_def)
  have rej: "rejected_chain g clock (put_gate g c) = c\<lparr>ch_state := ''Rejected'', ch_completed_at := Some clock,
      ch_gates := map (close_gate ''Cancelled'') done @ dismiss_votes (g\<lparr>gt_state := ''Rejected''\<rparr>)
        # map (close_gate ''Cancelled'') rest\<rparr>"
  proof -
    have "map (\<lambda>h. if gt_sequence h = gt_sequence g then k else close_gate ''Cancelled'' h) done
        = map (close_gate ''Cancelled'') done" for k
      by (rule map_cong) (use pos in force)+
    moreover have "map (\<lambda>h. if gt_sequence h = gt_sequence g then k else close_gate ''Cancelled'' h) rest
        = map (close_gate ''Cancelled'') rest" for k
      by (rule map_cong) (use pos in force)+
    ultimately show ?thesis by (simp add: put rejected_chain_def)
  qed
  define c2 where "c2 = put_gate (approved_gate g) (put_gate g c)"
  have "ch_gates c2 = done @ approved_gate g # rest"
    unfolding c2_def by (rule put_gate_split [OF seq_g]) (simp_all add: put)
  then have c2: "c2 = c\<lparr>ch_gates := done @ approved_gate g # rest\<rparr>"
    by (simp add: c2_def put put_gate_def)
  have seq2: "map gt_sequence (done @ approved_gate g # rest) = [1..<Suc (length (done @ approved_gate g # rest))]"
    using sequences_replace [OF seq_g] by simp
  have "find (\<lambda>h. gt_sequence h = Suc (gt_sequence g)) (done @ approved_gate g # rest) =
      (case rest of [] \<Rightarrow> None | h # _ \<Rightarrow> Some h)"
  proof -
    have "find (\<lambda>h. gt_sequence h = Suc (gt_sequence g)) done = None"
      using pos by (force simp: find_None_iff)
    then show ?thesis using pos by (cases rest) (auto simp: find_append)
  qed
  then have nxt: "next_gate c2 g = (case rest of [] \<Rightarrow> None | h # _ \<Rightarrow> Some h)"
    by (simp add: next_gate_def c2)
  have open_next: "put_gate (opened_gate h) (c2\<lparr>ch_current_stage := gt_sequence h\<rparr>) =
      c\<lparr>ch_current_stage := gt_sequence h, ch_gates := done @ approved_gate g # opened_gate h # hs\<rparr>"
    if "rest = h # hs" for h hs
  proof -
    have "ch_gates (put_gate (opened_gate h) (c2\<lparr>ch_current_stage := gt_sequence h\<rparr>)) =
        (done @ [approved_gate g]) @ opened_gate h # hs"
      by (rule put_gate_split) (use seq2 that in \<open>simp_all add: c2\<close>)
    then show ?thesis by (simp add: put_gate_def c2)
  qed
  show ?thesis
    unfolding chain_decide_def Let_def g_def [symmetric] rej c2_def [symmetric] nxt
    using open_next by (auto simp: put c2 split: list.split)
qed

section \<open>Decisions keep the invariant and make progress\<close>

lemma chain_decide_ok:
  assumes ok: "chain_ok c" and v: "votable decision vote gate c"
  shows "chain_ok (chain_decide i decision comments clock gate c)"
proof -
  obtain "done" rest where split: "ch_gates c = done @ gate # rest" "ch_current_stage c = Suc (length done)"
      and ph: "list_all gate_done done" "gate_open gate" "list_all gate_waiting rest"
    using votable_gate [OF ok v] by blast
  define g where "g = record_vote i decision comments clock gate"
  have run: "ch_state c = ''Running''" and wf: "list_all gate_wf (done @ gate # rest)"
      and seq: "map gt_sequence (done @ gate # rest) = [1..<Suc (length (done @ gate # rest))]"
    using ok v split by (simp_all add: chain_ok_def votable_def)
  note cases = chain_decide_cases [OF ok v split(1), of i comments clock, folded g_def]
  show ?thesis
  proof (cases "decision = ''Rejected''")
    case True
    have "gate_closed (dismiss_votes (g\<lparr>gt_state := ''Rejected''\<rparr>))" by (rule dismiss_closes) simp
    moreover have "gate_closed (close_gate ''Cancelled'' h)" for h by (rule close_gate_closes) simp
    ultimately show ?thesis
      using cases True seq wf by (auto simp: chain_ok_def list_all_iff g_def o_def)
  next
    case False
    then have d: "decision = ''Approved''" using v by (simp add: votable_def)
    have votes: "list_all (\<lambda>v. v_state v \<in> set [''Approved'', ''Requested'']) (gt_votes g)"
      using approval_recorded [OF ph(2)] by (simp add: g_def d)
    show ?thesis
    proof (cases "gate_complete g")
      case False
      then have "gate_open g" using votes ph(2) by (simp add: gate_open_def g_def)
      moreover have "chain_decide i decision comments clock gate c = c\<lparr>ch_gates := done @ g # rest\<rparr>"
        using cases False d by simp
      moreover have "running_ok (done @ g # rest) (Suc (length done))" if "gate_open g"
        using that ph by (auto simp: running_ok_split)
      ultimately show ?thesis using seq wf run split(2) by (simp add: chain_ok_def g_def)
    next
      case True
      have fin: "gate_done (approved_gate g)" by (rule approved_gate_done [OF votes True])
      show ?thesis
      proof (cases rest)
        case Nil
        then show ?thesis using cases d True fin ph seq wf by (simp add: chain_ok_def g_def)
      next
        case (Cons h hs)
        have "gt_sequence h = Suc (Suc (length done))" using numbered_split(4) [OF seq] Cons by simp
        moreover have "gate_open (opened_gate h)" using wf Cons by (intro opened_gate_open) simp
        then have "running_ok ((done @ [approved_gate g]) @ opened_gate h # hs) (Suc (length (done @ [approved_gate g])))"
          using ph fin Cons by (intro running_okI) simp_all
        ultimately show ?thesis using cases d True seq wf run Cons by (simp add: chain_ok_def g_def)
      qed
    qed
  qed
qed

text \<open>The decisions still outstanding.\<close>

definition gate_pending :: "approval_gate \<Rightarrow> nat" where
  "gate_pending g = length (filter vote_pending (gt_votes g))"

definition chain_pending :: "approval_chain \<Rightarrow> nat" where
  "chain_pending c = sum_list (map gate_pending (ch_gates c))"

lemma vote_pending_states [simp]:
  "\<not> vote_pending (v\<lparr>v_state := ''Approved''\<rparr>)" "\<not> vote_pending (v\<lparr>v_state := ''Rejected''\<rparr>)"
  "\<not> vote_pending (v\<lparr>v_state := ''No Longer Required''\<rparr>)" "vote_pending (v\<lparr>v_state := ''Requested''\<rparr>)"
  "vote_pending (v\<lparr>v_comments := c\<rparr>) = vote_pending v" "vote_pending (v\<lparr>v_decided_at := t\<rparr>) = vote_pending v"
  by (simp_all add: vote_pending_def)

lemma filter_map_le:
  "(\<And>v. P (f v) \<Longrightarrow> P v) \<Longrightarrow> length (filter P (map f vs)) \<le> length (filter P vs)"
  by (induction vs) (auto simp: le_SucI)

lemma filter_map_less:
  "(\<And>v. P (f v) \<Longrightarrow> P v) \<Longrightarrow> x \<in> set vs \<Longrightarrow> P x \<Longrightarrow> \<not> P (f x) \<Longrightarrow>
    length (filter P (map f vs)) < length (filter P vs)"
proof (induction vs)
  case Nil
  then show ?case by simp
next
  case (Cons v vs)
  have "length (filter P (map f vs)) \<le> length (filter P vs)" by (rule filter_map_le) (rule Cons.prems(1))
  with Cons show ?case by (cases "x = v") (auto dest: Cons.prems(1) simp: less_Suc_eq_le)
qed

lemma record_vote_pending:
  assumes d: "decision \<in> set [''Approved'', ''Rejected'']" and "vote \<in> set (gt_votes g)" and "v_id vote = i"
    and "v_state vote = ''Requested''"
  shows "gate_pending (record_vote i decision comments clock g) < gate_pending g"
proof -
  let ?f = "\<lambda>v. if v_id v = i then v\<lparr>v_state := decision, v_comments := comments, v_decided_at := Some clock\<rparr> else v"
  have decided: "\<not> vote_pending (v\<lparr>v_state := decision, v_comments := comments, v_decided_at := Some clock\<rparr>)" for v
    using d by (auto simp: vote_pending_def)
  have "length (filter vote_pending (map ?f (gt_votes g))) < length (filter vote_pending (gt_votes g))"
  proof (rule filter_map_less [OF _ assms(2)])
    show "vote_pending (?f v) \<Longrightarrow> vote_pending v" for v using decided [of v] by (simp split: if_splits)
    show "vote_pending vote" using assms(4) by (simp add: vote_pending_def)
    show "\<not> vote_pending (?f vote)" using decided [of vote] assms(3) by simp
  qed
  then show ?thesis by (simp add: gate_pending_def record_vote_def)
qed

lemma settle_pending [simp]:
  "gate_pending (g\<lparr>gt_state := st\<rparr>) = gate_pending g" "gate_pending (dismiss_votes g) = 0"
  "gate_pending (close_gate st g) = 0"
proof -
  show zero: "gate_pending (dismiss_votes g) = 0" for g
    by (simp add: gate_pending_def dismiss_votes_def filter_empty_conv)
  then show "gate_pending (close_gate st g) = 0" unfolding close_gate_def .
  show "gate_pending (g\<lparr>gt_state := st\<rparr>) = gate_pending g" by (simp add: gate_pending_def)
qed

lemma approved_gate_pending: "gate_pending (approved_gate g) \<le> gate_pending g"
proof -
  have "vote_pending (if v_state v = ''Requested'' then v\<lparr>v_state := ''No Longer Required''\<rparr> else v) \<Longrightarrow> vote_pending v"
    for v by (simp split: if_splits)
  from filter_map_le [of vote_pending, OF this] show ?thesis by (simp add: gate_pending_def approved_gate_def)
qed

lemma opened_gate_pending: "gate_waiting g \<Longrightarrow> gate_pending (opened_gate g) = gate_pending g"
  by (simp add: gate_waiting_def gate_pending_def opened_gate_def list_all_iff vote_pending_def filter_map o_def)

lemma chain_decide_progress:
  assumes ok: "chain_ok c" and v: "votable decision vote gate c" and i: "v_id vote = i"
  shows "chain_pending (chain_decide i decision comments clock gate c) < chain_pending c"
proof -
  obtain "done" rest where split: "ch_gates c = done @ gate # rest" and ph: "list_all gate_waiting rest"
    using votable_gate [OF ok v] by blast
  define g where "g = record_vote i decision comments clock gate"
  note cases = chain_decide_cases [OF ok v split, of i comments clock, folded g_def]
  have less: "gate_pending g < gate_pending gate"
    unfolding g_def by (rule record_vote_pending) (use v i in \<open>auto simp: votable_def\<close>)
  then have "gate_pending (approved_gate g) < gate_pending gate" using approved_gate_pending [of g] by simp
  then show ?thesis
    using less ph by (auto simp: cases chain_pending_def split opened_gate_pending o_def split: list.split)
qed

lemma closed_chain_ok:
  assumes "chain_ok c" and "st \<in> set [''Cancelled'', ''Superseded'']"
  shows "chain_ok (closed_chain st t c)" and "chain_pending (closed_chain st t c) = 0"
proof -
  have "gate_closed (close_gate st g)" for g by (rule close_gate_closes) (use assms(2) in auto)
  then show "chain_ok (closed_chain st t c)"
    using assms by (auto simp: chain_ok_def closed_chain_def list_all_iff o_def)
  show "chain_pending (closed_chain st t c) = 0"
    by (simp add: chain_pending_def closed_chain_def o_def)
qed

section \<open>Somebody can always decide\<close>

lemma open_gate_has_voter:
  assumes "gate_wf g" and "gate_open g"
  shows "\<exists>v \<in> set (gt_votes g). v_state v = ''Requested''"
proof (rule ccontr)
  assume none: "\<not> (\<exists>v \<in> set (gt_votes g). v_state v = ''Requested'')"
  then have "filter (\<lambda>v. v_state v = ''Approved'') (gt_votes g) = gt_votes g"
      "filter (\<lambda>v. v_state v = ''Requested'') (gt_votes g) = []"
    using assms(2) by (auto simp: gate_open_def list_all_iff filter_id_conv filter_empty_conv)
  moreover have "length (gt_votes g) div 2 + 1 \<le> length (gt_votes g)"
    using assms(1) by (cases "gt_votes g") (auto simp: gate_wf_def)
  ultimately have "gate_complete g" using assms(1) by (auto simp: gate_complete_def gate_wf_def Let_def)
  with assms(2) show False by (simp add: gate_open_def)
qed

lemma running_has_voter:
  assumes "chain_ok c" and "ch_state c = ''Running''" and "decision \<in> set [''Approved'', ''Rejected'']"
  shows "\<exists>gate vote. votable decision vote gate c"
proof -
  obtain "done" g rest where "ch_gates c = done @ g # rest" "gate_open g" "gate_wf g"
    using assms(1,2) by (auto simp: chain_ok_def running_ok_split)
  with open_gate_has_voter [of g] assms(2,3) show ?thesis
    by (auto simp: votable_def gate_open_def)
qed

section \<open>All chains of the database\<close>

definition vote_ids :: "approval_chain \<Rightarrow> nat list" where
  "vote_ids c = concat (map (\<lambda>g. map v_id (gt_votes g)) (ch_gates c))"

definition chains_ok :: "db \<Rightarrow> bool" where
  "chains_ok s \<longleftrightarrow> list_all chain_ok (db_chains s) \<and> distinct (map ch_id (db_chains s))
     \<and> distinct (concat (map vote_ids (db_chains s)))"

lemma vote_rows_ids: "map (\<lambda>(c, g, v). v_id v) (vote_rows s) = concat (map vote_ids (db_chains s))"
  by (simp add: vote_rows_def vote_ids_def [abs_def] map_concat o_def)

lemma find_by_key:
  "distinct (map k xs) \<Longrightarrow> x \<in> set xs \<Longrightarrow> find (\<lambda>y. k y = k x) xs = Some x"
  by (induction xs) auto

lemma locate_vote_found:
  assumes "chains_ok s" and "c \<in> set (db_chains s)" and "g \<in> set (ch_gates c)" and "v \<in> set (gt_votes g)"
  shows "locate_vote s (v_id v) = Some (c, g, v)"
proof -
  have "(c, g, v) \<in> set (vote_rows s)" using assms(2-) by (auto simp: vote_rows_def)
  moreover have "distinct (map (\<lambda>(c, g, v). v_id v) (vote_rows s))"
    using assms(1) by (simp add: vote_rows_ids chains_ok_def)
  ultimately show ?thesis
    using find_by_key [of "\<lambda>(c, g, v). v_id v" "vote_rows s" "(c, g, v)"]
    by (simp add: locate_vote_def case_prod_beta')
qed

lemma gate_vote_ids [simp]:
  "map v_id (gt_votes (record_vote i d c t g)) = map v_id (gt_votes g)"
  "map v_id (gt_votes (approved_gate g)) = map v_id (gt_votes g)"
  "map v_id (gt_votes (opened_gate g)) = map v_id (gt_votes g)"
  "map v_id (gt_votes (dismiss_votes g)) = map v_id (gt_votes g)"
  "map v_id (gt_votes (close_gate st g)) = map v_id (gt_votes g)"
  by (simp_all add: record_vote_def approved_gate_def opened_gate_def dismiss_votes_def close_gate_def o_def
      if_distrib [of v_id] cong: if_cong)

lemma chain_decide_vote_ids:
  assumes "chain_ok c" and "votable decision vote gate c"
  shows "vote_ids (chain_decide i decision comments clock gate c) = vote_ids c"
proof -
  obtain "done" rest where split: "ch_gates c = done @ gate # rest" using votable_gate [OF assms] by blast
  show ?thesis
    unfolding chain_decide_cases [OF assms split]
    by (simp add: vote_ids_def split o_def split: list.split)
qed

lemma closed_chain_vote_ids: "vote_ids (closed_chain st t c) = vote_ids c"
  by (simp add: vote_ids_def closed_chain_def o_def)

lemma chains_ok_put:
  assumes "chains_ok s" and "c \<in> set (db_chains s)" and "chain_ok c'" and "ch_id c' = ch_id c"
    and "vote_ids c' = vote_ids c" and "db_chains s' = put_row ch_id c' (db_chains s)"
  shows "chains_ok s'"
proof -
  have dist: "distinct (map ch_id (db_chains s))" using assms(1) by (simp add: chains_ok_def)
  have "vote_ids (if ch_id x = ch_id c' then c' else x) = vote_ids x" if "x \<in> set (db_chains s)" for x
    using row_of_key [OF dist that assms(2)] assms(4,5) by auto
  then have "map vote_ids (put_row ch_id c' (db_chains s)) = map vote_ids (db_chains s)"
    by (simp add: put_row_def)
  then have ids: "concat (map vote_ids (put_row ch_id c' (db_chains s))) = concat (map vote_ids (db_chains s))" by simp
  have "list_all chain_ok (put_row ch_id c' (db_chains s))"
    using assms(1,3) set_put_row [of ch_id c' "db_chains s"] by (auto simp: chains_ok_def list_all_iff)
  then show ?thesis
    using assms(1,6) ids by (simp add: chains_ok_def map_key_put_row)
qed

lemma decide_vote_ok: "chains_ok s \<Longrightarrow> decide_vote vote_id decision comments s = Inr s' \<Longrightarrow> chains_ok s'"
proof -
  assume ok: "chains_ok s" and run: "decide_vote vote_id decision comments s = Inr s'"
  obtain chain gate vote where loc: "locate_vote s vote_id = Some (chain, gate, vote)"
      and v: "votable decision vote gate chain"
      and rows: "db_chains s' = put_row ch_id (chain_decide vote_id decision comments (db_clock s) gate chain) (db_chains s)"
    using decide_vote_refines [OF run] by blast
  note mem = locate_vote_in [OF loc]
  have c: "chain_ok chain" using ok mem(1) by (simp add: chains_ok_def list_all_iff)
  show ?thesis by (rule chains_ok_put [OF ok mem(1) chain_decide_ok [OF c v] _ chain_decide_vote_ids [OF c v] rows]) simp
qed

text \<open>
  C2. Every accepted decision keeps all approval chains consistent (approved stages met their quorum, the
  current stage alone is asked, later stages wait, ended chains ask nobody), changes only the chain of
  the vote, and strictly reduces the number of outstanding votes of that chain, so a chain is decided
  after at most as many decisions as it has votes.
\<close>

theorem decide_vote_keeps_chains:
  assumes ok: "chains_ok s" and run: "decide_vote vote_id decision comments s = Inr s'"
  shows "chains_ok s' \<and> (\<exists>chain chain'. chain \<in> set (db_chains s) \<and> vote_id \<in> set (vote_ids chain)
      \<and> db_chains s' = put_row ch_id chain' (db_chains s) \<and> ch_id chain' = ch_id chain
      \<and> chain_pending chain' < chain_pending chain)"
proof -
  obtain chain gate vote where loc: "locate_vote s vote_id = Some (chain, gate, vote)"
      and v: "votable decision vote gate chain"
      and rows: "db_chains s' = put_row ch_id (chain_decide vote_id decision comments (db_clock s) gate chain) (db_chains s)"
    using decide_vote_refines [OF run] by blast
  note mem = locate_vote_in [OF loc]
  have c: "chain_ok chain" using ok mem(1) by (simp add: chains_ok_def list_all_iff)
  have "vote_id \<in> set (vote_ids chain)" using mem by (auto simp: vote_ids_def)
  then show ?thesis
    using mem(1) rows decide_vote_ok [OF ok run] chain_decide_progress [OF c v mem(4)] chain_decide_id by blast
qed

section \<open>Starting a chain\<close>

lemma make_votes_simps:
  "map v_id (make_votes i tenant as) = [i..<i + length as]"
  "map v_approver_id (make_votes i tenant as) = as"
  "list_all (\<lambda>v. v_state v = ''Not Requested'') (make_votes i tenant as)"
  by (induction as arbitrary: i) (simp_all add: upt_conv_Cons del: upt_Suc)

lemma make_votes_Nil [simp]: "make_votes i tenant as = [] \<longleftrightarrow> as = []"
  by (cases as) simp_all

lemma make_gates_simps:
  "map gt_sequence (make_gates gi vi k tenant stages) = [k..<k + length stages]"
  "length (make_gates gi vi k tenant stages) = length stages"
  "list_all gate_waiting (make_gates gi vi k tenant stages)"
  by (induction stages arbitrary: gi vi k)
    (simp_all add: Let_def upt_conv_Cons gate_waiting_def make_votes_simps del: upt_Suc)

lemma upt_join: "[a..<a + n] @ [a + n..<a + (n + m)] = [a..<a + (n + m)]"
  using upt_add_eq_append [of a "a + n" m] by (simp add: add.assoc)

lemma make_gates_ids:
  "concat (map (\<lambda>g. map v_id (gt_votes g)) (make_gates gi vi k tenant stages)) =
     [vi..<vi + length (concat (map (\<lambda>st. sorted_list_of_set (set (stg_approver_ids st))) stages))]"
  by (induction stages arbitrary: gi vi k)
    (simp_all add: Let_def make_votes_simps upt_join add.assoc)

definition stage_ok :: "approval_stage \<Rightarrow> bool" where
  "stage_ok st \<longleftrightarrow> opt ''all'' (stg_mode st) \<in> set [''any'', ''all'', ''majority'']"

lemma make_gates_wf:
  assumes "list_all stage_ok stages" and "\<not> list_ex (\<lambda>st. filter (\<lambda>i. i \<noteq> 0) (stg_approver_ids st) = []) stages"
  shows "list_all gate_wf (make_gates gi vi k tenant stages)"
proof -
  have ne: "sorted_list_of_set (set as) \<noteq> []" if "filter (\<lambda>i. i \<noteq> 0) as \<noteq> []" for as :: "nat list"
    using that by (cases as) auto
  show ?thesis
    using assms ne
    by (induction stages arbitrary: gi vi k) (simp_all add: Let_def gate_wf_def stage_ok_def)
qed

lemma put_first_gate:
  assumes "ch_gates c = g # gs" and "map gt_sequence (g # gs) = [1..<Suc (length (g # gs))]" and "gt_sequence g' = gt_sequence g"
  shows "put_gate g' c = c\<lparr>ch_gates := g' # gs\<rparr>"
  using put_gate_split [of "[]" g gs c g'] assms by (simp add: put_gate_def)

lemma create_approval_chain_rows:
  assumes run: "create_approval_chain name ty i stages t b s = Inr (c, s')" and modes: "list_all stage_ok stages"
  shows "db_chains s' = db_chains s @ [c]" and "chain_ok c" and "ch_state c = ''Running''"
    and "ch_id c = next_id ch_id (db_chains s)" and "ch_target_type c = ty" and "ch_target_id c = i"
    and "vote_ids c = [next_id v_id (all_votes s)..<next_id v_id (all_votes s)
           + length (concat (map (\<lambda>st. sorted_list_of_set (set (stg_approver_ids st))) stages))]"
proof -
  define tenant where "tenant = (case record_tenant_id s ty i of None \<Rightarrow> tenant_context_id s | Some t \<Rightarrow> t)"
  define gates where "gates = make_gates (next_id gt_id (all_gates s)) (next_id v_id (all_votes s)) 1 tenant stages"
  define c0 where "c0 = \<lparr>ch_id = next_id ch_id (db_chains s), ch_name = name, ch_target_type = ty,
       ch_target_id = i, ch_state = ''Running'', ch_current_stage = 1, ch_created_at = db_clock s,
       ch_completed_at = None, ch_tenant_id = tenant, ch_gates = gates\<rparr>"
  have ne: "stages \<noteq> []" "\<not> list_ex (\<lambda>st. filter (\<lambda>i. i \<noteq> 0) (stg_approver_ids st) = []) stages"
    using run by (auto simp: create_approval_chain_def split: if_splits)
  have c: "c = put_gate (opened_gate (hd gates)) c0" and
    rows: "db_chains s' = put_row ch_id c (db_chains s @ [c0])"
    using run ne by (auto simp: create_approval_chain_def Let_def c0_def gates_def tenant_def activate_gate_def)
  have seq: "map gt_sequence gates = [1..<Suc (length gates)]" by (simp add: gates_def make_gates_simps)
  obtain g gs where gates: "gates = g # gs"
    using ne(1) make_gates_simps(2) [of _ _ 1 tenant stages] unfolding gates_def by (metis length_0_conv list.exhaust)
  have put: "c = c0\<lparr>ch_gates := opened_gate g # gs\<rparr>"
    unfolding c gates list.sel using seq by (intro put_first_gate) (simp_all add: c0_def gates)
  have wf: "list_all gate_wf gates" unfolding gates_def by (rule make_gates_wf [OF modes ne(2)])
  have "list_all gate_waiting gates" by (simp add: gates_def make_gates_simps)
  with wf gates have "running_ok ([] @ opened_gate g # gs) (Suc (length ([] :: approval_gate list)))"
    by (intro running_okI opened_gate_open) simp_all
  then show "chain_ok c" using seq wf gates by (simp add: chain_ok_def put c0_def)
  show "ch_state c = ''Running''" "ch_id c = next_id ch_id (db_chains s)" "ch_target_type c = ty" "ch_target_id c = i"
    by (simp_all add: put c0_def)
  have "ch_id x \<noteq> ch_id c" if "x \<in> set (db_chains s)" for x
    using next_id_fresh [OF that, of ch_id] by (simp add: put c0_def)
  then have "put_row ch_id c (db_chains s) = db_chains s"
    unfolding put_row_def by (intro map_idI) simp
  then show "db_chains s' = db_chains s @ [c]" using rows by (simp add: put_row_def put)
  have "vote_ids c = concat (map (\<lambda>g. map v_id (gt_votes g)) gates)" by (simp add: vote_ids_def put gates)
  then show "vote_ids c = [next_id v_id (all_votes s)..<next_id v_id (all_votes s)
           + length (concat (map (\<lambda>st. sorted_list_of_set (set (stg_approver_ids st))) stages))]"
    by (simp only: gates_def make_gates_ids)
qed

lemma vote_ids_in: "set (concat (map vote_ids (db_chains s))) = v_id ` set (all_votes s)"
  by (auto simp: vote_ids_def all_votes_def all_gates_def)

lemma create_approval_chain_keeps:
  assumes ok: "chains_ok s" and run: "create_approval_chain name ty i stages t b s = Inr (c, s')" and modes: "list_all stage_ok stages"
  shows "chains_ok s'"
proof -
  note new = create_approval_chain_rows [OF run modes]
  have "ch_id c \<notin> ch_id ` set (db_chains s)" unfolding new(4) by (rule next_id_unused)
  moreover have "set (vote_ids c) \<inter> set (concat (map vote_ids (db_chains s))) = {}"
  proof -
    have "x < next_id v_id (all_votes s)" if "x \<in> v_id ` set (all_votes s)" for x
      using that next_id_fresh by fastforce
    then show ?thesis unfolding vote_ids_in new(7) by force
  qed
  moreover have "distinct (vote_ids c)" unfolding new(7) by simp
  ultimately show ?thesis using ok new(1,2) by (auto simp: chains_ok_def)
qed

text \<open>What a stage asks for, and what its gate says.\<close>

lemma make_gates_content:
  "map (\<lambda>g. (gt_name g, gt_mode g, map v_approver_id (gt_votes g))) (make_gates gi vi n tenant stages) =
     map (\<lambda>st. (stg_name st, opt ''all'' (stg_mode st), sorted_list_of_set (set (stg_approver_ids st)))) stages"
proof (induction stages arbitrary: gi vi n)
  case (Cons st stages)
  have "map v_approver_id (make_votes i tenant xs) = xs" for i xs by (induction xs arbitrary: i) simp_all
  then show ?case using Cons.IH by (simp add: Let_def)
qed simp

lemma opened_gate_content [simp]:
  "gt_name (opened_gate g) = gt_name g" "gt_mode (opened_gate g) = gt_mode g"
  "map v_approver_id (gt_votes (opened_gate g)) = map v_approver_id (gt_votes g)" "gt_sequence (opened_gate g) = gt_sequence g"
  by (simp_all add: opened_gate_def o_def)

lemma create_approval_chain_content:
  assumes "create_approval_chain name ty i stages t b s = Inr (c, s')"
  shows "map (\<lambda>g. (gt_name g, gt_mode g, map v_approver_id (gt_votes g))) (ch_gates c) =
     map (\<lambda>st. (stg_name st, opt ''all'' (stg_mode st), sorted_list_of_set (set (stg_approver_ids st)))) stages"
proof -
  define gates where "gates = make_gates (next_id gt_id (all_gates s)) (next_id v_id (all_votes s)) 1
    (case record_tenant_id s ty i of None \<Rightarrow> tenant_context_id s | Some t \<Rightarrow> t) stages"
  have c: "ch_gates c = map (\<lambda>g. if gt_sequence g = gt_sequence (hd gates) then opened_gate (hd gates) else g) gates" and ne: "stages \<noteq> []"
    using assms by (auto simp: create_approval_chain_def Let_def put_gate_def gates_def split: if_splits)
  have seq: "map gt_sequence gates = [1..<Suc (length gates)]" by (simp add: gates_def make_gates_simps)
  then have keys: "distinct (map gt_sequence gates)" by simp
  have first: "hd gates \<in> set gates" using ne make_gates_simps(2) [of _ _ 1 _ stages] unfolding gates_def by (metis hd_in_set length_0_conv)
  have "g = hd gates" if "g \<in> set gates" "gt_sequence g = gt_sequence (hd gates)" for g
    by (rule row_of_key [OF keys that(1) first that(2)])
  then have "map (\<lambda>g. (gt_name g, gt_mode g, map v_approver_id (gt_votes g))) (ch_gates c) =
      map (\<lambda>g. (gt_name g, gt_mode g, map v_approver_id (gt_votes g))) gates"
    unfolding c by (auto simp del: map_map simp add: list.map_comp)
  then show ?thesis by (simp only: gates_def make_gates_content)
qed

text \<open>
  C5. Starting an approval chain is refused exactly when there is no stage or a stage names nobody (the id 0 names
  nobody). Otherwise the new chain is added after the others, the chains stay consistent, it is running, it has a gate for each stage in
  order, with the name and mode of the stage and one vote for each of its approvers, and the ticket, requested item or
  enterprise record it is for, and no other, is awaiting approval.
\<close>

theorem create_approval_chain_starts:
  assumes ok: "chains_ok s" and modes: "list_all stage_ok stages"
  shows "case create_approval_chain name ty i stages t b s of
      Inl e \<Rightarrow> e = ValueError ''Every approval stage must have at least one configured approver.''
        \<and> (stages = [] \<or> (\<exists>st \<in> set stages. set (stg_approver_ids st) \<subseteq> {0}))
    | Inr (c, s') \<Rightarrow> \<not> (stages = [] \<or> (\<exists>st \<in> set stages. set (stg_approver_ids st) \<subseteq> {0}))
        \<and> chains_ok s' \<and> db_chains s' = db_chains s @ [c] \<and> ch_state c = ''Running'' \<and> ch_target_type c = ty \<and> ch_target_id c = i
        \<and> map (\<lambda>g. (gt_name g, gt_mode g, map v_approver_id (gt_votes g))) (ch_gates c) =
            map (\<lambda>st. (stg_name st, opt ''all'' (stg_mode st), sorted_list_of_set (set (stg_approver_ids st)))) stages
        \<and> db_tickets s' = upd_rows (\<lambda>t. ty = ''ticket'' \<and> tk_id t = i) (\<lambda>t. t\<lparr>tk_state := ''Awaiting Approval''\<rparr>) (db_tickets s)
        \<and> db_ritms s' = upd_rows (\<lambda>r. ty = ''ritm'' \<and> ri_id r = i) (\<lambda>r. r\<lparr>ri_state := ''Awaiting Approval''\<rparr>) (db_ritms s)
        \<and> db_enterprise_records s' = upd_rows (\<lambda>r. ty = ''enterprise'' \<and> er_id r = i) (\<lambda>r. r\<lparr>er_state := ''Awaiting Approval''\<rparr>)
            (db_enterprise_records s)"
proof -
  have nobody: "filter (\<lambda>i. i \<noteq> 0) xs = [] \<longleftrightarrow> set xs \<subseteq> {0 :: nat}" for xs by (auto simp: filter_empty_conv)
  have refused: "list_ex (\<lambda>st. filter (\<lambda>i. i \<noteq> 0) (stg_approver_ids st) = []) stages \<longleftrightarrow> (\<exists>st \<in> set stages. set (stg_approver_ids st) \<subseteq> {0})"
    by (simp only: list_ex_iff nobody)
  show ?thesis
  proof (cases "create_approval_chain name ty i stages t b s")
    case (Inl e)
    then show ?thesis using refused by (simp add: create_approval_chain_def Let_def split: if_splits)
  next
    case (Inr r)
    obtain c s' where r: "r = (c, s')" by (cases r)
    note run = Inr [unfolded r]
    note new = create_approval_chain_rows [OF run modes]
    have accepted: "\<not> (stages = [] \<or> (\<exists>st \<in> set stages. set (stg_approver_ids st) \<subseteq> {0}))"
      using run unfolding refused [symmetric] by (auto simp: create_approval_chain_def split: if_splits)
    have same: "upd_rows (\<lambda>_. False) f rows = rows" for f and rows :: "'r list" by (simp add: upd_rows_def)
    have "db_tickets s' = upd_rows (\<lambda>t. ty = ''ticket'' \<and> tk_id t = i) (\<lambda>t. t\<lparr>tk_state := ''Awaiting Approval''\<rparr>) (db_tickets s)"
      using run by (auto simp: create_approval_chain_def Let_def set_target_state_def activate_gate_def request_votes_def save_chain_def
        fold_unchanged [where g = db_tickets] same split: if_splits)
    moreover have "db_ritms s' = upd_rows (\<lambda>r. ty = ''ritm'' \<and> ri_id r = i) (\<lambda>r. r\<lparr>ri_state := ''Awaiting Approval''\<rparr>) (db_ritms s)"
      using run by (auto simp: create_approval_chain_def Let_def set_target_state_def activate_gate_def request_votes_def save_chain_def
        fold_unchanged [where g = db_ritms] same split: if_splits)
    moreover have "db_enterprise_records s' = upd_rows (\<lambda>r. ty = ''enterprise'' \<and> er_id r = i) (\<lambda>r. r\<lparr>er_state := ''Awaiting Approval''\<rparr>) (db_enterprise_records s)"
      using run by (auto simp: create_approval_chain_def Let_def set_target_state_def activate_gate_def request_votes_def save_chain_def
        fold_unchanged [where g = db_enterprise_records] same split: if_splits)
    ultimately show ?thesis
      using Inr r new accepted create_approval_chain_keeps [OF ok run modes] create_approval_chain_content [OF run] by simp
  qed
qed

section \<open>The protocol of a chain\<close>

inductive reachable :: "('c \<Rightarrow> bool) \<Rightarrow> ('c \<Rightarrow> 'c \<Rightarrow> bool) \<Rightarrow> 'c \<Rightarrow> bool" for start step where
  first: "start c \<Longrightarrow> reachable start step c"
| later: "reachable start step c \<Longrightarrow> step c c' \<Longrightarrow> reachable start step c'"

inductive steps :: "('c \<Rightarrow> 'c \<Rightarrow> bool) \<Rightarrow> 'c \<Rightarrow> nat \<Rightarrow> 'c \<Rightarrow> bool" for step where
  none: "steps step c 0 c"
| more: "step c c' \<Longrightarrow> steps step c' n d \<Longrightarrow> steps step c (Suc n) d"

inductive_cases steps_SucE: "steps step c (Suc n) d"

text \<open>
  What the moves of a decision process owe their users: an invariant that every move keeps, and a count
  of outstanding decisions that every decision reduces.
\<close>

locale chain_protocol =
  fixes start :: "'c \<Rightarrow> bool" and decide :: "'c \<Rightarrow> 'c \<Rightarrow> bool" and stop :: "'c \<Rightarrow> 'c \<Rightarrow> bool"
    and inv :: "'c \<Rightarrow> bool" and pending :: "'c \<Rightarrow> nat"
  assumes start_inv: "start c \<Longrightarrow> inv c"
    and decide_inv: "inv c \<Longrightarrow> decide c c' \<Longrightarrow> inv c'"
    and stop_inv: "inv c \<Longrightarrow> stop c c' \<Longrightarrow> inv c'"
    and decide_less: "inv c \<Longrightarrow> decide c c' \<Longrightarrow> pending c' < pending c"
begin

lemma reachable_inv: "reachable start (\<lambda>c c'. decide c c' \<or> stop c c') c \<Longrightarrow> inv c"
  by (induction rule: reachable.induct) (auto intro: start_inv decide_inv stop_inv)

lemma steps_bounded: "steps decide c n c' \<Longrightarrow> inv c \<Longrightarrow> n + pending c' \<le> pending c"
proof (induction rule: steps.induct)
  case (none c)
  then show ?case by simp
next
  case (more c c' n d)
  then show ?case using decide_inv [of c c'] decide_less [of c c'] by fastforce
qed

end

definition chain_starts :: "approval_chain \<Rightarrow> bool" where
  "chain_starts c \<longleftrightarrow> (\<exists>name ty i stages t b s s'. list_all stage_ok stages
     \<and> create_approval_chain name ty i stages t b s = Inr (c, s'))"

definition chain_decides :: "approval_chain \<Rightarrow> approval_chain \<Rightarrow> bool" where
  "chain_decides c c' \<longleftrightarrow> (\<exists>decision comments clock gate vote. votable decision vote gate c
     \<and> c' = chain_decide (v_id vote) decision comments clock gate c)"

definition chain_stops :: "approval_chain \<Rightarrow> approval_chain \<Rightarrow> bool" where
  "chain_stops c c' \<longleftrightarrow> (\<exists>clock. ch_state c = ''Running'' \<and> c' = closed_chain ''Cancelled'' clock c
     \<or> ch_state c \<in> set [''Running'', ''Approved''] \<and> c' = closed_chain ''Superseded'' clock c)"

interpretation approval: chain_protocol chain_starts chain_decides chain_stops chain_ok chain_pending
proof unfold_locales
  show "chain_starts c \<Longrightarrow> chain_ok c" for c
    unfolding chain_starts_def using create_approval_chain_rows(2) by blast
  show "chain_ok c \<Longrightarrow> chain_decides c c' \<Longrightarrow> chain_ok c'" for c c'
    unfolding chain_decides_def using chain_decide_ok by blast
  show "chain_ok c \<Longrightarrow> chain_stops c c' \<Longrightarrow> chain_ok c'" for c c'
    unfolding chain_stops_def using closed_chain_ok(1) by (metis list.set_intros(1,2))
  show "chain_ok c \<Longrightarrow> chain_decides c c' \<Longrightarrow> chain_pending c' < chain_pending c" for c c'
    unfolding chain_decides_def using chain_decide_progress by blast
qed

text \<open>
  C1. However the decisions on a chain are ordered, and whether or not it is cancelled or superseded in
  between: a chain that is Approved has reached the quorum of every stage without a rejection, and a
  chain that is Rejected, Cancelled or Superseded asks nobody any more. From any such chain at most as
  many further decisions can be made as it has outstanding votes.
\<close>

theorem approved_chain_has_quorum:
  assumes "reachable chain_starts (\<lambda>c c'. chain_decides c c' \<or> chain_stops c c') c"
  shows "(ch_state c = ''Approved'' \<longrightarrow> list_all (\<lambda>g. quorum g \<and> list_all (\<lambda>v. v_state v \<noteq> ''Rejected'') (gt_votes g)) (ch_gates c))
    \<and> (ch_state c \<in> set [''Rejected'', ''Cancelled'', ''Superseded''] \<longrightarrow> chain_pending c = 0)
    \<and> (\<forall>n c'. steps chain_decides c n c' \<longrightarrow> n \<le> chain_pending c)"
proof -
  have ok: "chain_ok c" by (rule approval.reachable_inv [OF assms])
  have "gate_pending g = 0" if "gate_closed g" for g
    using that by (simp add: gate_closed_def gate_pending_def list_all_iff filter_empty_conv)
  then have "ch_state c \<in> set [''Rejected'', ''Cancelled'', ''Superseded''] \<longrightarrow> chain_pending c = 0"
    using ok by (auto simp: chain_ok_def chain_pending_def list_all_iff)
  moreover have "ch_state c = ''Approved'' \<longrightarrow>
      list_all (\<lambda>g. quorum g \<and> list_all (\<lambda>v. v_state v \<noteq> ''Rejected'') (gt_votes g)) (ch_gates c)"
    using ok by (fastforce simp: chain_ok_def list_all_iff gate_done_def)
  ultimately show ?thesis using approval.steps_bounded [OF _ ok] by fastforce
qed

section \<open>Decisions are possible, and a rejection is final\<close>

lemma sla_wf_tables:
  "db_task_slas s' = db_task_slas s \<Longrightarrow> db_sla_definitions s' = db_sla_definitions s \<Longrightarrow> sla_wf s' = sla_wf s"
  by (simp add: sla_wf_def)

lemma save_and_state_sla_wf: "sla_wf (set_target_state ty i st (save_chain c s)) = sla_wf s"
  by (rule sla_wf_tables) (simp_all add: set_target_state_def save_chain_def)

lemma after_rejection_total:
  assumes "sla_wf s"
  shows "\<exists>s'. after_rejection c comments (save_chain d s) = Inr s'"
proof -
  let ?s = "set_target_state (ch_target_type c) (ch_target_id c) ''Rejected'' (save_chain d s)"
  have "sla_wf ?s" using assms by (simp add: save_and_state_sla_wf)
  from sync_slas_rows [OF this, of "ch_target_type c" "ch_target_id c" "''Rejected''"]
  show ?thesis by (auto simp: after_rejection_def Let_def)
qed

lemma create_catalog_task_cong:
  assumes "create_catalog_task ritm s = Inr s1"
    and "ri_id ritm' = ri_id ritm" "ri_catalog_item_id ritm' = ri_catalog_item_id ritm"
    and "db_catalog_tasks s' = db_catalog_tasks s" "db_catalog_items s' = db_catalog_items s"
      "db_groups s' = db_groups s" "db_routings s' = db_routings s"
  shows "\<exists>s2. create_catalog_task ritm' s' = Inr s2"
proof -
  have "catalog_fulfillment_group s' = catalog_fulfillment_group s" unfolding fun_eq_iff catalog_fulfillment_group_def assms by simp
  moreover have "tasks_of_ritm s' = tasks_of_ritm s" by (simp add: tasks_of_ritm_def fun_eq_iff assms)
  ultimately show ?thesis using assms(1) unfolding create_catalog_task_def assms(2-5)
    by (auto simp: bindE_Inr_iff split: if_splits option.splits)
qed

text \<open>An approval fails at most where the fulfilment task of a requested item can not be created.\<close>

lemma after_approval_total:
  assumes ready: "ch_target_type c = ''ritm'' \<Longrightarrow> \<exists>ritm s1. get_row ri_id (ch_target_id c) (db_ritms s) = Some ritm \<and> create_catalog_task ritm s = Inr s1"
  shows "\<exists>s'. after_approval c comments (save_chain d s) = Inr s'"
proof (cases "ch_target_type c = ''ritm''")
  case True
  then obtain ritm s1 where r: "get_row ri_id (ch_target_id c) (db_ritms s) = Some ritm" "create_catalog_task ritm s = Inr s1"
    using ready by blast
  let ?s = "set_target_state (ch_target_type c) (ch_target_id c) ''Approved'' (save_chain d s)"
  have row: "get_row ri_id (ch_target_id c) (db_ritms ?s) = Some (ritm\<lparr>ri_state := ''Approved''\<rparr>)"
    using r(1) get_row_key [OF r(1)] True by (simp add: set_target_state_def save_chain_def get_upd_rows)
  have "\<exists>s2. create_catalog_task (ritm\<lparr>ri_state := ''Approved'', ri_stage := ''Fulfillment''\<rparr>)
      (?s\<lparr>db_ritms := put_row ri_id (ritm\<lparr>ri_state := ''Approved'', ri_stage := ''Fulfillment''\<rparr>) (db_ritms ?s)\<rparr>) = Inr s2"
    by (rule create_catalog_task_cong [OF r(2)]) (simp_all add: set_target_state_def save_chain_def)
  with row True show ?thesis by (auto simp: after_approval_def Let_def)
qed (simp add: after_approval_def Let_def)

text \<open>
  C3. A running chain is never stuck: some outstanding vote of it can be cast either way and the decision is carried out, in
  a database with consistent chains and SLA records. The one exception is named: the approval of a requested item also
  creates its fulfilment task, so it is carried out whenever that task can be created; its rejection always is.
\<close>

theorem running_chain_not_stuck:
  assumes ok: "chains_ok s" and wf: "sla_wf s" and c: "c \<in> set (db_chains s)" "ch_state c = ''Running''"
  shows "\<exists>vote_id \<in> set (vote_ids c). \<forall>comments. (\<exists>s'. decide_vote vote_id ''Rejected'' comments s = Inr s')
    \<and> (ch_target_type c \<noteq> ''ritm''
         \<or> (\<exists>ritm s1. get_row ri_id (ch_target_id c) (db_ritms s) = Some ritm \<and> create_catalog_task ritm s = Inr s1)
       \<longrightarrow> (\<exists>s'. decide_vote vote_id ''Approved'' comments s = Inr s'))"
proof -
  have "chain_ok c" using ok c(1) by (simp add: chains_ok_def list_all_iff)
  then obtain gate vote where v: "votable ''Approved'' vote gate c"
    using running_has_voter [OF _ c(2), of "''Approved''"] by auto
  then have loc: "locate_vote s (v_id vote) = Some (c, gate, vote)"
    by (intro locate_vote_found [OF ok c(1)]) (simp_all add: votable_def)
  have id: "v_id vote \<in> set (vote_ids c)" using v by (auto simp: votable_def vote_ids_def)
  have rejects: "\<exists>s'. decide_vote (v_id vote) ''Rejected'' comments s = Inr s'" for comments
    using loc v after_rejection_total [OF wf] by (simp add: decide_vote_def votable_def Let_def)
  have approves: "\<exists>s'. decide_vote (v_id vote) ''Approved'' comments s = Inr s'"
    if "ch_target_type c \<noteq> ''ritm'' \<or> (\<exists>ritm s1. get_row ri_id (ch_target_id c) (db_ritms s) = Some ritm \<and> create_catalog_task ritm s = Inr s1)" for comments
  proof -
    have "\<exists>s'. after_approval d comments (save_chain e s) = Inr s'"
      if "ch_target_type d = ch_target_type c" "ch_target_id d = ch_target_id c" for d e
      by (rule after_approval_total) (use that \<open>ch_target_type c \<noteq> ''ritm'' \<or> _\<close> in auto)
    then show ?thesis using loc v by (auto simp: decide_vote_def votable_def Let_def split: option.split)
  qed
  show ?thesis using id rejects approves by blast
qed

lemma after_rejection_tickets:
  assumes "after_rejection c comments s = Inr s'" and "ch_target_type c = ''ticket''"
  shows "db_tickets s' = upd_rows (\<lambda>t. tk_id t = ch_target_id c) (\<lambda>t. t\<lparr>tk_state := ''Rejected''\<rparr>) (db_tickets s)"
  using assms
  by (auto simp: after_rejection_def Let_def bindE_Inr_iff set_target_state_def
      dest!: sync_slas.fields(18) split: if_splits option.splits)

lemma decide_closed_chain:
  assumes "chains_ok s" and "c \<in> set (db_chains s)" and "ch_state c \<noteq> ''Running''" and "vote_id \<in> set (vote_ids c)"
  shows "\<exists>code msg. decide_vote vote_id decision comments s = Inl (Abort code msg)"
proof -
  obtain g v where gv: "g \<in> set (ch_gates c)" "v \<in> set (gt_votes g)" "v_id v = vote_id"
    using assms(4) by (auto simp: vote_ids_def)
  from locate_vote_found [OF assms(1,2) gv(1,2)] gv(3) assms(3)
  show ?thesis by (simp add: decide_vote_def)
qed

text \<open>
  C4. One rejection ends the request: the chain of the vote becomes Rejected with no vote outstanding,
  the ticket it was for becomes Rejected, and every later decision on any vote of that chain is
  refused.
\<close>

theorem rejection_is_final:
  assumes ok: "chains_ok s" and run: "decide_vote vote_id ''Rejected'' comments s = Inr s'"
  shows "\<exists>c c'. c \<in> set (db_chains s) \<and> vote_id \<in> set (vote_ids c) \<and> get_row ch_id (ch_id c) (db_chains s') = Some c'
      \<and> ch_state c' = ''Rejected'' \<and> chain_pending c' = 0
      \<and> (ch_target_type c = ''ticket'' \<longrightarrow> db_tickets s' =
          upd_rows (\<lambda>t. tk_id t = ch_target_id c) (\<lambda>t. t\<lparr>tk_state := ''Rejected''\<rparr>) (db_tickets s))
      \<and> (\<forall>v decision comments'. v \<in> set (vote_ids c) \<longrightarrow>
          (\<exists>code msg. decide_vote v decision comments' s' = Inl (Abort code msg)))"
proof -
  obtain c gate vote where loc: "locate_vote s vote_id = Some (c, gate, vote)"
      and v: "votable ''Rejected'' vote gate c"
      and rows: "db_chains s' = put_row ch_id (chain_decide vote_id ''Rejected'' comments (db_clock s) gate c) (db_chains s)"
    using decide_vote_refines [OF run] by blast
  note mem = locate_vote_in [OF loc]
  define c' where "c' = chain_decide vote_id ''Rejected'' comments (db_clock s) gate c"
  have cok: "chain_ok c" and dist: "distinct (map ch_id (db_chains s))"
    using ok mem(1) by (simp_all add: chains_ok_def list_all_iff)
  obtain "done" rest where split: "ch_gates c = done @ gate # rest" using votable_gate [OF cok v] by blast
  note c' = chain_decide_cases [OF cok v split, of vote_id comments "db_clock s", folded c'_def]
  have id: "ch_id c' = ch_id c" and ids: "vote_ids c' = vote_ids c" and ok': "chain_ok c'"
    using chain_decide_vote_ids [OF cok v] chain_decide_ok [OF cok v] by (simp_all add: c'_def)
  have row: "get_row ch_id (ch_id c) (db_chains s') = Some c'"
    using get_row_distinct [OF dist mem(1)] id unfolding rows c'_def [symmetric] by (simp add: get_put_row)
  have "chains_ok s'" by (rule chains_ok_put [OF ok mem(1) ok' id ids]) (simp add: rows c'_def)
  moreover have "c' \<in> set (db_chains s')" using get_row_key [OF row] by simp
  moreover have st: "ch_state c' = ''Rejected''" "chain_pending c' = 0"
    using c' by (simp_all add: chain_pending_def o_def)
  ultimately have "\<exists>code msg. decide_vote v decision comments' s' = Inl (Abort code msg)"
    if "v \<in> set (vote_ids c)" for v decision comments'
    using decide_closed_chain [of s' c' v decision comments'] that ids by simp
  moreover have "db_tickets s' = upd_rows (\<lambda>t. tk_id t = ch_target_id c) (\<lambda>t. t\<lparr>tk_state := ''Rejected''\<rparr>) (db_tickets s)"
    if "ch_target_type c = ''ticket''"
    using run loc v that
    by (auto simp: decide_vote_def votable_def Let_def save_chain_def dest!: after_rejection_tickets)
  moreover have "vote_id \<in> set (vote_ids c)" using mem by (auto simp: vote_ids_def)
  ultimately show ?thesis using mem(1) row st by blast
qed

section \<open>The latest chain of a record\<close>

lemma approval_chain_for_in: "approval_chain_for s ty i = Some c \<Longrightarrow> c \<in> set (db_chains s)"
proof -
  let ?r = "rev (sort_key ch_id (filter (\<lambda>c. ch_target_type c = ty \<and> ch_target_id c = i) (db_chains s)))"
  assume "approval_chain_for s ty i = Some c"
  then have "hd ?r = c" "?r \<noteq> []"
    unfolding approval_chain_for_def by (cases ?r; simp del: rev_eq_Cons_iff)+
  then have "c \<in> set ?r" using hd_in_set by metis
  then show ?thesis by simp
qed

lemma sort_key_map:
  assumes "\<And>x. key (f x) = key x"
  shows "sort_key key (map f xs) = map f (sort_key key xs)"
proof -
  have "insort_key key (f x) (map f ys) = map f (insort_key key x ys)" for x ys
    by (induction ys) (simp_all add: assms)
  then show ?thesis by (induction xs) simp_all
qed

lemma approval_chain_for_map:
  assumes "db_chains s' = map f (db_chains s)"
    and "\<And>c. ch_id (f c) = ch_id c \<and> ch_target_type (f c) = ch_target_type c \<and> ch_target_id (f c) = ch_target_id c"
  shows "approval_chain_for s' ty i = map_option f (approval_chain_for s ty i)"
proof -
  let ?P = "\<lambda>c. ch_target_type c = ty \<and> ch_target_id c = i"
  have "filter ?P (db_chains s') = map f (filter ?P (db_chains s))"
    by (simp add: assms filter_map o_def)
  then show ?thesis
    using assms(2) by (simp add: approval_chain_for_def sort_key_map rev_map split: list.split)
qed

section \<open>An example\<close>

definition example_stages :: "approval_stage list" where
  "example_stages = [\<lparr>stg_name = ''Manager'', stg_mode = Some ''any'', stg_approver_ids = [4, 3]\<rparr>,
     \<lparr>stg_name = ''Board'', stg_mode = Some ''majority'', stg_approver_ids = [5, 6, 7]\<rparr>]"

definition example_change_db :: db where
  "example_change_db = empty_db\<lparr>db_tickets := [blank_ticket\<lparr>tk_id := 9, tk_kind := ''change'', tk_state := ''New'',
     tk_tenant_id := 2\<rparr>]\<rparr>"

definition example_chain_db :: db where
  "example_chain_db =
     (case create_approval_chain ''Change authorization'' ''ticket'' 9 example_stages None None example_change_db of
        Inr (c, s) \<Rightarrow> s | Inl e \<Rightarrow> empty_db)"

lemma example_chain_ok: "chains_ok example_chain_db" "sla_wf example_chain_db"
  by code_simp+

lemma example_chain_running:
  "map ch_state (db_chains example_chain_db) = [''Running'']"
  "map ch_target_type (db_chains example_chain_db) = [''ticket'']"
  "map vote_ids (db_chains example_chain_db) = [[1, 2, 3, 4, 5]]"
  by code_simp+

theorem create_approval_chain_starts_witness:
  "\<exists>c s'. create_approval_chain ''Change authorization'' ''ticket'' 9 example_stages None None example_change_db = Inr (c, s')
     \<and> chains_ok s' \<and> ch_state c = ''Running''"
proof -
  let ?r = "create_approval_chain ''Change authorization'' ''ticket'' 9 example_stages None None example_change_db"
  have "chains_ok example_change_db" "list_all stage_ok example_stages" by code_simp+
  from create_approval_chain_starts [OF this, where name = "''Change authorization''" and ty = "''ticket''"
      and i = 9 and t = None and b = None]
  show ?thesis
    by (cases ?r) (auto simp: example_stages_def)
qed

theorem decide_vote_keeps_chains_witness:
  "\<exists>s'. decide_vote 1 ''Approved'' [] example_chain_db = Inr s' \<and> chains_ok s'"
proof -
  have "case decide_vote 1 ''Approved'' [] example_chain_db of Inl e \<Rightarrow> False | Inr s' \<Rightarrow> True" by code_simp
  then obtain s' where "decide_vote 1 ''Approved'' [] example_chain_db = Inr s'" by (auto split: sum.splits)
  with decide_vote_keeps_chains [OF example_chain_ok(1) this] show ?thesis by blast
qed

theorem running_chain_not_stuck_witness:
  "\<exists>c \<in> set (db_chains example_chain_db). \<exists>vote_id \<in> set (vote_ids c). (\<exists>s'. decide_vote vote_id ''Approved'' [] example_chain_db = Inr s')
     \<and> (\<exists>s'. decide_vote vote_id ''Rejected'' ''no'' example_chain_db = Inr s')"
proof -
  obtain c where c: "db_chains example_chain_db = [c]" "ch_state c = ''Running''" "ch_target_type c = ''ticket''"
    using example_chain_running(1,2) by auto
  have mem: "c \<in> set (db_chains example_chain_db)" using c(1) by simp
  have "ch_target_type c \<noteq> ''ritm''" using c(3) by simp
  then show ?thesis using mem running_chain_not_stuck [OF example_chain_ok mem c(2)] by blast
qed

theorem rejection_is_final_witness:
  "\<exists>s' c'. decide_vote 1 ''Rejected'' ''no'' example_chain_db = Inr s' \<and> c' \<in> set (db_chains s') \<and> ch_state c' = ''Rejected''"
proof -
  have "case decide_vote 1 ''Rejected'' ''no'' example_chain_db of Inl e \<Rightarrow> False | Inr s' \<Rightarrow> True" by code_simp
  then obtain s' where run: "decide_vote 1 ''Rejected'' ''no'' example_chain_db = Inr s'" by (auto split: sum.splits)
  from rejection_is_final [OF example_chain_ok(1) run] run get_row_key [of ch_id _ "db_chains s'"] show ?thesis by blast
qed

theorem approved_chain_has_quorum_witness:
  "\<exists>c. reachable chain_starts (\<lambda>c c'. chain_decides c c' \<or> chain_stops c c') c \<and> ch_state c = ''Cancelled'' \<and> chain_pending c = 0"
proof -
  obtain c s' where run: "create_approval_chain ''Change authorization'' ''ticket'' 9 example_stages None None
      example_change_db = Inr (c, s')"
    by (cases "create_approval_chain ''Change authorization'' ''ticket'' 9 example_stages None None example_change_db")
      (auto simp: create_approval_chain_def example_stages_def Let_def)
  have modes: "list_all stage_ok example_stages" by code_simp
  have "chain_starts c" unfolding chain_starts_def using run modes by blast
  moreover have "ch_state c = ''Running''" by (rule create_approval_chain_rows(3) [OF run modes])
  then have "chain_stops c (closed_chain ''Cancelled'' 0 c)" by (auto simp: chain_stops_def)
  ultimately have r: "reachable chain_starts (\<lambda>c c'. chain_decides c c' \<or> chain_stops c c') (closed_chain ''Cancelled'' 0 c)"
    by (auto intro: reachable.intros)
  from approved_chain_has_quorum [OF r] r show ?thesis by auto
qed

end
