(* ===== verification/Withdrawal.thy ===== *)
theory Withdrawal
  imports Approvals
begin

text \<open>
  Withdrawal of catalog requests by the people they were raised by or for
  (\<^verbatim>\<open>serviceops_core/request_withdrawal.py\<close>): one item or the whole request, with the approval chain, the
  fulfilment tasks, the SLAs, the history, the audit trail and the messages. A Python set of user ids is a
  sorted list here; the order in which people are told is not part of any statement.
\<close>

section \<open>Who may withdraw\<close>

definition TASK_TERMINAL_STATES :: "string list" where
  "TASK_TERMINAL_STATES = [''Closed Complete'', ''Closed Incomplete'', ''Closed Skipped'']"

definition REASON_LIMIT :: nat where
  "REASON_LIMIT = 1000"

definition is_party :: "user \<Rightarrow> catalog_request \<Rightarrow> bool" where
  "is_party user' req \<longleftrightarrow> u_id user' = rq_requested_by_id req \<or> u_id user' = rq_requested_for_id req"

text \<open>\<open>user'\<close> is signed in; \<open>req\<close> is \<^verbatim>\<open>ritm.request\<close>.\<close>

definition can_withdraw_item :: "db \<Rightarrow> user \<Rightarrow> catalog_request \<Rightarrow> requested_item \<Rightarrow> bool" where
  "can_withdraw_item s user' req ritm \<longleftrightarrow>
     (if \<not> u_active user' \<or> ri_tenant_id ritm \<noteq> u_tenant_id user' then False
      else if ri_state ritm \<in> set ITEM_TERMINAL_STATES then False
      else is_party user' req \<or> role_at_least (effective_role s user') ''admin'')"

definition can_withdraw_request :: "db \<Rightarrow> user \<Rightarrow> catalog_request \<Rightarrow> bool" where
  "can_withdraw_request s user' req = list_ex (can_withdraw_item s user' req) (items_of_request s (rq_id req))"

definition withdrawal_reason :: "string option \<Rightarrow> string result" where
  "withdrawal_reason reason =
     (let reason = strip (opt [] reason) in
      if reason = [] then Inl (Abort 400 ''Say why the request is being withdrawn.'')
      else if length reason > REASON_LIMIT then Inl (Abort 400 ''The reason is too long'')
      else Inr reason)"

section \<open>Withdrawing one item\<close>

definition waiting_approvers :: "approval_chain \<Rightarrow> nat list" where
  "waiting_approvers chain =
     concat (map (\<lambda>g. map v_approver_id (filter (\<lambda>v. v_state v = ''Requested'') (gt_votes g))) (ch_gates chain))"

definition withdraw_chain :: "user \<Rightarrow> requested_item \<Rightarrow> db \<Rightarrow> nat list \<times> db" where
  "withdraw_chain actor ritm s =
     (case approval_chain_for s ''ritm'' (ri_id ritm) of
        None \<Rightarrow> ([], s)
      | Some chain \<Rightarrow>
          if ch_state chain = ''Running''
          then (waiting_approvers chain,
                log_history ''approval_chain'' (ch_id chain) ''Approval chain cancelled'' (Some ''state'') (Some ''Running'')
                  (Some ''Cancelled'') ''The request was withdrawn.'' (Some (u_id actor)) (cancel_approval_chain (Some chain) s))
          else ([], s))"

definition withdrawn_note :: "user \<Rightarrow> string \<Rightarrow> string \<Rightarrow> string" where
  "withdrawn_note actor reason notes =
     (let note = ''Withdrawn by '' @ u_name actor @ '': '' @ reason in
      if notes \<noteq> [] then strip (notes @ [CHR 0x0A] @ note) else note)"

definition task_contact :: "db \<Rightarrow> catalog_task \<Rightarrow> nat list" where
  "task_contact s task =
     (case ct_assignee_id task of
        Some a \<Rightarrow> [a]
      | None \<Rightarrow>
          (case Option.bind (ct_assignment_group_id task) (\<lambda>i. get_row g_id i (db_groups s)) of
             None \<Rightarrow> []
           | Some team \<Rightarrow> (case g_manager_id team of None \<Rightarrow> [] | Some m \<Rightarrow> [m])))"

definition skipped_task :: "user \<Rightarrow> string \<Rightarrow> catalog_task \<Rightarrow> catalog_task" where
  "skipped_task actor reason task =
     task\<lparr>ct_state := ''Closed Skipped'', ct_work_notes := withdrawn_note actor reason (ct_work_notes task)\<rparr>"

definition withdraw_task :: "user \<Rightarrow> string \<Rightarrow> catalog_task \<Rightarrow> nat list \<times> db \<Rightarrow> nat list \<times> db" where
  "withdraw_task actor reason task st =
     (if ct_state task \<in> set TASK_TERMINAL_STATES then st
      else let (notify, s) = st;
               s' = s\<lparr>db_catalog_tasks := put_row ct_id (skipped_task actor reason task) (db_catalog_tasks s)\<rparr>
           in (notify @ task_contact s task,
               log_history ''catalog_task'' (ct_id task) ''Request withdrawn'' (Some ''state'') (Some (ct_state task))
                 (Some ''Closed Skipped'') [] (Some (u_id actor)) s'))"

definition withdraw :: "user \<Rightarrow> requested_item \<Rightarrow> string \<Rightarrow> db \<Rightarrow> (nat list \<times> db) result" where
  "withdraw actor ritm reason s =
     (let (notify, s) = fold (withdraw_task actor reason) (tasks_of_ritm s (ri_id ritm)) (withdraw_chain actor ritm s);
          s = s\<lparr>db_ritms := put_row ri_id (ritm\<lparr>ri_state := ''Cancelled'', ri_stage := ''Cancelled''\<rparr>) (db_ritms s)\<rparr>
      in bindE (sync_slas ''ritm'' (ri_id ritm) ''Cancelled'' s) (\<lambda>s.
           let s = log_history ''ritm'' (ri_id ritm) ''Request withdrawn'' (Some ''state'') (Some (ri_state ritm))
                 (Some ''Cancelled'') reason (Some (u_id actor)) s
           in Inr (notify, audit ''request item withdrawn'' (ri_number ritm) (take 200 reason) (Some (u_id actor))
                (Some (ri_tenant_id ritm)) s)))"

section \<open>Telling people\<close>

definition notify_withdrawal :: "user \<Rightarrow> catalog_request \<Rightarrow> string list \<Rightarrow> nat list \<Rightarrow> string \<Rightarrow> db \<Rightarrow> db" where
  "notify_withdrawal actor req numbers user_ids reason s =
     (let people = filter (\<lambda>u. u \<noteq> u_id actor) (sort (remdups (user_ids @ [rq_requested_by_id req, rq_requested_for_id req])));
          names = join '', '' numbers
      in fold (\<lambda>user_id. create_notification user_id (names @ '' withdrawn'')
             (u_name actor @ '' withdrew '' @ names @ '': '' @ reason) (rq_tenant_id req) (Some ''request'') (Some (rq_id req))
             (Some ''request.withdrawn'') [(''numbers'', names), (''name'', u_name actor), (''reason'', reason)]) people s)"

section \<open>The two operations\<close>

definition withdraw_item :: "user \<Rightarrow> requested_item \<Rightarrow> string option \<Rightarrow> db \<Rightarrow> db result" where
  "withdraw_item actor ritm reason s =
     (case get_row rq_id (ri_request_id ritm) (db_requests s) of
        None \<Rightarrow> Inl (AttributeError ''request'')
      | Some req \<Rightarrow>
          if \<not> can_withdraw_item s actor req ritm then Inl (Abort 403 ''Only the requester can withdraw an open request'')
          else bindE (withdrawal_reason reason) (\<lambda>reason.
               bindE (withdraw actor ritm reason s) (\<lambda>(notify, s).
                 Inr (notify_withdrawal actor req [ri_number ritm] notify reason (settle_request req s)))))"

definition withdraw_open_item ::
    "user \<Rightarrow> string \<Rightarrow> requested_item \<Rightarrow> nat list \<times> string list \<times> db \<Rightarrow> (nat list \<times> string list \<times> db) result" where
  "withdraw_open_item actor reason ritm st =
     (let (notify, numbers, s) = st in
      if ri_state ritm \<in> set ITEM_TERMINAL_STATES then Inr st
      else bindE (withdraw actor ritm reason s) (\<lambda>(more, s). Inr (notify @ more, numbers @ [ri_number ritm], s)))"

definition withdraw_request :: "user \<Rightarrow> catalog_request \<Rightarrow> string option \<Rightarrow> db \<Rightarrow> (string list \<times> db) result" where
  "withdraw_request actor req reason s =
     (if rq_tenant_id req \<noteq> u_tenant_id actor \<or> \<not> can_withdraw_request s actor req
      then Inl (Abort 403 ''Only the requester can withdraw an open request'')
      else bindE (withdrawal_reason reason) (\<lambda>reason.
           bindE (foldE (withdraw_open_item actor reason) (items_of_request s (rq_id req)) ([], [], s)) (\<lambda>(notify, numbers, s).
             let s = audit ''request withdrawn'' (rq_number req) (take 200 reason) (Some (u_id actor)) (Some (rq_tenant_id req))
                   (settle_request req s)
             in Inr (numbers, notify_withdrawal actor req [rq_number req] notify reason s))))"

section \<open>What withdrawing an item does\<close>

definition withdrawal_keys :: "db \<Rightarrow> bool" where
  "withdrawal_keys s \<longleftrightarrow> distinct (map ri_id (db_ritms s)) \<and> distinct (map ct_id (db_catalog_tasks s))
     \<and> distinct (map ch_id (db_chains s)) \<and> sla_wf s"

text \<open>Nothing runs for the item any more.\<close>

definition item_stopped :: "nat \<Rightarrow> db \<Rightarrow> bool" where
  "item_stopped i s \<longleftrightarrow> list_all closed_sla (slas_of s ''ritm'' i)
     \<and> list_all (\<lambda>t. ct_state t \<in> set TASK_TERMINAL_STATES) (tasks_of_ritm s i)
     \<and> (case approval_chain_for s ''ritm'' i of None \<Rightarrow> True | Some c \<Rightarrow> ch_state c \<noteq> ''Running'')"

definition stopped_chain :: "db \<Rightarrow> nat \<Rightarrow> approval_chain \<Rightarrow> approval_chain" where
  "stopped_chain s i c = (if approval_chain_for s ''ritm'' i = Some c \<and> ch_state c = ''Running''
     then closed_chain ''Cancelled'' (db_clock s) c else c)"

lemma stopped_chain_keeps [simp]:
  "ch_id (stopped_chain s i c) = ch_id c" "ch_target_type (stopped_chain s i c) = ch_target_type c"
  "ch_target_id (stopped_chain s i c) = ch_target_id c"
  by (simp_all add: stopped_chain_def closed_chain_def)

lemma withdraw_chain_rows:
  assumes "distinct (map ch_id (db_chains s))"
  shows "db_chains (snd (withdraw_chain actor ritm s)) = map (stopped_chain s (ri_id ritm)) (db_chains s)"
proof (cases "approval_chain_for s ''ritm'' (ri_id ritm)")
  case None
  have "map (stopped_chain s (ri_id ritm)) (db_chains s) = db_chains s"
    by (rule map_idI) (simp add: stopped_chain_def None)
  then show ?thesis by (simp add: withdraw_chain_def None)
next
  case (Some c)
  have c: "c \<in> set (db_chains s)" by (rule approval_chain_for_in [OF Some])
  have "put_row ch_id (closed_chain ''Cancelled'' (db_clock s) c) (db_chains s) = map (stopped_chain s (ri_id ritm)) (db_chains s)"
    if "ch_state c = ''Running''"
    unfolding put_row_def
  proof (rule map_cong [OF refl])
    fix x assume "x \<in> set (db_chains s)"
    with c assms have "ch_id x = ch_id c \<longleftrightarrow> x = c" by (auto simp: distinct_map dest: inj_onD)
    with that show "(if ch_id x = ch_id (closed_chain ''Cancelled'' (db_clock s) c) then closed_chain ''Cancelled'' (db_clock s) c else x) =
        stopped_chain s (ri_id ritm) x"
      by (auto simp: stopped_chain_def Some closed_chain_def)
  qed
  moreover have "map (stopped_chain s (ri_id ritm)) (db_chains s) = db_chains s" if "ch_state c \<noteq> ''Running''"
    by (rule map_idI) (use that in \<open>auto simp: stopped_chain_def Some\<close>)
  ultimately show ?thesis
    by (auto simp: withdraw_chain_def Some cancel_approval_chain_def save_chain_def)
qed

lemma withdraw_chain_frame [simp]:
  "db_ritms (snd (withdraw_chain actor ritm s)) = db_ritms s" "db_requests (snd (withdraw_chain actor ritm s)) = db_requests s"
  "db_catalog_tasks (snd (withdraw_chain actor ritm s)) = db_catalog_tasks s"
  "db_task_slas (snd (withdraw_chain actor ritm s)) = db_task_slas s"
  "db_sla_definitions (snd (withdraw_chain actor ritm s)) = db_sla_definitions s"
  by (simp_all add: withdraw_chain_def cancel_approval_chain_def save_chain_def split: option.split)

lemma withdraw_tasks_rows:
  assumes "distinct (map ct_id (db_catalog_tasks (snd st)))" and "tasks = filter P (db_catalog_tasks (snd st))"
  shows "db_catalog_tasks (snd (fold (withdraw_task actor reason) tasks st)) =
      map (\<lambda>t. if P t \<and> ct_state t \<notin> set TASK_TERMINAL_STATES then skipped_task actor reason t else t) (db_catalog_tasks (snd st))
    \<and> db_ritms (snd (fold (withdraw_task actor reason) tasks st)) = db_ritms (snd st)
    \<and> db_requests (snd (fold (withdraw_task actor reason) tasks st)) = db_requests (snd st)
    \<and> db_chains (snd (fold (withdraw_task actor reason) tasks st)) = db_chains (snd st)
    \<and> db_task_slas (snd (fold (withdraw_task actor reason) tasks st)) = db_task_slas (snd st)
    \<and> db_sla_definitions (snd (fold (withdraw_task actor reason) tasks st)) = db_sla_definitions (snd st)"
proof -
  let ?rows = "\<lambda>st. db_catalog_tasks (snd st)"
  let ?h = "\<lambda>t. if ct_state t \<notin> set TASK_TERMINAL_STATES then skipped_task actor reason t else t"
  let ?I = "\<lambda>st'. db_ritms (snd st') = db_ritms (snd st) \<and> db_requests (snd st') = db_requests (snd st)
    \<and> db_chains (snd st') = db_chains (snd st) \<and> db_task_slas (snd st') = db_task_slas (snd st)
    \<and> db_sla_definitions (snd st') = db_sla_definitions (snd st)"
  have step: "?I (withdraw_task actor reason x st1) \<and>
      ?rows (withdraw_task actor reason x st1) = map (\<lambda>r. if ct_id r = ct_id x then ?h r else r) (?rows st1)"
    if "?I st1" "x \<in> set (?rows st1)" "distinct (map ct_id (?rows st1))" for x st1
  proof (cases "ct_state x \<in> set TASK_TERMINAL_STATES")
    case True
    have "map (\<lambda>r. if ct_id r = ct_id x then ?h r else r) (?rows st1) = ?rows st1"
    proof (rule map_idI)
      fix r assume "r \<in> set (?rows st1)"
      then have "ct_id r = ct_id x \<Longrightarrow> r = x" using that(2,3) by (auto simp: distinct_map dest: inj_onD)
      then show "(if ct_id r = ct_id x then ?h r else r) = r" using True by auto
    qed
    then show ?thesis using True that by (simp add: withdraw_task_def)
  next
    case False
    have "put_row ct_id (skipped_task actor reason x) (?rows st1) = map (\<lambda>r. if ct_id r = ct_id x then ?h r else r) (?rows st1)"
      using put_row_map [of ct_id "?rows st1" x ?h] that False by (simp add: skipped_task_def)
    then show ?thesis using that False by (simp add: withdraw_task_def case_prod_beta Let_def)
  qed
  have "?I (fold (withdraw_task actor reason) tasks st) \<and> ?rows (fold (withdraw_task actor reason) tasks st) =
      map (\<lambda>r. if ct_id r \<in> ct_id ` set tasks then ?h r else r) (?rows st)"
    by (rule fold_map_rows [where I = ?I and rows = ?rows and key = ct_id])
      (use step assms in \<open>auto simp: skipped_task_def distinct_map_filter\<close>)
  moreover have "map (\<lambda>r. if ct_id r \<in> ct_id ` set tasks then ?h r else r) (?rows st) = map (\<lambda>r. if P r then ?h r else r) (?rows st)"
    unfolding assms(2) by (rule map_filter_keys [OF assms(1)])
  moreover have "map (\<lambda>r. if P r then ?h r else r) (?rows st) =
      map (\<lambda>t. if P t \<and> ct_state t \<notin> set TASK_TERMINAL_STATES then skipped_task actor reason t else t) (?rows st)"
    by (rule map_cong) auto
  ultimately show ?thesis by simp
qed


lemma chain_stopped:
  assumes "db_chains s' = map (stopped_chain s i) (db_chains s)"
  shows "(case approval_chain_for s' ''ritm'' i of None \<Rightarrow> True | Some c \<Rightarrow> ch_state c \<noteq> ''Running'')"
    and "(case approval_chain_for s ''ritm'' j of None \<Rightarrow> True | Some c \<Rightarrow> ch_state c \<noteq> ''Running'') \<Longrightarrow>
      (case approval_chain_for s' ''ritm'' j of None \<Rightarrow> True | Some c \<Rightarrow> ch_state c \<noteq> ''Running'')"
proof -
  have eq: "approval_chain_for s' ''ritm'' k = map_option (stopped_chain s i) (approval_chain_for s ''ritm'' k)" for k
    by (rule approval_chain_for_map [OF assms]) simp
  show "(case approval_chain_for s' ''ritm'' i of None \<Rightarrow> True | Some c \<Rightarrow> ch_state c \<noteq> ''Running'')"
    by (simp add: eq stopped_chain_def closed_chain_def split: option.split)
  show "(case approval_chain_for s' ''ritm'' j of None \<Rightarrow> True | Some c \<Rightarrow> ch_state c \<noteq> ''Running'')"
    if "(case approval_chain_for s ''ritm'' j of None \<Rightarrow> True | Some c \<Rightarrow> ch_state c \<noteq> ''Running'')"
    using that by (simp add: eq stopped_chain_def closed_chain_def split: option.splits)
qed

lemma tasks_stopped:
  assumes "db_catalog_tasks s' = map (\<lambda>t. if ct_requested_item_id t = i \<and> ct_state t \<notin> set TASK_TERMINAL_STATES
      then skipped_task actor reason t else t) (db_catalog_tasks s)"
  shows "list_all (\<lambda>t. ct_state t \<in> set TASK_TERMINAL_STATES) (tasks_of_ritm s' i)"
    and "list_all (\<lambda>t. ct_state t \<in> set TASK_TERMINAL_STATES) (tasks_of_ritm s j) \<Longrightarrow>
      list_all (\<lambda>t. ct_state t \<in> set TASK_TERMINAL_STATES) (tasks_of_ritm s' j)"
proof -
  have skip: "ct_state (skipped_task actor reason t) \<in> set TASK_TERMINAL_STATES"
      "ct_requested_item_id (skipped_task actor reason t) = ct_requested_item_id t" for t
    by (simp_all add: skipped_task_def TASK_TERMINAL_STATES_def)
  show "list_all (\<lambda>t. ct_state t \<in> set TASK_TERMINAL_STATES) (tasks_of_ritm s' i)"
    unfolding tasks_of_ritm_def assms list_all_iff set_filter set_map using skip by (auto split: if_splits)
  show "list_all (\<lambda>t. ct_state t \<in> set TASK_TERMINAL_STATES) (tasks_of_ritm s' j)"
    if "list_all (\<lambda>t. ct_state t \<in> set TASK_TERMINAL_STATES) (tasks_of_ritm s j)"
    using that skip unfolding tasks_of_ritm_def assms list_all_iff set_filter set_map by (auto split: if_splits)
qed

definition withdrawn_item :: "requested_item \<Rightarrow> requested_item" where
  "withdrawn_item r = r\<lparr>ri_state := ''Cancelled'', ri_stage := ''Cancelled''\<rparr>"

lemma withdraw_effect:
  assumes keys: "withdrawal_keys s" and mem: "ritm \<in> set (db_ritms s)"
  shows "\<exists>notify s'. withdraw actor ritm reason s = Inr (notify, s') \<and> withdrawal_keys s'
    \<and> db_ritms s' = map (\<lambda>r. if ri_id r = ri_id ritm then withdrawn_item r else r) (db_ritms s)
    \<and> db_requests s' = db_requests s
    \<and> item_stopped (ri_id ritm) s' \<and> (\<forall>i. item_stopped i s \<longrightarrow> item_stopped i s')"
proof -
  let ?i = "ri_id ritm"
  define st where "st = fold (withdraw_task actor reason) (tasks_of_ritm s ?i) (withdraw_chain actor ritm s)"
  define s1 where "s1 = snd st"
  have tasks: "tasks_of_ritm s ?i = filter (\<lambda>t. ct_requested_item_id t = ?i) (db_catalog_tasks (snd (withdraw_chain actor ritm s)))"
    by (simp add: tasks_of_ritm_def)
  have d: "distinct (map ct_id (db_catalog_tasks (snd (withdraw_chain actor ritm s))))"
    "distinct (map ch_id (db_chains s))" "distinct (map ri_id (db_ritms s))" "sla_wf s"
    using keys by (simp_all add: withdrawal_keys_def)
  note rows = withdraw_tasks_rows [OF d(1) tasks, of actor reason, folded st_def, folded s1_def, simplified]
  define s2 where "s2 = s1\<lparr>db_ritms := put_row ri_id (withdrawn_item ritm) (db_ritms s1)\<rparr>"
  have ritms: "put_row ri_id (withdrawn_item ritm) (db_ritms s) = map (\<lambda>r. if ri_id r = ?i then withdrawn_item r else r) (db_ritms s)"
    by (rule put_row_map [OF d(3) mem]) (simp add: withdrawn_item_def)
  have wf2: "sla_wf s2" using d(4) rows by (simp add: s2_def sla_wf_def)
  have slas2: "slas_of s2 ''ritm'' j = slas_of s ''ritm'' j" for j using rows by (simp add: s2_def slas_of_def)
  obtain s3 where s3: "sync_slas ''ritm'' ?i ''Cancelled'' s2 = Inr s3" "sla_wf s3" "list_all closed_sla (slas_of s3 ''ritm'' ?i)"
    using sync_slas_ended [OF wf2, of "''ritm''" ?i "''Cancelled''" ?i] by auto
  have closed3: "list_all closed_sla (slas_of s3 ''ritm'' j)" if "list_all closed_sla (slas_of s ''ritm'' j)" for j
    using sync_slas_ended [OF wf2, of "''ritm''" ?i "''Cancelled''" j] that s3(1) by (simp add: slas2)
  note same = sync_slas.fields [OF s3(1)]
  define s4 where "s4 = audit ''request item withdrawn'' (ri_number ritm) (take 200 reason) (Some (u_id actor))
    (Some (ri_tenant_id ritm)) (log_history ''ritm'' ?i ''Request withdrawn'' (Some ''state'') (Some (ri_state ritm))
                 (Some ''Cancelled'') reason (Some (u_id actor)) s3)"
  have run: "withdraw actor ritm reason s = Inr (fst st, s4)"
    unfolding withdraw_def Let_def st_def [symmetric]
    using s3(1) by (simp add: case_prod_beta s1_def [symmetric] s2_def withdrawn_item_def s4_def)
  have s4: "db_ritms s4 = map (\<lambda>r. if ri_id r = ?i then withdrawn_item r else r) (db_ritms s)" "db_requests s4 = db_requests s"
    "db_chains s4 = map (stopped_chain s ?i) (db_chains s)"
    "db_catalog_tasks s4 = map (\<lambda>t. if ct_requested_item_id t = ?i \<and> ct_state t \<notin> set TASK_TERMINAL_STATES
       then skipped_task actor reason t else t) (db_catalog_tasks s)"
    "slas_of s4 ty j = slas_of s3 ty j" "sla_wf s4" for ty j
    using same(31,38-41) rows ritms s3(2) withdraw_chain_rows [OF d(2), of actor ritm] by (simp_all add: s4_def s2_def slas_of_def sla_wf_def)
  have "withdrawal_keys s4"
    using keys s4(6) by (simp add: withdrawal_keys_def s4(1,3,4) o_def if_distrib [of ri_id] if_distrib [of ct_id] withdrawn_item_def
        skipped_task_def cong: if_cong)
  moreover have "item_stopped ?i s4"
    using s3(3) s4(5) chain_stopped(1) [OF s4(3)] tasks_stopped(1) [OF s4(4)] by (simp add: item_stopped_def)
  moreover have "item_stopped j s4" if "item_stopped j s" for j
    using that closed3 s4(5) chain_stopped(2) [OF s4(3)] tasks_stopped(2) [OF s4(4)] by (simp add: item_stopped_def)
  ultimately show ?thesis using run s4(1,2) by blast
qed

section \<open>Withdrawing a whole request\<close>

definition open_item :: "requested_item \<Rightarrow> bool" where
  "open_item r \<longleftrightarrow> ri_state r \<notin> set ITEM_TERMINAL_STATES"

lemma withdraw_items:
  assumes "withdrawal_keys s" and "set items \<subseteq> set (db_ritms s)" and "distinct (map ri_id items)"
  shows "\<exists>notify' s'. foldE (withdraw_open_item actor reason) items (notify, numbers, s) =
      Inr (notify', numbers @ map ri_number (filter open_item items), s')
    \<and> db_requests s' = db_requests s
    \<and> db_ritms s' = map (\<lambda>r. if ri_id r \<in> ri_id ` set (filter open_item items) then withdrawn_item r else r) (db_ritms s)
    \<and> (\<forall>r. r \<in> set items \<and> open_item r \<or> item_stopped (ri_id r) s \<longrightarrow> item_stopped (ri_id r) s')"
  using assms
proof (induction items arbitrary: notify numbers s)
  case Nil
  then show ?case by simp
next
  case (Cons r items)
  show ?case
  proof (cases "open_item r")
    case False
    then have "withdraw_open_item actor reason r (notify, numbers, s) = Inr (notify, numbers, s)"
      by (simp add: withdraw_open_item_def open_item_def)
    moreover have "set items \<subseteq> set (db_ritms s)" "distinct (map ri_id items)" using Cons.prems by simp_all
    ultimately show ?thesis using Cons.IH [OF Cons.prems(1), of notify numbers] False by auto
  next
    case True
    obtain more s1 where s1: "withdraw actor r reason s = Inr (more, s1)" "withdrawal_keys s1"
        "db_ritms s1 = map (\<lambda>x. if ri_id x = ri_id r then withdrawn_item x else x) (db_ritms s)" "db_requests s1 = db_requests s"
        "item_stopped (ri_id r) s1" "\<forall>i. item_stopped i s \<longrightarrow> item_stopped i s1"
      using withdraw_effect [OF Cons.prems(1), of r actor reason] Cons.prems(2) by auto
    have "x \<in> set (db_ritms s1)" if "x \<in> set items" for x
      using that Cons.prems(2,3) unfolding s1(3) set_map by (auto intro!: rev_image_eqI [of x])
    then obtain n' s' where s': "foldE (withdraw_open_item actor reason) items (notify @ more, numbers @ [ri_number r], s1) =
        Inr (n', (numbers @ [ri_number r]) @ map ri_number (filter open_item items), s')" "db_requests s' = db_requests s1"
        "db_ritms s' = map (\<lambda>x. if ri_id x \<in> ri_id ` set (filter open_item items) then withdrawn_item x else x) (db_ritms s1)"
        "\<forall>x. x \<in> set items \<and> open_item x \<or> item_stopped (ri_id x) s1 \<longrightarrow> item_stopped (ri_id x) s'"
      using Cons.IH [OF s1(2), of "notify @ more" "numbers @ [ri_number r]"] Cons.prems(3) by auto
    have "withdraw_open_item actor reason r (notify, numbers, s) = Inr (notify @ more, numbers @ [ri_number r], s1)"
      using True s1(1) by (simp add: withdraw_open_item_def open_item_def)
    moreover have "db_ritms s' = map (\<lambda>x. if ri_id x \<in> ri_id ` set (filter open_item (r # items)) then withdrawn_item x else x) (db_ritms s)"
      unfolding s'(3) s1(3) map_map by (rule map_cong) (use True in \<open>auto simp: withdrawn_item_def\<close>)
    ultimately show ?thesis using s' s1(4-6) True by auto
  qed
qed

lemma notify_withdrawal_keeps [simp]:
  "db_requests (notify_withdrawal actor req numbers people reason s) = db_requests s"
  "db_ritms (notify_withdrawal actor req numbers people reason s) = db_ritms s"
  "item_stopped i (notify_withdrawal actor req numbers people reason s) = item_stopped i s"
proof -
  have log: "log_only (notify_withdrawal actor req numbers people reason)"
    unfolding notify_withdrawal_def Let_def by (rule log_only_fold) (rule create_notification.log_only_axioms)
  note same = log_only.tables [OF log]
  show "db_requests (notify_withdrawal actor req numbers people reason s) = db_requests s"
    "db_ritms (notify_withdrawal actor req numbers people reason s) = db_ritms s"
    by (simp_all add: same)
  show "item_stopped i (notify_withdrawal actor req numbers people reason s) = item_stopped i s"
    by (simp add: item_stopped_def slas_of_def tasks_of_ritm_def approval_chain_for_def same)
qed

lemma item_stopped_audit [simp]: "item_stopped i (audit a t d u n s) = item_stopped i s"
  by (simp add: item_stopped_def slas_of_def tasks_of_ritm_def approval_chain_for_def)

lemma item_stopped_settle [simp]: "item_stopped i (settle_request req s) = item_stopped i s"
  by (simp add: item_stopped_def slas_of_def tasks_of_ritm_def approval_chain_for_def)


lemma settled_after_withdrawal:
  assumes "get_row rq_id (rq_id req) (db_requests s) = Some req" and "items_of_request s (rq_id req) \<noteq> []"
    and "list_all (\<lambda>r. \<not> open_item r) (items_of_request s (rq_id req))"
  shows "\<exists>req'. get_row rq_id (rq_id req) (db_requests (settle_request req s)) = Some req'
    \<and> rq_state req' = settled_state (map ri_state (items_of_request s (rq_id req)))"
  using assms by (auto simp: settle_request_rows Let_def list_all_iff list_ex_iff get_put_row open_item_def)

text \<open>
  C21. Withdrawing a request carries through: whenever the actor may withdraw it and gives a reason, the
  operation succeeds and returns the numbers of the open items; exactly those items become Cancelled and
  nothing runs for them any more (approval chain, fulfilment tasks, SLAs); items that were already closed
  and items of other requests keep their state; and the request itself ends in the state its items give.
\<close>

theorem withdraw_request_complete:
  assumes keys: "withdrawal_keys s" and req: "get_row rq_id (rq_id req) (db_requests s) = Some req"
    and may: "rq_tenant_id req = u_tenant_id actor" "can_withdraw_request s actor req"
    and reason: "withdrawal_reason reason = Inr text'"
  shows "\<exists>s' req'. withdraw_request actor req reason s =
        Inr (map ri_number (filter open_item (items_of_request s (rq_id req))), s')
    \<and> db_ritms s' = map (\<lambda>r. if ri_request_id r = rq_id req \<and> open_item r then withdrawn_item r else r) (db_ritms s)
    \<and> list_all (\<lambda>r. open_item r \<longrightarrow> item_stopped (ri_id r) s') (items_of_request s (rq_id req))
    \<and> get_row rq_id (rq_id req) (db_requests s') = Some req'
    \<and> rq_state req' = settled_state (map ri_state (items_of_request s' (rq_id req)))
    \<and> rq_state req' \<in> set FINISHED_REQUEST_STATES"
proof -
  define items where "items = items_of_request s (rq_id req)"
  have dist: "distinct (map ri_id (db_ritms s))" using keys by (simp add: withdrawal_keys_def)
  have items: "set items \<subseteq> set (db_ritms s)" "distinct (map ri_id items)"
    using distinct_map_filter [OF dist] by (auto simp: items_def items_of_request_def)
  obtain n' s1 where s1: "foldE (withdraw_open_item actor text') items ([], [], s) = Inr (n', map ri_number (filter open_item items), s1)"
      "db_requests s1 = db_requests s"
      "db_ritms s1 = map (\<lambda>r. if ri_id r \<in> ri_id ` set (filter open_item items) then withdrawn_item r else r) (db_ritms s)"
      "\<forall>r. r \<in> set items \<and> open_item r \<or> item_stopped (ri_id r) s \<longrightarrow> item_stopped (ri_id r) s1"
    using withdraw_items [OF keys items, of actor text' "[]" "[]"] by auto
  have "filter open_item items = filter (\<lambda>r. ri_request_id r = rq_id req \<and> open_item r) (db_ritms s)"
    by (simp add: items_def items_of_request_def conj_commute)
  then have ritms: "db_ritms s1 = map (\<lambda>r. if ri_request_id r = rq_id req \<and> open_item r then withdrawn_item r else r) (db_ritms s)"
    unfolding s1(3) by (simp only: map_filter_keys [OF dist])
  define h where "h = (\<lambda>r. if open_item r then withdrawn_item r else r)"
  have after: "items_of_request s1 (rq_id req) = map h items"
    unfolding items_of_request_def ritms items_def filter_map o_def h_def
    by (auto simp: withdrawn_item_def filter_map o_def intro!: map_cong filter_cong)
  have closed: "\<not> open_item (h r)" for r by (simp add: h_def withdrawn_item_def open_item_def ITEM_TERMINAL_STATES_def)
  have "items \<noteq> []" using may(2) by (auto simp: can_withdraw_request_def items_def)
  then obtain req' where req': "get_row rq_id (rq_id req) (db_requests (settle_request req s1)) = Some req'"
      "rq_state req' = settled_state (map ri_state (items_of_request s1 (rq_id req)))"
    using settled_after_withdrawal [of req s1] req closed by (auto simp: s1(2) after list_all_iff)
  define s' where "s' = notify_withdrawal actor req [rq_number req] n' text'
    (audit ''request withdrawn'' (rq_number req) (take 200 text') (Some (u_id actor)) (Some (rq_tenant_id req)) (settle_request req s1))"
  have run: "withdraw_request actor req reason s = Inr (map ri_number (filter open_item items), s')"
    using may reason s1(1) by (simp add: withdraw_request_def items_def s'_def Let_def)
  have s': "db_ritms s' = db_ritms s1" "db_requests s' = db_requests (settle_request req s1)" "item_stopped i s' = item_stopped i s1" for i
    by (simp_all add: s'_def)
  then have "items_of_request s' (rq_id req) = items_of_request s1 (rq_id req)" by (simp add: items_of_request_def)
  with run s' ritms req' s1(4) settled_state_finished show ?thesis
    unfolding items_def [symmetric] by (intro exI [of _ s'] exI [of _ req']) (auto simp: list_all_iff)
qed

definition example_withdrawal_db :: db where
  "example_withdrawal_db = empty_db\<lparr>db_requests := [blank_catalog_request\<lparr>rq_id := 3, rq_requested_by_id := 8, rq_state := ''Open''\<rparr>],
     db_ritms := [blank_requested_item\<lparr>ri_id := 4, ri_request_id := 3, ri_state := ''Open''\<rparr>],
     db_catalog_tasks := [blank_catalog_task\<lparr>ct_id := 6, ct_requested_item_id := 4, ct_state := ''Open''\<rparr>]\<rparr>"

theorem withdraw_request_complete_witness:
  "\<exists>s' req'. withdraw_request (blank_user\<lparr>u_id := 8, u_active := True\<rparr>) (hd (db_requests example_withdrawal_db)) (Some ''mistake'')
       example_withdrawal_db = Inr ([[]], s')
     \<and> item_stopped 4 s' \<and> get_row rq_id 3 (db_requests s') = Some req' \<and> rq_state req' \<in> set FINISHED_REQUEST_STATES"
proof -
  let ?u = "blank_user\<lparr>u_id := 8, u_active := True\<rparr>" and ?r = "hd (db_requests example_withdrawal_db)"
  have "withdrawal_keys example_withdrawal_db"
      "get_row rq_id (rq_id ?r) (db_requests example_withdrawal_db) = Some ?r"
      "rq_tenant_id ?r = u_tenant_id ?u" "can_withdraw_request example_withdrawal_db ?u ?r"
      "withdrawal_reason (Some ''mistake'') = Inr ''mistake''"
    by code_simp+
  note complete = withdraw_request_complete [OF this]
  have facts: "rq_id ?r = 3" "map ri_number (filter open_item (items_of_request example_withdrawal_db 3)) = [[]]"
    "list_ex (\<lambda>r. open_item r \<and> ri_id r = 4) (items_of_request example_withdrawal_db 3)" by code_simp+
  then have "\<exists>r \<in> set (items_of_request example_withdrawal_db 3). open_item r \<and> ri_id r = 4"
    by (simp add: list_ex_iff)
  with complete facts show ?thesis by (auto simp: list_all_iff)
qed

end
