(* ===== verification/Tickets.thy ===== *)
theory Tickets
  imports Approvals
begin

text \<open>
  Tickets and enterprise records (\<^verbatim>\<open>app.py\<close>): which states a ticket may enter, given the state of its
  approval chain; the transition itself with everything it sets off (approval chain, resolution data,
  SLAs, child tasks, service outages, workflow events, child incidents); the transition of enterprise
  records; outages and the downtime they add up to; and who may manage a ticket, decided for one ticket
  and for many at once.
\<close>

section \<open>Allowed states\<close>

definition allowed_ticket_states :: "db \<Rightarrow> ticket \<Rightarrow> string list" where
  "allowed_ticket_states s ticket =
     (let chain = approval_chain_for s ''ticket'' (tk_id ticket) in
      if tk_kind ticket = ''change'' \<and> chain = None \<and> tk_state ticket \<notin> set [''Closed'', ''Cancelled'', ''Rejected'']
      then [tk_state ticket, ''Cancelled'']
      else (case (if tk_kind ticket = ''change'' then chain else None) of
          Some c \<Rightarrow>
            if ch_state c = ''Running'' then [tk_state ticket, ''Cancelled'']
            else if ch_state c = ''Rejected'' then [''Rejected'']
            else if ch_state c = ''Cancelled'' then [''Cancelled'']
            else allowed_states TICKET_TRANSITIONS (tk_state ticket)
        | None \<Rightarrow> allowed_states TICKET_TRANSITIONS (tk_state ticket)))"

section \<open>Service outages\<close>

definition outage_services :: "db \<Rightarrow> ticket \<Rightarrow> nat list" where
  "outage_services s ticket =
     (let ci_ids = map tci_ci_id (filter (\<lambda>l. tci_target_type l = ''ticket'' \<and> tci_target_id l = tk_id ticket) (db_task_cis s))
      in remdups (map sc_service_offering_id
           (filter (\<lambda>r. sc_ci_id r \<in> set ci_ids \<and> sc_tenant_id r = tk_tenant_id ticket) (db_service_cis s))))"

definition open_outage :: "nat \<Rightarrow> service_outage \<Rightarrow> bool" where
  "open_outage ticket_id o' \<longleftrightarrow> so_ticket_id o' = ticket_id \<and> so_ended_at o' = None"

fun add_outages :: "nat list \<Rightarrow> ticket \<Rightarrow> db \<Rightarrow> db" where
  "add_outages [] ticket s = s"
| "add_outages (service_id # rest) ticket s =
     add_outages rest ticket
       (s\<lparr>db_outages := db_outages s @
          [\<lparr>so_id = next_id so_id (db_outages s), so_service_offering_id = service_id, so_ticket_id = tk_id ticket,
            so_started_at = tk_created_at ticket, so_ended_at = None, so_tenant_id = tk_tenant_id ticket\<rparr>]\<rparr>)"

definition end_outages :: "(service_outage \<Rightarrow> bool) \<Rightarrow> db \<Rightarrow> db" where
  "end_outages P s = s\<lparr>db_outages := upd_rows P (\<lambda>o'. o'\<lparr>so_ended_at := Some (db_clock s)\<rparr>) (db_outages s)\<rparr>"

definition sync_service_outages :: "ticket \<Rightarrow> db \<Rightarrow> db" where
  "sync_service_outages ticket s =
     (if tk_kind ticket \<noteq> ''incident'' then s
      else let
        service_ids = outage_services s ticket;
        should_be_open = tk_state ticket \<notin> set [''Resolved'', ''Closed'', ''Cancelled'']
          \<and> tk_impact ticket \<in> set [''Critical'', ''High''];
        open_service_ids = map so_service_offering_id (filter (open_outage (tk_id ticket)) (db_outages s))
      in if should_be_open
         then add_outages (filter (\<lambda>i. i \<notin> set open_service_ids) service_ids) ticket
                (end_outages (\<lambda>o'. open_outage (tk_id ticket) o' \<and> so_service_offering_id o' \<notin> set service_ids) s)
         else end_outages (open_outage (tk_id ticket)) s)"

text \<open>The merged intervals of downtime inside the window, and their total length.\<close>

fun merge_intervals :: "(int \<times> int) list \<Rightarrow> (int \<times> int) list \<Rightarrow> (int \<times> int) list" where
  "merge_intervals merged [] = merged"
| "merge_intervals merged ((a, b) # rest) =
     (if merged \<noteq> [] \<and> a \<le> snd (last merged)
      then merge_intervals (butlast merged @ [(fst (last merged), max (snd (last merged)) b)]) rest
      else merge_intervals (merged @ [(a, b)]) rest)"

definition outage_intervals :: "db \<Rightarrow> nat \<Rightarrow> int \<Rightarrow> (int \<times> int) list" where
  "outage_intervals s service_offering_id days =
     (let window_end = db_clock s; window_start = window_end - days * 86400000000;
          outages = filter (\<lambda>o'. so_service_offering_id o' = service_offering_id
            \<and> (case so_ended_at o' of None \<Rightarrow> True | Some e \<Rightarrow> e > window_start)
            \<and> so_started_at o' < window_end) (db_outages s)
      in filter (\<lambda>(a, b). b > a)
           (map (\<lambda>o'. (max (so_started_at o') window_start,
                       min (case so_ended_at o' of None \<Rightarrow> window_end | Some e \<Rightarrow> e) window_end)) outages))"

text \<open>\<^verbatim>\<open>intervals.sort()\<close> compares pairs lexicographically.\<close>

definition sort_intervals :: "(int \<times> int) list \<Rightarrow> (int \<times> int) list" where
  "sort_intervals xs = sort_key fst (sort_key snd xs)"

definition service_downtime :: "db \<Rightarrow> nat \<Rightarrow> int \<Rightarrow> int" where
  "service_downtime s service_offering_id days =
     sum_list (map (\<lambda>(a, b). b - a) (merge_intervals [] (sort_intervals (outage_intervals s service_offering_id days))))"

text \<open>The percentage before it is rounded to three decimals.\<close>

definition service_availability_pct :: "db \<Rightarrow> nat \<Rightarrow> int \<Rightarrow> rat" where
  "service_availability_pct s service_offering_id days =
     (let total = days * 86400000000 in
      if total = 0 then 100
      else 100 * (1 - of_int (service_downtime s service_offering_id days) / of_int total))"

section \<open>Resolution data and hold reasons\<close>

definition record_resolution_state :: "datetime \<Rightarrow> string \<Rightarrow> string \<Rightarrow> ticket \<Rightarrow> ticket" where
  "record_resolution_state clock old_state new_state ticket =
     (if new_state = old_state then ticket
      else if new_state = ''Resolved'' \<or> new_state = ''Closed'' \<and> tk_resolved_at ticket = None then
        (let ticket = ticket\<lparr>tk_resolved_at := Some clock\<rparr> in
         if tk_kind ticket = ''incident'' \<and> \<not> truthy (tk_closure_category ticket)
         then ticket\<lparr>tk_closure_category := Some (tk_category ticket),
                tk_closure_subcategory := (if tk_subcategory ticket = [] then None else Some (tk_subcategory ticket))\<rparr>
         else ticket)
      else if new_state \<notin> set [''Resolved'', ''Closed'', ''Cancelled''] then ticket\<lparr>tk_resolved_at := None\<rparr>
      else ticket)"

definition require_resolution_notes :: "ticket \<Rightarrow> string \<Rightarrow> unit result" where
  "require_resolution_notes ticket new_state =
     (if tk_kind ticket = ''incident'' \<and> new_state \<in> set [''Resolved'', ''Closed'']
         \<and> tk_state ticket \<notin> set [''Resolved'', ''Closed'']
         \<and> strip (opt [] (tk_resolution_notes ticket)) = []
      then Inl (Abort 409 ''Record resolution notes before resolving'')
      else Inr ())"

definition HOLD_REASONS :: "string list" where
  "HOLD_REASONS = [''Awaiting caller'', ''Awaiting vendor'', ''Awaiting change'', ''Awaiting problem'']"

definition DEFAULT_HOLD_REASON :: string where
  "DEFAULT_HOLD_REASON = ''Awaiting caller''"

definition check_hold_reason :: "string \<Rightarrow> string result" where
  "check_hold_reason value =
     (if value \<notin> set HOLD_REASONS then Inl (Abort 400 ''Choose why the incident is on hold'') else Inr value)"

section \<open>The transition of a ticket\<close>

definition save_ticket :: "ticket \<Rightarrow> db \<Rightarrow> db" where
  "save_ticket ticket s = s\<lparr>db_tickets := put_row tk_id ticket (db_tickets s)\<rparr>"

definition incomplete_change_task :: "db \<Rightarrow> ticket \<Rightarrow> bool" where
  "incomplete_change_task s ticket =
     list_ex (\<lambda>t. ot_parent_type t = ''ticket'' \<and> ot_parent_id t = tk_id ticket \<and> ot_task_kind t = ''change''
       \<and> ot_required t \<and> ot_state t \<notin> set [''Closed Complete'', ''Cancelled'']) (db_op_tasks s)"

definition open_incident_task :: "db \<Rightarrow> ticket \<Rightarrow> bool" where
  "open_incident_task s ticket =
     list_ex (\<lambda>t. ot_parent_type t = ''ticket'' \<and> ot_parent_id t = tk_id ticket \<and> ot_task_kind t = ''incident''
       \<and> ot_required t \<and> ot_state t \<notin> set OPEN_TASK_END_STATES) (db_op_tasks s)"

definition hold_state :: "ticket \<Rightarrow> string \<Rightarrow> string option \<Rightarrow> ticket result" where
  "hold_state ticket new_state hold_reason =
     (if tk_kind ticket \<noteq> ''incident'' then Inr ticket
      else bindE (if new_state = ''Pending''
                  then bindE (check_hold_reason (opt DEFAULT_HOLD_REASON
                         (or_str hold_reason (or_str (if tk_state ticket = ''Pending'' then tk_hold_reason ticket else None)
                            (Some DEFAULT_HOLD_REASON)))))
                       (\<lambda>reason. Inr (ticket\<lparr>tk_hold_reason := Some reason\<rparr>))
                  else Inr (ticket\<lparr>tk_hold_reason := None\<rparr>))
             (\<lambda>ticket. Inr (if tk_state ticket \<in> set [''Resolved'', ''Closed'']
                               \<and> new_state \<notin> set [''Resolved'', ''Closed'', ''Cancelled'']
                            then ticket\<lparr>tk_reopen_count := tk_reopen_count ticket + 1\<rparr> else ticket)))"

definition state_events :: "ticket \<Rightarrow> string \<Rightarrow> db \<Rightarrow> db" where
  "state_events ticket old_state s =
     (if tk_state ticket = old_state then s
      else let context = ticket_workflow_context ticket (Some old_state);
               s = queue_workflow_event ''ticket.state_entry'' ''ticket'' (tk_id ticket) context (tk_tenant_id ticket) s
      in if tk_kind ticket = ''change''
            \<and> list_ex (\<lambda>c. event_matches (ic_event_types_json c) ''change.state_changed'' context)
                (event_connections s (tk_tenant_id ticket))
         then add_outbox ''change.state_changed'' (sort_key fst context) (tk_tenant_id ticket) s
         else s)"

definition follow_parent :: "ticket \<Rightarrow> string \<Rightarrow> record_link \<Rightarrow> db \<Rightarrow> db result" where
  "follow_parent ticket new_state link s =
     (case get_row tk_id (rl_source_id link) (db_tickets s) of
        None \<Rightarrow> Inr s
      | Some child \<Rightarrow>
          if tk_kind child = ''incident'' \<and> new_state \<in> set (opt [] (map_of TICKET_TRANSITIONS (tk_state child)))
             \<and> tk_state child \<noteq> new_state
          then let old_state = tk_state child;
                   child = child\<lparr>tk_state := new_state,
                     tk_hold_reason := (if new_state = ''Pending'' then tk_hold_reason ticket else None)\<rparr>;
                   child = (if new_state \<in> set [''Resolved'', ''Closed'']
                     then child\<lparr>tk_resolution_notes := or_str (tk_resolution_notes child) (tk_resolution_notes ticket),
                            tk_closure_category := or_str (tk_closure_category child) (tk_closure_category ticket),
                            tk_closure_subcategory := or_str (tk_closure_subcategory child) (tk_closure_subcategory ticket)\<rparr>
                     else child);
                   child = record_resolution_state (db_clock s) old_state new_state child
               in bindE (sync_slas ''ticket'' (tk_id child) new_state (save_ticket child s)) (\<lambda>s.
                    let s = (if new_state \<in> set [''Cancelled'', ''Closed'']
                      then cancel_open_child_tasks ''ticket'' (tk_id child) (tk_number child) (tk_tenant_id child) new_state s
                      else s)
                    in Inr (log_history ''ticket'' (tk_id child) ''State synchronized from parent incident'' (Some ''state'')
                         (Some old_state) (Some new_state) (''Parent '' @ tk_number ticket @ '' moved to '' @ new_state @ ''.'') None s))
          else Inr s)"

definition child_links :: "db \<Rightarrow> ticket \<Rightarrow> record_link list" where
  "child_links s ticket = filter (\<lambda>l. rl_target_type l = ''ticket'' \<and> rl_target_id l = tk_id ticket
     \<and> rl_link_type l = ''parent_incident'') (db_record_links s)"

text \<open>The part of \<^verbatim>\<open>transition_ticket\<close> after its checks; \<open>ticket\<close> still has its old state.\<close>

definition enter_state :: "ticket \<Rightarrow> string \<Rightarrow> db \<Rightarrow> db result" where
  "enter_state ticket new_state s =
     (let old_state = tk_state ticket;
          ticket = record_resolution_state (db_clock s) old_state new_state (ticket\<lparr>tk_state := new_state\<rparr>)
      in bindE (sync_slas ''ticket'' (tk_id ticket) new_state (save_ticket ticket s)) (\<lambda>s.
         let s = (if new_state \<in> set [''Cancelled'', ''Rejected'', ''Closed''] \<and> new_state \<noteq> old_state
               then cancel_open_child_tasks ''ticket'' (tk_id ticket) (tk_number ticket) (tk_tenant_id ticket) new_state s
               else s);
             s = (if tk_kind ticket = ''incident'' then sync_service_outages ticket s else s);
             s = state_events ticket old_state s
         in if tk_kind ticket = ''incident'' \<and> setting_bool s ''SYNC_CHILD_INCIDENT_STATES'' True
               \<and> new_state \<in> set [''Pending'', ''Resolved'', ''Closed'', ''Cancelled'']
            then foldE (follow_parent ticket new_state) (child_links s ticket) s
            else Inr s))"

definition transition_ticket :: "ticket \<Rightarrow> string \<Rightarrow> string option \<Rightarrow> db \<Rightarrow> db result" where
  "transition_ticket ticket new_state hold_reason s =
     (if new_state \<notin> set (allowed_ticket_states s ticket) then Inl (Abort 409 ''cannot move'')
      else let s = (if new_state = ''Cancelled'' \<and> tk_kind ticket = ''change''
             then cancel_approval_chain (approval_chain_for s ''ticket'' (tk_id ticket)) s else s)
      in if tk_kind ticket = ''change'' \<and> new_state \<in> set [''Resolved'', ''Closed''] \<and> incomplete_change_task s ticket
           then Inl (Abort 409 ''cannot complete while a required task remains'')
         else if tk_kind ticket = ''incident'' \<and> new_state \<in> set [''Resolved'', ''Closed''] \<and> open_incident_task s ticket
           then Inl (Abort 409 ''cannot be resolved while a required task is open'')
         else bindE (hold_state ticket new_state hold_reason) (\<lambda>ticket.
           if tk_kind ticket = ''change'' \<and> new_state = ''Closed''
              \<and> \<not> list_ex (\<lambda>r. pr_ticket_id r = tk_id ticket) (db_reviews s)
           then Inl (Abort 409 ''cannot close without a post-implementation review'')
           else enter_state ticket new_state s))"

section \<open>Enterprise records\<close>

definition allowed_enterprise_states :: "enterprise_record \<Rightarrow> string list" where
  "allowed_enterprise_states record' =
     (if list_ex (\<lambda>a. ap_state a = ''Requested'') (er_approvals record') then [er_state record']
      else if list_ex (\<lambda>a. ap_state a = ''Rejected'') (er_approvals record') then [''Rejected'']
      else allowed_states ENTERPRISE_TRANSITIONS (er_state record'))"

definition transition_enterprise :: "enterprise_record \<Rightarrow> string \<Rightarrow> db \<Rightarrow> db result" where
  "transition_enterprise record' new_state s =
     (if new_state \<in> set [''Awaiting Approval'', ''Approved'', ''Rejected''] \<and> new_state \<noteq> er_state record'
        then Inl (Abort 409 ''Approval-derived states can be changed only by an approval decision.'')
      else if new_state \<notin> set (allowed_enterprise_states record') then Inl (Abort 409 ''cannot move'')
      else if er_domain record' = ''problem'' \<and> new_state \<in> set [''Resolved'', ''Completed'', ''Closed'']
           \<and> list_ex (\<lambda>t. ot_parent_type t = ''enterprise'' \<and> ot_parent_id t = er_id record' \<and> ot_task_kind t = ''problem''
                \<and> ot_required t \<and> ot_state t \<notin> set [''Closed Complete'', ''Cancelled'']) (db_op_tasks s)
        then Inl (Abort 409 ''cannot complete while a required task remains'')
      else let s = (if new_state = ''Closed'' \<and> er_state record' \<noteq> ''Closed''
             then cancel_open_child_tasks ''enterprise'' (er_id record') (er_number record') (er_tenant_id record') ''Closed'' s
             else s)
      in Inr (s\<lparr>db_enterprise_records := put_row er_id (record'\<lparr>er_state := new_state\<rparr>) (db_enterprise_records s)\<rparr>))"

section \<open>Who may manage a ticket\<close>

text \<open>A signed-in user; \<^verbatim>\<open>identity_role\<close> of it is its effective role.\<close>

definition membership_group_ids :: "db \<Rightarrow> user \<Rightarrow> nat list" where
  "membership_group_ids s user' = map gm_group_id (filter (\<lambda>m. gm_user_id m = u_id user') (db_group_members s))"

definition user_can_manage_ticket :: "db \<Rightarrow> user \<Rightarrow> ticket \<Rightarrow> bool" where
  "user_can_manage_ticket s user' ticket \<longleftrightarrow>
     (if \<not> u_active user' \<or> \<not> role_at_least (effective_role s user') ''agent'' then False
      else if tk_tenant_id ticket \<noteq> u_tenant_id user' then False
      else if role_at_least (effective_role s user') ''admin'' then True
      else (case ticket_owning_group s ticket of
          None \<Rightarrow> False
        | Some team \<Rightarrow> g_manager_id team = Some (u_id user') \<or> g_id team \<in> set (membership_group_ids s user')))"

definition manageable_ticket_ids :: "db \<Rightarrow> user \<Rightarrow> ticket list \<Rightarrow> nat set" where
  "manageable_ticket_ids s user' tickets =
     (if \<not> u_active user' \<or> \<not> role_at_least (effective_role s user') ''agent'' then {}
      else let tickets = filter (\<lambda>t. tk_tenant_id t = u_tenant_id user') tickets in
        if role_at_least (effective_role s user') ''admin'' then set (map tk_id tickets)
        else let ids = map tk_id tickets;
            change_ids = map tk_id (filter (\<lambda>t. tk_kind t = ''change'') tickets);
            assigned = map_of (rev (map (\<lambda>a. (ta_ticket_id a, ta_group_id a))
              (filter (\<lambda>a. ta_ticket_id a \<in> set ids) (db_assignments s))));
            owned = map_of (rev (map (\<lambda>w. (ow_ticket_id w, ow_group_id w))
              (filter (\<lambda>w. ow_ticket_id w \<in> set change_ids) (db_ownerships s))));
            owning = assigned ++ owned;
            own_groups = set (membership_group_ids s user')
              \<union> set (map g_id (filter (\<lambda>g. g_manager_id g = Some (u_id user')) (db_groups s)))
        in {i \<in> set ids. case owning i of None \<Rightarrow> False | Some g \<Rightarrow> g \<in> own_groups})"

section \<open>Changes wait for their approval\<close>

lemma chain_ok_states:
  "chain_ok c \<Longrightarrow> ch_state c \<in> set [''Running'', ''Approved'', ''Rejected'', ''Cancelled'', ''Superseded'']"
  by (auto simp: chain_ok_def split: if_splits)

lemma transition_ticket_ok:
  assumes "transition_ticket ticket new_state hold_reason s = Inr s'"
  shows "new_state \<in> set (allowed_ticket_states s ticket)"
    and "tk_kind ticket = ''change'' \<Longrightarrow> new_state \<in> set [''Resolved'', ''Closed''] \<Longrightarrow> \<not> incomplete_change_task s ticket"
    and "tk_kind ticket = ''incident'' \<Longrightarrow> new_state \<in> set [''Resolved'', ''Closed''] \<Longrightarrow> \<not> open_incident_task s ticket"
    and "tk_kind ticket = ''change'' \<Longrightarrow> new_state = ''Closed'' \<Longrightarrow> list_ex (\<lambda>r. pr_ticket_id r = tk_id ticket) (db_reviews s)"
  using assms
  by (auto simp: transition_ticket_def Let_def bindE_Inr_iff hold_state_def incomplete_change_task_def
      open_incident_task_def split: if_splits)

lemma change_transition_allowed:
  assumes ok: "chains_ok s" and run: "transition_ticket ticket new_state hold_reason s = Inr s'"
    and kind: "tk_kind ticket = ''change''" and new: "new_state \<noteq> tk_state ticket" "new_state \<noteq> ''Cancelled''" "new_state \<noteq> ''Rejected''"
  shows "(\<exists>c. approval_chain_for s ''ticket'' (tk_id ticket) = Some c \<and> ch_state c \<in> set [''Approved'', ''Superseded''])
    \<and> new_state \<in> set (allowed_states TICKET_TRANSITIONS (tk_state ticket))
    \<and> (new_state \<in> set [''Resolved'', ''Closed''] \<longrightarrow> \<not> incomplete_change_task s ticket)
    \<and> (new_state = ''Closed'' \<longrightarrow> list_ex (\<lambda>r. pr_ticket_id r = tk_id ticket) (db_reviews s))"
proof -
  note allowed = transition_ticket_ok [OF run]
  have "\<exists>c. approval_chain_for s ''ticket'' (tk_id ticket) = Some c \<and> ch_state c \<in> set [''Approved'', ''Superseded'']
      \<and> new_state \<in> set (allowed_states TICKET_TRANSITIONS (tk_state ticket))"
  proof (cases "approval_chain_for s ''ticket'' (tk_id ticket)")
    case None
    have "allowed_states TICKET_TRANSITIONS st = [st]" if "st \<in> set [''Closed'', ''Cancelled'', ''Rejected'']" for st
      using that by (auto simp: allowed_states_def TICKET_TRANSITIONS_def)
    with None allowed(1) kind new show ?thesis
      by (auto simp: allowed_ticket_states_def Let_def split: if_splits)
  next
    case (Some c)
    have "ch_state c \<in> set [''Running'', ''Approved'', ''Rejected'', ''Cancelled'', ''Superseded'']"
      using ok approval_chain_for_in [OF Some] by (intro chain_ok_states) (simp add: chains_ok_def list_all_iff)
    with Some allowed(1) kind new show ?thesis
      by (auto simp: allowed_ticket_states_def Let_def split: if_splits)
  qed
  with allowed(2,4) kind show ?thesis by blast
qed

section \<open>Ending a ticket ends everything that runs for it\<close>

text \<open>No SLA of the ticket runs, none of its tasks is open, no outage of it is open.\<close>

definition ticket_ended :: "nat \<Rightarrow> db \<Rightarrow> bool" where
  "ticket_ended i s \<longleftrightarrow> sla_wf s \<and> distinct (map ot_id (db_op_tasks s)) \<and> list_all closed_sla (slas_of s ''ticket'' i)
     \<and> open_child_tasks s ''ticket'' i = []"

lemma cancel_open_child_tasks_ended:
  assumes "distinct (map ot_id (db_op_tasks s))"
  shows "distinct (map ot_id (db_op_tasks (cancel_open_child_tasks ''ticket'' j n t out s)))"
    and "open_child_tasks s ''ticket'' i = [] \<or> i = j \<Longrightarrow>
      open_child_tasks (cancel_open_child_tasks ''ticket'' j n t out s) ''ticket'' i = []"
proof -
  show "distinct (map ot_id (db_op_tasks (cancel_open_child_tasks ''ticket'' j n t out s)))"
    using assms unfolding cancel_open_child_tasks_effect [OF assms] by (simp add: o_def if_distrib [of ot_id] cong: if_cong)
  show "open_child_tasks (cancel_open_child_tasks ''ticket'' j n t out s) ''ticket'' i = []"
    if "open_child_tasks s ''ticket'' i = [] \<or> i = j"
    using that cancelled_not_open
    unfolding open_child_tasks_def cancel_open_child_tasks_effect [OF assms] by (auto simp: filter_empty_conv)
qed

lemma record_resolution_id [simp]:
  "tk_id (record_resolution_state c o' n t) = tk_id t" "tk_kind (record_resolution_state c o' n t) = tk_kind t"
  "tk_state (record_resolution_state c o' n t) = tk_state t" "tk_number (record_resolution_state c o' n t) = tk_number t"
  "tk_tenant_id (record_resolution_state c o' n t) = tk_tenant_id t"
  by (simp_all add: record_resolution_state_def Let_def)

lemma ticket_ended_cong:
  assumes "db_task_slas s' = db_task_slas s" and "db_sla_definitions s' = db_sla_definitions s"
    and "db_op_tasks s' = db_op_tasks s"
  shows "ticket_ended i s' = ticket_ended i s"
  using assms by (simp add: ticket_ended_def sla_wf_def slas_of_def open_child_tasks_def)

lemma if_total:
  "(A \<Longrightarrow> \<exists>s'. X = Inr s' \<and> Q s') \<Longrightarrow> (\<not> A \<Longrightarrow> \<exists>s'. Y = Inr s' \<and> Q s') \<Longrightarrow> \<exists>s'. (if A then X else Y) = Inr s' \<and> Q s'"
  by simp

lemma follow_parent_ended:
  assumes "ticket_ended i s"
  shows "\<exists>s'. follow_parent ticket st link s = Inr s' \<and> ticket_ended i s' \<and> db_outages s' = db_outages s"
proof (cases "get_row tk_id (rl_source_id link) (db_tickets s)")
  case None
  then show ?thesis using assms by (simp add: follow_parent_def)
next
  case (Some child)
  have step: "\<exists>s'. bindE (sync_slas ''ticket'' j st (save_ticket child' s)) (\<lambda>s.
        Inr (log_history ''ticket'' j ev f old new details a
          (if cond then cancel_open_child_tasks ''ticket'' j n tenant st s else s))) = Inr s'
      \<and> ticket_ended i s' \<and> db_outages s' = db_outages s" for j child' ev f old new details a cond n tenant
  proof -
    have wf: "sla_wf (save_ticket child' s)" and dist: "distinct (map ot_id (db_op_tasks s))"
        and slas: "list_all closed_sla (slas_of (save_ticket child' s) ''ticket'' i)"
        and tasks: "open_child_tasks s ''ticket'' i = []"
      using assms by (simp_all add: ticket_ended_def sla_wf_def slas_of_def save_ticket_def)
    obtain s2 where s2: "sync_slas ''ticket'' j st (save_ticket child' s) = Inr s2" "sla_wf s2"
        "list_all closed_sla (slas_of s2 ''ticket'' i)"
      using sync_slas_ended [OF wf, of "''ticket''" j st i] slas by blast
    note same = sync_slas.fields [OF s2(1)]
    have ops: "db_op_tasks s2 = db_op_tasks s" "db_outages s2 = db_outages s"
      using same(50) same(26) by (simp_all add: save_ticket_def)
    have dist2: "distinct (map ot_id (db_op_tasks s2))" and tasks2: "open_child_tasks s2 ''ticket'' i = []"
      using dist tasks by (simp_all add: ops open_child_tasks_def)
    let ?s3 = "if cond then cancel_open_child_tasks ''ticket'' j n tenant st s2 else s2"
    have "ticket_ended i ?s3"
      using s2(2,3) dist2 tasks2 cancel_open_child_tasks_ended [OF dist2]
      by (simp add: ticket_ended_def sla_wf_def slas_of_def)
    moreover have "db_outages ?s3 = db_outages s" by (simp add: ops)
    ultimately show ?thesis
      using s2(1) ticket_ended_cong [of "log_history ''ticket'' j ev f old new details a ?s3" ?s3 i] by simp
  qed
  show ?thesis
    unfolding follow_parent_def Some option.case Let_def
    by (rule if_total, rule step, use assms in blast)
qed

lemma follow_parents_ended:
  assumes "ticket_ended i s"
  shows "\<exists>s'. foldE (follow_parent ticket st) links s = Inr s' \<and> ticket_ended i s' \<and> db_outages s' = db_outages s"
  using foldE_total [of links "\<lambda>s'. ticket_ended i s' \<and> db_outages s' = db_outages s" "follow_parent ticket st" s]
    follow_parent_ended assms by metis

lemma state_events_same [simp]:
  "db_task_slas (state_events t old s) = db_task_slas s" "db_sla_definitions (state_events t old s) = db_sla_definitions s"
  "db_op_tasks (state_events t old s) = db_op_tasks s" "db_outages (state_events t old s) = db_outages s"
  "db_tickets (state_events t old s) = db_tickets s" "db_record_links (state_events t old s) = db_record_links s"
  "db_settings (state_events t old s) = db_settings s" "db_platform (state_events t old s) = db_platform s"
  by (simp_all add: state_events_def Let_def)

lemma add_outages_same [simp]:
  "db_task_slas (add_outages is t s) = db_task_slas s" "db_sla_definitions (add_outages is t s) = db_sla_definitions s"
  "db_op_tasks (add_outages is t s) = db_op_tasks s" "db_tickets (add_outages is t s) = db_tickets s"
  "db_record_links (add_outages is t s) = db_record_links s" "db_settings (add_outages is t s) = db_settings s"
  "db_platform (add_outages is t s) = db_platform s"
  by (induction "is" t s rule: add_outages.induct) simp_all

lemma sync_service_outages_same [simp]:
  "db_task_slas (sync_service_outages t s) = db_task_slas s"
  "db_sla_definitions (sync_service_outages t s) = db_sla_definitions s"
  "db_op_tasks (sync_service_outages t s) = db_op_tasks s" "db_tickets (sync_service_outages t s) = db_tickets s"
  "db_record_links (sync_service_outages t s) = db_record_links s" "db_settings (sync_service_outages t s) = db_settings s"
  "db_platform (sync_service_outages t s) = db_platform s"
  by (simp_all add: sync_service_outages_def Let_def end_outages_def)

lemma sync_service_outages_closes:
  assumes "tk_kind t = ''incident''" and "tk_state t \<in> set [''Resolved'', ''Closed'', ''Cancelled'']"
  shows "filter (open_outage (tk_id t)) (db_outages (sync_service_outages t s)) = []"
  using assms
  by (auto simp: sync_service_outages_def Let_def end_outages_def upd_rows_def filter_empty_conv open_outage_def)

lemma enter_end_state:
  assumes wf: "sla_wf s" and dist: "distinct (map ot_id (db_op_tasks s))"
    and st: "st \<in> set [''Cancelled'', ''Closed'']" "tk_state ticket \<noteq> st"
  shows "\<exists>s'. enter_state ticket st s = Inr s' \<and> ticket_ended (tk_id ticket) s'
    \<and> (tk_kind ticket = ''incident'' \<longrightarrow> filter (open_outage (tk_id ticket)) (db_outages s') = [])"
proof -
  define t where "t = record_resolution_state (db_clock s) (tk_state ticket) st (ticket\<lparr>tk_state := st\<rparr>)"
  let ?i = "tk_id ticket"
  have t: "tk_id t = ?i" "tk_kind t = tk_kind ticket" "tk_state t = st" "tk_number t = tk_number ticket"
      "tk_tenant_id t = tk_tenant_id ticket" by (simp_all add: t_def)
  have "sla_wf (save_ticket t s)" using wf by (simp add: sla_wf_def save_ticket_def)
  moreover have "st \<in> set ([''Cancelled'', ''Rejected''] @ sla_stop_states)" using st(1) by (auto simp: sla_stop_states_def)
  ultimately obtain s2 where s2: "sync_slas ''ticket'' ?i st (save_ticket t s) = Inr s2" "sla_wf s2"
      "list_all closed_sla (slas_of s2 ''ticket'' ?i)"
    using sync_slas_ended [of "save_ticket t s" "''ticket''" ?i st ?i] by blast
  have dist2: "distinct (map ot_id (db_op_tasks s2))"
    using dist sync_slas.fields(50) [OF s2(1)] by (simp add: save_ticket_def)
  define s3 where "s3 = cancel_open_child_tasks ''ticket'' ?i (tk_number ticket) (tk_tenant_id ticket) st s2"
  define s4 where "s4 = state_events t (tk_state ticket) (if tk_kind ticket = ''incident'' then sync_service_outages t s3 else s3)"
  have "ticket_ended ?i s3"
    using s2(2,3) cancel_open_child_tasks_ended [OF dist2]
    by (simp add: ticket_ended_def sla_wf_def slas_of_def s3_def)
  then have ended: "ticket_ended ?i s4"
    using ticket_ended_cong [of s4 s3 ?i] by (simp add: s4_def)
  have outages: "tk_kind ticket = ''incident'' \<longrightarrow> filter (open_outage ?i) (db_outages s4) = []"
    using sync_service_outages_closes [of t s3] st(1) by (auto simp: s4_def t)
  have unfold: "enter_state ticket st s =
      (if tk_kind ticket = ''incident'' \<and> setting_bool s4 ''SYNC_CHILD_INCIDENT_STATES'' True
       then foldE (follow_parent t st) (child_links s4 t) s4 else Inr s4)"
  proof -
    have "st \<in> set [''Cancelled'', ''Rejected'', ''Closed''] \<and> st \<noteq> tk_state ticket" "st \<in> set [''Pending'', ''Resolved'', ''Closed'', ''Cancelled'']"
      using st by auto
    then show ?thesis
      unfolding enter_state_def Let_def t_def [symmetric] t s2(1) bindE_simps
      by (simp only: if_True s3_def [symmetric] s4_def [symmetric] simp_thms)
  qed
  show ?thesis
    using follow_parents_ended [OF ended, of t st "child_links s4 t"] ended outages unfolding unfold by auto
qed

text \<open>
  C18. Cancelling or closing a ticket ends everything that runs for it: when the transition is accepted,
  every SLA of the ticket is stopped, none of its tasks is open, and no service outage of an incident is
  open, whatever happens to its child incidents; and a new, active or pending incident can always be
  cancelled.
\<close>

theorem ended_ticket_leaves_nothing_running:
  assumes wf: "sla_wf s" and dist: "distinct (map ot_id (db_op_tasks s))"
    and st: "st \<in> set [''Cancelled'', ''Closed'']" "tk_state ticket \<noteq> st"
  shows "(transition_ticket ticket st hold_reason s = Inr s' \<longrightarrow> ticket_ended (tk_id ticket) s'
      \<and> (tk_kind ticket = ''incident'' \<longrightarrow> filter (open_outage (tk_id ticket)) (db_outages s') = []))
    \<and> (tk_kind ticket = ''incident'' \<and> tk_state ticket \<in> set [''New'', ''In Progress'', ''Pending''] \<and> st = ''Cancelled''
      \<longrightarrow> (\<exists>s''. transition_ticket ticket st hold_reason s = Inr s''))"
proof (intro conjI impI)
  define s1 where "s1 = (if st = ''Cancelled'' \<and> tk_kind ticket = ''change''
      then cancel_approval_chain (approval_chain_for s ''ticket'' (tk_id ticket)) s else s)"
  have same: "db_task_slas s1 = db_task_slas s" "db_sla_definitions s1 = db_sla_definitions s" "db_op_tasks s1 = db_op_tasks s"
    by (simp_all add: s1_def cancel_approval_chain_def save_chain_def split: option.split)
  have s1: "sla_wf s1" "distinct (map ot_id (db_op_tasks s1))" using wf dist by (simp_all add: sla_wf_def same)
  have hold: "hold_state ticket st hold_reason = Inr t \<Longrightarrow> tk_id t = tk_id ticket \<and> tk_kind t = tk_kind ticket \<and> tk_state t = tk_state ticket" for t
    using st(1) by (auto simp: hold_state_def split: if_splits)
  have finish: "\<exists>s'. enter_state t st s1 = Inr s' \<and> ticket_ended (tk_id ticket) s'
      \<and> (tk_kind ticket = ''incident'' \<longrightarrow> filter (open_outage (tk_id ticket)) (db_outages s') = [])"
    if "hold_state ticket st hold_reason = Inr t" for t
    using enter_end_state [OF s1 st(1), of t] hold [OF that] st(2) by auto
  {
    assume run: "transition_ticket ticket st hold_reason s = Inr s'"
    then obtain t where t: "hold_state ticket st hold_reason = Inr t" "enter_state t st s1 = Inr s'"
      by (auto simp: transition_ticket_def Let_def bindE_Inr_iff s1_def split: if_splits)
    from finish [OF t(1)] t(2) show "ticket_ended (tk_id ticket) s'"
      and "tk_kind ticket = ''incident'' \<Longrightarrow> filter (open_outage (tk_id ticket)) (db_outages s') = []" by auto
  }
  assume a: "tk_kind ticket = ''incident'' \<and> tk_state ticket \<in> set [''New'', ''In Progress'', ''Pending''] \<and> st = ''Cancelled''"
  then have "st \<in> set (allowed_ticket_states s ticket)"
    by (auto simp: allowed_ticket_states_def Let_def allowed_states_def TICKET_TRANSITIONS_def)
  moreover obtain t where t: "hold_state ticket st hold_reason = Inr t" using a by (auto simp: hold_state_def)
  ultimately show "\<exists>s''. transition_ticket ticket st hold_reason s = Inr s''"
    using finish [OF t] hold [OF t] a by (auto simp: transition_ticket_def Let_def s1_def)
qed

definition example_outage_db :: db where
  "example_outage_db = example_sla_db\<lparr>db_tickets := [blank_ticket\<lparr>tk_id := 9, tk_kind := ''incident'',
       tk_state := ''In Progress'', tk_impact := ''High'', tk_tenant_id := 2\<rparr>],
     db_op_tasks := [example_task],
     db_outages := [\<lparr>so_id = 5, so_service_offering_id = 6, so_ticket_id = 9, so_started_at = 0, so_ended_at = None, so_tenant_id = 2\<rparr>]\<rparr>"

theorem ended_ticket_leaves_nothing_running_witness:
  "\<exists>s'. transition_ticket (hd (db_tickets example_outage_db)) ''Cancelled'' None example_outage_db = Inr s'
    \<and> ticket_ended 9 s' \<and> filter (open_outage 9) (db_outages s') = []"
proof -
  let ?t = "hd (db_tickets example_outage_db)"
  have wf: "sla_wf example_outage_db" "distinct (map ot_id (db_op_tasks example_outage_db))" by code_simp+
  have t: "''Cancelled'' \<in> set [''Cancelled'', ''Closed'']" "tk_state ?t \<noteq> ''Cancelled''" by code_simp+
  note ends = ended_ticket_leaves_nothing_running [OF wf t, of None]
  have facts: "tk_kind ?t = ''incident''" "tk_state ?t \<in> set [''New'', ''In Progress'', ''Pending'']" "tk_id ?t = 9"
    by code_simp+
  then obtain s' where "transition_ticket ?t ''Cancelled'' None example_outage_db = Inr s'" using ends by blast
  then show ?thesis using ends [of s'] facts by metis
qed

section \<open>Downtime counts every moment once\<close>

definition interval_set :: "(int \<times> int) list \<Rightarrow> int set" where
  "interval_set xs = (\<Union>(a, b) \<in> set xs. {a..<b})"

lemma interval_set_simps [simp]:
  "interval_set [] = {}" "interval_set ((a, b) # xs) = {a..<b} \<union> interval_set xs"
  "interval_set (xs @ ys) = interval_set xs \<union> interval_set ys"
  by (auto simp: interval_set_def)

definition apart :: "int \<times> int \<Rightarrow> int \<times> int \<Rightarrow> bool" where
  "apart p q \<longleftrightarrow> snd p < fst q"

lemma merge_intervals_apart:
  assumes "list_all (\<lambda>p. fst p < snd p) (merged @ xs)" and "sorted (map fst (merged @ xs))" and "sorted_wrt apart merged"
  shows "list_all (\<lambda>p. fst p < snd p) (merge_intervals merged xs) \<and> sorted_wrt apart (merge_intervals merged xs)
    \<and> interval_set (merge_intervals merged xs) = interval_set (merged @ xs)"
  using assms
proof (induction merged xs rule: merge_intervals.induct)
  case (2 merged a b rest)
  show ?case
  proof (cases "merged \<noteq> [] \<and> a \<le> snd (last merged)")
    case True
    then obtain ms c d where m: "merged = ms @ [(c, d)]" by (metis append_butlast_last_id surj_pair)
    have "{c..<d} \<union> {a..<b} = {c..<max d b}" using 2(4) 2(3) True m by (auto simp: sorted_append)
    then have "interval_set ((ms @ [(c, max d b)]) @ rest) = interval_set (merged @ (a, b) # rest)"
      unfolding m interval_set_simps by blast
    moreover have "apart p (c, max d b)" if "p \<in> set ms" for p
      using 2(5) that by (simp add: m sorted_wrt_append) (simp add: apart_def)
    then have "sorted_wrt apart (ms @ [(c, max d b)])" using 2(5) by (simp add: m sorted_wrt_append)
    moreover have "sorted (map fst ((ms @ [(c, max d b)]) @ rest))" "list_all (\<lambda>p. fst p < snd p) ((ms @ [(c, max d b)]) @ rest)"
      using 2(3,4) by (auto simp: m sorted_append)
    ultimately show ?thesis using 2(1) [OF True] True by (simp add: m)
  next
    case False
    have "apart p (a, b)" if "p \<in> set merged" for p
    proof (cases merged rule: rev_cases)
      case (snoc ms l)
      with that 2(4,5) False show ?thesis by (fastforce simp: sorted_wrt_append apart_def sorted_append)
    qed (use that in simp)
    then have "sorted_wrt apart (merged @ [(a, b)])" using 2(5) by (simp add: sorted_wrt_append)
    moreover have "merge_intervals merged ((a, b) # rest) = merge_intervals (merged @ [(a, b)]) rest" using False by auto
    ultimately show ?thesis using 2(2) [OF False] 2(3,4) by simp
  qed
qed simp

lemma apart_card:
  assumes "list_all (\<lambda>p. fst p < snd p) xs" and "sorted_wrt apart xs"
  shows "sum_list (map (\<lambda>(a, b). b - a) xs) = int (card (interval_set xs)) \<and> finite (interval_set xs)"
  using assms
proof (induction xs)
  case (Cons p xs)
  obtain a b where p: "p = (a, b)" by (cases p)
  have "{a..<b} \<inter> interval_set xs = {}"
    using Cons.prems by (fastforce simp: p interval_set_def apart_def)
  with Cons show ?case by (simp add: p card_Un_disjoint)
qed simp

lemma sort_intervals_sorted: "sorted (map fst (sort_intervals xs))" "set (sort_intervals xs) = set xs"
  by (simp_all add: sort_intervals_def)

lemma interval_set_cong: "set xs = set ys \<Longrightarrow> interval_set xs = interval_set ys"
  by (simp add: interval_set_def)

text \<open>The moments of the window at which an outage of the service was on.\<close>

definition down_at :: "db \<Rightarrow> nat \<Rightarrow> datetime \<Rightarrow> bool" where
  "down_at s service_offering_id t \<longleftrightarrow> (\<exists>o' \<in> set (db_outages s). so_service_offering_id o' = service_offering_id
     \<and> so_started_at o' \<le> t \<and> (case so_ended_at o' of None \<Rightarrow> True | Some e \<Rightarrow> t < e))"

lemma interval_set_clip:
  "t \<in> interval_set (filter (\<lambda>(a, b). b > a) (map f xs)) \<longleftrightarrow> (\<exists>x \<in> set xs. fst (f x) \<le> t \<and> t < snd (f x))"
proof (induction xs)
  case (Cons x xs)
  then show ?case by (cases "f x") auto
qed simp

lemma outage_intervals_set:
  "interval_set (outage_intervals s i days) = {t \<in> {db_clock s - days * 86400000000..<db_clock s}. down_at s i t}"
proof (rule set_eqI)
  fix t
  let ?we = "db_clock s" let ?ws = "db_clock s - days * 86400000000"
  let ?a = "\<lambda>o'. max (so_started_at o') ?ws"
  let ?b = "\<lambda>o'. min (case so_ended_at o' of None \<Rightarrow> ?we | Some e \<Rightarrow> e) ?we"
  have "t \<in> interval_set (outage_intervals s i days) \<longleftrightarrow> (\<exists>o' \<in> set (db_outages s). (so_service_offering_id o' = i
      \<and> (case so_ended_at o' of None \<Rightarrow> True | Some e \<Rightarrow> e > ?ws) \<and> so_started_at o' < ?we) \<and> ?a o' \<le> t \<and> t < ?b o')"
    unfolding outage_intervals_def Let_def interval_set_clip fst_conv snd_conv set_filter by blast
  also have "\<dots> \<longleftrightarrow> (\<exists>o' \<in> set (db_outages s). so_service_offering_id o' = i \<and> so_started_at o' \<le> t
      \<and> (case so_ended_at o' of None \<Rightarrow> True | Some e \<Rightarrow> t < e) \<and> ?ws \<le> t \<and> t < ?we)"
  proof (rule bex_cong [OF refl])
    fix o'
    show "((so_service_offering_id o' = i \<and> (case so_ended_at o' of None \<Rightarrow> True | Some e \<Rightarrow> e > ?ws) \<and> so_started_at o' < ?we)
        \<and> ?a o' \<le> t \<and> t < ?b o') =
      (so_service_offering_id o' = i \<and> so_started_at o' \<le> t \<and> (case so_ended_at o' of None \<Rightarrow> True | Some e \<Rightarrow> t < e)
        \<and> ?ws \<le> t \<and> t < ?we)"
      by (cases "so_ended_at o'") auto
  qed
  finally show "t \<in> interval_set (outage_intervals s i days) \<longleftrightarrow> t \<in> {t \<in> {?ws..<?we}. down_at s i t}"
    by (auto simp: down_at_def)
qed

text \<open>
  C20. Downtime counts every moment once: the downtime of a service over the trailing window is the number
  of clock ticks of the window at which at least one of its outages was on, however the outages overlap;
  so the availability stays between 0 and 100 percent.
\<close>

theorem downtime_counts_once:
  "service_downtime s i days = int (card {t \<in> {db_clock s - days * 86400000000..<db_clock s}. down_at s i t})
    \<and> (0 \<le> days \<longrightarrow> 0 \<le> service_availability_pct s i days \<and> service_availability_pct s i days \<le> 100)"
proof -
  let ?w = "{db_clock s - days * 86400000000..<db_clock s}"
  let ?xs = "sort_intervals (outage_intervals s i days)"
  have "list_all (\<lambda>p. fst p < snd p) ?xs"
    by (auto simp: list_all_iff sort_intervals_sorted outage_intervals_def Let_def)
  then have down: "service_downtime s i days = int (card {t \<in> ?w. down_at s i t})"
    using merge_intervals_apart [of "[]" ?xs] apart_card [of "merge_intervals [] ?xs"] sort_intervals_sorted
      interval_set_cong [of ?xs "outage_intervals s i days"]
    by (simp add: service_downtime_def outage_intervals_set)
  have "card {t \<in> ?w. down_at s i t} \<le> card ?w" by (rule card_mono) auto
  then have "0 \<le> days \<Longrightarrow> service_downtime s i days \<le> days * 86400000000" using down by simp
  then have "0 \<le> days \<Longrightarrow> of_int (service_downtime s i days) \<le> (of_int (days * 86400000000) :: rat)"
    by (simp only: of_int_le_iff)
  with down show ?thesis by (auto simp: service_availability_pct_def Let_def field_simps)
qed

theorem downtime_counts_once_witness:
  "service_downtime example_outage_db 6 30 =
     int (card {t \<in> {db_clock example_outage_db - 30 * 86400000000..<db_clock example_outage_db}. down_at example_outage_db 6 t})
   \<and> service_availability_pct example_outage_db 6 30 \<le> 100"
  using downtime_counts_once [of example_outage_db 6 30] by simp

section \<open>Managing many tickets at once\<close>

lemma find_key_None: "i \<notin> key ` set xs \<Longrightarrow> find (\<lambda>x. key x = i) xs = None"
  by (induction xs) auto

lemma map_of_unique_find:
  assumes "distinct (map key xs)" and "P i"
  shows "map_of (rev (map (\<lambda>x. (key x, val x)) (filter (\<lambda>x. P (key x)) xs))) i = map_option val (find (\<lambda>x. key x = i) xs)"
  using assms
proof (induction xs)
  case (Cons x xs)
  have none: "find (\<lambda>x. key x = i) xs = None" if "key x = i"
    by (rule find_key_None) (use Cons.prems that in auto)
  have ih: "map_of (rev (map (\<lambda>x. (key x, val x)) (filter (\<lambda>x. P (key x)) xs))) i = map_option val (find (\<lambda>x. key x = i) xs)"
    using Cons by simp
  show ?case
    using none Cons.prems(2) ih by (cases "key x = i") (auto simp: map_add_def split: option.split)
qed simp

lemma own_groups_iff:
  assumes "distinct (map g_id (db_groups s))" and "get_row g_id i (db_groups s) = Some g"
  shows "i \<in> set (map g_id (filter (\<lambda>g. g_manager_id g = Some u) (db_groups s))) \<longleftrightarrow> g_manager_id g = Some u"
proof -
  have g: "g \<in> set (db_groups s)" "g_id g = i" using get_row_key [OF assms(2)] by simp_all
  have inj: "inj_on g_id (set (db_groups s))" using assms(1) by (simp add: distinct_map)
  show ?thesis
  proof
    assume "i \<in> set (map g_id (filter (\<lambda>g. g_manager_id g = Some u) (db_groups s)))"
    then obtain g' where "g' \<in> set (db_groups s)" "g_manager_id g' = Some u" "g_id g' = i" by auto
    with inj_onD [OF inj, of g' g] g show "g_manager_id g = Some u" by simp
  next
    assume "g_manager_id g = Some u"
    with g show "i \<in> set (map g_id (filter (\<lambda>g. g_manager_id g = Some u) (db_groups s)))" by (auto intro: rev_image_eqI)
  qed
qed

text \<open>The keys the schema declares: one assignment and one ownership per ticket, and groups that exist.\<close>

definition ownership_keys :: "db \<Rightarrow> bool" where
  "ownership_keys s \<longleftrightarrow> distinct (map ta_ticket_id (db_assignments s)) \<and> distinct (map ow_ticket_id (db_ownerships s))
     \<and> distinct (map g_id (db_groups s))
     \<and> list_all (\<lambda>a. get_row g_id (ta_group_id a) (db_groups s) \<noteq> None) (db_assignments s)
     \<and> list_all (\<lambda>w. get_row g_id (ow_group_id w) (db_groups s) \<noteq> None) (db_ownerships s)"

definition ticket_owning_group_id :: "db \<Rightarrow> ticket \<Rightarrow> nat option" where
  "ticket_owning_group_id s t =
     (case (if tk_kind t = ''change'' then find (\<lambda>w. ow_ticket_id w = tk_id t) (db_ownerships s) else None) of
        Some w \<Rightarrow> Some (ow_group_id w)
      | None \<Rightarrow> map_option ta_group_id (find (\<lambda>a. ta_ticket_id a = tk_id t) (db_assignments s)))"

lemma owning_group_by_id:
  assumes "ownership_keys s"
  shows "ticket_owning_group s t = Option.bind (ticket_owning_group_id s t) (\<lambda>i. get_row g_id i (db_groups s))"
    and "ticket_owning_group_id s t = Some i \<Longrightarrow> \<exists>g. get_row g_id i (db_groups s) = Some g"
proof -
  show "ticket_owning_group s t = Option.bind (ticket_owning_group_id s t) (\<lambda>i. get_row g_id i (db_groups s))"
    by (simp add: ticket_owning_group_def ticket_owning_group_id_def split: option.split)
  have "\<exists>g. get_row g_id (ow_group_id w) (db_groups s) = Some g" if "find P (db_ownerships s) = Some w" for P w
    using assms that by (auto simp: ownership_keys_def list_all_iff find_Some_iff)
  moreover have "\<exists>g. get_row g_id (ta_group_id a) (db_groups s) = Some g" if "find P (db_assignments s) = Some a" for P a
    using assms that by (auto simp: ownership_keys_def list_all_iff find_Some_iff)
  ultimately show "\<exists>g. get_row g_id i (db_groups s) = Some g" if "ticket_owning_group_id s t = Some i"
    using that by (auto simp: ticket_owning_group_id_def split: option.splits if_splits)
qed

lemma owning_batch:
  assumes keys: "ownership_keys s" and dist: "distinct (map tk_id tickets)" and t: "t \<in> set tickets"
  shows "(map_of (rev (map (\<lambda>a. (ta_ticket_id a, ta_group_id a)) (filter (\<lambda>a. ta_ticket_id a \<in> set (map tk_id tickets)) (db_assignments s))))
      ++ map_of (rev (map (\<lambda>w. (ow_ticket_id w, ow_group_id w))
          (filter (\<lambda>w. ow_ticket_id w \<in> set (map tk_id (filter (\<lambda>t. tk_kind t = ''change'') tickets))) (db_ownerships s))))) (tk_id t)
    = ticket_owning_group_id s t"
proof -
  let ?C = "set (map tk_id (filter (\<lambda>t. tk_kind t = ''change'') tickets))"
  have "tk_id t \<in> ?C \<longleftrightarrow> tk_kind t = ''change''"
    using dist t by (auto simp: distinct_map inj_on_def)
  moreover have "map_of (rev (map (\<lambda>w. (ow_ticket_id w, ow_group_id w)) (filter (\<lambda>w. ow_ticket_id w \<in> ?C) (db_ownerships s)))) (tk_id t) = None"
    if "tk_id t \<notin> ?C" using that by (auto simp: map_of_eq_None_iff)
  ultimately show ?thesis
    using keys t map_of_unique_find [of ta_ticket_id "db_assignments s" "\<lambda>i. i \<in> set (map tk_id tickets)" "tk_id t" ta_group_id]
      map_of_unique_find [of ow_ticket_id "db_ownerships s" "\<lambda>i. i \<in> ?C" "tk_id t" ow_group_id]
    unfolding ownership_keys_def map_add_def ticket_owning_group_id_def by (auto split: option.split)
qed

text \<open>
  C19. The batched decision agrees with the single one: among any tickets with different ids,
  \<open>manageable_ticket_ids\<close> returns exactly the ids of those that \<open>user_can_manage_ticket\<close> allows.
\<close>

theorem manageable_matches_single:
  assumes keys: "ownership_keys s" and dist: "distinct (map tk_id tickets)"
  shows "manageable_ticket_ids s user' tickets = {tk_id t | t. t \<in> set tickets \<and> user_can_manage_ticket s user' t}"
proof -
  define mine where "mine = filter (\<lambda>t. tk_tenant_id t = u_tenant_id user') tickets"
  have dist': "distinct (map tk_id mine)" unfolding mine_def by (rule distinct_map_filter [OF dist])
  let ?groups = "set (membership_group_ids s user') \<union> set (map g_id (filter (\<lambda>g. g_manager_id g = Some (u_id user')) (db_groups s)))"
  have single: "(case ticket_owning_group_id s t of None \<Rightarrow> False | Some g \<Rightarrow> g \<in> ?groups) \<longleftrightarrow>
      (case ticket_owning_group s t of None \<Rightarrow> False
        | Some team \<Rightarrow> g_manager_id team = Some (u_id user') \<or> g_id team \<in> set (membership_group_ids s user'))" for t
  proof (cases "ticket_owning_group_id s t")
    case (Some i)
    with owning_group_by_id [OF keys] obtain g where g: "get_row g_id i (db_groups s) = Some g" "ticket_owning_group s t = Some g"
      by (metis bind.bind_lunit)
    moreover have "g_id g = i" using get_row_key [OF g(1)] by simp
    ultimately show ?thesis
      using own_groups_iff [OF _ g(1), of "u_id user'"] keys Some by (auto simp: ownership_keys_def)
  qed (use owning_group_by_id(1) [OF keys, of t] in simp)
  show ?thesis
    unfolding manageable_ticket_ids_def user_can_manage_ticket_def Let_def mine_def [symmetric]
    using owning_batch [OF keys dist'] single by (auto simp: mine_def)
qed

definition example_team_db :: db where
  "example_team_db = empty_db\<lparr>db_groups := [blank_support_group\<lparr>g_id := 3, g_manager_id := Some 8\<rparr>],
     db_assignments := [\<lparr>ta_id = 2, ta_tenant_id = None, ta_ticket_id = 9, ta_group_id = 3\<rparr>]\<rparr>"

theorem manageable_matches_single_witness:
  "manageable_ticket_ids example_team_db (blank_user\<lparr>u_id := 8, u_role := ''agent'', u_active := True\<rparr>)
     [blank_ticket\<lparr>tk_id := 9\<rparr>, blank_ticket\<lparr>tk_id := 10\<rparr>] =
   {tk_id t | t. t \<in> set [blank_ticket\<lparr>tk_id := 9\<rparr>, blank_ticket\<lparr>tk_id := 10\<rparr>]
     \<and> user_can_manage_ticket example_team_db (blank_user\<lparr>u_id := 8, u_role := ''agent'', u_active := True\<rparr>) t}"
proof -
  have "ownership_keys example_team_db" "distinct (map tk_id [blank_ticket\<lparr>tk_id := 9\<rparr>, blank_ticket\<lparr>tk_id := 10\<rparr>])"
    by code_simp+
  then show ?thesis by (rule manageable_matches_single)
qed

section \<open>A child incident closed with its parent keeps its outage\<close>

definition example_family_db :: db where
  "example_family_db = empty_db\<lparr>db_tickets := [blank_ticket\<lparr>tk_id := 9, tk_kind := ''incident'', tk_state := ''New''\<rparr>,
       blank_ticket\<lparr>tk_id := 10, tk_kind := ''incident'', tk_state := ''New'', tk_impact := ''High''\<rparr>],
     db_record_links := [blank_record_link\<lparr>rl_id := 4, rl_source_type := ''ticket'', rl_source_id := 10,
       rl_target_type := ''ticket'', rl_target_id := 9, rl_link_type := ''parent_incident''\<rparr>],
     db_outages := [\<lparr>so_id = 5, so_service_offering_id = 6, so_ticket_id = 10, so_started_at = 0, so_ended_at = None, so_tenant_id = 2\<rparr>]\<rparr>"

text \<open>An incident that has followed its parent, or has not been reached yet; its outages stay as they are.\<close>

definition child_row :: "nat \<Rightarrow> ticket \<Rightarrow> string \<Rightarrow> db \<Rightarrow> bool" where
  "child_row j child st s \<longleftrightarrow> (\<exists>c. get_row tk_id j (db_tickets s) = Some c \<and> (c = child \<or> tk_state c = st))"

lemma followed_child:
  assumes "bindE (sync_slas ''ticket'' j st (save_ticket c s)) (\<lambda>s. Inr (log_history ''ticket'' k ev f old new details a
      (if cond then cancel_open_child_tasks ''ticket'' m n tenant out s else s))) = Inr s'"
  shows "db_tickets s' = put_row tk_id c (db_tickets s)" and "db_outages s' = db_outages s"
proof -
  obtain s2 where s2: "sync_slas ''ticket'' j st (save_ticket c s) = Inr s2"
      and s': "s' = log_history ''ticket'' k ev f old new details a (if cond then cancel_open_child_tasks ''ticket'' m n tenant out s2 else s2)"
    using assms by (rule bindE_InrE) simp
  note same = sync_slas.fields [OF s2]
  show "db_tickets s' = put_row tk_id c (db_tickets s)" "db_outages s' = db_outages s"
    using same(18) same(26) by (simp_all add: s' save_ticket_def)
qed

text \<open>A child that may enter the state does; any other ticket stays as it is.\<close>

lemma follow_parent_child:
  assumes run: "follow_parent ticket st link s = Inr s'"
  shows "db_outages s' = db_outages s"
    and "get_row tk_id (rl_source_id link) (db_tickets s) = Some child \<Longrightarrow> tk_kind child = ''incident'' \<Longrightarrow> tk_state child \<noteq> st \<Longrightarrow>
      st \<in> set (opt [] (map_of TICKET_TRANSITIONS (tk_state child))) \<Longrightarrow>
      \<exists>c. db_tickets s' = put_row tk_id c (db_tickets s) \<and> tk_id c = tk_id child \<and> tk_state c = st"
    and "db_tickets s' = db_tickets s
      \<or> (\<exists>c. db_tickets s' = put_row tk_id c (db_tickets s) \<and> tk_id c = rl_source_id link \<and> tk_state c = st)"
proof -
  have "db_outages s' = db_outages s \<and> (db_tickets s' = db_tickets s
      \<or> (\<exists>c. db_tickets s' = put_row tk_id c (db_tickets s) \<and> tk_id c = rl_source_id link \<and> tk_state c = st))
    \<and> (\<forall>child. get_row tk_id (rl_source_id link) (db_tickets s) = Some child \<and> tk_kind child = ''incident'' \<and> tk_state child \<noteq> st
         \<and> st \<in> set (opt [] (map_of TICKET_TRANSITIONS (tk_state child))) \<longrightarrow>
      (\<exists>c. db_tickets s' = put_row tk_id c (db_tickets s) \<and> tk_id c = tk_id child \<and> tk_state c = st))"
  proof (cases "get_row tk_id (rl_source_id link) (db_tickets s)")
    case None
    then show ?thesis using run by (simp add: follow_parent_def)
  next
    case (Some child)
    have id: "tk_id child = rl_source_id link" using get_row_key [OF Some] by simp
    define fresh where "fresh = record_resolution_state (db_clock s) (tk_state child) st
      (if st \<in> set [''Resolved'', ''Closed'']
       then child\<lparr>tk_state := st, tk_hold_reason := (if st = ''Pending'' then tk_hold_reason ticket else None)\<rparr>
         \<lparr>tk_resolution_notes := or_str (tk_resolution_notes child) (tk_resolution_notes ticket),
          tk_closure_category := or_str (tk_closure_category child) (tk_closure_category ticket),
          tk_closure_subcategory := or_str (tk_closure_subcategory child) (tk_closure_subcategory ticket)\<rparr>
       else child\<lparr>tk_state := st, tk_hold_reason := (if st = ''Pending'' then tk_hold_reason ticket else None)\<rparr>)"
    have fresh: "tk_id fresh = tk_id child" "tk_state fresh = st" "tk_number fresh = tk_number child" "tk_tenant_id fresh = tk_tenant_id child"
      by (simp_all add: fresh_def)
    let ?may = "tk_kind child = ''incident'' \<and> st \<in> set (opt [] (map_of TICKET_TRANSITIONS (tk_state child))) \<and> tk_state child \<noteq> st"
    have eq: "follow_parent ticket st link s = (if ?may
        then bindE (sync_slas ''ticket'' (tk_id fresh) st (save_ticket fresh s)) (\<lambda>s. Inr (log_history ''ticket'' (tk_id fresh)
          ''State synchronized from parent incident'' (Some ''state'') (Some (tk_state child)) (Some st)
          (''Parent '' @ tk_number ticket @ '' moved to '' @ st @ ''.'') None
          (if st \<in> set [''Cancelled'', ''Closed''] then cancel_open_child_tasks ''ticket'' (tk_id fresh) (tk_number fresh) (tk_tenant_id fresh) st s else s)))
        else Inr s)"
      unfolding follow_parent_def Some option.case Let_def fresh_def by (simp cong: if_cong)
    show ?thesis
    proof (cases ?may)
      case True
      note row = followed_child [OF run [unfolded eq if_P [OF True]]]
      show ?thesis using row fresh(1,2) id Some by auto
    next
      case False
      then show ?thesis using run Some unfolding eq if_not_P [OF False] by auto
    qed
  qed
  then show "db_outages s' = db_outages s"
    "get_row tk_id (rl_source_id link) (db_tickets s) = Some child \<Longrightarrow> tk_kind child = ''incident'' \<Longrightarrow> tk_state child \<noteq> st \<Longrightarrow>
      st \<in> set (opt [] (map_of TICKET_TRANSITIONS (tk_state child))) \<Longrightarrow>
      \<exists>c. db_tickets s' = put_row tk_id c (db_tickets s) \<and> tk_id c = tk_id child \<and> tk_state c = st"
    "db_tickets s' = db_tickets s
      \<or> (\<exists>c. db_tickets s' = put_row tk_id c (db_tickets s) \<and> tk_id c = rl_source_id link \<and> tk_state c = st)"
    by blast+
qed

lemma follow_parent_row:
  assumes run: "follow_parent ticket st link s = Inr s'" and row: "child_row j child st s"
    and kind: "tk_kind child = ''incident''" "tk_state child \<noteq> st" "st \<in> set (opt [] (map_of TICKET_TRANSITIONS (tk_state child)))"
  shows "child_row j child st s'"
    and "rl_source_id link = j \<or> (\<exists>c. get_row tk_id j (db_tickets s) = Some c \<and> tk_state c = st) \<Longrightarrow>
      \<exists>c. get_row tk_id j (db_tickets s') = Some c \<and> tk_state c = st"
proof -
  obtain c where c: "get_row tk_id j (db_tickets s) = Some c" "c = child \<or> tk_state c = st" using row by (auto simp: child_row_def)
  have "get_row tk_id j (db_tickets s') = Some c \<and> (rl_source_id link = j \<longrightarrow> tk_state c = st)
      \<or> (\<exists>c'. get_row tk_id j (db_tickets s') = Some c' \<and> tk_state c' = st)"
  proof (cases "rl_source_id link = j \<and> tk_state c \<noteq> st")
    case True
    then have child: "c = child" "tk_id child = j" using c get_row_key [OF c(1)] by auto
    obtain d where d: "db_tickets s' = put_row tk_id d (db_tickets s)" "tk_id d = tk_id child" "tk_state d = st"
      using follow_parent_child(2) [OF run _ kind] True c(1) child(1) by blast
    then show ?thesis using c(1) child by (simp add: get_put_row)
  next
    case False
    from follow_parent_child(3) [OF run] show ?thesis
    proof
      assume "db_tickets s' = db_tickets s"
      then show ?thesis using False c(1) by auto
    next
      assume "\<exists>d. db_tickets s' = put_row tk_id d (db_tickets s) \<and> tk_id d = rl_source_id link \<and> tk_state d = st"
      then obtain d where "db_tickets s' = put_row tk_id d (db_tickets s)" "tk_id d = rl_source_id link" "tk_state d = st" by blast
      then show ?thesis using False c(1) by (cases "rl_source_id link = j") (simp_all add: get_put_row)
    qed
  qed
  then show "child_row j child st s'" "rl_source_id link = j \<or> (\<exists>c. get_row tk_id j (db_tickets s) = Some c \<and> tk_state c = st) \<Longrightarrow>
      \<exists>c. get_row tk_id j (db_tickets s') = Some c \<and> tk_state c = st"
    using c by (auto simp: child_row_def)
qed

lemma follow_parents_rows:
  assumes "foldE (follow_parent ticket st) links s = Inr s'" and "child_row j child st s"
    and kind: "tk_kind child = ''incident''" "tk_state child \<noteq> st" "st \<in> set (opt [] (map_of TICKET_TRANSITIONS (tk_state child)))"
  shows "db_outages s' = db_outages s"
    and "(\<exists>link \<in> set links. rl_source_id link = j) \<or> (\<exists>c. get_row tk_id j (db_tickets s) = Some c \<and> tk_state c = st) \<Longrightarrow>
      \<exists>c. get_row tk_id j (db_tickets s') = Some c \<and> tk_state c = st"
proof -
  have "db_outages s' = db_outages s \<and> ((\<exists>link \<in> set links. rl_source_id link = j)
      \<or> (\<exists>c. get_row tk_id j (db_tickets s) = Some c \<and> tk_state c = st) \<longrightarrow> (\<exists>c. get_row tk_id j (db_tickets s') = Some c \<and> tk_state c = st))"
    using assms(1,2)
  proof (induction links arbitrary: s)
    case (Cons link links)
    then obtain s1 where s1: "follow_parent ticket st link s = Inr s1" "foldE (follow_parent ticket st) links s1 = Inr s'"
      by (auto simp: bindE_Inr_iff)
    note step = follow_parent_row [OF s1(1) Cons.prems(2) kind]
    show ?case using Cons.IH [OF s1(2) step(1)] step(2) follow_parent_child(1) [OF s1(1)] by auto
  qed simp
  then show "db_outages s' = db_outages s"
    "(\<exists>link \<in> set links. rl_source_id link = j) \<or> (\<exists>c. get_row tk_id j (db_tickets s) = Some c \<and> tk_state c = st) \<Longrightarrow>
      \<exists>c. get_row tk_id j (db_tickets s') = Some c \<and> tk_state c = st" by blast+
qed

lemma other_outages_kept:
  assumes "j \<noteq> tk_id t" and "o' \<in> set (db_outages s)" and "so_ticket_id o' = j"
  shows "o' \<in> set (db_outages (sync_service_outages t s))"
proof -
  have add: "o' \<in> set (db_outages s1) \<Longrightarrow> o' \<in> set (db_outages (add_outages is t s1))" for "is" s1
    by (induction "is" t s1 rule: add_outages.induct) simp_all
  have ended: "o' \<in> set (db_outages (end_outages P s))" if "\<not> P o'" for P
    using that assms(2) by (force simp: end_outages_def upd_rows_def)
  show ?thesis using assms add ended by (auto simp: sync_service_outages_def Let_def open_outage_def)
qed

text \<open>
  C37. A child incident that follows its parent into an end state keeps its service outage open. When an incident is
  resolved, closed or cancelled and child states are synchronised, every child incident that may enter that state
  does, but each of its open outages is still open: the parent's transition never synchronises the outages of the
  child, so its services count as down until some later change of the child.
\<close>

theorem child_outage_stays_open:
  assumes run: "transition_ticket ticket st hold_reason s = Inr s'" and st: "st \<in> set [''Resolved'', ''Closed'', ''Cancelled'']"
    and parent: "tk_kind ticket = ''incident''" and sync: "setting_bool s ''SYNC_CHILD_INCIDENT_STATES'' True"
    and link: "link \<in> set (child_links s ticket)" "get_row tk_id (rl_source_id link) (db_tickets s) = Some child" "tk_id child \<noteq> tk_id ticket"
    and follows: "tk_kind child = ''incident''" "tk_state child \<noteq> st" "st \<in> set (opt [] (map_of TICKET_TRANSITIONS (tk_state child)))"
    and out: "o' \<in> set (db_outages s)" "open_outage (tk_id child) o'"
  shows "(\<exists>c. get_row tk_id (tk_id child) (db_tickets s') = Some c \<and> tk_state c = st)
    \<and> o' \<in> set (filter (open_outage (tk_id child)) (db_outages s'))"
proof -
  have change: "tk_kind ticket \<noteq> ''change''" using parent by simp
  obtain t0 where hold: "hold_state ticket st hold_reason = Inr t0" and enter: "enter_state t0 st s = Inr s'"
    using run change unfolding transition_ticket_def Let_def by (simp split: if_split_asm) (erule bindE_InrE, simp split: if_split_asm)
  have t0: "tk_id t0 = tk_id ticket" "tk_kind t0 = ''incident''"
    using hold parent st by (auto simp: hold_state_def split: if_splits)
  define t where "t = record_resolution_state (db_clock s) (tk_state t0) st (t0\<lparr>tk_state := st\<rparr>)"
  have t: "tk_id t = tk_id ticket" "tk_kind t = ''incident''" by (simp_all add: t_def t0)
  have end_state: "st \<in> set [''Pending'', ''Resolved'', ''Closed'', ''Cancelled'']" using st by auto
  obtain s2 where s2: "sync_slas ''ticket'' (tk_id t) st (save_ticket t s) = Inr s2"
      and rest: "(let s3 = (if st \<in> set [''Cancelled'', ''Rejected'', ''Closed''] \<and> st \<noteq> tk_state t0
          then cancel_open_child_tasks ''ticket'' (tk_id t) (tk_number t) (tk_tenant_id t) st s2 else s2);
        s4 = state_events t (tk_state t0) (sync_service_outages t s3)
      in if setting_bool s4 ''SYNC_CHILD_INCIDENT_STATES'' True then foldE (follow_parent t st) (child_links s4 t) s4 else Inr s4) = Inr s'"
    using enter end_state unfolding enter_state_def Let_def t_def [symmetric] t
    by - (erule bindE_InrE, simp only: simp_thms if_True)
  define s3 where "s3 = (if st \<in> set [''Cancelled'', ''Rejected'', ''Closed''] \<and> st \<noteq> tk_state t0
          then cancel_open_child_tasks ''ticket'' (tk_id t) (tk_number t) (tk_tenant_id t) st s2 else s2)"
  define s4 where "s4 = state_events t (tk_state t0) (sync_service_outages t s3)"
  note same = sync_slas.fields [OF s2]
  have s3: "db_tickets s3 = put_row tk_id t (db_tickets s)" "db_outages s3 = db_outages s" "db_record_links s3 = db_record_links s"
      "db_settings s3 = db_settings s" "db_platform s3 = db_platform s"
    using same by (simp_all add: s3_def save_ticket_def)
  have s4: "db_tickets s4 = db_tickets s3" "db_record_links s4 = db_record_links s3" "db_settings s4 = db_settings s3"
      "db_platform s4 = db_platform s3"
    by (simp_all add: s4_def)
  have "setting_bool s4 ''SYNC_CHILD_INCIDENT_STATES'' True" using sync s3 s4 by (simp add: setting_bool_def setting_value_def)
  then have run4: "foldE (follow_parent t st) (child_links s4 t) s4 = Inr s'" using rest unfolding s3_def [symmetric] s4_def [symmetric] Let_def by simp
  have links: "child_links s4 t = child_links s ticket" using s3 s4 t by (simp add: child_links_def)
  have id: "rl_source_id link = tk_id child" using get_row_key [OF link(2)] by simp
  have "child_row (tk_id child) child st s4"
    using link(2,3) id t s3(1) s4(1) by (simp add: child_row_def get_put_row)
  note final = follow_parents_rows [OF run4 this follows]
  have "o' \<in> set (db_outages s4)"
    using other_outages_kept [of "tk_id child" t o' s3] link(3) t(1) out s3(2) by (simp add: s4_def open_outage_def)
  moreover have "\<exists>link \<in> set (child_links s4 t). rl_source_id link = tk_id child" unfolding links using link(1) id by blast
  ultimately show ?thesis using final out(2) by simp
qed

theorem child_outage_stays_open_witness:
  "\<exists>s' c. transition_ticket (hd (db_tickets example_family_db)) ''Cancelled'' None example_family_db = Inr s'
     \<and> get_row tk_id 10 (db_tickets s') = Some c \<and> tk_state c = ''Cancelled'' \<and> filter (open_outage 10) (db_outages s') \<noteq> []"
proof -
  let ?s = example_family_db and ?child = "db_tickets example_family_db ! 1"
  have "case transition_ticket (hd (db_tickets ?s)) ''Cancelled'' None ?s of Inl e \<Rightarrow> False | Inr s' \<Rightarrow> True" by code_simp
  then obtain s' where run: "transition_ticket (hd (db_tickets ?s)) ''Cancelled'' None ?s = Inr s'" by (auto split: sum.splits)
  have facts: "tk_kind (hd (db_tickets ?s)) = ''incident''" "setting_bool ?s ''SYNC_CHILD_INCIDENT_STATES'' True"
      "tk_id ?child \<noteq> tk_id (hd (db_tickets ?s))" "tk_kind ?child = ''incident''" "tk_state ?child \<noteq> ''Cancelled''"
      "''Cancelled'' \<in> set (opt [] (map_of TICKET_TRANSITIONS (tk_state ?child)))" "open_outage (tk_id ?child) (hd (db_outages ?s))"
      "tk_id ?child = 10"
    by code_simp+
  have mem: "hd (db_record_links ?s) \<in> set (child_links ?s (hd (db_tickets ?s)))" "hd (db_outages ?s) \<in> set (db_outages ?s)"
      "get_row tk_id (rl_source_id (hd (db_record_links ?s))) (db_tickets ?s) = Some ?child"
    by (simp_all add: example_family_db_def child_links_def get_row_def blank_record_link_def blank_ticket_def)
  have end_state: "''Cancelled'' \<in> set [''Resolved'', ''Closed'', ''Cancelled'']" by simp
  from child_outage_stays_open [OF run end_state facts(1,2) mem(1,3) facts(3-6) mem(2) facts(7)] run facts(8) show ?thesis
    by (metis empty_iff empty_set)
qed

end
