(* ===== verification/Approval_Policies.thy ===== *)
theory Approval_Policies
  imports Approvals
begin

text \<open>
  Approval routes (\<^verbatim>\<open>serviceops_core/approval_policies.py\<close>, \<^verbatim>\<open>serviceops_core/approval_groups.py\<close>): where the
  approvers of a policy stage come from, the fallbacks, and the stages a policy produces for one record, with
  the rules that fold duplicate stages and let assessments run at the same time. A Python set of user ids is
  a list whose order and repetitions do not matter.
\<close>

section \<open>Groups as approvers\<close>

definition authority_groups :: "db \<Rightarrow> nat \<Rightarrow> string \<Rightarrow> nat option \<Rightarrow> support_group list" where
  "authority_groups s tenant_id authority subject_group_id =
     (let links = filter (\<lambda>r. ag_tenant_id r = tenant_id \<and> ag_authority r = authority
            \<and> ag_subject_group_id r = subject_group_id) (db_authority_groups s)
      in filter (\<lambda>g. g_id g \<in> set (map ag_group_id links) \<and> g_tenant_id g = tenant_id \<and> g_active g) (db_groups s))"

definition group_user_ids :: "db \<Rightarrow> support_group list \<Rightarrow> nat \<Rightarrow> nat list" where
  "group_user_ids s groups tenant_id =
     (let group_ids = map g_id groups;
          member_ids = map gm_user_id (filter (\<lambda>m. gm_group_id m \<in> set group_ids) (db_group_members s))
            @ List.map_filter g_manager_id groups
      in map u_id (filter (\<lambda>u. u_id u \<in> set member_ids \<and> u_active u \<and> u_tenant_id u = tenant_id) (db_users s)))"

definition authority_user_ids :: "db \<Rightarrow> nat \<Rightarrow> string \<Rightarrow> nat option \<Rightarrow> nat list" where
  "authority_user_ids s tenant_id authority subject_group_id =
     group_user_ids s (authority_groups s tenant_id authority subject_group_id) tenant_id"

section \<open>Tables\<close>

text \<open>Source, the kinds of record it applies to, and what it needs.\<close>

definition SOURCES :: "(string \<times> string list \<times> string option) list" where
  "SOURCES =
    [(''line_manager'', [''catalog''], None), (''request_team_manager'', [''catalog''], None),
     (''request_team_members'', [''catalog''], None), (''owning_team_manager'', [''change''], None),
     (''ci_owner_team_managers'', [''change''], None), (''ci_owners'', [''change''], None),
     (''service_coowner_team_managers'', [''change''], None), (''task_team_managers'', [''change''], None),
     (''group'', [''catalog'', ''change'', ''enterprise''], Some ''group''),
     (''authority'', [''catalog'', ''change'', ''enterprise''], Some ''authority''),
     (''users'', [''catalog'', ''change'', ''enterprise''], Some ''users''),
     (''administrators'', [''catalog'', ''change'', ''enterprise''], None)]"

definition TEAM_SOURCES :: "string list" where
  "TEAM_SOURCES = [''request_team_manager'', ''owning_team_manager'', ''ci_owner_team_managers'',
     ''service_coowner_team_managers'', ''task_team_managers'', ''line_manager'']"

definition PERSON_SOURCES :: "string list" where
  "PERSON_SOURCES = TEAM_SOURCES @ [''ci_owners'']"

definition PARALLEL_SOURCES :: "string list" where
  "PARALLEL_SOURCES = [''owning_team_manager'', ''ci_owner_team_managers'', ''ci_owners'',
     ''service_coowner_team_managers'', ''task_team_managers'']"

section \<open>Who a stage asks\<close>

text \<open>The keys of the \<^verbatim>\<open>context\<close> dictionary.\<close>

record approval_context =
  ctx_requested_for :: "user option"
  ctx_item :: "catalog_item option"
  ctx_ticket :: "ticket option"
  ctx_cis :: "configuration_item list"
  ctx_coowner_groups :: "support_group list"
  ctx_task_groups :: "support_group list"
  ctx_change_type :: "string option"
  ctx_needs_ccb :: bool

type_synonym resolved_row = "string \<times> nat list \<times> support_group option \<times> string"

definition active_manager_ids :: "db \<Rightarrow> support_group \<Rightarrow> nat list" where
  "active_manager_ids s team =
     (case Option.bind (g_manager_id team) (get_user s) of
        None \<Rightarrow> [] | Some m \<Rightarrow> if u_active m then [u_id m] else [])"

definition active_member_ids :: "db \<Rightarrow> nat \<Rightarrow> nat \<Rightarrow> (group_member \<Rightarrow> bool) \<Rightarrow> nat list" where
  "active_member_ids s group_id tenant_id P =
     map gm_user_id (filter (\<lambda>m. gm_group_id m = group_id
       \<and> (case get_user s (gm_user_id m) of None \<Rightarrow> False | Some u \<Rightarrow> u_active u \<and> u_tenant_id u = tenant_id)
       \<and> P m) (db_group_members s))"

definition team_manager_ids :: "db \<Rightarrow> support_group \<Rightarrow> nat list" where
  "team_manager_ids s team =
     authority_user_ids s (g_tenant_id team) ''team_manager'' (Some (g_id team)) @ active_manager_ids s team"

definition stage_group :: "db \<Rightarrow> approval_policy_stage \<Rightarrow> support_group option" where
  "stage_group s stage = Option.bind (st_group_id stage) (\<lambda>i. get_row g_id i (db_groups s))"

definition group_ids :: "db \<Rightarrow> approval_policy_stage \<Rightarrow> nat \<Rightarrow> nat list" where
  "group_ids s stage tenant_id =
     (case stage_group s stage of
        None \<Rightarrow> []
      | Some team \<Rightarrow>
          if \<not> g_active team \<or> g_tenant_id team \<noteq> tenant_id then []
          else active_member_ids s (g_id team) tenant_id
                 (\<lambda>m. \<not> truthy (st_role_filter stage) \<or> Some (gm_role m) = st_role_filter stage)
               @ (if st_include_manager stage then active_manager_ids s team else []))"

definition line_manager_ids :: "db \<Rightarrow> user option \<Rightarrow> nat list" where
  "line_manager_ids s person =
     (case person of
        None \<Rightarrow> []
      | Some p \<Rightarrow>
          (case Option.bind (u_manager_id p) (get_user s) of
             None \<Rightarrow> []
           | Some m \<Rightarrow> if u_active m \<and> u_tenant_id m = u_tenant_id p \<and> u_id m \<noteq> u_id p then [u_id m] else []))"

definition ci_team :: "db \<Rightarrow> configuration_item \<Rightarrow> support_group option" where
  "ci_team s ci = Option.bind (ci_support_group_id ci) (\<lambda>i. get_row g_id i (db_groups s))"

text \<open>\<^verbatim>\<open>groups.setdefault(...)\<close>: the team of each affected CI with the first CI that names it.\<close>

fun ci_teams :: "db \<Rightarrow> configuration_item list \<Rightarrow> (support_group \<times> configuration_item) list" where
  "ci_teams s [] = []"
| "ci_teams s (ci # cis) =
     (case ci_team s ci of
        None \<Rightarrow> ci_teams s cis
      | Some team \<Rightarrow> (team, ci) # filter (\<lambda>(g, _). g_id g \<noteq> g_id team) (ci_teams s cis))"

definition team_row :: "db \<Rightarrow> string \<Rightarrow> string \<Rightarrow> support_group \<Rightarrow> resolved_row" where
  "team_row s name error team =
     (replace_all ''{team}'' (g_name team) name, if g_active team then team_manager_ids s team else [], Some team, error)"

text \<open>The loop of the sources that ask one team after another.\<close>

fun team_rows :: "db \<Rightarrow> string \<Rightarrow> string \<Rightarrow> (support_group \<Rightarrow> bool) \<Rightarrow> support_group list \<Rightarrow> nat list
    \<Rightarrow> resolved_row list \<times> nat list" where
  "team_rows s name error skip [] covered = ([], covered)"
| "team_rows s name error skip (team # teams) covered =
     (if g_id team \<in> set covered \<or> skip team then team_rows s name error skip teams covered
      else let (rows, covered') = team_rows s name error skip teams (covered @ [g_id team])
           in (team_row s name error team # rows, covered'))"

definition ci_owner_ids :: "db \<Rightarrow> nat \<Rightarrow> approval_context \<Rightarrow> nat list" where
  "ci_owner_ids s tenant_id ctx =
     (let requester_id = map_option tk_requester_id (ctx_ticket ctx)
      in map u_id (filter (\<lambda>u. u_active u \<and> u_tenant_id u = tenant_id \<and> Some (u_id u) \<noteq> requester_id)
           (List.map_filter (\<lambda>ci. Option.bind (ci_owner_id ci) (get_user s)) (ctx_cis ctx))))"

text \<open>\<^verbatim>\<open>[int(value) for value in json.loads(...)]\<close>, the empty list when anything in it fails.\<close>

definition json_items :: "json \<Rightarrow> json list option" where
  "json_items j = (case j of
      JList xs \<Rightarrow> Some xs
    | JObj kvs \<Rightarrow> Some (map (\<lambda>(k, _). JStr k) kvs)
    | JStr t \<Rightarrow> Some (map (\<lambda>c. JStr [c]) t)
    | _ \<Rightarrow> None)"

definition wanted_user_ids :: "json option \<Rightarrow> int list" where
  "wanted_user_ids j = (case Option.bind j json_items of
      None \<Rightarrow> []
    | Some xs \<Rightarrow> if list_all (\<lambda>x. py_int x \<noteq> None) xs then List.map_filter py_int xs else [])"

definition administrators :: "db \<Rightarrow> nat \<Rightarrow> user list" where
  "administrators s tenant_id =
     sort_key u_id (filter (\<lambda>u. u_tenant_id u = tenant_id \<and> u_role u \<in> set [''admin'', ''superadmin''] \<and> u_active u) (db_users s))"

definition fallback_ids :: "db \<Rightarrow> approval_policy_stage \<Rightarrow> nat \<Rightarrow> support_group option \<Rightarrow> nat list" where
  "fallback_ids s stage tenant_id team =
     (if st_fallback stage = ''team_members''
      then (case team of
              None \<Rightarrow> []
            | Some g \<Rightarrow> if \<not> g_active g \<or> g_tenant_id g \<noteq> tenant_id then []
                        else active_member_ids s (g_id g) tenant_id (\<lambda>_. True))
      else if st_fallback stage = ''first_administrator'' then map u_id (take 1 (administrators s tenant_id))
      else if st_fallback stage = ''all_administrators'' then map u_id (administrators s tenant_id)
      else [])"

definition needs_team :: string where
  "needs_team = ''The team requires an active manager or approval group.''"

definition resolve ::
    "db \<Rightarrow> approval_policy_stage \<Rightarrow> approval_context \<Rightarrow> nat \<Rightarrow> nat list \<Rightarrow> (resolved_row list \<times> nat list) result" where
  "resolve s stage ctx tenant_id covered =
     (let source = st_source stage; name = st_name stage in
      if source = ''line_manager''
        then Inr ([(name, line_manager_ids s (ctx_requested_for ctx), None, ''Your line manager is not recorded.'')], covered)
      else if source \<in> set [''request_team_manager'', ''request_team_members'']
        then (case ctx_item ctx of
                None \<Rightarrow> Inl (KeyError ''item'')
              | Some item \<Rightarrow>
                  (case catalog_fulfillment_group s item of
                     None \<Rightarrow> Inr ([(name, [], None, ''no fulfilment team'')], covered)
                   | Some team \<Rightarrow>
                       Inr ([(replace_all ''{team}'' (g_name team) name,
                              if source = ''request_team_manager'' then team_manager_ids s team
                              else active_member_ids s (g_id team) tenant_id (\<lambda>_. True) @ active_manager_ids s team,
                              Some team, needs_team)], covered)))
      else if source = ''owning_team_manager''
        then (case ctx_ticket ctx of
                None \<Rightarrow> Inl (KeyError ''ticket'')
              | Some ticket \<Rightarrow>
                  (case find (\<lambda>w. ow_ticket_id w = tk_id ticket) (db_ownerships s) of
                     None \<Rightarrow> Inr ([(name, [], None, needs_team)], covered)
                   | Some ownership \<Rightarrow>
                       (case get_row g_id (ow_group_id ownership) (db_groups s) of
                          None \<Rightarrow> Inl (AttributeError ''name'')
                        | Some team \<Rightarrow>
                            Inr ([(replace_all ''{team}'' (g_name team) name, team_manager_ids s team, Some team, needs_team)],
                                 covered @ [g_id team]))))
      else if source = ''ci_owner_team_managers''
        then Inr (team_rows s name needs_team (\<lambda>_. False) (sort_key g_id (map fst (ci_teams s (ctx_cis ctx)))) covered)
      else if source = ''ci_owners''
        then Inr (if ci_owner_ids s tenant_id ctx = [] then [] else [(name, ci_owner_ids s tenant_id ctx, None, [])], covered)
      else if source = ''service_coowner_team_managers''
        then Inr (team_rows s name needs_team (\<lambda>g. \<not> g_active g) (ctx_coowner_groups ctx) covered)
      else if source = ''task_team_managers''
        then Inr (team_rows s name needs_team (\<lambda>_. False) (ctx_task_groups ctx) covered)
      else if source = ''group''
        then Inr ([(name, group_ids s stage tenant_id @
               (if truthy (st_authority stage) \<and> (case stage_group s stage of None \<Rightarrow> True | Some g \<Rightarrow> g_active g)
                then authority_user_ids s tenant_id (opt [] (st_authority stage)) None else []),
               stage_group s stage, ''nobody can approve'')], covered)
      else if source = ''authority''
        then Inr ([(name, if truthy (st_authority stage) then authority_user_ids s tenant_id (opt [] (st_authority stage)) None else [],
               None, ''no groups linked'')], covered)
      else if source = ''users''
        then Inr ([(name, map u_id (filter (\<lambda>u. int (u_id u) \<in> set (wanted_user_ids (st_user_ids_json stage))
               \<and> u_tenant_id u = tenant_id \<and> u_active u) (db_users s)), None, ''none of the chosen people is active'')], covered)
      else if source = ''administrators''
        then Inr ([(name, map u_id (administrators s tenant_id), None, ''no active administrator'')], covered)
      else Inr ([(name, [], None, ''unknown approver source'')], covered))"

definition applies :: "approval_policy_stage \<Rightarrow> approval_context \<Rightarrow> bool" where
  "applies stage ctx =
     (let condition = (if st_condition stage = [] then ''always'' else st_condition stage);
          change_type = ctx_change_type ctx; needs_ccb = ctx_needs_ccb ctx in
      if condition = ''always'' then True
      else opt False (map_of
        [(''standard'', change_type = Some ''Standard''),
         (''normal'', change_type = Some ''Normal''),
         (''emergency'', change_type = Some ''Emergency''),
         (''non_standard'', change_type = Some ''Normal'' \<or> change_type = Some ''Emergency''),
         (''ccb_required'', change_type \<noteq> Some ''Standard'' \<and> needs_ccb),
         (''ccb_required_normal'', change_type = Some ''Normal'' \<and> needs_ccb),
         (''ccb_required_emergency'', change_type = Some ''Emergency'' \<and> needs_ccb)] condition))"

section \<open>The stages of a record\<close>

record built_stage =
  bs_name :: string
  bs_mode :: string
  bs_approver_ids :: "nat list"
  bs_person_stage :: bool
  bs_source :: string

definition joined_name :: "string \<Rightarrow> string \<Rightarrow> string" where
  "joined_name a b = (let joined = a @ ''; '' @ b in if length joined \<le> 160 then joined else take 157 joined @ ''...'')"

text \<open>Renaming the first stage that satisfies \<open>P\<close>.\<close>

fun rename_first :: "(built_stage \<Rightarrow> bool) \<Rightarrow> string \<Rightarrow> built_stage list \<Rightarrow> built_stage list" where
  "rename_first P name [] = []"
| "rename_first P name (b # bs) =
     (if P b then b\<lparr>bs_name := joined_name (bs_name b) name\<rparr> # bs else b # rename_first P name bs)"

definition must_approve :: "built_stage \<Rightarrow> bool" where
  "must_approve b \<longleftrightarrow> bs_person_stage b \<and> bs_mode b = ''all''"

text \<open>
  \<^verbatim>\<open>_fold_duplicate\<close>: the stages with a name possibly extended, the people still to ask (the source changes
  the set in place), and whether the new stage adds nobody.
\<close>

definition fold_duplicate :: "built_stage list \<Rightarrow> string \<Rightarrow> string \<Rightarrow> nat list \<Rightarrow> built_stage list \<times> nat list \<times> bool" where
  "fold_duplicate built name mode ids =
     (let same = (\<lambda>b. bs_person_stage b \<and> set (bs_approver_ids b) = set ids \<and> bs_mode b = mode);
          must_ids = concat (map bs_approver_ids (filter must_approve built))
      in if list_ex same built then (rename_first same name built, ids, True)
         else if set ids \<inter> set must_ids = {} then (built, ids, False)
         else if mode = ''any'' \<or> set ids \<subseteq> set must_ids
           then (rename_first (\<lambda>b. must_approve b \<and> set ids \<inter> set (bs_approver_ids b) \<noteq> {}) name built, ids, True)
         else (built, filter (\<lambda>i. i \<notin> set must_ids) ids, False))"

definition stage_mode :: "approval_policy_stage \<Rightarrow> support_group option \<Rightarrow> nat list \<Rightarrow> string" where
  "stage_mode stage team ids =
     (let mode = (if st_mode stage = ''group_mode''
            then (case team of Some g \<Rightarrow> if g_approval_mode g \<in> set [''all'', ''any''] then g_approval_mode g else ''all''
                             | None \<Rightarrow> ''all'')
            else st_mode stage);
          mode = (if mode \<notin> set [''all'', ''any'', ''majority''] then ''any'' else mode)
      in if st_source stage \<in> set PERSON_SOURCES \<and> length (remdups ids) = 1 then ''all'' else mode)"

definition new_stage :: "approval_policy_stage \<Rightarrow> string \<Rightarrow> string \<Rightarrow> nat list \<Rightarrow> built_stage" where
  "new_stage stage name mode ids =
     \<lparr>bs_name = name, bs_mode = mode, bs_approver_ids = sort (remdups ids),
      bs_person_stage = (st_source stage \<in> set PERSON_SOURCES), bs_source = st_source stage\<rparr>"

definition add_row ::
    "db \<Rightarrow> approval_policy_stage \<Rightarrow> nat \<Rightarrow> nat list \<Rightarrow> resolved_row \<Rightarrow> built_stage list \<Rightarrow> built_stage list result" where
  "add_row s stage tenant_id exclude row built =
     (let (name, ids, team, error) = row;
          ids = filter (\<lambda>i. i \<notin> set exclude) ids
      in if ids = [] \<and> st_source stage = ''ci_owners'' then Inr built
         else if ids = [] \<and> st_fallback stage = ''skip'' then Inr built
         else let ids = (if ids = [] then fallback_ids s stage tenant_id team else ids) in
           if ids = [] then Inl (ApprovalRouteError error)
           else if st_skip_duplicates stage \<and> list_ex (\<lambda>b. set (bs_approver_ids b) = set ids) built then Inr built
           else let mode = stage_mode stage team ids in
             if st_source stage \<in> set PERSON_SOURCES
             then (case fold_duplicate built name mode ids of
                     (built, ids, folded) \<Rightarrow> if folded then Inr built else Inr (built @ [new_stage stage name mode ids]))
             else Inr (built @ [new_stage stage name mode ids]))"

definition add_stage ::
    "db \<Rightarrow> approval_context \<Rightarrow> nat \<Rightarrow> nat list \<Rightarrow> approval_policy_stage \<Rightarrow> built_stage list \<times> nat list
       \<Rightarrow> (built_stage list \<times> nat list) result" where
  "add_stage s ctx tenant_id exclude stage st =
     (let (built, covered) = st in
      if \<not> applies stage ctx then Inr st
      else bindE (resolve s stage ctx tenant_id covered) (\<lambda>(rows, covered).
             bindE (foldE (add_row s stage tenant_id exclude) rows built) (\<lambda>built. Inr (built, covered))))"

text \<open>\<^verbatim>\<open>_run_in_parallel\<close> keeps the merged stages in a list whose last one may grow.\<close>

definition merge_stage :: "built_stage \<Rightarrow> built_stage list \<Rightarrow> built_stage list" where
  "merge_stage stage merged =
     (if merged \<noteq> [] \<and> bs_source (last merged) \<in> set PARALLEL_SOURCES \<and> bs_source stage \<in> set PARALLEL_SOURCES
         \<and> bs_mode (last merged) = ''all'' \<and> bs_mode stage = ''all''
      then butlast merged @ [(last merged)\<lparr>bs_name := joined_name (bs_name (last merged)) (bs_name stage),
             bs_approver_ids := sort (remdups (bs_approver_ids (last merged) @ bs_approver_ids stage))\<rparr>]
      else merged @ [stage])"

definition run_in_parallel :: "built_stage list \<Rightarrow> built_stage list" where
  "run_in_parallel built = fold merge_stage built []"

definition policy_stages :: "approval_policy \<Rightarrow> approval_policy_stage list" where
  "policy_stages policy = sort_key st_position (po_stages policy)"

text \<open>\<^verbatim>\<open>build_stages\<close> before and after its two bookkeeping keys are dropped.\<close>

definition build_route :: "db \<Rightarrow> approval_policy option \<Rightarrow> approval_context \<Rightarrow> nat list \<Rightarrow> built_stage list result" where
  "build_route s policy ctx exclude =
     (case policy of
        None \<Rightarrow> Inl (ApprovalRouteError ''No active approval policy is configured.'')
      | Some policy \<Rightarrow>
          bindE (foldE (add_stage s ctx (po_tenant_id policy) exclude) (policy_stages policy) ([], [])) (\<lambda>(built, covered).
            if built = [] then Inl (ApprovalRouteError ''no stage that applies'')
            else Inr (run_in_parallel built)))"

definition build_stages :: "db \<Rightarrow> approval_policy option \<Rightarrow> approval_context \<Rightarrow> nat list \<Rightarrow> approval_stage list result" where
  "build_stages s policy ctx exclude =
     bindE (build_route s policy ctx exclude) (\<lambda>built.
       Inr (map (\<lambda>b. \<lparr>stg_name = bs_name b, stg_mode = Some (bs_mode b), stg_approver_ids = bs_approver_ids b\<rparr>) built))"

definition task_team_route_error :: "db \<Rightarrow> approval_policy option \<Rightarrow> support_group \<Rightarrow> nat list \<Rightarrow> string option" where
  "task_team_route_error s policy team covered =
     (case policy of
        None \<Rightarrow> None
      | Some p \<Rightarrow>
          if g_id team \<in> set covered then None
          else if list_ex (\<lambda>stage. st_source stage = ''task_team_managers''
                \<and> (if g_active team then team_manager_ids s team else []) = []
                \<and> fallback_ids s stage (po_tenant_id p) (Some team) = []) (policy_stages p)
            then Some needs_team else None)"

section \<open>Only active people are asked\<close>

definition active_user_id :: "db \<Rightarrow> nat \<Rightarrow> bool" where
  "active_user_id s i \<longleftrightarrow> (\<exists>u \<in> set (db_users s). u_id u = i \<and> u_active u)"

lemma get_user_active: "get_user s i = Some u \<Longrightarrow> u_active u \<Longrightarrow> active_user_id s (u_id u) \<and> u_id u = i"
  unfolding get_user_def by (drule get_row_key) (auto simp: active_user_id_def)

lemma bind_user_active: "Some u = Option.bind m (get_user s) \<Longrightarrow> u_active u \<Longrightarrow> active_user_id s (u_id u)"
  by (cases m) (auto dest: sym get_user_active)

lemma user_id_active: "get_user s i = Some u \<Longrightarrow> u_active u \<Longrightarrow> active_user_id s i"
  using get_user_active by blast

lemma authority_user_ids_active: "i \<in> set (authority_user_ids s t a g) \<Longrightarrow> active_user_id s i"
  by (auto simp: authority_user_ids_def group_user_ids_def Let_def active_user_id_def)

lemma active_manager_ids_active: "i \<in> set (active_manager_ids s g) \<Longrightarrow> active_user_id s i"
  by (auto simp: active_manager_ids_def split: option.splits if_splits dest: bind_user_active)

lemma active_member_ids_active: "i \<in> set (active_member_ids s g t P) \<Longrightarrow> active_user_id s i"
  by (auto simp: active_member_ids_def split: option.splits dest: user_id_active)

lemma team_manager_ids_active: "i \<in> set (team_manager_ids s g) \<Longrightarrow> active_user_id s i"
  using authority_user_ids_active active_manager_ids_active by (auto simp: team_manager_ids_def)

lemma group_ids_active: "i \<in> set (group_ids s stage t) \<Longrightarrow> active_user_id s i"
  using active_member_ids_active active_manager_ids_active
  by (auto simp: group_ids_def split: option.splits if_splits)

lemma line_manager_ids_active: "i \<in> set (line_manager_ids s p) \<Longrightarrow> active_user_id s i"
  by (auto simp: line_manager_ids_def split: option.splits if_splits dest: bind_user_active)

lemma ci_owner_ids_active: "i \<in> set (ci_owner_ids s t ctx) \<Longrightarrow> active_user_id s i"
proof -
  assume "i \<in> set (ci_owner_ids s t ctx)"
  then obtain u j where "get_user s j = Some u" "u_active u" "i = u_id u"
    by (auto simp: ci_owner_ids_def Let_def List.map_filter_def bind_eq_Some_conv)
  then show ?thesis using get_user_active by blast
qed

lemma administrators_active: "u \<in> set (administrators s t) \<Longrightarrow> active_user_id s (u_id u)"
  by (auto simp: administrators_def active_user_id_def)

lemma fallback_ids_active: "i \<in> set (fallback_ids s stage t g) \<Longrightarrow> active_user_id s i"
  using active_member_ids_active administrators_active
  by (auto simp: fallback_ids_def split: option.splits if_splits dest: in_set_takeD)

definition row_active :: "db \<Rightarrow> resolved_row \<Rightarrow> bool" where
  "row_active s row \<longleftrightarrow> list_all (active_user_id s) (fst (snd row))"

lemma team_rows_active: "list_all (row_active s) (fst (team_rows s name e skip teams covered))"
proof (induction teams arbitrary: covered)
  case (Cons g gs)
  have "row_active s (team_row s name e g)"
    using team_manager_ids_active by (auto simp: row_active_def team_row_def list_all_iff)
  with Cons show ?case by (auto simp: case_prod_beta Let_def)
qed simp

lemma resolve_active:
  assumes "resolve s stage ctx t covered = Inr (rows, covered')"
  shows "list_all (row_active s) rows"
proof -
  note active = authority_user_ids_active active_manager_ids_active active_member_ids_active team_manager_ids_active
    group_ids_active line_manager_ids_active ci_owner_ids_active administrators_active
  have teams: "team_rows s name e skip teams c = (rows, covered') \<Longrightarrow> list_all (row_active s) rows" for name e skip teams c
    using team_rows_active [of s name e skip teams c] by simp
  show ?thesis
    using assms unfolding resolve_def Let_def
    apply (split if_split_asm)
    subgoal using active by (auto simp: row_active_def list_all_iff)
    apply (split if_split_asm)
    subgoal using active by (auto simp: row_active_def list_all_iff split: option.splits if_splits)
    apply (split if_split_asm)
    subgoal using active by (auto simp: row_active_def list_all_iff split: option.splits if_splits)
    apply (split if_split_asm)
    subgoal using teams by simp
    apply (split if_split_asm)
    subgoal using active by (auto simp: row_active_def list_all_iff split: if_splits)
    apply (split if_split_asm)
    subgoal using teams by simp
    apply (split if_split_asm)
    subgoal using teams by simp
    apply (split if_split_asm)
    subgoal by (auto simp: row_active_def list_all_iff dest: group_ids_active authority_user_ids_active split: if_splits)
    apply (split if_split_asm)
    subgoal by (auto simp: row_active_def list_all_iff dest: authority_user_ids_active split: if_splits)
    apply (split if_split_asm)
    subgoal by (auto simp: row_active_def list_all_iff active_user_id_def)
    apply (split if_split_asm)
    subgoal by (auto simp: row_active_def list_all_iff dest: administrators_active)
    subgoal by (auto simp: row_active_def)
    done
qed

section \<open>What a route guarantees\<close>

definition stage_valid :: "db \<Rightarrow> built_stage \<Rightarrow> bool" where
  "stage_valid s b \<longleftrightarrow> bs_mode b \<in> set [''all'', ''any'', ''majority''] \<and> bs_approver_ids b \<noteq> [] \<and> sorted (bs_approver_ids b)
     \<and> distinct (bs_approver_ids b) \<and> list_all (active_user_id s) (bs_approver_ids b)
     \<and> bs_person_stage b = (bs_source b \<in> set PERSON_SOURCES)"

text \<open>Two stages in which everybody named must approve ask different people.\<close>

definition asks_apart :: "built_stage \<Rightarrow> built_stage \<Rightarrow> bool" where
  "asks_apart a b \<longleftrightarrow> (must_approve a \<and> must_approve b \<longrightarrow> set (bs_approver_ids a) \<inter> set (bs_approver_ids b) = {})"

definition route_ok :: "db \<Rightarrow> built_stage list \<Rightarrow> bool" where
  "route_ok s built \<longleftrightarrow> list_all (stage_valid s) built \<and> sorted_wrt asks_apart built"

lemma renamed_same [simp]:
  "stage_valid s (b\<lparr>bs_name := n\<rparr>) = stage_valid s b" "asks_apart (b\<lparr>bs_name := n\<rparr>) c = asks_apart b c"
  "asks_apart c (b\<lparr>bs_name := n\<rparr>) = asks_apart c b"
  by (simp_all add: stage_valid_def asks_apart_def must_approve_def)

lemma rename_first_all:
  "(\<And>b n. Q (b\<lparr>bs_name := n\<rparr>) = Q b) \<Longrightarrow> list_all Q (rename_first P name bs) = list_all Q bs"
  by (induction bs) auto

lemma rename_first_route [simp]: "route_ok s (rename_first P name built) = route_ok s built"
proof -
  have "sorted_wrt asks_apart (rename_first P name bs) = sorted_wrt asks_apart bs" for bs
  proof (induction bs)
    case (Cons b bs)
    have "list_all (asks_apart b) (rename_first P name bs) = list_all (asks_apart b) bs" by (rule rename_first_all) simp
    with Cons show ?case by (auto simp: list_all_iff)
  qed simp
  then show ?thesis by (simp add: route_ok_def rename_first_all)
qed

lemma stage_mode_valid: "stage_mode stage team ids \<in> set [''all'', ''any'', ''majority'']"
  by (simp add: stage_mode_def Let_def)

lemma new_stage_valid:
  assumes "ids \<noteq> []" and "list_all (active_user_id s) ids" and "mode \<in> set [''all'', ''any'', ''majority'']"
  shows "stage_valid s (new_stage stage name mode ids)"
proof -
  have "set (sort (remdups ids)) \<noteq> {}" using assms(1) by simp
  then have "sort (remdups ids) \<noteq> []" by force
  with assms show ?thesis by (simp add: stage_valid_def new_stage_def list_all_iff)
qed

lemma append_route:
  assumes "route_ok s built" and "stage_valid s b"
    and "must_approve b \<Longrightarrow> set (bs_approver_ids b) \<inter> set (concat (map bs_approver_ids (filter must_approve built))) = {}"
  shows "route_ok s (built @ [b])"
proof -
  have "asks_apart a b" if "a \<in> set built" for a
    using that assms(3) by (fastforce simp: asks_apart_def)
  with assms(1,2) show ?thesis by (simp add: route_ok_def sorted_wrt_append)
qed

lemma fold_duplicate_route:
  assumes "fold_duplicate built name mode ids = (built', ids', folded)" and "route_ok s built" and "ids \<noteq> []"
    and "list_all (active_user_id s) ids"
  shows "route_ok s built' \<and> (\<not> folded \<longrightarrow> built' = built \<and> ids' \<noteq> [] \<and> list_all (active_user_id s) ids'
    \<and> set ids' \<inter> set (concat (map bs_approver_ids (filter must_approve built))) = {})"
proof -
  define must where "must = concat (map bs_approver_ids (filter must_approve built))"
  have "filter (\<lambda>i. i \<notin> set must) ids \<noteq> []" if "\<not> set ids \<subseteq> set must"
    using that by (auto simp: filter_empty_conv)
  then show ?thesis
    using assms unfolding fold_duplicate_def Let_def must_def [symmetric]
    by (auto simp: list_all_iff split: if_splits)
qed

lemma add_row_route:
  assumes run: "add_row s stage t exclude row built = Inr built'" and ok: "route_ok s built" and act: "row_active s row"
  shows "route_ok s built'"
proof -
  obtain name ids team e where row: "row = (name, ids, team, e)" by (cases row) auto
  define ids1 where "ids1 = filter (\<lambda>i. i \<notin> set exclude) ids"
  define ids2 where "ids2 = (if ids1 = [] then fallback_ids s stage t team else ids1)"
  have act2: "list_all (active_user_id s) ids2"
    using act fallback_ids_active by (auto simp: ids2_def ids1_def row row_active_def list_all_iff)
  have mode: "stage_mode stage team ids2 \<in> set [''all'', ''any'', ''majority'']" by (rule stage_mode_valid)
  note unfolded = run [unfolded add_row_def row prod.case Let_def, folded ids1_def, folded ids2_def]
  show ?thesis
  proof (cases "ids2 \<noteq> [] \<and> built' \<noteq> built")
    case True
    obtain b i f where dup: "fold_duplicate built name (stage_mode stage team ids2) ids2 = (b, i, f)" by (metis prod_cases3)
    have new: "(if st_source stage \<in> set PERSON_SOURCES
        then (if f then b else b @ [new_stage stage name (stage_mode stage team ids2) i])
        else built @ [new_stage stage name (stage_mode stage team ids2) ids2]) = built'"
      using unfolded True unfolding dup prod.case by (simp split: if_splits)
    note d = fold_duplicate_route [OF dup ok _ act2]
    show ?thesis
    proof (cases "st_source stage \<in> set PERSON_SOURCES")
      case person: True
      show ?thesis
      proof (cases f)
        case False
        then have "built' = built @ [new_stage stage name (stage_mode stage team ids2) i]"
          using new person dup d True by auto
        then show ?thesis
          using append_route [OF ok new_stage_valid [OF _ _ mode]] d True False by (auto simp: new_stage_def)
      qed (use new person dup d True in auto)
    next
      case False
      have "\<not> must_approve (new_stage stage name (stage_mode stage team ids2) ids2)"
        using False by (simp add: must_approve_def new_stage_def)
      then show ?thesis
        using new False append_route [OF ok new_stage_valid [OF _ act2 mode]] True by auto
    qed
  next
    case False
    then show ?thesis using ok unfolded by (auto split: if_splits)
  qed
qed


lemma add_stage_route:
  assumes "add_stage s ctx t exclude stage (built, covered) = Inr (built', covered')" and "route_ok s built"
  shows "route_ok s built'"
proof (cases "applies stage ctx")
  case True
  then obtain rows where rows: "resolve s stage ctx t covered = Inr (rows, covered')"
      "foldE (add_row s stage t exclude) rows built = Inr built'"
    using assms(1) by (auto simp: add_stage_def bindE_Inr_iff)
  have "list_all (row_active s) rows" by (rule resolve_active [OF rows(1)])
  then have step: "\<And>x b b'. x \<in> set rows \<Longrightarrow> route_ok s b \<Longrightarrow> add_row s stage t exclude x b = Inr b' \<Longrightarrow> route_ok s b'"
    using add_row_route by (simp add: list_all_iff)
  show ?thesis by (rule foldE_invariant [where P = "route_ok s", OF step assms(2) rows(2)])
qed (use assms in \<open>simp add: add_stage_def\<close>)

lemma parallel_is_person: "src \<in> set PARALLEL_SOURCES \<Longrightarrow> src \<in> set PERSON_SOURCES"
  by (auto simp: PARALLEL_SOURCES_def PERSON_SOURCES_def TEAM_SOURCES_def)

lemma merge_stage_route:
  assumes "route_ok s (merged @ stage # rest)"
  shows "route_ok s (merge_stage stage merged @ rest)"
proof (cases "merged \<noteq> [] \<and> bs_source (last merged) \<in> set PARALLEL_SOURCES \<and> bs_source stage \<in> set PARALLEL_SOURCES
         \<and> bs_mode (last merged) = ''all'' \<and> bs_mode stage = ''all''")
  case True
  then obtain ms l where m: "merged = ms @ [l]" by (metis append_butlast_last_id)
  define l' where "l' = l\<lparr>bs_name := joined_name (bs_name l) (bs_name stage),
             bs_approver_ids := sort (remdups (bs_approver_ids l @ bs_approver_ids stage))\<rparr>"
  have eq: "merge_stage stage merged = ms @ [l']" using True by (simp add: merge_stage_def m l'_def)
  have valid: "stage_valid s l" "stage_valid s stage" using assms by (simp_all add: route_ok_def m)
  then have must: "must_approve l" "must_approve stage"
    using True parallel_is_person by (auto simp: m must_approve_def stage_valid_def)
  have "bs_approver_ids l' \<noteq> []" using valid(1) by (auto simp: l'_def stage_valid_def simp flip: set_empty2)
  then have valid': "stage_valid s l'" using valid by (auto simp: stage_valid_def l'_def list_all_iff)
  have apart: "asks_apart l x \<Longrightarrow> asks_apart stage x \<Longrightarrow> asks_apart l' x" "asks_apart x l \<Longrightarrow> asks_apart x stage \<Longrightarrow> asks_apart x l'" for x
    using must by (auto simp: asks_apart_def l'_def must_approve_def)
  show ?thesis
    using assms valid' apart unfolding eq unfolding route_ok_def m by (auto simp: sorted_wrt_append)
next
  case False
  then have "merge_stage stage merged = merged @ [stage]" by (auto simp: merge_stage_def)
  with assms show ?thesis by simp
qed

lemma run_in_parallel_route: "route_ok s built \<Longrightarrow> route_ok s (run_in_parallel built) \<and> (built \<noteq> [] \<longrightarrow> run_in_parallel built \<noteq> [])"
proof -
  have "route_ok s (merged @ built) \<Longrightarrow> route_ok s (fold merge_stage built merged)
      \<and> (built \<noteq> [] \<or> merged \<noteq> [] \<longrightarrow> fold merge_stage built merged \<noteq> [])" for merged
  proof (induction built arbitrary: merged)
    case (Cons b built)
    have "merge_stage b merged \<noteq> []" by (simp add: merge_stage_def)
    with Cons.IH [OF merge_stage_route [OF Cons.prems]] show ?case by simp
  qed simp
  from this [of "[]"] show "route_ok s built \<Longrightarrow> ?thesis" by (simp add: run_in_parallel_def)
qed

lemma build_route_ok:
  assumes "build_route s policy ctx exclude = Inr built"
  shows "built \<noteq> [] \<and> route_ok s built"
proof -
  obtain p raw covered where p: "policy = Some p" "raw \<noteq> []" "built = run_in_parallel raw"
      "foldE (add_stage s ctx (po_tenant_id p) exclude) (policy_stages p) ([], []) = Inr (raw, covered)"
    using assms by (auto simp: build_route_def bindE_Inr_iff split: option.splits if_splits)
  have "route_ok s (fst (raw, covered))"
    by (rule foldE_invariant [OF _ _ p(4), of "\<lambda>st. route_ok s (fst st)"])
      (auto intro: add_stage_route, simp add: route_ok_def)
  with run_in_parallel_route [of s raw] p show ?thesis by simp
qed

lemma build_stages_modes: "build_stages s policy ctx exclude = Inr stages \<Longrightarrow> list_all stage_ok stages"
  by (auto simp: build_stages_def bindE_Inr_iff list_all_iff stage_ok_def dest!: build_route_ok)
    (auto simp: route_ok_def list_all_iff stage_valid_def)

lemma filter_nonzero:
  assumes "list_all (active_user_id s) ids" and "list_all (\<lambda>u. u_id u \<noteq> 0) (db_users s)"
  shows "filter (\<lambda>i. i \<noteq> 0) ids = ids"
  using assms by (fastforce simp: filter_id_conv list_all_iff active_user_id_def)

text \<open>
  C6. Every route that a policy produces can be started: it has at least one stage, each stage names at least one person,
  every person named is an active user, and the approval engine accepts the stages and starts a running chain. No two stages of a route whose
  people come from their place in the organisation (a line manager, the managers of teams, the owners of CIs) and who must all
  approve name the same person. Stages of a fixed group or of chosen people, and stages that one of several people
  decides, are outside that promise; \<open>person_asked_twice\<close> below shows such a route.
\<close>

theorem build_stages_startable:
  assumes run: "build_stages s policy ctx exclude = Inr stages"
    and ids: "list_all (\<lambda>u. u_id u \<noteq> 0) (db_users s)"
  shows "\<exists>built. build_route s policy ctx exclude = Inr built
    \<and> stages = map (\<lambda>b. \<lparr>stg_name = bs_name b, stg_mode = Some (bs_mode b), stg_approver_ids = bs_approver_ids b\<rparr>) built
    \<and> stages \<noteq> [] \<and> list_all (\<lambda>st. stg_approver_ids st \<noteq> [] \<and> list_all (active_user_id s) (stg_approver_ids st)) stages
    \<and> sorted_wrt (\<lambda>a b. bs_source a \<in> set PERSON_SOURCES \<and> bs_source b \<in> set PERSON_SOURCES \<and> bs_mode a = ''all'' \<and> bs_mode b = ''all''
        \<longrightarrow> set (bs_approver_ids a) \<inter> set (bs_approver_ids b) = {}) built
    \<and> (\<exists>c s'. create_approval_chain name ty i stages title body s = Inr (c, s') \<and> ch_state c = ''Running'')"
proof -
  obtain built where built: "build_route s policy ctx exclude = Inr built"
      "stages = map (\<lambda>b. \<lparr>stg_name = bs_name b, stg_mode = Some (bs_mode b), stg_approver_ids = bs_approver_ids b\<rparr>) built"
    using run by (auto simp: build_stages_def bindE_Inr_iff)
  note route = build_route_ok [OF built(1)]
  then have ok: "stages \<noteq> []" "list_all (\<lambda>st. stg_approver_ids st \<noteq> [] \<and> list_all (active_user_id s) (stg_approver_ids st)) stages"
      "list_all stage_ok stages"
    using build_stages_modes [OF run] by (auto simp: built(2) route_ok_def list_all_iff stage_valid_def)
  have "\<not> list_ex (\<lambda>st. filter (\<lambda>i. i \<noteq> 0) (stg_approver_ids st) = []) stages"
  proof
    assume "list_ex (\<lambda>st. filter (\<lambda>i. i \<noteq> 0) (stg_approver_ids st) = []) stages"
    then obtain st where st: "st \<in> set stages" "filter (\<lambda>i. i \<noteq> 0) (stg_approver_ids st) = []" by (auto simp: list_ex_iff)
    with ok(2) have "stg_approver_ids st \<noteq> []" "list_all (active_user_id s) (stg_approver_ids st)" by (auto simp: list_all_iff)
    with st(2) filter_nonzero [OF _ ids] show False by simp
  qed
  then obtain c s' where new: "create_approval_chain name ty i stages title body s = Inr (c, s')"
    using ok(1) by (simp add: create_approval_chain_def Let_def)
  have "ch_state c = ''Running''" by (rule create_approval_chain_rows(3) [OF new ok(3)])
  moreover have "sorted_wrt (\<lambda>a b. bs_source a \<in> set PERSON_SOURCES \<and> bs_source b \<in> set PERSON_SOURCES \<and> bs_mode a = ''all'' \<and> bs_mode b = ''all''
        \<longrightarrow> set (bs_approver_ids a) \<inter> set (bs_approver_ids b) = {}) built"
    by (rule sorted_wrt_mono_rel [of _ asks_apart])
      (use route in \<open>auto simp: route_ok_def asks_apart_def must_approve_def stage_valid_def list_all_iff\<close>)
  ultimately show ?thesis using new built ok by blast
qed

section \<open>An example\<close>

definition example_stage :: "nat \<Rightarrow> string \<Rightarrow> approval_policy_stage" where
  "example_stage i source = blank_approval_policy_stage\<lparr>st_id := i, st_position := i, st_name := ''{team} assessment'',
     st_source := source, st_mode := ''any'', st_fallback := ''none''\<rparr>"

definition example_policy :: approval_policy where
  "example_policy = blank_approval_policy\<lparr>po_id := 2, po_is_default := True, po_active := True,
     po_stages := [example_stage 1 ''owning_team_manager'', example_stage 2 ''task_team_managers'']\<rparr>"

definition example_teams :: "support_group list" where
  "example_teams = [blank_support_group\<lparr>g_id := 3, g_name := ''Network'', g_active := True, g_manager_id := Some 8\<rparr>,
     blank_support_group\<lparr>g_id := 4, g_name := ''Database'', g_active := True, g_manager_id := Some 8\<rparr>,
     blank_support_group\<lparr>g_id := 5, g_name := ''Network leads'', g_active := True, g_manager_id := Some 9\<rparr>]"

definition example_route_db :: db where
  "example_route_db = empty_db\<lparr>
     db_users := [blank_user\<lparr>u_id := 8, u_active := True\<rparr>, blank_user\<lparr>u_id := 9, u_active := True\<rparr>],
     db_groups := example_teams,
     db_ownerships := [\<lparr>ow_id = 2, ow_tenant_id = None, ow_ticket_id = 9, ow_group_id = 3\<rparr>],
     db_authority_groups := [\<lparr>ag_id = 2, ag_tenant_id = 0, ag_authority = ''team_manager'', ag_subject_group_id = Some 3,
       ag_group_id = 5, ag_created_by_id = None, ag_created_at = 0\<rparr>]\<rparr>"

definition example_context :: approval_context where
  "example_context = \<lparr>ctx_requested_for = None, ctx_item = None, ctx_ticket = Some (blank_ticket\<lparr>tk_id := 9\<rparr>), ctx_cis = [],
     ctx_coowner_groups = [], ctx_task_groups = [example_teams ! 1], ctx_change_type = Some ''Normal'', ctx_needs_ccb = False\<rparr>"

theorem build_stages_startable_witness:
  "\<exists>stages c s'. build_stages example_route_db (Some example_policy) example_context [] = Inr stages
     \<and> create_approval_chain ''Change'' ''ticket'' 9 stages None None example_route_db = Inr (c, s') \<and> ch_state c = ''Running''"
proof -
  have "case build_stages example_route_db (Some example_policy) example_context [] of Inl e \<Rightarrow> False | Inr b \<Rightarrow> True" by code_simp
  then obtain stages where run: "build_stages example_route_db (Some example_policy) example_context [] = Inr stages"
    by (auto split: sum.splits)
  have "list_all (\<lambda>u. u_id u \<noteq> 0) (db_users example_route_db)" by code_simp
  from build_stages_startable [OF run this, of "''Change''" "''ticket''" 9 None None] run show ?thesis by auto
qed

text \<open>
  One person can still be asked twice: when a team assessment can be given by any of several people and
  a later team has one of them as its only manager, both stages name that person, although the default
  change policy describes its route with the words that nobody is asked twice.
\<close>

theorem person_asked_twice:
  "case build_stages example_route_db (Some example_policy) example_context [] of
     Inl e \<Rightarrow> False
   | Inr stages \<Rightarrow> map stg_approver_ids stages = [[8, 9], [8]] \<and> map stg_mode stages = [Some ''any'', Some ''all'']"
  by code_simp

end
