(* ===== verification/Policy_Administration.thy ===== *)
theory Policy_Administration
  imports Approval_Policies "HOL-Library.Multiset"
begin

text \<open>
  The administration of approval policies (\<^verbatim>\<open>serviceops_core/approval_policies.py\<close>): the default policies a
  tenant starts with, the choice of the policy for a record, and the operations that change policies and their
  ordered stages. A submitted form is an association list of field names and values.
\<close>

section \<open>Default policies\<close>

definition default_stage :: "nat \<Rightarrow> string \<Rightarrow> string \<Rightarrow> string \<Rightarrow> approval_policy_stage" where
  "default_stage position name source mode =
     \<lparr>st_id = 0, st_tenant_id = 0, st_position = position, st_name = name, st_source = source, st_group_id = None,
      st_role_filter = None, st_include_manager = False, st_authority = None, st_user_ids_json = Some (JList []),
      st_mode = mode, st_condition = ''always'', st_fallback = ''none'', st_skip_duplicates = True\<rparr>"

definition named_group :: "db \<Rightarrow> nat \<Rightarrow> string \<Rightarrow> nat option" where
  "named_group s tenant_id name =
     map_option g_id (find (\<lambda>g. g_tenant_id g = tenant_id \<and> g_name g = name) (db_groups s))"

definition change_stages :: "nat option \<Rightarrow> nat option \<Rightarrow> approval_policy_stage list" where
  "change_stages ccb executive =
     (let once = (\<lambda>st. st\<lparr>st_skip_duplicates := False\<rparr>) in
      [once (default_stage 0 ''{team} manager assessment'' ''owning_team_manager'' ''any''),
       once (default_stage 1 ''{team} manager assessment (CI owner)'' ''ci_owner_team_managers'' ''any''),
       once (default_stage 2 ''CI owner approval'' ''ci_owners'' ''all''),
       once (default_stage 3 ''{team} manager assessment (service co-owner)'' ''service_coowner_team_managers'' ''any''),
       once (default_stage 4 ''{team} manager approval (change task)'' ''task_team_managers'' ''any''),
       once (default_stage 5 ''CCB authorization'' ''group'' ''any'')\<lparr>st_group_id := ccb, st_role_filter := Some ''CCB approver'',
         st_authority := Some ''ccb'', st_condition := ''ccb_required_normal''\<rparr>,
       once (default_stage 6 ''Emergency CCB authorization (expedited)'' ''group'' ''any'')\<lparr>st_group_id := ccb,
         st_role_filter := Some ''CCB approver'', st_authority := Some ''ccb'', st_condition := ''ccb_required_emergency''\<rparr>,
       once (default_stage 7 ''Executive (CEO) approval'' ''group'' ''group_mode'')\<lparr>st_group_id := executive,
         st_role_filter := Some ''executive approver'', st_include_manager := True, st_authority := Some ''executive'',
         st_condition := ''ccb_required''\<rparr>])"

text \<open>Kind of record, name, whether it is the default, description, stages.\<close>

definition default_definitions :: "db \<Rightarrow> nat \<Rightarrow> (string \<times> string \<times> bool \<times> string \<times> approval_policy_stage list) list" where
  "default_definitions s tenant_id =
     [(''catalog'', ''Line manager, then fulfilment team'', True,
       ''The requester's line manager approves, then the manager of the team that fulfils the item (its catalog routing). A stage is skipped when it would ask the same person again.'',
       [(default_stage 0 ''Line manager approval'' ''line_manager'' ''all'')\<lparr>st_fallback := ''skip''\<rparr>,
        (default_stage 1 ''Fulfilment team authorization'' ''request_team_manager'' ''any'')\<lparr>st_fallback := ''team_members''\<rparr>]),
      (''catalog'', ''Line manager only'', False, ''Only the requester's line manager approves.'',
       [default_stage 0 ''Line manager approval'' ''line_manager'' ''all'']),
      (''change'', ''Change authorization'', True,
       ''The owning team's manager, the managers of other teams owning affected CIs, the owners of the affected CIs (each person once), the managers of teams sharing an affected service or assigned a change task, then for non-standard changes that need CCB review one CCB approver and the executive. Nobody is asked twice.'',
       change_stages (named_group s tenant_id ''Change Control Board'') (named_group s tenant_id ''Executive Office'')),
      (''enterprise'', ''Enterprise record approval'', True,
       ''Anyone in the groups linked to the enterprise approval authority; if none are linked, the first active administrator. One decision settles it.'',
       [(default_stage 0 ''Enterprise record approval'' ''authority'' ''any'')\<lparr>st_authority := Some ''enterprise'',
         st_skip_duplicates := False, st_fallback := ''first_administrator''\<rparr>])]"

definition all_stages :: "db \<Rightarrow> approval_policy_stage list" where
  "all_stages s = concat (map po_stages (db_policies s))"

fun keyed_stages :: "nat \<Rightarrow> nat \<Rightarrow> approval_policy_stage list \<Rightarrow> approval_policy_stage list" where
  "keyed_stages i tenant_id [] = []"
| "keyed_stages i tenant_id (stage # stages) =
     stage\<lparr>st_id := i, st_tenant_id := tenant_id\<rparr> # keyed_stages (Suc i) tenant_id stages"

definition add_default_policy ::
    "nat \<Rightarrow> string list \<Rightarrow> (string \<times> string \<times> bool \<times> string \<times> approval_policy_stage list) \<Rightarrow> db \<Rightarrow> db" where
  "add_default_policy tenant_id have' d s =
     (let (applies_to, name, is_default, description, stages) = d in
      if applies_to \<in> set have' then s
      else s\<lparr>db_policies := db_policies s @
        [\<lparr>po_id = next_id po_id (db_policies s), po_tenant_id = tenant_id, po_name = name, po_description = description,
          po_applies_to = applies_to, po_is_default = is_default, po_active = True, po_updated_by_id = None,
          po_updated_at = db_clock s, po_stages = keyed_stages (next_id st_id (all_stages s)) tenant_id stages\<rparr>]\<rparr>)"

definition ensure_defaults :: "nat \<Rightarrow> db \<Rightarrow> db" where
  "ensure_defaults tenant_id s =
     (let have' = map po_applies_to (filter (\<lambda>p. po_tenant_id p = tenant_id) (db_policies s))
      in fold (add_default_policy tenant_id have') (default_definitions s tenant_id) s)"

definition default_policy :: "nat \<Rightarrow> string \<Rightarrow> db \<Rightarrow> approval_policy option \<times> db" where
  "default_policy tenant_id applies_to s =
     (let s = ensure_defaults tenant_id s in
      (find (\<lambda>p. po_tenant_id p = tenant_id \<and> po_applies_to p = applies_to \<and> po_is_default p \<and> po_active p) (db_policies s), s))"

definition policy_for_catalog_item :: "catalog_item \<Rightarrow> db \<Rightarrow> approval_policy option \<times> db" where
  "policy_for_catalog_item item s =
     (case Option.bind (cat_approval_policy_id item) (\<lambda>i. get_row po_id i (db_policies s)) of
        Some policy \<Rightarrow>
          if po_active policy \<and> po_tenant_id policy = cat_tenant_id item \<and> po_applies_to policy = ''catalog''
          then (Some policy, s) else default_policy (cat_tenant_id item) ''catalog'' s
      | None \<Rightarrow> default_policy (cat_tenant_id item) ''catalog'' s)"

section \<open>Policies\<close>

type_synonym form = "(string \<times> string) list"

definition APPLIES_TO :: "string list" where
  "APPLIES_TO = [''catalog'', ''change'', ''enterprise'']"

definition MODES :: "string list" where
  "MODES = [''any'', ''all'', ''majority'', ''group_mode'']"

definition CONDITIONS :: "(string \<times> string list) list" where
  "CONDITIONS = [(''always'', [''catalog'', ''change'', ''enterprise'']), (''standard'', [''change'']), (''normal'', [''change'']),
     (''emergency'', [''change'']), (''non_standard'', [''change'']), (''ccb_required'', [''change'']),
     (''ccb_required_normal'', [''change'']), (''ccb_required_emergency'', [''change''])]"

definition FALLBACKS :: "string list" where
  "FALLBACKS = [''none'', ''skip'', ''team_members'', ''first_administrator'', ''all_administrators'']"

definition AUTHORITIES :: "string list" where
  "AUTHORITIES = [''ccb'', ''executive'', ''enterprise'']"

definition require_admin :: "db \<Rightarrow> user \<Rightarrow> unit result" where
  "require_admin s user' =
     (if role_at_least (effective_role s user') ''admin'' then Inr ()
      else Inl (Abort 403 ''Only administrators can change approval policies.''))"

definition policy_audit :: "string \<Rightarrow> string \<Rightarrow> string \<Rightarrow> user \<Rightarrow> db \<Rightarrow> db" where
  "policy_audit action target details actor = audit action target details (Some (u_id actor)) (Some (u_tenant_id actor))"

definition save_policy ::
    "user \<Rightarrow> string \<Rightarrow> string option \<Rightarrow> string option \<Rightarrow> approval_policy option \<Rightarrow> db \<Rightarrow> (approval_policy \<times> db) result" where
  "save_policy actor applies_to name description policy s =
     bindE (require_admin s actor) (\<lambda>_.
       if applies_to \<notin> set APPLIES_TO then Inl (Abort 400 ''Choose what the policy applies to.'')
       else let name = strip (opt [] name) in
         if \<not> (0 < length name \<and> length name \<le> 120) then Inl (Abort 400 ''A policy name has 1 to 120 characters.'')
         else if (case find (\<lambda>p. po_tenant_id p = u_tenant_id actor \<and> po_applies_to p = applies_to \<and> lower (po_name p) = lower name)
                    (db_policies s) of
                    None \<Rightarrow> False
                  | Some clash \<Rightarrow> (case policy of None \<Rightarrow> True | Some p \<Rightarrow> po_id clash \<noteq> po_id p))
           then Inl (Abort 409 ''A policy of this name already exists.'')
         else let
           fresh = \<lparr>po_id = next_id po_id (db_policies s), po_tenant_id = u_tenant_id actor, po_name = [], po_description = [],
             po_applies_to = applies_to, po_is_default = False, po_active = True, po_updated_by_id = None,
             po_updated_at = db_clock s, po_stages = []\<rparr>;
           p = (case policy of None \<Rightarrow> fresh | Some p \<Rightarrow> p)\<lparr>po_name := name, po_description := take 5000 (strip (opt [] description)),
             po_updated_by_id := Some (u_id actor), po_updated_at := db_clock s\<rparr>;
           s = s\<lparr>db_policies := (case policy of None \<Rightarrow> db_policies s @ [p] | Some _ \<Rightarrow> put_row po_id p (db_policies s))\<rparr>
         in Inr (p, policy_audit ''approval policy saved'' name (''applies to '' @ applies_to) actor s))"

text \<open>
  The bulk update clears the flag of every policy of the kind behind the back of the loaded row; the assignment
  \<^verbatim>\<open>policy.is_default = True\<close> is written only when it changes the loaded value, so a policy that was the default already
  stays cleared.
\<close>

definition set_default :: "user \<Rightarrow> approval_policy \<Rightarrow> db \<Rightarrow> db result" where
  "set_default actor policy s =
     bindE (require_admin s actor) (\<lambda>_.
       if \<not> po_active policy then Inl (Abort 409 ''Activate the policy before making it the default.'')
       else if po_stages policy = [] then Inl (Abort 409 ''Add at least one stage before making the policy the default.'')
       else let
         s = s\<lparr>db_policies := upd_rows (\<lambda>p. po_tenant_id p = po_tenant_id policy \<and> po_applies_to p = po_applies_to policy)
           (\<lambda>p. p\<lparr>po_is_default := False\<rparr>) (db_policies s)\<rparr>;
         s = (if po_is_default policy then s
              else s\<lparr>db_policies := put_row po_id (policy\<lparr>po_is_default := True\<rparr>) (db_policies s)\<rparr>)
       in Inr (policy_audit ''approval policy default'' (po_name policy) (po_applies_to policy) actor s))"

definition set_active :: "user \<Rightarrow> approval_policy \<Rightarrow> bool \<Rightarrow> db \<Rightarrow> db result" where
  "set_active actor policy active s =
     bindE (require_admin s actor) (\<lambda>_.
       if \<not> active \<and> po_is_default policy then Inl (Abort 409 ''Choose another default before deactivating this policy.'')
       else Inr (policy_audit (if active then ''approval policy activated'' else ''approval policy deactivated'') (po_name policy) [] actor
              (s\<lparr>db_policies := put_row po_id (policy\<lparr>po_active := active\<rparr>) (db_policies s)\<rparr>)))"

definition delete_policy :: "user \<Rightarrow> approval_policy \<Rightarrow> db \<Rightarrow> db result" where
  "delete_policy actor policy s =
     bindE (require_admin s actor) (\<lambda>_.
       if po_is_default policy then Inl (Abort 409 ''Choose another default before deleting this policy.'')
       else let
         s = s\<lparr>db_catalog_items := upd_rows (\<lambda>c. cat_approval_policy_id c = Some (po_id policy))
               (\<lambda>c. c\<lparr>cat_approval_policy_id := None\<rparr>) (db_catalog_items s)\<rparr>;
         s = policy_audit ''approval policy deleted'' (po_name policy) (po_applies_to policy) actor s
       in Inr (s\<lparr>db_policies := filter (\<lambda>p. po_id p \<noteq> po_id policy) (db_policies s)\<rparr>))"

section \<open>Stages\<close>

definition form_flag :: "form \<Rightarrow> string \<Rightarrow> bool" where
  "form_flag f k \<longleftrightarrow> opt [] (map_of f k) \<in> set [''1'', ''on'', ''true'']"

definition form_or :: "form \<Rightarrow> string \<Rightarrow> string \<Rightarrow> string" where
  "form_or f k d = opt d (or_str (map_of f k) (Some d))"

definition chosen_group :: "db \<Rightarrow> nat \<Rightarrow> form \<Rightarrow> string \<Rightarrow> nat option result" where
  "chosen_group s tenant_id f source =
     (if Option.bind (map_of SOURCES source) snd \<noteq> Some ''group'' then Inr None
      else (case Option.bind (map_of f ''group_id'') int_of_str of
          None \<Rightarrow> Inl (Abort 400 ''Choose a group.'')
        | Some i \<Rightarrow>
            if list_ex (\<lambda>g. int (g_id g) = i \<and> g_tenant_id g = tenant_id) (db_groups s) then Inr (Some (nat i))
            else Inl (Abort 400 ''Choose a group of this organisation.'')))"

definition chosen_users :: "db \<Rightarrow> nat \<Rightarrow> form \<Rightarrow> string \<Rightarrow> nat list result" where
  "chosen_users s tenant_id f source =
     (if source \<noteq> ''users'' then Inr []
      else let ids = map digits_value (filter (\<lambda>v. v \<noteq> [] \<and> list_all is_digit v
             \<and> list_ex (\<lambda>u. u_id u = digits_value v \<and> u_tenant_id u = tenant_id) (db_users s))
             (map snd (filter (\<lambda>(k, _). k = ''user_ids'') f)))
           in if ids = [] then Inl (Abort 400 ''Choose at least one person.'') else Inr ids)"

definition check_stage_form :: "approval_policy \<Rightarrow> form \<Rightarrow> bool \<Rightarrow> unit result" where
  "check_stage_form policy f creating =
     (let name = strip (form_or f ''name'' []); kind = po_applies_to policy;
          source = opt [] (map_of f ''source''); mode = form_or f ''mode'' ''any'';
          condition = form_or f ''condition'' ''always''; fallback = form_or f ''fallback'' ''none'' in
      if \<not> (0 < length name \<and> length name \<le> 160) then Inl (Abort 400 ''A stage name has 1 to 160 characters.'')
      else if (case map_of SOURCES source of None \<Rightarrow> True | Some (kinds, _) \<Rightarrow> kind \<notin> set kinds)
        then Inl (Abort 400 ''Choose where approvers come from.'')
      else if mode \<notin> set MODES then Inl (Abort 400 ''Choose how approvers decide.'')
      else if (case map_of CONDITIONS condition of None \<Rightarrow> True | Some kinds \<Rightarrow> kind \<notin> set kinds)
        then Inl (Abort 400 ''Choose when the stage applies.'')
      else if fallback \<notin> set FALLBACKS then Inl (Abort 400 ''Choose a fallback.'')
      else if kind = ''enterprise'' \<and> creating \<and> po_stages policy \<noteq> []
        then Inl (Abort 409 ''Enterprise record approvals have a single stage.'')
      else Inr ())"

definition next_position :: "approval_policy \<Rightarrow> nat" where
  "next_position policy = (if po_stages policy = [] then 0 else Suc (foldr max (map st_position (po_stages policy)) 0))"

definition edited_stage ::
    "form \<Rightarrow> string \<Rightarrow> nat option \<Rightarrow> string option \<Rightarrow> nat list \<Rightarrow> approval_policy_stage \<Rightarrow> approval_policy_stage" where
  "edited_stage f source group_id authority user_ids stage =
     (let role_filter = take 60 (strip (form_or f ''role_filter'' [])) in
      stage\<lparr>st_name := strip (form_or f ''name'' []), st_source := source,
        st_mode := form_or f ''mode'' ''any'', st_condition := form_or f ''condition'' ''always'',
        st_fallback := form_or f ''fallback'' ''none'', st_group_id := group_id,
        st_role_filter := (if group_id \<noteq> None \<and> role_filter \<noteq> [] then Some role_filter else None),
        st_include_manager := form_flag f ''include_manager'',
        st_authority := (if source \<in> set [''group'', ''authority''] then authority else None),
        st_user_ids_json := Some (JList (map (\<lambda>i. JInt (int i)) user_ids)),
        st_skip_duplicates := form_flag f ''skip_duplicates''\<rparr>)"

lemma edited_stage_keeps [simp]:
  "st_id (edited_stage f source g a us stage) = st_id stage"
  "st_position (edited_stage f source g a us stage) = st_position stage"
  by (simp_all add: edited_stage_def Let_def)

definition save_stage ::
    "user \<Rightarrow> approval_policy \<Rightarrow> form \<Rightarrow> approval_policy_stage option \<Rightarrow> db \<Rightarrow> (approval_policy_stage \<times> db) result" where
  "save_stage actor policy f stage s =
     bindE (require_admin s actor) (\<lambda>_.
     bindE (check_stage_form policy f (stage = None)) (\<lambda>_.
     let source = opt [] (map_of f ''source'') in
     bindE (chosen_group s (po_tenant_id policy) f source) (\<lambda>group_id.
     let authority = (if truthy (map_of f ''authority'') then map_of f ''authority'' else None) in
     if (case authority of None \<Rightarrow> False | Some a \<Rightarrow> a \<notin> set AUTHORITIES) then Inl (Abort 400 ''Choose an approval authority.'')
     else if source = ''authority'' \<and> authority = None then Inl (Abort 400 ''Choose an approval authority.'')
     else bindE (chosen_users s (po_tenant_id policy) f source) (\<lambda>user_ids.
     let fresh = (default_stage (next_position policy) [] [] [])\<lparr>st_id := next_id st_id (all_stages s), st_tenant_id := po_tenant_id policy\<rparr>;
         st = edited_stage f source group_id authority user_ids (case stage of None \<Rightarrow> fresh | Some st \<Rightarrow> st);
         stages = (case stage of None \<Rightarrow> po_stages policy @ [st] | Some _ \<Rightarrow> put_row st_id st (po_stages policy));
         s = s\<lparr>db_policies := put_row po_id (policy\<lparr>po_stages := stages, po_updated_by_id := Some (u_id actor),
               po_updated_at := db_clock s\<rparr>) (db_policies s)\<rparr>
     in Inr (st, policy_audit ''approval policy stage saved'' (po_name policy) (st_name st) actor s)))))"

definition put_position :: "nat \<Rightarrow> approval_policy_stage \<Rightarrow> approval_policy_stage" where
  "put_position i stage = stage\<lparr>st_position := i\<rparr>"

definition save_stages :: "approval_policy \<Rightarrow> approval_policy_stage list \<Rightarrow> db \<Rightarrow> db" where
  "save_stages policy stages s = s\<lparr>db_policies := put_row po_id (policy\<lparr>po_stages := stages\<rparr>) (db_policies s)\<rparr>"

definition delete_stage :: "user \<Rightarrow> approval_policy \<Rightarrow> approval_policy_stage \<Rightarrow> db \<Rightarrow> db result" where
  "delete_stage actor policy stage s =
     bindE (require_admin s actor) (\<lambda>_.
       if length (po_stages policy) \<le> 1 \<and> po_is_default policy then Inl (Abort 409 ''The default policy needs at least one stage.'')
       else let s = policy_audit ''approval policy stage deleted'' (po_name policy) (st_name stage) actor s
       in Inr (save_stages policy
            (renumber put_position (sort_key st_position (filter (\<lambda>st. st_id st \<noteq> st_id stage) (po_stages policy)))) s))"

text \<open>The index of a row in the ordered list; \<^verbatim>\<open>list.index\<close> raises when it is missing.\<close>

fun row_index :: "('r \<Rightarrow> nat) \<Rightarrow> nat \<Rightarrow> 'r list \<Rightarrow> nat option" where
  "row_index key i [] = None"
| "row_index key i (r # rows) = (if key r = i then Some 0 else map_option Suc (row_index key i rows))"

definition move_stage :: "user \<Rightarrow> approval_policy \<Rightarrow> approval_policy_stage \<Rightarrow> string \<Rightarrow> db \<Rightarrow> db result" where
  "move_stage actor policy stage direction s =
     bindE (require_admin s actor) (\<lambda>_.
       let ordered = sort_key st_position (po_stages policy) in
       case row_index st_id (st_id stage) ordered of
         None \<Rightarrow> Inl (ValueError ''not in list'')
       | Some index \<Rightarrow>
           if (direction = ''up'' \<and> index = 0) \<or> (direction \<noteq> ''up'' \<and> Suc index \<ge> length ordered) then Inr s
           else let other = (if direction = ''up'' then index - 1 else Suc index)
                in Inr (policy_audit ''approval policy stage moved'' (po_name policy) (st_name stage @ '' '' @ direction) actor
                     (save_stages policy (renumber put_position (swap_nth index other ordered)) s)))"

interpretation stage_list: positioned st_position put_position st_id
  by unfold_locales (simp_all add: put_position_def)

section \<open>The stages of a policy form a list\<close>

text \<open>
  What an administrator sees of a policy is the list of its stages; positions are only how the list is stored.
  The abstract operations on that list are appending, removing, and exchanging with a neighbour.
\<close>

definition stage_order :: "approval_policy \<Rightarrow> nat list" where
  "stage_order policy = map st_id (policy_stages policy)"

fun move_up :: "'a \<Rightarrow> 'a list \<Rightarrow> 'a list" where
  "move_up x (a # b # rest) = (if a = x then a # b # rest else if b = x then b # a # rest else a # move_up x (b # rest))"
| "move_up x xs = xs"

fun move_down :: "'a \<Rightarrow> 'a list \<Rightarrow> 'a list" where
  "move_down x (a # b # rest) = (if a = x then b # a # rest else a # move_down x (b # rest))"
| "move_down x xs = xs"

lemma swap_nth_Cons: "swap_nth (Suc i) (Suc j) (x # xs) = x # swap_nth i j xs"
  by (simp add: swap_nth_def)

lemma move_down_swap:
  "row_index key i xs = Some k \<Longrightarrow> Suc k < length xs \<Longrightarrow> map key (swap_nth k (Suc k) xs) = move_down i (map key xs)"
proof (induction xs arbitrary: k)
  case (Cons x xs)
  then obtain y ys where xs: "xs = y # ys" by (cases xs) auto
  show ?case
  proof (cases "key x = i")
    case True
    with Cons.prems show ?thesis by (simp add: xs swap_nth_def)
  next
    case False
    then obtain k' where k': "k = Suc k'" "row_index key i xs = Some k'" using Cons.prems by auto
    with Cons False show ?thesis by (simp add: swap_nth_Cons) (simp add: xs)
  qed
qed simp

lemma move_up_swap:
  "row_index key i xs = Some (Suc k) \<Longrightarrow> map key (swap_nth (Suc k) k xs) = move_up i (map key xs)"
proof (induction xs arbitrary: k)
  case (Cons x xs)
  then obtain k' where x: "key x \<noteq> i" "row_index key i xs = Some k" by (auto split: if_splits)
  then obtain y ys where xs: "xs = y # ys" by (cases xs) auto
  show ?case
  proof (cases k)
    case 0
    with x show ?thesis by (simp add: xs swap_nth_def split: if_splits)
  next
    case (Suc j)
    with Cons.IH [of j] x show ?thesis by (simp add: swap_nth_Cons) (auto simp: xs split: if_splits)
  qed
qed simp

lemma move_end:
  "row_index key i xs = Some k \<Longrightarrow> Suc k \<ge> length xs \<Longrightarrow> move_down i (map key xs) = map key xs"
  "row_index key i xs = Some 0 \<Longrightarrow> move_up i (map key xs) = map key xs"
proof -
  show "row_index key i xs = Some k \<Longrightarrow> Suc k \<ge> length xs \<Longrightarrow> move_down i (map key xs) = map key xs"
  proof (induction xs arbitrary: k)
    case (Cons x xs)
    then show ?case by (cases xs) (auto split: if_splits)
  qed simp
  show "row_index key i xs = Some 0 \<Longrightarrow> move_up i (map key xs) = map key xs"
    by (cases xs; cases "tl xs") (auto split: if_splits)
qed

lemma row_index_bound: "row_index key i xs = Some k \<Longrightarrow> k < length xs"
  by (induction xs arbitrary: k) (auto split: if_splits)

lemma stage_order_renumbered:
  "stage_order (policy\<lparr>po_stages := renumber put_position stages\<rparr>) = map st_id stages"
proof -
  have "sort_key st_position (renumber put_position stages) = renumber put_position stages"
    by (rule sort_key_id_if_sorted) (rule stage_list.renumber_sorted)
  then show ?thesis by (simp add: stage_order_def policy_stages_def stage_list.map_ident_renumber)
qed

lemma sort_key_snoc:
  assumes "\<And>y. y \<in> set xs \<Longrightarrow> key y < (key x :: nat)"
  shows "sort_key key (xs @ [x]) = sort_key key xs @ [x]"
proof (rule properties_for_sort_key)
  show "mset (sort_key key xs @ [x]) = mset (xs @ [x])" by simp
  show "sorted (map key (sort_key key xs @ [x]))" using assms by (auto simp: sorted_append intro: less_imp_le)
  show "filter (\<lambda>y. key k = key y) (sort_key key xs @ [x]) = filter (\<lambda>y. key k = key y) (xs @ [x])" for k
    using sort_key_stable [of key "key k" xs] by (simp add: eq_commute)
qed

lemma next_position_above: "st \<in> set (po_stages policy) \<Longrightarrow> st_position st < next_position policy"
  using le_foldr_max [of "st_position st" "map st_position (po_stages policy)"] by (auto simp: next_position_def less_Suc_eq_le)

text \<open>
  C22. The stored positions implement the list of stages: deleting a stage removes it from the list, moving
  one exchanges it with its neighbour and leaves it alone at the end of the list, and a new stage is
  appended; the other stages keep their order.
\<close>

theorem stage_order_refines:
  assumes row: "get_row po_id (po_id policy) (db_policies s) = Some policy"
  shows "(delete_stage actor policy stage s = Inr s' \<longrightarrow>
        (\<exists>p. get_row po_id (po_id policy) (db_policies s') = Some p \<and> stage_order p = filter (\<lambda>i. i \<noteq> st_id stage) (stage_order policy)))
    \<and> (move_stage actor policy stage direction s = Inr s' \<longrightarrow>
        (\<exists>p. get_row po_id (po_id policy) (db_policies s') = Some p
          \<and> stage_order p = (if direction = ''up'' then move_up else move_down) (st_id stage) (stage_order policy)))
    \<and> (save_stage actor policy f None s = Inr (st, s') \<longrightarrow>
        (\<exists>p. get_row po_id (po_id policy) (db_policies s') = Some p \<and> stage_order p = stage_order policy @ [st_id st]))"
proof (intro conjI impI)
  have saved: "get_row po_id (po_id policy) (put_row po_id (policy\<lparr>po_stages := stages\<rparr>) (db_policies s)) = Some (policy\<lparr>po_stages := stages\<rparr>)"
    for stages using row by (simp add: get_put_row)
  have removed: "stage_order (policy\<lparr>po_stages := renumber put_position (sort_key st_position
      (filter (\<lambda>st. st_id st \<noteq> st_id stage) (po_stages policy)))\<rparr>) = filter (\<lambda>i. i \<noteq> st_id stage) (stage_order policy)"
    unfolding stage_order_renumbered by (simp add: stage_order_def policy_stages_def filter_sort filter_map o_def)
  {
    assume "delete_stage actor policy stage s = Inr s'"
    then have "db_policies s' = put_row po_id (policy\<lparr>po_stages :=
        renumber put_position (sort_key st_position (filter (\<lambda>st. st_id st \<noteq> st_id stage) (po_stages policy)))\<rparr>) (db_policies s)"
      by (auto simp: delete_stage_def bindE_Inr_iff save_stages_def policy_audit_def Let_def split: if_splits)
    then show "\<exists>p. get_row po_id (po_id policy) (db_policies s') = Some p \<and> stage_order p = filter (\<lambda>i. i \<noteq> st_id stage) (stage_order policy)"
      using removed by (simp add: saved)
  }
  {
    assume "move_stage actor policy stage direction s = Inr s'"
    then obtain k where k: "row_index st_id (st_id stage) (policy_stages policy) = Some k"
      and s': "((direction = ''up'' \<and> k = 0) \<or> (direction \<noteq> ''up'' \<and> Suc k \<ge> length (policy_stages policy))) \<and> s' = s
        \<or> \<not> ((direction = ''up'' \<and> k = 0) \<or> (direction \<noteq> ''up'' \<and> Suc k \<ge> length (policy_stages policy)))
          \<and> db_policies s' = put_row po_id (policy\<lparr>po_stages := renumber put_position
              (swap_nth k (if direction = ''up'' then k - 1 else Suc k) (policy_stages policy))\<rparr>) (db_policies s)"
      by (auto simp: move_stage_def bindE_Inr_iff save_stages_def policy_audit_def Let_def policy_stages_def split: option.splits if_splits)
    have "map st_id (swap_nth k (if direction = ''up'' then k - 1 else Suc k) (policy_stages policy)) =
        (if direction = ''up'' then move_up else move_down) (st_id stage) (stage_order policy)"
      if "\<not> ((direction = ''up'' \<and> k = 0) \<or> (direction \<noteq> ''up'' \<and> Suc k \<ge> length (policy_stages policy)))"
      using that move_down_swap [OF k] move_up_swap [of st_id "st_id stage" "policy_stages policy" "k - 1"] k
      by (auto simp: stage_order_def)
    with s' move_end [of st_id "st_id stage" "policy_stages policy", folded stage_order_def] k row
    show "\<exists>p. get_row po_id (po_id policy) (db_policies s') = Some p
          \<and> stage_order p = (if direction = ''up'' then move_up else move_down) (st_id stage) (stage_order policy)"
      by (auto simp: saved stage_order_renumbered)
  }
  {
    assume "save_stage actor policy f None s = Inr (st, s')"
    then obtain upd where upd: "db_policies s' = put_row po_id (policy\<lparr>po_stages := po_stages policy @ [st], po_updated_by_id := Some (u_id actor),
               po_updated_at := db_clock s\<rparr>) (db_policies s)" "st_position st = next_position policy"
      by (auto simp: save_stage_def bindE_Inr_iff policy_audit_def Let_def default_stage_def split: if_splits)
    then show "\<exists>p. get_row po_id (po_id policy) (db_policies s') = Some p \<and> stage_order p = stage_order policy @ [st_id st]"
      using row next_position_above [of _ policy]
      by (simp add: get_put_row stage_order_def policy_stages_def sort_key_snoc)
  }
qed

theorem stage_order_refines_witness:
  "\<exists>s' p. move_stage (blank_user\<lparr>u_id := 8, u_role := ''admin'', u_active := True\<rparr>) example_policy (example_stage 1 ''owning_team_manager'') ''down''
       (empty_db\<lparr>db_policies := [example_policy]\<rparr>) = Inr s'
     \<and> get_row po_id 2 (db_policies s') = Some p \<and> stage_order p = [2, 1]"
proof -
  let ?u = "blank_user\<lparr>u_id := 8, u_role := ''admin'', u_active := True\<rparr>" and ?st = "example_stage 1 ''owning_team_manager''"
  let ?s = "empty_db\<lparr>db_policies := [example_policy]\<rparr>"
  have "case move_stage ?u example_policy ?st ''down'' ?s of Inl e \<Rightarrow> False | Inr s' \<Rightarrow> True" by code_simp
  then obtain s' where run: "move_stage ?u example_policy ?st ''down'' ?s = Inr s'" by (auto split: sum.splits)
  have row: "get_row po_id (po_id example_policy) (db_policies ?s) = Some example_policy" by code_simp
  have eq: "move_down (st_id ?st) (stage_order example_policy) = [2, 1]" "po_id example_policy = 2" by code_simp+
  from stage_order_refines [OF row, of ?u ?st s' "''down''" "[]" undefined] run eq show ?thesis by auto
qed

section \<open>One default policy per kind of record\<close>

definition same_kind :: "approval_policy \<Rightarrow> approval_policy \<Rightarrow> bool" where
  "same_kind p q \<longleftrightarrow> po_tenant_id p = po_tenant_id q \<and> po_applies_to p = po_applies_to q"

definition policies_ok :: "db \<Rightarrow> bool" where
  "policies_ok s \<longleftrightarrow> distinct (map po_id (db_policies s))
     \<and> (\<forall>p \<in> set (db_policies s). po_is_default p \<longrightarrow> po_active p \<and> po_stages p \<noteq> [])
     \<and> (\<forall>p \<in> set (db_policies s). \<forall>q \<in> set (db_policies s). po_is_default p \<and> po_is_default q \<and> same_kind p q \<longrightarrow> po_id p = po_id q)"

lemma policies_okD:
  assumes "policies_ok s"
  shows "distinct (map po_id (db_policies s))"
    and "p \<in> set (db_policies s) \<Longrightarrow> po_is_default p \<Longrightarrow> po_active p \<and> po_stages p \<noteq> []"
    and "p \<in> set (db_policies s) \<Longrightarrow> q \<in> set (db_policies s) \<Longrightarrow> po_is_default p \<Longrightarrow> po_is_default q \<Longrightarrow> same_kind p q \<Longrightarrow> po_id p = po_id q"
  using assms unfolding policies_ok_def by blast+

definition has_default :: "db \<Rightarrow> nat \<Rightarrow> string \<Rightarrow> bool" where
  "has_default s tenant_id kind \<longleftrightarrow>
     list_ex (\<lambda>p. po_tenant_id p = tenant_id \<and> po_applies_to p = kind \<and> po_is_default p) (db_policies s)"

text \<open>An operation of the administration: it keeps the invariant and never loses a default.\<close>

definition policy_safe :: "db \<Rightarrow> db \<Rightarrow> bool" where
  "policy_safe s s' \<longleftrightarrow> (policies_ok s \<longrightarrow> policies_ok s' \<and> (\<forall>t k. has_default s t k \<longrightarrow> has_default s' t k))"

lemma policy_safe_same: "db_policies s' = db_policies s \<Longrightarrow> policy_safe s s'"
  by (simp add: policy_safe_def policies_ok_def has_default_def)

lemma policy_safe_map:
  assumes "db_policies s' = map f (db_policies s)"
    and keep: "\<And>r. r \<in> set (db_policies s) \<Longrightarrow> po_id (f r) = po_id r \<and> same_kind (f r) r \<and> po_is_default (f r) = po_is_default r
      \<and> (po_is_default r \<longrightarrow> po_active r \<and> po_stages r \<noteq> [] \<longrightarrow> po_active (f r) \<and> po_stages (f r) \<noteq> [])"
  shows "policy_safe s s'"
proof -
  have "map po_id (db_policies s') = map po_id (db_policies s)" using keep by (simp add: assms(1))
  moreover have "has_default s' t k" if "has_default s t k" for t k
    using that keep by (fastforce simp: has_default_def assms(1) list_ex_iff same_kind_def)
  moreover have "po_active p \<and> po_stages p \<noteq> []" if ok: "policies_ok s" "po_is_default p" and mem: "p \<in> set (db_policies s')" for p
  proof -
    obtain r where r: "r \<in> set (db_policies s)" "p = f r" using mem by (auto simp: assms(1))
    with keep [OF r(1)] ok(2) have "po_is_default r" by simp
    with r policies_okD(2) [OF ok(1)] keep [OF r(1)] show ?thesis by simp
  qed
  moreover have "po_id p = po_id q"
    if ok: "policies_ok s" and mem: "p \<in> set (db_policies s')" "q \<in> set (db_policies s')"
      and def: "po_is_default p" "po_is_default q" "same_kind p q" for p q
  proof -
    obtain r r' where r: "r \<in> set (db_policies s)" "p = f r" "r' \<in> set (db_policies s)" "q = f r'" using mem by (auto simp: assms(1))
    with keep [OF r(1)] keep [OF r(3)] def have "po_is_default r" "po_is_default r'" "same_kind r r'" by (simp_all add: same_kind_def)
    with r(1,3) have "po_id r = po_id r'" by (intro policies_okD(3) [OF ok])
    with keep [OF r(1)] keep [OF r(3)] r(2,4) show ?thesis by simp
  qed
  ultimately show ?thesis unfolding policy_safe_def policies_ok_def [of s'] using policies_okD(1) by metis
qed

lemma policy_safe_put:
  assumes "policies_ok s" and "p \<in> set (db_policies s)" and "db_policies s' = put_row po_id p' (db_policies s)"
    and p': "po_id p' = po_id p" "same_kind p' p" "po_is_default p' = po_is_default p"
      "po_is_default p \<Longrightarrow> po_active p \<and> po_stages p \<noteq> [] \<Longrightarrow> po_active p' \<and> po_stages p' \<noteq> []"
  shows "policy_safe s s'"
proof (rule policy_safe_map)
  show "db_policies s' = map (\<lambda>r. if po_id r = po_id p' then p' else r) (db_policies s)"
    using assms(3) by (simp add: put_row_def)
  have "r = p" if "r \<in> set (db_policies s)" "po_id r = po_id p" for r
    by (rule row_of_key [OF _ that(1) assms(2) that(2)]) (use assms(1) in \<open>simp add: policies_ok_def\<close>)
  then show "po_id (if po_id r = po_id p' then p' else r) = po_id r \<and> same_kind (if po_id r = po_id p' then p' else r) r
      \<and> po_is_default (if po_id r = po_id p' then p' else r) = po_is_default r
      \<and> (po_is_default r \<longrightarrow> po_active r \<and> po_stages r \<noteq> [] \<longrightarrow>
         po_active (if po_id r = po_id p' then p' else r) \<and> po_stages (if po_id r = po_id p' then p' else r) \<noteq> [])"
    if "r \<in> set (db_policies s)" for r
    using that p' by (auto simp: same_kind_def)
qed

lemma policy_safe_append:
  assumes "db_policies s' = db_policies s @ [p]" and "po_id p = next_id po_id (db_policies s)"
    and "po_is_default p \<Longrightarrow> po_active p \<and> po_stages p \<noteq> [] \<and> \<not> has_default s (po_tenant_id p) (po_applies_to p)"
  shows "policy_safe s s'"
proof -
  have fresh: "po_id p \<notin> po_id ` set (db_policies s)" unfolding assms(2) by (rule next_id_unused)
  have sole: "\<not> (po_is_default q \<and> same_kind p q)" if "po_is_default p" "q \<in> set (db_policies s)" for q
    using assms(3) that by (auto simp: has_default_def list_ex_iff same_kind_def)
  have sym: "same_kind q p = same_kind p q" for q by (auto simp: same_kind_def)
  have "policies_ok s'" if ok: "policies_ok s"
    unfolding policies_ok_def assms(1)
  proof (intro conjI ballI impI)
    show "distinct (map po_id (db_policies s @ [p]))" using policies_okD(1) [OF ok] fresh by simp
    show "po_active q" "po_stages q \<noteq> []" if "q \<in> set (db_policies s @ [p])" "po_is_default q" for q
      using policies_okD(2) [OF ok] that assms(3) by auto
    show "po_id q = po_id r" if "q \<in> set (db_policies s @ [p])" "r \<in> set (db_policies s @ [p])"
        "po_is_default q \<and> po_is_default r \<and> same_kind q r" for q r
    proof (cases "q = p \<or> r = p")
      case True
      then show ?thesis using that sole [of q] sole [of r] sym by auto
    next
      case False
      then show ?thesis using that by (intro policies_okD(3) [OF ok]) auto
    qed
  qed
  then show ?thesis by (simp add: policy_safe_def has_default_def assms(1))
qed

lemma policy_safe_trans: "policy_safe s s1 \<Longrightarrow> policy_safe s1 s' \<Longrightarrow> policy_safe s s'"
  by (simp add: policy_safe_def)

lemma keyed_stages_Nil [simp]: "keyed_stages i t stages = [] \<longleftrightarrow> stages = []"
  by (cases stages) simp_all

lemma add_default_policy_safe:
  assumes "is_default \<Longrightarrow> stages \<noteq> [] \<and> (kind \<notin> set have' \<longrightarrow> \<not> has_default s tenant_id kind)"
  shows "policy_safe s (add_default_policy tenant_id have' (kind, name, is_default, description, stages) s)"
    and "k \<noteq> kind \<or> \<not> is_default \<Longrightarrow> has_default (add_default_policy tenant_id have' (kind, name, is_default, description, stages) s) tenant_id k =
      has_default s tenant_id k"
proof -
  show "policy_safe s (add_default_policy tenant_id have' (kind, name, is_default, description, stages) s)"
  proof (cases "kind \<in> set have'")
    case True
    then show ?thesis by (simp add: add_default_policy_def policy_safe_same)
  next
    case False
    show ?thesis
      by (rule policy_safe_append) (use False assms in \<open>auto simp: add_default_policy_def\<close>)
  qed
qed (auto simp: add_default_policy_def has_default_def)

lemma ensure_defaults_safe: "policy_safe s (ensure_defaults tenant_id s)"
proof -
  define have' where "have' = map po_applies_to (filter (\<lambda>p. po_tenant_id p = tenant_id) (db_policies s))"
  have none: "\<not> has_default s tenant_id k" if "k \<notin> set have'" for k
    using that by (auto simp: have'_def has_default_def list_ex_iff)
  note step = add_default_policy_safe [where have' = have' and tenant_id = tenant_id]
  show ?thesis
    unfolding ensure_defaults_def have'_def [symmetric] Let_def default_definitions_def change_stages_def fold_simps
    by (rule policy_safe_trans [OF policy_safe_trans [OF policy_safe_trans [OF step(1) step(1)] step(1)] step(1)])
      (simp_all add: none step(2))
qed

lemma policy_audit_same [simp]: "db_policies (policy_audit a t d u s) = db_policies s"
  by (simp add: policy_audit_def)

lemma save_policy_safe:
  assumes ok: "policies_ok s" and run: "save_policy actor kind name d policy s = Inr (p, s')"
    and row: "\<And>q. policy = Some q \<Longrightarrow> q \<in> set (db_policies s)"
  shows "policy_safe s s'"
proof (cases policy)
  case None
  have "db_policies s' = db_policies s @ [p]" "po_id p = next_id po_id (db_policies s)" "\<not> po_is_default p"
    using run by (auto simp: save_policy_def None bindE_Inr_iff Let_def split: if_splits)
  then show ?thesis by (intro policy_safe_append) auto
next
  case (Some q)
  have "db_policies s' = put_row po_id p (db_policies s)" "po_id p = po_id q" "same_kind p q" "po_is_default p = po_is_default q"
      "po_active p = po_active q" "po_stages p = po_stages q"
    using run by (auto simp: save_policy_def Some bindE_Inr_iff Let_def same_kind_def split: if_splits)
  then show ?thesis by (intro policy_safe_put [OF ok row [OF Some], where p' = p]) simp_all
qed

lemma set_default_safe:
  assumes ok: "policies_ok s" and run: "set_default actor policy s = Inr s'" and row: "policy \<in> set (db_policies s)"
    and other: "\<not> po_is_default policy"
  shows "policy_safe s s'"
proof -
  define f where "f = (\<lambda>p. if po_id p = po_id policy then policy\<lparr>po_is_default := True\<rparr>
      else if same_kind p policy then p\<lparr>po_is_default := False\<rparr> else p)"
  have new: "db_policies s' = map f (db_policies s)" and act: "po_active policy" "po_stages policy \<noteq> []"
    using run other by (auto simp: set_default_def bindE_Inr_iff Let_def upd_rows_def put_row_def f_def same_kind_def split: if_splits)
  have keep: "po_id (f r) = po_id r" "same_kind (f r) r" if "r \<in> set (db_policies s)" for r
    using that row_of_key [OF policies_okD(1) [OF ok] that row] by (auto simp: f_def same_kind_def)
  have default: "po_is_default (f r) \<longleftrightarrow> po_id r = po_id policy \<or> po_is_default r \<and> \<not> same_kind r policy" for r
    by (simp add: f_def)
  have "policies_ok s'"
    unfolding policies_ok_def new
  proof (intro conjI ballI impI)
    have "map po_id (map f (db_policies s)) = map po_id (db_policies s)" using keep by simp
    then show "distinct (map po_id (map f (db_policies s)))" by (simp only: policies_okD(1) [OF ok])
    show "po_active p" "po_stages p \<noteq> []" if "p \<in> set (map f (db_policies s))" "po_is_default p" for p
      using that act policies_okD(2) [OF ok] by (auto simp: f_def split: if_splits)
    fix p q assume "p \<in> set (map f (db_policies s))" "q \<in> set (map f (db_policies s))" and d: "po_is_default p \<and> po_is_default q \<and> same_kind p q"
    then obtain r r' where r: "r \<in> set (db_policies s)" "p = f r" "r' \<in> set (db_policies s)" "q = f r'" by auto
    have kind: "same_kind r r'" using d r keep [OF r(1)] keep [OF r(3)] by (simp add: same_kind_def)
    have same: "same_kind x policy" if "x \<in> set (db_policies s)" "po_id x = po_id policy" for x
      using row_of_key [OF policies_okD(1) [OF ok] that(1) row that(2)] by (simp add: same_kind_def)
    have "po_id r = po_id r'"
    proof (cases "po_id r = po_id policy \<or> po_id r' = po_id policy")
      case True
      then show ?thesis using d r default kind same by (auto simp: same_kind_def)
    next
      case False
      then show ?thesis using d r default kind by (intro policies_okD(3) [OF ok]) auto
    qed
    then show "po_id p = po_id q" using keep r by simp
  qed
  moreover have "has_default s' t k" if "has_default s t k" for t k
  proof -
    obtain r where r: "r \<in> set (db_policies s)" "po_tenant_id r = t" "po_applies_to r = k" "po_is_default r"
      using \<open>has_default s t k\<close> by (auto simp: has_default_def list_ex_iff)
    have "\<exists>x \<in> set (db_policies s). po_tenant_id (f x) = t \<and> po_applies_to (f x) = k \<and> po_is_default (f x)"
    proof (cases "same_kind r policy")
      case True
      then show ?thesis using row r by (intro bexI [of _ policy]) (auto simp: f_def same_kind_def)
    next
      case False
      then show ?thesis using r keep [OF r(1)] default by (intro bexI [of _ r]) (auto simp: same_kind_def)
    qed
    then show ?thesis by (auto simp: has_default_def list_ex_iff new)
  qed
  ultimately show ?thesis by (simp add: policy_safe_def)
qed

text \<open>Choosing the default policy again takes the default away from its kind, and changes nothing else.\<close>

lemma set_default_again:
  assumes ok: "policies_ok s" and run: "set_default actor policy s = Inr s'" and row: "policy \<in> set (db_policies s)"
    and default: "po_is_default policy"
  shows "policies_ok s'" and "has_default s' t k \<longleftrightarrow> has_default s t k \<and> \<not> (t = po_tenant_id policy \<and> k = po_applies_to policy)"
proof -
  define f where "f = (\<lambda>p :: approval_policy. if po_tenant_id p = po_tenant_id policy \<and> po_applies_to p = po_applies_to policy then p\<lparr>po_is_default := False\<rparr> else p)"
  have new: "db_policies s' = map f (db_policies s)"
    using run default by (auto simp: set_default_def bindE_Inr_iff Let_def upd_rows_def f_def split: if_splits)
  have keep: "po_id (f r) = po_id r" "po_tenant_id (f r) = po_tenant_id r" "po_applies_to (f r) = po_applies_to r" "po_stages (f r) = po_stages r"
      "po_active (f r) = po_active r"
      "po_is_default (f r) \<longleftrightarrow> po_is_default r \<and> \<not> (po_tenant_id r = po_tenant_id policy \<and> po_applies_to r = po_applies_to policy)" for r
    by (simp_all add: f_def)
  have "distinct (map po_id (db_policies s'))" using policies_okD(1) [OF ok] by (simp add: new o_def keep)
  moreover have "po_active p \<and> po_stages p \<noteq> []" if p: "p \<in> set (db_policies s')" "po_is_default p" for p
  proof -
    obtain r where "r \<in> set (db_policies s)" "p = f r" using p(1) by (auto simp: new)
    then show ?thesis using policies_okD(2) [OF ok, of r] p(2) keep by simp
  qed
  moreover have "po_id p = po_id q"
    if p: "p \<in> set (db_policies s')" "q \<in> set (db_policies s')" "po_is_default p" "po_is_default q" "same_kind p q" for p q
  proof -
    obtain r r' where r: "r \<in> set (db_policies s)" "p = f r" "r' \<in> set (db_policies s)" "q = f r'" using p(1,2) by (auto simp: new)
    then have "po_id r = po_id r'" using p(3-5) keep by (intro policies_okD(3) [OF ok]) (simp_all add: same_kind_def)
    then show ?thesis using r keep by simp
  qed
  ultimately show "policies_ok s'" unfolding policies_ok_def by blast
  show "has_default s' t k \<longleftrightarrow> has_default s t k \<and> \<not> (t = po_tenant_id policy \<and> k = po_applies_to policy)"
    by (auto simp: has_default_def list_ex_iff new keep)
qed

lemma set_active_safe:
  assumes ok: "policies_ok s" and run: "set_active actor policy active s = Inr s'" and row: "policy \<in> set (db_policies s)"
  shows "policy_safe s s'"
proof -
  have "db_policies s' = put_row po_id (policy\<lparr>po_active := active\<rparr>) (db_policies s)" "po_is_default policy \<Longrightarrow> active"
    using run by (auto simp: set_active_def bindE_Inr_iff split: if_splits)
  then show ?thesis by (intro policy_safe_put [OF ok row, where p' = "policy\<lparr>po_active := active\<rparr>"]) (simp_all add: same_kind_def)
qed

lemma delete_policy_safe:
  assumes ok: "policies_ok s" and run: "delete_policy actor policy s = Inr s'" and row: "policy \<in> set (db_policies s)"
  shows "policy_safe s s'"
proof -
  have new: "db_policies s' = filter (\<lambda>p. po_id p \<noteq> po_id policy) (db_policies s)" and other: "\<not> po_is_default policy"
    using run by (auto simp: delete_policy_def bindE_Inr_iff Let_def split: if_splits)
  have keys: "distinct (map po_id (db_policies s'))" unfolding new by (rule distinct_map_filter [OF policies_okD(1) [OF ok]])
  have "policies_ok s'"
    using keys policies_okD(2,3) [OF ok] unfolding policies_ok_def new by simp
  moreover have "p \<in> set (db_policies s')" if "p \<in> set (db_policies s)" "po_is_default p" for p
    using that other row_of_key [OF policies_okD(1) [OF ok] that(1) row] by (auto simp: new)
  then have "has_default s t k \<Longrightarrow> has_default s' t k" for t k by (auto simp: has_default_def list_ex_iff)
  ultimately show ?thesis by (simp add: policy_safe_def)
qed

lemma one_left:
  assumes "distinct (map key xs)" and "1 < length xs"
  shows "filter (\<lambda>x. key x \<noteq> i) xs \<noteq> []"
  using assms by (cases xs; cases "tl xs") auto

lemma stored_list_Nil [simp]:
  "renumber p xs = [] \<longleftrightarrow> xs = []" "sort_key key xs = [] \<longleftrightarrow> xs = []" "swap_nth i j xs = [] \<longleftrightarrow> xs = []"
  by (simp_all flip: length_0_conv)

lemma stage_operations_safe:
  assumes ok: "policies_ok s" and row: "policy \<in> set (db_policies s)"
  shows "save_stage actor policy f stage s = Inr (st, s') \<Longrightarrow> policy_safe s s'"
    and "delete_stage actor policy dropped s = Inr s' \<Longrightarrow> dropped \<in> set (po_stages policy) \<Longrightarrow>
      distinct (map st_id (po_stages policy)) \<Longrightarrow> policy_safe s s'"
    and "move_stage actor policy moved direction s = Inr s' \<Longrightarrow> policy_safe s s'"
proof -
  have put: "policy_safe s s'"
    if "db_policies s' = put_row po_id p' (db_policies s)" "po_id p' = po_id policy" "same_kind p' policy"
      "po_is_default p' = po_is_default policy" "po_active p' = po_active policy" "po_stages policy \<noteq> [] \<Longrightarrow> po_is_default policy \<Longrightarrow> po_stages p' \<noteq> []" for p'
    by (rule policy_safe_put [OF ok row that(1-4)]) (use that(5,6) in auto)
  show "policy_safe s s'" if "save_stage actor policy f stage s = Inr (st, s')"
  proof -
    let ?stages = "case stage of None \<Rightarrow> po_stages policy @ [st] | Some _ \<Rightarrow> put_row st_id st (po_stages policy)"
    have "db_policies s' = put_row po_id (policy\<lparr>po_stages := ?stages, po_updated_by_id := Some (u_id actor),
        po_updated_at := db_clock s\<rparr>) (db_policies s)"
      using that by (auto simp: save_stage_def bindE_Inr_iff Let_def split: if_splits)
    moreover have "po_stages policy \<noteq> [] \<Longrightarrow> ?stages \<noteq> []" by (cases stage) (simp_all add: put_row_def)
    ultimately show ?thesis
      by (intro put [of "policy\<lparr>po_stages := ?stages, po_updated_by_id := Some (u_id actor), po_updated_at := db_clock s\<rparr>"])
        (simp_all add: same_kind_def)
  qed
  show "policy_safe s s'" if "delete_stage actor policy dropped s = Inr s'" "dropped \<in> set (po_stages policy)"
      "distinct (map st_id (po_stages policy))"
  proof -
    let ?left = "filter (\<lambda>x. st_id x \<noteq> st_id dropped) (po_stages policy)"
    have "db_policies s' = put_row po_id (policy\<lparr>po_stages := renumber put_position (sort_key st_position ?left)\<rparr>) (db_policies s)"
      and two: "po_is_default policy \<Longrightarrow> 1 < length (po_stages policy)"
      using that(1) by (auto simp: delete_stage_def bindE_Inr_iff save_stages_def Let_def split: if_splits)
    moreover have "?left \<noteq> []" if "po_is_default policy"
      by (rule one_left) (use two [OF that] \<open>distinct (map st_id (po_stages policy))\<close> in auto)
    ultimately show ?thesis
      by (intro put [of "policy\<lparr>po_stages := renumber put_position (sort_key st_position ?left)\<rparr>"]) (simp_all add: same_kind_def)
  qed
  show "policy_safe s s'" if run: "move_stage actor policy moved direction s = Inr s'"
  proof (cases "s' = s")
    case False
    then obtain k j where "db_policies s' = put_row po_id (policy\<lparr>po_stages := renumber put_position
        (swap_nth k j (sort_key st_position (po_stages policy)))\<rparr>) (db_policies s)"
      using run by (auto simp: move_stage_def bindE_Inr_iff save_stages_def Let_def split: if_splits option.splits)
    then show ?thesis
      by (intro put [of "policy\<lparr>po_stages := renumber put_position (swap_nth k j (sort_key st_position (po_stages policy)))\<rparr>"])
        (simp_all add: same_kind_def)
  qed (simp add: policy_safe_same)
qed


text \<open>Everything an administrator can do to the policies, and the creation of the defaults.\<close>

inductive policy_step :: "db \<Rightarrow> db \<Rightarrow> bool" where
  defaults: "policy_step s (ensure_defaults tenant_id s)"
| create: "save_policy actor kind name d None s = Inr (p, s') \<Longrightarrow> policy_step s s'"
| rename: "policy \<in> set (db_policies s) \<Longrightarrow> save_policy actor kind name d (Some policy) s = Inr (p, s') \<Longrightarrow> policy_step s s'"
| make_default: "policy \<in> set (db_policies s) \<Longrightarrow> set_default actor policy s = Inr s' \<Longrightarrow> policy_step s s'"
| activate: "policy \<in> set (db_policies s) \<Longrightarrow> set_active actor policy active s = Inr s' \<Longrightarrow> policy_step s s'"
| delete: "policy \<in> set (db_policies s) \<Longrightarrow> delete_policy actor policy s = Inr s' \<Longrightarrow> policy_step s s'"
| stage_saved: "policy \<in> set (db_policies s) \<Longrightarrow> save_stage actor policy f stage s = Inr (st, s') \<Longrightarrow> policy_step s s'"
| stage_deleted: "policy \<in> set (db_policies s) \<Longrightarrow> dropped \<in> set (po_stages policy) \<Longrightarrow> distinct (map st_id (po_stages policy)) \<Longrightarrow>
    delete_stage actor policy dropped s = Inr s' \<Longrightarrow> policy_step s s'"
| stage_moved: "policy \<in> set (db_policies s) \<Longrightarrow> move_stage actor policy moved direction s = Inr s' \<Longrightarrow> policy_step s s'"

text \<open>A step that chooses a policy as the default of its kind although it is that already.\<close>

definition defaults_again :: "db \<Rightarrow> db \<Rightarrow> nat \<Rightarrow> string \<Rightarrow> bool" where
  "defaults_again s s' tenant_id kind \<longleftrightarrow> (\<exists>actor. \<exists>policy \<in> set (db_policies s). po_is_default policy \<and> po_tenant_id policy = tenant_id
     \<and> po_applies_to policy = kind \<and> set_default actor policy s = Inr s')"

lemma policy_step_cases: "policy_step s s' \<Longrightarrow> policies_ok s \<Longrightarrow> policy_safe s s'
    \<or> (\<exists>actor policy. policy \<in> set (db_policies s) \<and> po_is_default policy \<and> set_default actor policy s = Inr s')"
proof (induction rule: policy_step.induct)
  case (rename policy s actor kind name d p s')
  then show ?case using save_policy_safe [OF rename(3,2)] by blast
next
  case (make_default policy s actor s')
  then show ?case using set_default_safe by blast
qed (auto intro: ensure_defaults_safe save_policy_safe set_active_safe delete_policy_safe stage_operations_safe)

lemma policy_step_ok: "policy_step s s' \<Longrightarrow> policies_ok s \<Longrightarrow> policies_ok s'"
  using policy_step_cases [of s s'] set_default_again(1) by (auto simp: policy_safe_def)

lemma policy_steps_ok: "policy_step\<^sup>*\<^sup>* s s' \<Longrightarrow> policies_ok s \<Longrightarrow> policies_ok s'"
  by (induction rule: rtranclp_induct) (auto intro: policy_step_ok)

lemma policy_step_default:
  assumes step: "policy_step s s'" and ok: "policies_ok s" and had: "has_default s tenant_id kind"
  shows "has_default s' tenant_id kind \<longleftrightarrow> \<not> defaults_again s s' tenant_id kind"
proof -
  have lost: "\<not> has_default s' tenant_id kind" if "defaults_again s s' tenant_id kind"
    using that set_default_again(2) [OF ok] unfolding defaults_again_def by blast
  have kept: "has_default s' tenant_id kind" if "\<not> defaults_again s s' tenant_id kind"
    using policy_step_cases [OF step ok]
  proof
    assume "policy_safe s s'"
    then show ?thesis using ok had by (simp add: policy_safe_def)
  next
    assume "\<exists>actor policy. policy \<in> set (db_policies s) \<and> po_is_default policy \<and> set_default actor policy s = Inr s'"
    then obtain actor policy where p: "policy \<in> set (db_policies s)" "po_is_default policy" "set_default actor policy s = Inr s'" by blast
    then have "\<not> (tenant_id = po_tenant_id policy \<and> kind = po_applies_to policy)" using that unfolding defaults_again_def by blast
    then show ?thesis using set_default_again(2) [OF ok p(3,1,2)] had by blast
  qed
  show ?thesis using lost kept by blast
qed

text \<open>
  C7. From a consistent database, after any sequence of operations on policies and stages: what \<open>default_policy\<close>
  finds for a kind of record is the only default of its tenant and kind, it is active and has a stage; it finds one
  whenever the kind has a default. A kind that has a default keeps one in every further operation but one: choosing the default policy
  as the default again takes the default away.
\<close>

theorem default_policy_well_defined:
  assumes ok: "policies_ok s" and steps: "policy_step\<^sup>*\<^sup>* s s'"
  shows "(\<forall>p s''. default_policy tenant_id kind s' = (Some p, s'') \<longrightarrow> p \<in> set (db_policies s'') \<and> po_tenant_id p = tenant_id \<and> po_applies_to p = kind
        \<and> po_is_default p \<and> po_active p \<and> po_stages p \<noteq> []
        \<and> (\<forall>q \<in> set (db_policies s''). po_tenant_id q = tenant_id \<and> po_applies_to q = kind \<and> po_is_default q \<longrightarrow> q = p))
    \<and> (has_default s' tenant_id kind \<longrightarrow> (\<exists>p s''. default_policy tenant_id kind s' = (Some p, s'')))
    \<and> (\<forall>s2. policy_step s' s2 \<and> has_default s' tenant_id kind \<longrightarrow>
        (has_default s2 tenant_id kind \<longleftrightarrow> \<not> defaults_again s' s2 tenant_id kind))"
proof -
  define s2 where "s2 = ensure_defaults tenant_id s'"
  have ok': "policies_ok s'" by (rule policy_steps_ok [OF steps ok])
  then have ok2: "policies_ok s2" using ensure_defaults_safe [of s' tenant_id] by (simp add: policy_safe_def s2_def)
  let ?P = "\<lambda>p. po_tenant_id p = tenant_id \<and> po_applies_to p = kind \<and> po_is_default p \<and> po_active p"
  have eq: "default_policy tenant_id kind s' = (find ?P (db_policies s2), s2)" by (simp add: default_policy_def s2_def [symmetric] Let_def)
  have found: "p \<in> set (db_policies s2) \<and> ?P p \<and> po_stages p \<noteq> []
      \<and> (\<forall>q \<in> set (db_policies s2). po_tenant_id q = tenant_id \<and> po_applies_to q = kind \<and> po_is_default q \<longrightarrow> q = p)"
    if "find ?P (db_policies s2) = Some p" for p
  proof -
    have pm: "p \<in> set (db_policies s2)" "?P p" using that by (auto simp: find_Some_iff)
    have "r = p" if r: "r \<in> set (db_policies s2)" "po_tenant_id r = tenant_id \<and> po_applies_to r = kind \<and> po_is_default r" for r
    proof (rule row_of_key [OF policies_okD(1) [OF ok2] r(1) pm(1)])
      show "po_id r = po_id p" using r pm by (intro policies_okD(3) [OF ok2]) (auto simp: same_kind_def)
    qed
    with pm policies_okD(2) [OF ok2 pm(1)] show ?thesis by blast
  qed
  have finds: "\<exists>p. find ?P (db_policies s2) = Some p" if "has_default s' tenant_id kind"
  proof -
    have "has_default s2 tenant_id kind" using that ok' ensure_defaults_safe [of s' tenant_id] by (simp add: policy_safe_def s2_def)
    then obtain q where "q \<in> set (db_policies s2)" "?P q"
      using policies_okD(2) [OF ok2] by (auto simp: has_default_def list_ex_iff)
    then show ?thesis by (cases "find ?P (db_policies s2)") (auto simp: find_None_iff)
  qed
  show ?thesis unfolding eq prod.inject using found finds policy_step_default [OF _ ok'] by blast
qed

text \<open>An administrator makes another catalog policy the default, once and again.\<close>

lemma ensure_defaults_present:
  assumes "\<forall>k \<in> set APPLIES_TO. \<exists>p \<in> set (db_policies s). po_tenant_id p = t \<and> po_applies_to p = k"
  shows "ensure_defaults t s = s"
proof -
  have "add_default_policy t (map po_applies_to (filter (\<lambda>p. po_tenant_id p = t) (db_policies s))) (k, name, d, words, stages) s1 = s1"
    if "k \<in> set APPLIES_TO" for k name d words stages s1
    using assms that by (force simp: add_default_policy_def)
  then show ?thesis by (simp add: ensure_defaults_def default_definitions_def APPLIES_TO_def Let_def)
qed

definition example_admin :: user where
  "example_admin = blank_user\<lparr>u_id := 8, u_role := ''admin'', u_active := True\<rparr>"

definition example_policies :: db where
  "example_policies = empty_db\<lparr>db_policies :=
     [example_policy\<lparr>po_applies_to := ''catalog''\<rparr>,
      example_policy\<lparr>po_id := 3, po_applies_to := ''catalog'', po_name := ''Short'', po_is_default := False\<rparr>,
      example_policy\<lparr>po_id := 4, po_applies_to := ''change''\<rparr>, example_policy\<lparr>po_id := 5, po_applies_to := ''enterprise''\<rparr>]\<rparr>"

definition example_choice :: db where
  "example_choice = (case set_default example_admin (db_policies example_policies ! 1) example_policies of Inl _ \<Rightarrow> empty_db | Inr s \<Rightarrow> s)"

lemma set_default_run:
  assumes "require_admin s actor = Inr ()" "po_active policy" "po_stages policy \<noteq> []"
  shows "\<exists>s'. set_default actor policy s = Inr s' \<and> require_admin s' actor = Inr ()
    \<and> db_policies s' = (let cleared = upd_rows (\<lambda>p. po_tenant_id p = po_tenant_id policy \<and> po_applies_to p = po_applies_to policy)
           (\<lambda>p. p\<lparr>po_is_default := False\<rparr>) (db_policies s)
        in if po_is_default policy then cleared else put_row po_id (policy\<lparr>po_is_default := True\<rparr>) cleared)"
  using assms by (auto simp: set_default_def require_admin_def policy_audit_def Let_def effective_role_def granted_roles_def split: option.splits if_splits)

lemma example_admin: "require_admin example_policies example_admin = Inr ()"
  by (simp add: require_admin_def example_admin_def example_policies_def empty_db_def effective_role_def role_at_least_def ROLE_RANK_def blank_user_def)

lemma example_choice_rows:
  "set_default example_admin (db_policies example_policies ! 1) example_policies = Inr example_choice"
  "\<exists>s2. set_default example_admin (db_policies example_choice ! 1) example_choice = Inr s2"
  "map (\<lambda>p. (po_id p, po_name p, po_applies_to p, po_is_default p, po_active p, po_tenant_id p)) (db_policies example_choice) =
     [(2, [], ''catalog'', False, True, 0), (3, ''Short'', ''catalog'', True, True, 0), (4, [], ''change'', True, True, 0), (5, [], ''enterprise'', True, True, 0)]"
proof -
  let ?p = "db_policies example_policies ! 1"
  have p: "po_active ?p" "po_stages ?p \<noteq> []" "\<not> po_is_default ?p" "po_id ?p = 3" "po_tenant_id ?p = 0" "po_applies_to ?p = ''catalog''" "po_name ?p = ''Short''"
    by (simp_all add: example_policies_def example_policy_def blank_approval_policy_def)
  obtain s' where run: "set_default example_admin ?p example_policies = Inr s'" and admin: "require_admin s' example_admin = Inr ()"
    and rows: "db_policies s' = put_row po_id (?p\<lparr>po_is_default := True\<rparr>) (upd_rows (\<lambda>p. po_tenant_id p = 0 \<and> po_applies_to p = ''catalog'')
           (\<lambda>p. p\<lparr>po_is_default := False\<rparr>) (db_policies example_policies))"
    using set_default_run [OF example_admin p(1,2)] p by (auto simp: Let_def)
  show choice: "set_default example_admin ?p example_policies = Inr example_choice" using run by (simp add: example_choice_def)
  then have s': "s' = example_choice" using run by simp
  show list: "map (\<lambda>p. (po_id p, po_name p, po_applies_to p, po_is_default p, po_active p, po_tenant_id p)) (db_policies example_choice) =
     [(2, [], ''catalog'', False, True, 0), (3, ''Short'', ''catalog'', True, True, 0), (4, [], ''change'', True, True, 0), (5, [], ''enterprise'', True, True, 0)]"
    unfolding s' [symmetric] rows
    by (simp add: example_policies_def put_row_def upd_rows_def example_policy_def blank_approval_policy_def)
  have "db_policies example_choice ! 1 = ?p\<lparr>po_is_default := True\<rparr>"
    unfolding s' [symmetric] rows by (simp add: example_policies_def put_row_def upd_rows_def example_policy_def blank_approval_policy_def)
  then have "po_active (db_policies example_choice ! 1)" "po_stages (db_policies example_choice ! 1) \<noteq> []" using p by simp_all
  then show "\<exists>s2. set_default example_admin (db_policies example_choice ! 1) example_choice = Inr s2"
    using set_default_run [OF admin [unfolded s']] by blast
qed

lemma example_choice_default: "has_default example_choice 0 ''catalog''"
  "default_policy 0 ''catalog'' example_choice = (Some (db_policies example_choice ! 1), example_choice)"
proof -
  obtain p q r t where rows: "db_policies example_choice = [p, q, r, t]" "po_applies_to p = ''catalog''" "po_applies_to q = ''catalog''"
      "po_applies_to r = ''change''" "po_applies_to t = ''enterprise''" "\<not> po_is_default p" "po_is_default q" "po_active q"
      "po_tenant_id p = 0" "po_tenant_id q = 0" "po_tenant_id r = 0" "po_tenant_id t = 0"
    using example_choice_rows(3) by (auto simp: map_eq_Cons_conv)
  have "ensure_defaults 0 example_choice = example_choice" by (rule ensure_defaults_present) (simp add: rows APPLIES_TO_def)
  then show "has_default example_choice 0 ''catalog''" "default_policy 0 ''catalog'' example_choice = (Some (db_policies example_choice ! 1), example_choice)"
    by (simp_all add: has_default_def default_policy_def rows)
qed

theorem default_policy_well_defined_witness:
  "(\<exists>p s''. default_policy 0 ''catalog'' example_choice = (Some p, s'') \<and> po_id p = 3 \<and> po_active p \<and> po_stages p \<noteq> [])
   \<and> (\<exists>s2. set_default example_admin (db_policies example_choice ! 1) example_choice = Inr s2 \<and> \<not> has_default s2 0 ''catalog'')"
proof -
  have ok: "policies_ok example_policies"
    by (simp add: policies_ok_def example_policies_def same_kind_def example_policy_def blank_approval_policy_def)
  have "db_policies example_policies ! 1 \<in> set (db_policies example_policies)" by (simp add: example_policies_def)
  moreover have "set_default example_admin (db_policies example_policies ! 1) example_policies = Inr example_choice"
    by (rule example_choice_rows(1))
  ultimately have "policy_step example_policies example_choice" by (rule policy_step.make_default)
  then have steps: "policy_step\<^sup>*\<^sup>* example_policies example_choice" by simp
  note result = default_policy_well_defined [OF ok steps, of 0 "''catalog''"]
  have len: "length (db_policies example_choice) = 4" using arg_cong [OF example_choice_rows(3), of length] by simp
  have new: "po_id (db_policies example_choice ! 1) = 3" "po_is_default (db_policies example_choice ! 1)"
      "po_tenant_id (db_policies example_choice ! 1) = 0" "po_applies_to (db_policies example_choice ! 1) = ''catalog''"
    using arg_cong [OF example_choice_rows(3), of "\<lambda>xs. xs ! 1"] len by simp_all
  have mem: "db_policies example_choice ! 1 \<in> set (db_policies example_choice)" using len by simp
  obtain s2 where s2: "set_default example_admin (db_policies example_choice ! 1) example_choice = Inr s2"
    using example_choice_rows(2) by blast
  then have "policy_step example_choice s2" by (rule policy_step.make_default [OF mem])
  moreover have "defaults_again example_choice s2 0 ''catalog''"
    unfolding defaults_again_def using mem s2 new(2-4) by blast
  ultimately have "\<not> has_default s2 0 ''catalog''" using result example_choice_default(1) by blast
  moreover have "po_active (db_policies example_choice ! 1) \<and> po_stages (db_policies example_choice ! 1) \<noteq> []"
    using result example_choice_default(2) by blast
  ultimately show ?thesis using example_choice_default(2) new(1) s2 by blast
qed

end
