(* ===== verification/Change_Governance.thy ===== *)
theory Change_Governance
  imports Tickets Policy_Administration
begin

text \<open>
  Change governance (\<^verbatim>\<open>app.py\<close>): environments and the Change Control Board, the risk score, the scope of a
  change, its planned window and the tasks in it, the impact of a configuration item on everything that depends
  on it, scheduling conflicts, change freezes, and the restart of the approval when a material field changes.
\<close>

section \<open>Environments, risk and the board\<close>

definition ENVIRONMENT_ALIASES :: "(string \<times> string) list" where
  "ENVIRONMENT_ALIASES =
    [(''prod'', ''Production''), (''production'', ''Production''), (''prd'', ''Production''),
     (''dev'', ''Development''), (''development'', ''Development''),
     (''uat'', ''Staging''), (''staging'', ''Staging''), (''stage'', ''Staging''),
     (''test'', ''Test''), (''qa'', ''Test'')]"

definition normalize_environment :: "string \<Rightarrow> string" where
  "normalize_environment value =
     (if value = [] then value else let stripped = strip value in opt stripped (map_of ENVIRONMENT_ALIASES (lower stripped)))"

definition ci_class_is_management :: "string \<Rightarrow> bool" where
  "ci_class_is_management ci_class = (contains ''management'' (lower ci_class) \<or> contains ''mgmt'' (lower ci_class))"

definition calculate_change_risk_score :: "string \<Rightarrow> configuration_item option \<Rightarrow> int" where
  "calculate_change_risk_score change_type ci =
     (let base = opt 40 (map_of [(''Standard'', 15), (''Normal'', 40), (''Emergency'', 70)] change_type);
          base = (case ci of
              None \<Rightarrow> base
            | Some ci \<Rightarrow> base + opt 0 (map_of [(''Critical'', 30), (''High'', 15), (''Medium'', 0), (''Low'', -10)] (ci_business_criticality ci))
                + (if normalize_environment (ci_environment ci) = ''Production'' then 15 else 0))
      in max 0 (min 100 base))"

definition ccb_required_environments :: "db \<Rightarrow> string list" where
  "ccb_required_environments s =
     map normalize_environment (filter (\<lambda>v. strip v \<noteq> []) (split_on (CHR '','') (setting_value s ''CCB_REQUIRED_ENVIRONMENTS'' ''Production'')))"

definition ci_always_requires_ccb :: "string \<Rightarrow> string \<Rightarrow> string \<Rightarrow> bool" where
  "ci_always_requires_ccb ci_class environment business_criticality \<longleftrightarrow>
     normalize_environment environment = ''Production'' \<or> ci_class_is_management ci_class \<or> business_criticality = ''Critical''"

definition governance_of :: "db \<Rightarrow> nat \<Rightarrow> change_governance option" where
  "governance_of s ticket_id = find (\<lambda>g. cg_ticket_id g = ticket_id) (db_governances s)"

definition task_ci_ids :: "db \<Rightarrow> nat \<Rightarrow> nat list" where
  "task_ci_ids s ticket_id =
     map tci_ci_id (filter (\<lambda>l. tci_target_type l = ''ticket'' \<and> tci_target_id l = ticket_id) (db_task_cis s))"

definition change_target_cis :: "db \<Rightarrow> ticket \<Rightarrow> configuration_item list" where
  "change_target_cis s ticket =
     (let primary = (case Option.bind (governance_of s (tk_id ticket)) cg_ci_id of None \<Rightarrow> [] | Some i \<Rightarrow> [i]);
          ids = primary @ task_ci_ids s (tk_id ticket)
      in sort_key ci_id (filter (\<lambda>c. ci_id c \<in> set ids) (db_cis s)))"

definition change_requires_ccb :: "db \<Rightarrow> change_governance \<Rightarrow> configuration_item list option \<Rightarrow> bool" where
  "change_requires_ccb s governance cis =
     (if \<not> cg_ccb_required governance then False
      else let scoped = (case cis of
             Some cis \<Rightarrow> cis
           | None \<Rightarrow> (case Option.bind (cg_ci_id governance) (\<lambda>i. get_row ci_id i (db_cis s)) of None \<Rightarrow> [] | Some c \<Rightarrow> [c]))
      in if scoped = [] then True
         else list_ex (\<lambda>ci. ci_require_ccb_approval ci \<or> normalize_environment (ci_environment ci) \<in> set (ccb_required_environments s)) scoped)"

definition executive_office_group :: "db \<Rightarrow> nat \<Rightarrow> support_group option" where
  "executive_office_group s tenant_id = find (\<lambda>g. g_name g = ''Executive Office'' \<and> g_tenant_id g = tenant_id) (db_groups s)"

section \<open>The planned window\<close>

definition change_task_window_error :: "change_governance option \<Rightarrow> datetime option \<Rightarrow> datetime option \<Rightarrow> string option" where
  "change_task_window_error governance start finish =
     (case governance of
        None \<Rightarrow> None
      | Some g \<Rightarrow>
          (case (cg_planned_start g, cg_planned_end g, start, finish) of
             (Some window_start, Some window_end, Some start, Some finish) \<Rightarrow>
               if start < window_start \<or> finish > window_end then Some ''Task times must fall within the planned window'' else None
           | _ \<Rightarrow> None))"

definition live_change_tasks :: "db \<Rightarrow> ticket \<Rightarrow> operational_task list" where
  "live_change_tasks s ticket =
     sort_key ot_sequence (sort_key ot_id (filter (\<lambda>t. ot_parent_type t = ''ticket'' \<and> ot_parent_id t = tk_id ticket
       \<and> ot_task_kind t = ''change''
       \<and> ot_state t \<notin> set [''Closed Complete'', ''Closed Incomplete'', ''Closed Skipped'', ''Cancelled'']) (db_op_tasks s)))"

definition change_tasks_spanning_window :: "db \<Rightarrow> ticket \<Rightarrow> operational_task list" where
  "change_tasks_spanning_window s ticket =
     (case governance_of s (tk_id ticket) of
        None \<Rightarrow> []
      | Some g \<Rightarrow>
          if cg_planned_start g = None \<or> cg_planned_end g = None then []
          else filter (\<lambda>t. ot_planned_start t = cg_planned_start g \<and> ot_planned_end t = cg_planned_end g) (live_change_tasks s ticket))"

definition change_tasks_outside_window :: "db \<Rightarrow> ticket \<Rightarrow> datetime \<Rightarrow> datetime \<Rightarrow> operational_task list \<Rightarrow> operational_task list" where
  "change_tasks_outside_window s ticket start finish moving =
     filter (\<lambda>t. ot_id t \<notin> set (map ot_id moving)
       \<and> ((case ot_planned_start t of None \<Rightarrow> False | Some x \<Rightarrow> x < start)
          \<or> (case ot_planned_end t of None \<Rightarrow> False | Some x \<Rightarrow> x > finish))) (live_change_tasks s ticket)"

section \<open>Teams with a stake in a change\<close>

definition change_service_coowner_groups :: "db \<Rightarrow> ticket \<Rightarrow> configuration_item list \<Rightarrow> support_group list" where
  "change_service_coowner_groups s ticket scoped_cis =
     (let service_ids = map sc_service_offering_id (filter (\<lambda>r. sc_ci_id r \<in> set (map ci_id scoped_cis)
            \<and> sc_tenant_id r = tk_tenant_id ticket) (db_service_cis s));
          backing = map sc_ci_id (filter (\<lambda>r. sc_service_offering_id r \<in> set service_ids) (db_service_cis s));
          group_ids = List.map_filter ci_support_group_id
            (filter (\<lambda>c. ci_id c \<in> set backing \<and> ci_tenant_id c = tk_tenant_id ticket) (db_cis s))
      in List.map_filter (\<lambda>i. get_row g_id i (db_groups s)) (sort (remdups group_ids)))"

text \<open>\<^verbatim>\<open>groups.setdefault(group.id, group)\<close>: every team once, at its first task.\<close>

fun first_by :: "('r \<Rightarrow> nat) \<Rightarrow> 'r list \<Rightarrow> 'r list" where
  "first_by key [] = []"
| "first_by key (r # rows) = r # filter (\<lambda>x. key x \<noteq> key r) (first_by key rows)"

definition change_task_groups :: "db \<Rightarrow> ticket \<Rightarrow> support_group list" where
  "change_task_groups s ticket =
     (let tasks = sort_key ot_sequence (sort_key ot_id (filter (\<lambda>t. ot_parent_type t = ''ticket'' \<and> ot_parent_id t = tk_id ticket
            \<and> ot_task_kind t = ''change'' \<and> ot_state t \<noteq> ''Cancelled'') (db_op_tasks s)))
      in first_by g_id (filter (\<lambda>g. g_tenant_id g = tk_tenant_id ticket)
           (List.map_filter (\<lambda>t. get_row g_id (ot_assignment_group_id t) (db_groups s)) tasks)))"

section \<open>Starting the approval again\<close>

definition change_context :: "db \<Rightarrow> ticket \<Rightarrow> approval_context" where
  "change_context s ticket =
     (let governance = governance_of s (tk_id ticket); cis = change_target_cis s ticket in
      \<lparr>ctx_requested_for = None, ctx_item = None, ctx_ticket = Some ticket, ctx_cis = cis,
       ctx_coowner_groups = change_service_coowner_groups s ticket cis, ctx_task_groups = change_task_groups s ticket,
       ctx_change_type = Some (case governance of Some g \<Rightarrow> cg_change_type g | None \<Rightarrow> ''Normal''),
       ctx_needs_ccb = (case governance of Some g \<Rightarrow> change_requires_ccb s g (Some cis) | None \<Rightarrow> False)\<rparr>)"

definition change_approval_stages :: "ticket \<Rightarrow> db \<Rightarrow> (approval_stage list \<times> db) result" where
  "change_approval_stages ticket s =
     (let ctx = change_context s ticket; (policy, s) = default_policy (tk_tenant_id ticket) ''change'' s in
      case build_stages s policy ctx [] of
        Inl (ApprovalRouteError e) \<Rightarrow> Inl (Abort 409 e)
      | Inl e \<Rightarrow> Inl e
      | Inr stages \<Rightarrow> Inr (stages, s))"

definition next_revision :: "ticket \<Rightarrow> db \<Rightarrow> nat \<times> db" where
  "next_revision ticket s =
     (let old = (case find (\<lambda>r. rv_ticket_id r = tk_id ticket) (db_revisions s) of
            Some r \<Rightarrow> r
          | None \<Rightarrow> \<lparr>rv_id = next_id rv_id (db_revisions s), rv_tenant_id = fill_tenant s ''ticket'' (tk_id ticket),
                     rv_ticket_id = tk_id ticket, rv_revision = 1, rv_last_material_change_at = None\<rparr>);
          new = old\<lparr>rv_revision := rv_revision old + 1, rv_last_material_change_at := Some (db_clock s)\<rparr>;
          rows = (if rv_id old \<in> set (map rv_id (db_revisions s)) then put_row rv_id new (db_revisions s) else db_revisions s @ [new])
      in (rv_revision new, s\<lparr>db_revisions := rows\<rparr>))"

definition supersede_change_approval :: "ticket \<Rightarrow> string list \<Rightarrow> db \<Rightarrow> (approval_chain \<times> db) result" where
  "supersede_change_approval ticket changed_fields s =
     (let s = supersede_chain (approval_chain_for s ''ticket'' (tk_id ticket)) s;
          (revision, s) = next_revision ticket s
      in bindE (change_approval_stages ticket s) (\<lambda>(stages, s).
         let summary = join '', '' changed_fields; v = '' v'' @ show_nat revision in
         bindE (create_approval_chain (tk_number ticket @ '' change authorization'' @ v) ''ticket'' (tk_id ticket) stages
             (Some (''Reapproval required: '' @ tk_number ticket @ v))
             (Some (''Material change fields were revised: '' @ summary @ ''. Review the new plan before implementation.'')) s) (\<lambda>(chain, s).
           Inr (chain, log_history ''ticket'' (tk_id ticket) ''Approval restarted'' (Some ''approval revision'')
             (Some (show_nat (revision - 1))) (Some (show_nat revision)) (''Material fields changed: '' @ summary) None s))))"

section \<open>Impact and scheduling conflicts\<close>

definition ci_parents :: "db \<Rightarrow> nat \<Rightarrow> nat list \<Rightarrow> nat list" where
  "ci_parents s tenant_id frontier =
     map cir_parent_id (filter (\<lambda>r. cir_tenant_id r = tenant_id \<and> cir_child_id r \<in> set frontier) (db_ci_relationships s))"

fun ci_impact_loop :: "db \<Rightarrow> nat \<Rightarrow> nat \<Rightarrow> nat list \<Rightarrow> nat list \<Rightarrow> nat list" where
  "ci_impact_loop s tenant_id 0 result frontier = result"
| "ci_impact_loop s tenant_id (Suc depth) result frontier =
     (if frontier = [] then result
      else let next_frontier = remdups (filter (\<lambda>i. i \<notin> set result) (ci_parents s tenant_id frontier))
           in if next_frontier = [] then result
              else ci_impact_loop s tenant_id depth (result @ next_frontier) next_frontier)"

definition ci_impact_set :: "db \<Rightarrow> nat \<Rightarrow> nat list \<Rightarrow> nat \<Rightarrow> nat list" where
  "ci_impact_set s tenant_id ci_ids max_depth = ci_impact_loop s tenant_id max_depth ci_ids ci_ids"

definition governance_ci_ids :: "db \<Rightarrow> change_governance \<Rightarrow> nat list" where
  "governance_ci_ids s g = task_ci_ids s (cg_ticket_id g) @ (case cg_ci_id g of None \<Rightarrow> [] | Some i \<Rightarrow> [i])"

text \<open>The other changes whose window overlaps the planned one (the query), and the descriptions of those that conflict.\<close>

definition overlapping_changes ::
    "db \<Rightarrow> nat \<Rightarrow> datetime \<Rightarrow> datetime \<Rightarrow> nat option \<Rightarrow> (change_governance \<times> ticket) list" where
  "overlapping_changes s tenant_id planned_start planned_end exclude =
     List.map_filter (\<lambda>g. case get_row tk_id (cg_ticket_id g) (db_tickets s) of
         None \<Rightarrow> None
       | Some t \<Rightarrow>
           if tk_tenant_id t = tenant_id \<and> tk_state t \<notin> set FINISHED_TICKET_STATES
              \<and> (case (cg_planned_start g, cg_planned_end g) of
                   (Some a, Some b) \<Rightarrow> a < planned_end \<and> b > planned_start | _ \<Rightarrow> False)
              \<and> (case exclude of None \<Rightarrow> True | Some i \<Rightarrow> cg_id g \<noteq> i)
           then Some (g, t) else None) (db_governances s)"

definition change_schedule_conflicts ::
    "db \<Rightarrow> nat \<Rightarrow> nat list \<Rightarrow> datetime option \<Rightarrow> datetime option \<Rightarrow> nat option \<Rightarrow> string list" where
  "change_schedule_conflicts s tenant_id ci_ids planned_start planned_end exclude =
     (case (planned_start, planned_end) of
        (Some a, Some b) \<Rightarrow>
          if ci_ids = [] then []
          else let impacted = ci_impact_set s tenant_id ci_ids 4 in
            List.map_filter (\<lambda>(g, t).
              if set ci_ids \<inter> set (governance_ci_ids s g) \<noteq> {} then Some (tk_number t @ '' (overlapping change)'')
              else if set impacted \<inter> set (governance_ci_ids s g) \<noteq> {} then Some (tk_number t @ '' (overlapping change on a dependent CI)'')
              else None) (overlapping_changes s tenant_id a b exclude)
      | _ \<Rightarrow> [])"

definition open_incident_notes :: "db \<Rightarrow> nat \<Rightarrow> nat list \<Rightarrow> nat list \<Rightarrow> string list" where
  "open_incident_notes s tenant_id ci_ids exclude_ticket_ids =
     (if ci_ids = [] then []
      else let impacted = ci_impact_set s tenant_id ci_ids 4;
               incidents = sort_key tk_id (filter (\<lambda>t. tk_tenant_id t = tenant_id \<and> tk_kind t = ''incident''
                 \<and> tk_deleted_at t = None \<and> tk_state t \<notin> set FINISHED_TICKET_STATES
                 \<and> set (task_ci_ids s (tk_id t)) \<inter> set impacted \<noteq> {}) (db_tickets s))
           in map (\<lambda>t. if tk_id t \<in> set exclude_ticket_ids then tk_number t @ '' (the incident this change resolves)''
                else tk_number t @ '' (open incident '' @
                  (if set ci_ids \<inter> set (task_ci_ids s (tk_id t)) \<noteq> {} then ''on the same CI'' else ''on a CI that depends on this one'') @ '')'')
              incidents)"

definition active_change_freeze :: "db \<Rightarrow> nat \<Rightarrow> datetime option \<Rightarrow> datetime option \<Rightarrow> change_freeze_window option" where
  "active_change_freeze s tenant_id planned_start planned_end =
     (case (planned_start, planned_end) of
        (Some a, Some b) \<Rightarrow>
          (case sort_key fw_starts_at (filter (\<lambda>w. fw_tenant_id w = tenant_id \<and> fw_starts_at w < b \<and> fw_ends_at w > a) (db_freezes s)) of
             [] \<Rightarrow> None | w # _ \<Rightarrow> Some w)
      | _ \<Rightarrow> None)"

text \<open>\<^verbatim>\<open>enforce_approval_change_freeze\<close>, with the target of the vote's chain.\<close>

definition enforce_approval_change_freeze :: "db \<Rightarrow> approval_chain \<Rightarrow> string \<Rightarrow> nat \<Rightarrow> unit result" where
  "enforce_approval_change_freeze s chain decision tenant_id =
     (if decision \<noteq> ''Approved'' \<or> ch_target_type chain \<noteq> ''ticket'' then Inr ()
      else (case Option.bind (get_row tk_id (ch_target_id chain) (db_tickets s)) (\<lambda>t. governance_of s (tk_id t)) of
          None \<Rightarrow> Inr ()
        | Some g \<Rightarrow>
            if cg_change_type g = ''Emergency'' then Inr ()
            else (case active_change_freeze s tenant_id (cg_planned_start g) (cg_planned_end g) of
                None \<Rightarrow> Inr () | Some w \<Rightarrow> Inl (Abort 409 ''Cannot approve during a change freeze''))))"

definition conflict_summary :: "string list \<Rightarrow> string list \<Rightarrow> string" where
  "conflict_summary conflicts incidents =
     (let parts = (if conflicts \<noteq> [] then [''Conflict: '' @ join '', '' conflicts] else [])
            @ (if incidents \<noteq> [] then [''Open incidents: '' @ join '', '' incidents] else [])
      in take 500 (if parts \<noteq> [] then join ''; '' parts else ''No conflict''))"

definition run_change_conflict_detection :: "ticket \<Rightarrow> change_governance \<Rightarrow> db \<Rightarrow> string list \<times> db" where
  "run_change_conflict_detection ticket governance s =
     (let ci_ids = task_ci_ids s (tk_id ticket) @ (case cg_ci_id governance of None \<Rightarrow> [] | Some i \<Rightarrow> [i]);
          conflicts = change_schedule_conflicts s (tk_tenant_id ticket) ci_ids (cg_planned_start governance) (cg_planned_end governance)
            (Some (cg_id governance));
          resolves = map rl_source_id (filter (\<lambda>l. rl_target_type l = ''ticket'' \<and> rl_target_id l = tk_id ticket
            \<and> rl_link_type l = ''resolution_change'' \<and> rl_source_type l = ''ticket'') (db_record_links s));
          incidents = open_incident_notes s (tk_tenant_id ticket) ci_ids resolves;
          status = conflict_summary conflicts incidents;
          s = s\<lparr>db_governances := put_row cg_id (governance\<lparr>cg_conflict_status := status\<rparr>) (db_governances s)\<rparr>;
          s = (if conflicts \<noteq> [] \<or> incidents \<noteq> []
               then log_history ''ticket'' (tk_id ticket) ''Conflict detection completed'' None None None status None s else s)
      in (conflicts, audit ''conflict check'' (tk_number ticket) status None None s))"

section \<open>The impact set is everything within reach\<close>

definition depends :: "db \<Rightarrow> nat \<Rightarrow> (nat \<times> nat) set" where
  "depends s tenant_id = {(cir_child_id r, cir_parent_id r) | r. r \<in> set (db_ci_relationships s) \<and> cir_tenant_id r = tenant_id}"

definition within :: "('a \<times> 'a) set \<Rightarrow> nat \<Rightarrow> 'a set \<Rightarrow> 'a set" where
  "within R n X = {y. \<exists>x \<in> X. \<exists>k \<le> n. (x, y) \<in> R ^^ k}"

lemma within_0 [simp]: "within R 0 X = X"
  by (auto simp: within_def)

lemma within_Suc: "within R (Suc n) X = within R n (X \<union> R `` X)"
proof (intro set_eqI iffI)
  fix y assume "y \<in> within R (Suc n) X"
  then obtain x k where x: "x \<in> X" "k \<le> Suc n" "(x, y) \<in> R ^^ k" by (auto simp: within_def)
  show "y \<in> within R n (X \<union> R `` X)"
  proof (cases k)
    case 0
    then show ?thesis using x by (auto simp: within_def intro!: bexI [of _ x] exI [of _ 0])
  next
    case (Suc j)
    then obtain z where "(x, z) \<in> R" "(z, y) \<in> R ^^ j" using x(3) relpow_Suc_D2 by metis
    then show ?thesis using x(1,2) Suc by (auto simp: within_def intro!: bexI [of _ z] exI [of _ j])
  qed
next
  fix y assume "y \<in> within R n (X \<union> R `` X)"
  then obtain z k where z: "z \<in> X \<union> R `` X" "k \<le> n" "(z, y) \<in> R ^^ k" by (auto simp: within_def)
  then show "y \<in> within R (Suc n) X"
  proof (cases "z \<in> X")
    case False
    then obtain x where "x \<in> X" "(x, z) \<in> R" using z(1) by auto
    with z(2,3) show ?thesis
      by (auto simp: within_def intro!: bexI [of _ x] exI [of _ "Suc k"] relpow_Suc_I2)
  qed (auto simp: within_def intro: le_SucI)
qed

lemma within_closed: "R `` X \<subseteq> X \<Longrightarrow> within R n X = X"
  by (induction n) (simp_all add: within_Suc Un_absorb2)

lemma ci_parents_set: "set (ci_parents s t fr) = depends s t `` set fr"
  by (auto simp: ci_parents_def depends_def)

lemma ci_impact_loop_within:
  assumes "set frontier \<subseteq> set result" and "depends s t `` (set result - set frontier) \<subseteq> set result"
  shows "set (ci_impact_loop s t depth result frontier) = within (depends s t) depth (set result)"
  using assms
proof (induction s t depth result frontier rule: ci_impact_loop.induct)
  case (2 s t depth result frontier)
  let ?R = "depends s t"
  define new where "new = remdups (filter (\<lambda>i. i \<notin> set result) (ci_parents s t frontier))"
  have new: "set new = ?R `` set frontier - set result" by (auto simp: new_def ci_parents_set)
  have "?R `` set result = ?R `` set frontier \<union> ?R `` (set result - set frontier)" using 2(2) by blast
  then have all: "set result \<union> ?R `` set result = set (result @ new)" using 2(3) new by auto
  show ?case
  proof (cases "frontier = [] \<or> new = []")
    case True
    then have "new = []" by (auto simp: new_def ci_parents_def)
    then have "?R `` set result \<subseteq> set result" using all by auto
    then have "within ?R (Suc depth) (set result) = set result" by (rule within_closed)
    moreover have "ci_impact_loop s t (Suc depth) result frontier = result" using True by (auto simp: new_def Let_def)
    ultimately show ?thesis by simp
  next
    case False
    have "?R `` (set (result @ new) - set new) \<subseteq> set (result @ new)" using all by auto
    then have "set (ci_impact_loop s t depth (result @ new) new) = within ?R depth (set (result @ new))"
      using 2(1) False by (simp add: new_def)
    moreover have "ci_impact_loop s t (Suc depth) result frontier = ci_impact_loop s t depth (result @ new) new"
      using False by (simp add: new_def Let_def)
    ultimately show ?thesis by (simp only: within_Suc all)
  qed
qed simp

lemma ci_impact_set_within: "set (ci_impact_set s t ids depth) = within (depends s t) depth (set ids)"
  unfolding ci_impact_set_def by (rule ci_impact_loop_within) simp_all


lemma set_map_filter: "set (List.map_filter f xs) = {y. \<exists>x \<in> set xs. f x = Some y}"
  by (force simp: List.map_filter_def)

lemma overlapping_changes_set:
  "(g, t) \<in> set (overlapping_changes s tenant_id a b exclude) \<longleftrightarrow> g \<in> set (db_governances s)
     \<and> get_row tk_id (cg_ticket_id g) (db_tickets s) = Some t \<and> tk_tenant_id t = tenant_id \<and> tk_state t \<notin> set FINISHED_TICKET_STATES
     \<and> Some (cg_id g) \<noteq> exclude \<and> (\<exists>a' b'. cg_planned_start g = Some a' \<and> cg_planned_end g = Some b' \<and> a' < b \<and> a < b')"
proof -
  have ex: "(case exclude of None \<Rightarrow> True | Some i \<Rightarrow> cg_id x \<noteq> i) = (Some (cg_id x) \<noteq> exclude)" for x by (cases exclude) auto
  have win: "(case (cg_planned_start x, cg_planned_end x) of (Some a', Some b') \<Rightarrow> a' < b \<and> b' > a | _ \<Rightarrow> False) =
      (\<exists>a' b'. cg_planned_start x = Some a' \<and> cg_planned_end x = Some b' \<and> a' < b \<and> a < b')" for x
    by (cases "cg_planned_start x"; cases "cg_planned_end x") auto
  have pick: "(case r of None \<Rightarrow> None | Some t' \<Rightarrow> if P t' then Some (x, t') else None) = Some (g, t) \<longleftrightarrow> x = g \<and> r = Some t \<and> P t"
    for r x and P :: "ticket \<Rightarrow> bool" by (cases r) auto
  show ?thesis unfolding overlapping_changes_def set_map_filter mem_Collect_eq pick ex win by blast
qed

text \<open>
  C9. The conflict check finds exactly the clashes: a planned window is reported free of conflicts if and
  only if no other unfinished change of the tenant has an overlapping window and touches one of the given
  configuration items or one that depends on it through at most four relationships.
\<close>

theorem conflict_free_exact:
  assumes "ci_ids \<noteq> []"
  shows "change_schedule_conflicts s tenant_id ci_ids (Some a) (Some b) exclude = [] \<longleftrightarrow>
    (\<forall>g \<in> set (db_governances s). \<forall>t a' b'. get_row tk_id (cg_ticket_id g) (db_tickets s) = Some t \<and> tk_tenant_id t = tenant_id
        \<and> tk_state t \<notin> set FINISHED_TICKET_STATES \<and> Some (cg_id g) \<noteq> exclude
        \<and> cg_planned_start g = Some a' \<and> cg_planned_end g = Some b' \<and> a' < b \<and> a < b'
      \<longrightarrow> (\<forall>x \<in> set ci_ids. \<forall>y \<in> set (governance_ci_ids s g). \<forall>k \<le> 4. (x, y) \<notin> depends s tenant_id ^^ k))"
proof -
  let ?near = "within (depends s tenant_id) 4 (set ci_ids)"
  have near: "set (ci_impact_set s tenant_id ci_ids 4) = ?near" by (rule ci_impact_set_within)
  have sub: "set ci_ids \<subseteq> ?near" by (auto simp: within_def intro!: exI [of _ "0::nat"])
  have "change_schedule_conflicts s tenant_id ci_ids (Some a) (Some b) exclude = [] \<longleftrightarrow>
      (\<forall>g t. (g, t) \<in> set (overlapping_changes s tenant_id a b exclude) \<longrightarrow> ?near \<inter> set (governance_ci_ids s g) = {})"
    using assms sub by (fastforce simp: change_schedule_conflicts_def Let_def near List.map_filter_def filter_empty_conv split: if_splits)
  also have "\<dots> \<longleftrightarrow> (\<forall>g \<in> set (db_governances s). \<forall>t a' b'. get_row tk_id (cg_ticket_id g) (db_tickets s) = Some t \<and> tk_tenant_id t = tenant_id
        \<and> tk_state t \<notin> set FINISHED_TICKET_STATES \<and> Some (cg_id g) \<noteq> exclude
        \<and> cg_planned_start g = Some a' \<and> cg_planned_end g = Some b' \<and> a' < b \<and> a < b'
      \<longrightarrow> ?near \<inter> set (governance_ci_ids s g) = {})"
    unfolding overlapping_changes_set by blast
  finally show ?thesis by (simp add: within_def disjoint_iff) blast
qed

definition example_conflict_db :: db where
  "example_conflict_db = empty_db\<lparr>
     db_tickets := [blank_ticket\<lparr>tk_id := 9, tk_kind := ''change'', tk_state := ''New'', tk_number := ''CHG0000009''\<rparr>],
     db_governances := [blank_change_governance\<lparr>cg_id := 3, cg_ticket_id := 9, cg_ci_id := Some 5, cg_planned_start := Some 100,
       cg_planned_end := Some 200\<rparr>],
     db_ci_relationships := [blank_ci_relationship\<lparr>cir_id := 2, cir_parent_id := 5, cir_child_id := 4\<rparr>]\<rparr>"

theorem conflict_free_exact_witness:
  "change_schedule_conflicts example_conflict_db 0 [4] (Some 150) (Some 300) None = [''CHG0000009 (overlapping change on a dependent CI)'']
   \<and> \<not> (\<forall>g \<in> set (db_governances example_conflict_db). \<forall>t a' b'.
        get_row tk_id (cg_ticket_id g) (db_tickets example_conflict_db) = Some t \<and> tk_tenant_id t = 0
        \<and> tk_state t \<notin> set FINISHED_TICKET_STATES \<and> Some (cg_id g) \<noteq> None
        \<and> cg_planned_start g = Some a' \<and> cg_planned_end g = Some b' \<and> a' < 300 \<and> 150 < b'
      \<longrightarrow> (\<forall>x \<in> set [4]. \<forall>y \<in> set (governance_ci_ids example_conflict_db g). \<forall>k \<le> 4. (x, y) \<notin> depends example_conflict_db 0 ^^ k))"
proof -
  have run: "change_schedule_conflicts example_conflict_db 0 [4] (Some 150) (Some 300) None = [''CHG0000009 (overlapping change on a dependent CI)'']"
    by code_simp
  then show ?thesis using conflict_free_exact [of "[4]" example_conflict_db 0 150 300 None] by simp
qed

section \<open>A new plan needs a new approval\<close>

lemma ensure_defaults_chains [simp]:
  "db_chains (ensure_defaults t s) = db_chains s" "db_tickets (ensure_defaults t s) = db_tickets s"
proof -
  have "db_chains (fold (add_default_policy t h) ds s) = db_chains s \<and> db_tickets (fold (add_default_policy t h) ds s) = db_tickets s" for h ds
    by (induction ds arbitrary: s) (auto simp: add_default_policy_def Let_def split: prod.splits)
  then show "db_chains (ensure_defaults t s) = db_chains s" "db_tickets (ensure_defaults t s) = db_tickets s"
    by (simp_all add: ensure_defaults_def Let_def)
qed

lemma change_approval_stages_ok:
  assumes "change_approval_stages ticket s = Inr (stages, s')"
  shows "db_chains s' = db_chains s" and "list_all stage_ok stages"
proof -
  obtain p s1 where p: "default_policy (tk_tenant_id ticket) ''change'' s = (p, s1)" by (cases "default_policy (tk_tenant_id ticket) ''change'' s")
  then have s1: "db_chains s1 = db_chains s" by (auto simp: default_policy_def Let_def)
  have "build_stages s1 p (change_context s ticket) [] = Inr stages \<and> s' = s1"
    using assms by (auto simp: change_approval_stages_def p Let_def split: sum.splits error.splits)
  then show "db_chains s' = db_chains s" "list_all stage_ok stages" using s1 build_stages_modes by auto
qed

lemma save_closed_chain_ok:
  assumes ok: "chains_ok s" and c: "c \<in> set (db_chains s)" and st: "st \<in> set [''Cancelled'', ''Superseded'']"
  shows "chains_ok (save_chain (closed_chain st t c) s)"
proof (rule chains_ok_put [OF ok c, where c' = "closed_chain st t c"])
  show "chain_ok (closed_chain st t c)" by (rule closed_chain_ok(1) [OF _ st]) (use ok c in \<open>simp add: chains_ok_def list_all_iff\<close>)
  show "vote_ids (closed_chain st t c) = vote_ids c"
    by (simp add: vote_ids_def closed_chain_def close_gate_def dismiss_votes_def o_def if_distrib [of v_id] if_distrib [of gt_votes] cong: if_cong)
qed (simp_all add: closed_chain_def save_chain_def)

lemma supersede_chain_keeps:
  assumes ok: "chains_ok s" and chain: "previous = approval_chain_for s ty i"
  shows "chains_ok (supersede_chain previous s)"
    and "previous = Some c \<Longrightarrow> ch_state c \<in> set [''Running'', ''Approved''] \<Longrightarrow>
      closed_chain ''Superseded'' (db_clock s) c \<in> set (db_chains (supersede_chain previous s))"
proof -
  have mem: "c \<in> set (db_chains s)" if "previous = Some c" for c using approval_chain_for_in that chain by simp
  have put: "chains_ok (save_chain (closed_chain ''Superseded'' (db_clock s) c) s)" if "c \<in> set (db_chains s)" for c
    by (rule save_closed_chain_ok [OF ok that]) simp
  show "chains_ok (supersede_chain previous s)"
    using ok mem put by (auto simp: supersede_chain_def split: option.split)
  show "closed_chain ''Superseded'' (db_clock s) c \<in> set (db_chains (supersede_chain previous s))"
    if "previous = Some c" "ch_state c \<in> set [''Running'', ''Approved'']"
    using that mem [OF that(1)] by (auto simp: supersede_chain_def save_chain_def put_row_def closed_chain_def)
qed

lemma approval_chain_for_new:
  assumes "db_chains s' = db_chains s @ [c]" and "ch_id c = next_id ch_id (db_chains s)"
  shows "approval_chain_for s' (ch_target_type c) (ch_target_id c) = Some c"
proof -
  let ?P = "\<lambda>x. ch_target_type x = ch_target_type c \<and> ch_target_id x = ch_target_id c"
  have "sort_key ch_id (filter ?P (db_chains s) @ [c]) = sort_key ch_id (filter ?P (db_chains s)) @ [c]"
    by (rule sort_key_snoc) (use next_id_fresh [of _ "db_chains s" ch_id] assms(2) in auto)
  then show ?thesis by (simp add: approval_chain_for_def assms(1))
qed

lemma next_revision_same [simp]: "db_chains (snd (next_revision ticket s)) = db_chains s"
  by (simp add: next_revision_def Let_def)

lemma supersede_chain_next_id: "next_id ch_id (db_chains (supersede_chain previous s)) = next_id ch_id (db_chains s)"
proof -
  have "map ch_id (db_chains (supersede_chain previous s)) = map ch_id (db_chains s)"
    by (simp add: supersede_chain_def save_chain_def map_key_put_row split: option.split)
  then show ?thesis unfolding next_id_def by metis
qed

lemma replanned_chains:
  assumes ok: "chains_ok s" and run: "supersede_change_approval ticket changed_fields s = Inr (chain, s')"
  shows "chains_ok s'" and "db_chains s' = db_chains (supersede_chain (approval_chain_for s ''ticket'' (tk_id ticket)) s) @ [chain]"
    and "ch_id chain = next_id ch_id (db_chains s)" and "ch_state chain = ''Running''"
    and "ch_target_type chain = ''ticket''" and "ch_target_id chain = tk_id ticket"
proof -
  define s1 where "s1 = supersede_chain (approval_chain_for s ''ticket'' (tk_id ticket)) s"
  define s2 where "s2 = snd (next_revision ticket s1)"
  obtain stages s3 name title body s4 where stages: "change_approval_stages ticket s2 = Inr (stages, s3)"
      and new: "create_approval_chain name ''ticket'' (tk_id ticket) stages title body s3 = Inr (chain, s4)"
      and s': "db_chains s' = db_chains s4"
    using run by (fastforce simp: supersede_change_approval_def Let_def s1_def [symmetric] s2_def bindE_Inr_iff split: prod.splits)
  have c3: "db_chains s3 = db_chains s1" using change_approval_stages_ok(1) [OF stages] by (simp add: s2_def)
  have modes: "list_all stage_ok stages" by (rule change_approval_stages_ok(2) [OF stages])
  have ok3: "chains_ok s3" using supersede_chain_keeps(1) [OF ok refl] c3 by (simp add: chains_ok_def s1_def)
  note rows = create_approval_chain_rows [OF new modes]
  have "next_id ch_id (db_chains s1) = next_id ch_id (db_chains s)" by (simp add: s1_def supersede_chain_next_id)
  then show "chains_ok s'" "db_chains s' = db_chains (supersede_chain (approval_chain_for s ''ticket'' (tk_id ticket)) s) @ [chain]"
    "ch_id chain = next_id ch_id (db_chains s)" "ch_state chain = ''Running''" "ch_target_type chain = ''ticket''" "ch_target_id chain = tk_id ticket"
    using rows c3 s' create_approval_chain_keeps [OF ok3 new modes] by (simp_all add: chains_ok_def s1_def)
qed

text \<open>
  C8. A material change of the plan restarts the approval: whatever the previous approval was, the new chain
  is running and is the one that counts for the change, a running or approved previous chain is set aside
  with nobody left to decide in it, all chains stay consistent, and the change can only be cancelled until the
  new chain is decided.
\<close>

theorem replanning_restarts_approval:
  assumes ok: "chains_ok s" and run: "supersede_change_approval ticket changed_fields s = Inr (chain, s')"
  shows "chains_ok s' \<and> approval_chain_for s' ''ticket'' (tk_id ticket) = Some chain \<and> ch_state chain = ''Running''
    \<and> (\<forall>old. approval_chain_for s ''ticket'' (tk_id ticket) = Some old \<and> ch_state old \<in> set [''Running'', ''Approved'']
        \<longrightarrow> (\<exists>c \<in> set (db_chains s'). ch_id c = ch_id old \<and> ch_state c = ''Superseded'' \<and> chain_pending c = 0))
    \<and> (\<forall>t. tk_id t = tk_id ticket \<and> tk_kind t = ''change'' \<longrightarrow> allowed_ticket_states s' t = [tk_state t, ''Cancelled''])"
proof -
  define previous where "previous = approval_chain_for s ''ticket'' (tk_id ticket)"
  note keep = supersede_chain_keeps [OF ok previous_def] and new = replanned_chains [OF ok run]
  have latest: "approval_chain_for s' ''ticket'' (tk_id ticket) = Some chain"
    using approval_chain_for_new [of s' "supersede_chain previous s" chain] new by (simp add: previous_def supersede_chain_next_id)
  have "\<exists>c \<in> set (db_chains s'). ch_id c = ch_id old \<and> ch_state c = ''Superseded'' \<and> chain_pending c = 0"
    if "previous = Some old" "ch_state old \<in> set [''Running'', ''Approved'']" for old
  proof (intro bexI conjI)
    show "closed_chain ''Superseded'' (db_clock s) old \<in> set (db_chains s')"
      using keep(2) [OF that] new(2) by (simp add: previous_def)
    have "chain_ok old" using ok approval_chain_for_in that(1) by (auto simp: chains_ok_def list_all_iff previous_def)
    then show "chain_pending (closed_chain ''Superseded'' (db_clock s) old) = 0" by (rule closed_chain_ok(2)) simp
  qed (simp_all add: closed_chain_def)
  moreover have "allowed_ticket_states s' t = [tk_state t, ''Cancelled'']" if "tk_id t = tk_id ticket" "tk_kind t = ''change''" for t
    using that latest new(4) by (simp add: allowed_ticket_states_def)
  ultimately show ?thesis using new(1,4) latest by (simp add: previous_def)
qed


definition example_replan_db :: db where
  "example_replan_db = example_route_db\<lparr>
     db_tickets := [blank_ticket\<lparr>tk_id := 9, tk_kind := ''change'', tk_state := ''In Progress'', tk_number := ''CHG0000009''\<rparr>],
     db_policies := [example_policy\<lparr>po_applies_to := ''change''\<rparr>, example_policy\<lparr>po_id := 3, po_applies_to := ''catalog''\<rparr>,
       example_policy\<lparr>po_id := 4, po_applies_to := ''enterprise''\<rparr>]\<rparr>"

theorem replanning_restarts_approval_witness:
  "\<exists>chain s'. supersede_change_approval (hd (db_tickets example_replan_db)) [''plan''] example_replan_db = Inr (chain, s')
     \<and> approval_chain_for s' ''ticket'' 9 = Some chain \<and> ch_state chain = ''Running''"
proof -
  let ?t = "hd (db_tickets example_replan_db)" and ?p = "example_policy\<lparr>po_applies_to := ''change''\<rparr>"
  define s2 where "s2 = snd (next_revision ?t (supersede_chain (approval_chain_for example_replan_db ''ticket'' 9) example_replan_db))"
  have facts: "tk_id ?t = 9" "tk_tenant_id ?t = 0" by code_simp+
  have "db_policies s2 = db_policies example_replan_db"
    by (simp add: s2_def next_revision_def supersede_chain_def save_chain_def Let_def split: option.split)
  then have "ensure_defaults 0 s2 = s2"
    by (intro ensure_defaults_present) (auto simp: APPLIES_TO_def example_replan_db_def example_policy_def blank_approval_policy_def)
  moreover have "find (\<lambda>p. po_tenant_id p = 0 \<and> po_applies_to p = ''change'' \<and> po_is_default p \<and> po_active p) (db_policies s2) = Some ?p"
    unfolding s2_def by code_simp
  ultimately have policy: "default_policy 0 ''change'' s2 = (Some ?p, s2)" by (simp add: default_policy_def)
  have "case build_stages s2 (Some ?p) (change_context s2 ?t) [] of Inl e \<Rightarrow> False
      | Inr b \<Rightarrow> b \<noteq> [] \<and> \<not> list_ex (\<lambda>stage. filter (\<lambda>i. i \<noteq> 0) (stg_approver_ids stage) = []) b"
    unfolding s2_def by code_simp
  then obtain stages where stages: "build_stages s2 (Some ?p) (change_context s2 ?t) [] = Inr stages" "stages \<noteq> []"
      "\<not> list_ex (\<lambda>stage. filter (\<lambda>i. i \<noteq> 0) (stg_approver_ids stage) = []) stages"
    by (auto split: sum.splits)
  then have "change_approval_stages ?t s2 = Inr (stages, s2)" by (simp add: change_approval_stages_def facts policy)
  moreover obtain r where "next_revision ?t (supersede_chain (approval_chain_for example_replan_db ''ticket'' 9) example_replan_db) = (r, s2)"
    by (metis s2_def surjective_pairing)
  ultimately obtain chain s' where run: "supersede_change_approval ?t [''plan''] example_replan_db = Inr (chain, s')"
    using stages(2,3) by (simp add: supersede_change_approval_def facts create_approval_chain_def Let_def)
  have "chains_ok example_replan_db" by code_simp
  then show ?thesis using replanning_restarts_approval [OF _ run] run facts by auto
qed

section \<open>A change waits for its approval\<close>

text \<open>
  The operations that write approval chains, in any order, from a database without any; everything else that happens in
  between leaves the chains as they are.
\<close>

inductive approval_history :: "db \<Rightarrow> bool" where
  first: "db_chains s = [] \<Longrightarrow> approval_history s"
| begun: "approval_history s \<Longrightarrow> list_all stage_ok stages \<Longrightarrow> create_approval_chain name ty i stages title body s = Inr (c, s') \<Longrightarrow> approval_history s'"
| decided: "approval_history s \<Longrightarrow> decide_vote vote_id decision comments s = Inr s' \<Longrightarrow> approval_history s'"
| cancelled: "approval_history s \<Longrightarrow> approval_history (cancel_approval_chain (approval_chain_for s ty i) s)"
| replanned: "approval_history s \<Longrightarrow> supersede_change_approval ticket changed_fields s = Inr (c, s') \<Longrightarrow> approval_history s'"
| unrelated: "approval_history s \<Longrightarrow> db_chains s' = db_chains s \<Longrightarrow> approval_history s'"

text \<open>A chain that was set aside has a successor.\<close>

definition succeeded :: "approval_chain list \<Rightarrow> bool" where
  "succeeded cs \<longleftrightarrow> (\<forall>c \<in> set cs. ch_state c = ''Superseded'' \<longrightarrow>
     (\<exists>d \<in> set cs. ch_target_type d = ch_target_type c \<and> ch_target_id d = ch_target_id c \<and> ch_id c < ch_id d))"

lemma succeededD:
  assumes "succeeded cs" and "c \<in> set cs" and "ch_state c = ''Superseded''"
  shows "\<exists>d \<in> set cs. ch_target_type d = ch_target_type c \<and> ch_target_id d = ch_target_id c \<and> ch_id c < ch_id d"
  using assms unfolding succeeded_def by blast

lemma succeeded_put:
  assumes ok: "succeeded cs" and dist: "distinct (map ch_id cs)" and c: "c \<in> set cs"
    and same: "ch_id c' = ch_id c" "ch_target_type c' = ch_target_type c" "ch_target_id c' = ch_target_id c"
    and st: "ch_state c' = ''Superseded'' \<Longrightarrow> ch_state c = ''Superseded''"
  shows "succeeded (put_row ch_id c' cs)"
proof -
  let ?f = "\<lambda>x. if ch_id x = ch_id c' then c' else x"
  have f: "ch_id (?f x) = ch_id x \<and> ch_target_type (?f x) = ch_target_type x \<and> ch_target_id (?f x) = ch_target_id x
      \<and> (ch_state (?f x) = ''Superseded'' \<longrightarrow> ch_state x = ''Superseded'')" if "x \<in> set cs" for x
    using row_of_key [OF dist that c] same st by auto
  have rows: "put_row ch_id c' cs = map ?f cs" by (simp add: put_row_def)
  show ?thesis
    unfolding succeeded_def rows
  proof (intro ballI impI)
    fix y assume "y \<in> set (map ?f cs)" and y: "ch_state y = ''Superseded''"
    then obtain x where x: "x \<in> set cs" "y = ?f x" by auto
    then have "ch_state x = ''Superseded''" using f [OF x(1)] y by blast
    then obtain d where d: "d \<in> set cs" "ch_target_type d = ch_target_type x" "ch_target_id d = ch_target_id x" "ch_id x < ch_id d"
      using succeededD [OF ok x(1)] by blast
    show "\<exists>d \<in> set (map ?f cs). ch_target_type d = ch_target_type y \<and> ch_target_id d = ch_target_id y \<and> ch_id y < ch_id d"
      by (rule bexI [of _ "?f d"]) (use f [OF x(1)] f [OF d(1)] d x(2) in auto)
  qed
qed

lemma succeeded_append: "succeeded cs \<Longrightarrow> ch_state c \<noteq> ''Superseded'' \<Longrightarrow> succeeded (cs @ [c])"
  unfolding succeeded_def by auto

lemma approval_chain_for_target:
  assumes "approval_chain_for s ty i = Some c"
  shows "ch_target_type c = ty \<and> ch_target_id c = i"
    and "d \<in> set (db_chains s) \<Longrightarrow> ch_target_type d = ty \<Longrightarrow> ch_target_id d = i \<Longrightarrow> ch_id d \<le> ch_id c"
proof -
  let ?rows = "sort_key ch_id (filter (\<lambda>c. ch_target_type c = ty \<and> ch_target_id c = i) (db_chains s))"
  obtain rest where rest: "rev ?rows = c # rest"
    using assms unfolding approval_chain_for_def by (cases "rev ?rows"; simp del: rev_eq_Cons_iff)
  then have split: "?rows = rev rest @ [c]" by (simp add: rev_eq_Cons_iff)
  then have "c \<in> set ?rows" by simp
  then show "ch_target_type c = ty \<and> ch_target_id c = i" by simp
  have "sorted (map ch_id ?rows)" by simp
  then have "\<forall>d \<in> set ?rows. ch_id d \<le> ch_id c" unfolding split by (auto simp: sorted_append)
  then show "d \<in> set (db_chains s) \<Longrightarrow> ch_target_type d = ty \<Longrightarrow> ch_target_id d = i \<Longrightarrow> ch_id d \<le> ch_id c" by simp
qed

lemma chain_decide_keys:
  "ch_target_type (chain_decide i d t clock g c) = ch_target_type c" "ch_target_id (chain_decide i d t clock g c) = ch_target_id c"
  "ch_state (chain_decide i d t clock g c) = ''Superseded'' \<Longrightarrow> ch_state c = ''Superseded''"
  by (auto simp: chain_decide_def rejected_chain_def put_gate_def Let_def split: option.splits if_splits)

lemma approval_history_ok: "approval_history s \<Longrightarrow> chains_ok s \<and> succeeded (db_chains s)"
proof (induction rule: approval_history.induct)
  case (first s)
  then show ?case by (simp add: chains_ok_def succeeded_def)
next
  case (begun s stages name ty i title body c s')
  note rows = create_approval_chain_rows [OF begun.hyps(3,2)]
  have "chains_ok s'" by (rule create_approval_chain_keeps [OF _ begun.hyps(3,2)]) (use begun.IH in simp)
  then show ?case using begun.IH rows by (simp add: succeeded_append)
next
  case (decided s vote_id decision comments s')
  then have ok: "chains_ok s" "succeeded (db_chains s)" by simp_all
  obtain chain gate vote where loc: "locate_vote s vote_id = Some (chain, gate, vote)"
      and rows: "db_chains s' = put_row ch_id (chain_decide vote_id decision comments (db_clock s) gate chain) (db_chains s)"
    using decide_vote_refines [OF decided.hyps(2)] by blast
  have "succeeded (db_chains s')"
    unfolding rows by (rule succeeded_put [OF ok(2) _ locate_vote_in(1) [OF loc]])
      (use ok(1) chain_decide_keys in \<open>auto simp: chains_ok_def\<close>)
  then show ?case using decide_vote_ok [OF ok(1) decided.hyps(2)] by simp
next
  case (cancelled s ty i)
  then have ok: "chains_ok s" "succeeded (db_chains s)" by simp_all
  show ?case
  proof (cases "approval_chain_for s ty i")
    case (Some c)
    have mem: "c \<in> set (db_chains s)" by (rule approval_chain_for_in [OF Some])
    have "succeeded (put_row ch_id (closed_chain ''Cancelled'' (db_clock s) c) (db_chains s))"
      by (rule succeeded_put [OF ok(2) _ mem]) (use ok(1) in \<open>simp_all add: chains_ok_def closed_chain_def\<close>)
    then show ?thesis using Some ok save_closed_chain_ok [OF ok(1) mem] by (simp add: cancel_approval_chain_def)
  qed (use ok in \<open>simp add: cancel_approval_chain_def\<close>)
next
  case (replanned s ticket changed_fields c s')
  then have ok: "chains_ok s" "succeeded (db_chains s)" by simp_all
  note new = replanned_chains [OF ok(1) replanned.hyps(2)]
  let ?old = "approval_chain_for s ''ticket'' (tk_id ticket)"
  have "succeeded (db_chains s')"
  proof (cases "\<exists>p. ?old = Some p \<and> ch_state p \<in> set [''Running'', ''Approved'']")
    case True
    then obtain p where p: "?old = Some p" "ch_state p \<in> set [''Running'', ''Approved'']" by blast
    have mem: "p \<in> set (db_chains s)" by (rule approval_chain_for_in [OF p(1)])
    let ?p = "closed_chain ''Superseded'' (db_clock s) p"
    have rows: "db_chains s' = put_row ch_id ?p (db_chains s) @ [c]" using new(2) p by (auto simp: supersede_chain_def save_chain_def)
    have dist: "distinct (map ch_id (db_chains s))" using ok(1) by (simp add: chains_ok_def)
    have p': "ch_id ?p = ch_id p" "ch_target_type ?p = ''ticket''" "ch_target_id ?p = tk_id ticket"
      using approval_chain_for_target(1) [OF p(1)] by (simp_all add: closed_chain_def)
    have newer: "ch_id x < ch_id c" if "x \<in> set (db_chains s)" for x using next_id_fresh [OF that, of ch_id] new(3) by simp
    show ?thesis
      unfolding succeeded_def
    proof (intro ballI impI)
      fix x assume x: "x \<in> set (db_chains s')" "ch_state x = ''Superseded''"
      show "\<exists>d \<in> set (db_chains s'). ch_target_type d = ch_target_type x \<and> ch_target_id d = ch_target_id x \<and> ch_id x < ch_id d"
      proof (cases "x = ?p")
        case True
        then show ?thesis using newer [OF mem] p' new(5,6) rows by (intro bexI [of _ c]) simp_all
      next
        case False
        then have x0: "x \<in> set (db_chains s)" using x new(4) rows set_put_row [of ch_id ?p "db_chains s"] by auto
        obtain d where d: "d \<in> set (db_chains s)" "ch_target_type d = ch_target_type x" "ch_target_id d = ch_target_id x" "ch_id x < ch_id d"
          using succeededD [OF ok(2) x0 x(2)] by blast
        show ?thesis
        proof (cases "ch_id d = ch_id p")
          case True
          then have "d = p" by (rule row_of_key [OF dist d(1) mem])
          then show ?thesis using d p' new(5,6) newer [OF x0] approval_chain_for_target(1) [OF p(1)] rows by (intro bexI [of _ c]) simp_all
        next
          case False
          then have "d \<in> set (put_row ch_id ?p (db_chains s))" using d(1) p'(1) by (auto simp: put_row_def image_iff)
          then show ?thesis using d rows by (intro bexI [of _ d]) simp_all
        qed
      qed
    qed
  next
    case False
    then have "db_chains s' = db_chains s @ [c]" using new(2) by (auto simp: supersede_chain_def split: option.splits)
    then show ?thesis using ok(2) new(4) by (simp add: succeeded_append)
  qed
  then show ?case using new(1) by simp
next
  case (unrelated s s')
  then show ?case by (simp add: chains_ok_def)
qed

text \<open>
  C17. A change moves to work or completion only after its approval. Whatever chains were started, decided, cancelled and
  restarted before, if a change enters a new state other than Cancelled and Rejected, then its latest approval chain exists and is Approved,
  every stage of that chain has reached its quorum, the move is one of the
  lifecycle table, required change tasks are done before it is resolved or closed, and a post-implementation
  review exists before it is closed.
\<close>

theorem change_control:
  assumes history: "approval_history s" and run: "transition_ticket ticket new_state hold_reason s = Inr s'"
    and kind: "tk_kind ticket = ''change''" and new: "new_state \<noteq> tk_state ticket" "new_state \<noteq> ''Cancelled''" "new_state \<noteq> ''Rejected''"
  shows "(\<exists>c. approval_chain_for s ''ticket'' (tk_id ticket) = Some c \<and> ch_state c = ''Approved'' \<and> list_all quorum (ch_gates c))
    \<and> new_state \<in> set (allowed_states TICKET_TRANSITIONS (tk_state ticket))
    \<and> (new_state \<in> set [''Resolved'', ''Closed''] \<longrightarrow> \<not> incomplete_change_task s ticket)
    \<and> (new_state = ''Closed'' \<longrightarrow> list_ex (\<lambda>r. pr_ticket_id r = tk_id ticket) (db_reviews s))"
proof -
  note ok = approval_history_ok [OF history]
  note allowed = change_transition_allowed [OF conjunct1 [OF ok] run kind new]
  then obtain c where c: "approval_chain_for s ''ticket'' (tk_id ticket) = Some c" "ch_state c \<in> set [''Approved'', ''Superseded'']" by blast
  have mem: "c \<in> set (db_chains s)" by (rule approval_chain_for_in [OF c(1)])
  have "ch_state c \<noteq> ''Superseded''"
  proof
    assume "ch_state c = ''Superseded''"
    then obtain d where d: "d \<in> set (db_chains s)" "ch_target_type d = ch_target_type c" "ch_target_id d = ch_target_id c" "ch_id c < ch_id d"
      using succeededD [OF _ mem] ok by blast
    then show False using approval_chain_for_target [OF c(1)] by fastforce
  qed
  then have approved: "ch_state c = ''Approved''" using c(2) by simp
  have "chain_ok c" using ok mem by (simp add: chains_ok_def list_all_iff)
  then have "list_all quorum (ch_gates c)" using approved by (auto simp: chain_ok_def list_all_iff gate_done_def)
  then show ?thesis using allowed c(1) approved by blast
qed

definition example_approved_db :: db where
  "example_approved_db =
     (case foldE (\<lambda>i. decide_vote i ''Approved'' []) [1, 3, 4] example_chain_db of Inr s \<Rightarrow> s | Inl e \<Rightarrow> empty_db)"

theorem change_control_witness:
  "\<exists>s' c. transition_ticket (hd (db_tickets example_approved_db)) ''In Progress'' None example_approved_db = Inr s'
    \<and> approval_chain_for example_approved_db ''ticket'' (tk_id (hd (db_tickets example_approved_db))) = Some c \<and> ch_state c = ''Approved''"
proof -
  let ?t = "hd (db_tickets example_approved_db)"
  have "case create_approval_chain ''Change authorization'' ''ticket'' 9 example_stages None None example_change_db of Inl e \<Rightarrow> False | Inr r \<Rightarrow> True"
    by code_simp
  then obtain c where "create_approval_chain ''Change authorization'' ''ticket'' 9 example_stages None None example_change_db = Inr (c, example_chain_db)"
    by (auto simp: example_chain_db_def split: sum.splits)
  moreover have "list_all stage_ok example_stages" by code_simp
  moreover have "approval_history example_change_db" by (rule approval_history.first) (simp add: example_change_db_def empty_db_def)
  ultimately have start: "approval_history example_chain_db" by (blast intro: approval_history.begun)
  have "case foldE (\<lambda>i. decide_vote i ''Approved'' []) [1, 3, 4] example_chain_db of Inl e \<Rightarrow> False | Inr s' \<Rightarrow> True" by code_simp
  then have decisions: "foldE (\<lambda>i. decide_vote i ''Approved'' []) [1, 3, 4] example_chain_db = Inr example_approved_db"
    unfolding example_approved_db_def by (cases "foldE (\<lambda>i. decide_vote i ''Approved'' []) [1, 3, 4] example_chain_db") simp_all
  have history: "approval_history example_approved_db"
    by (rule foldE_invariant [where P = approval_history, OF _ start decisions]) (rule approval_history.decided)
  have "case transition_ticket ?t ''In Progress'' None example_approved_db of Inl e \<Rightarrow> False | Inr s' \<Rightarrow> True" by code_simp
  then obtain s' where run: "transition_ticket ?t ''In Progress'' None example_approved_db = Inr s'" by (auto split: sum.splits)
  have t: "tk_kind ?t = ''change''" "''In Progress'' \<noteq> tk_state ?t" by code_simp+
  from change_control [OF history run t] run show ?thesis by auto
qed

section \<open>Bounds of the risk score\<close>

lemma risk_score_bounds: "0 \<le> calculate_change_risk_score change_type ci \<and> calculate_change_risk_score change_type ci \<le> 100"
  by (simp add: calculate_change_risk_score_def Let_def)

lemma risk_score_monotone:
  "calculate_change_risk_score ''Standard'' ci \<le> calculate_change_risk_score ''Normal'' ci"
  "calculate_change_risk_score ''Normal'' ci \<le> calculate_change_risk_score ''Emergency'' ci"
  by (simp_all add: calculate_change_risk_score_def Let_def split: option.split)

end
