(* ===== verification/Priority.thy ===== *)
theory Priority
  imports SLA
begin

text \<open>
  Priorities: the impact and urgency matrix with its validation (\<^verbatim>\<open>serviceops_core/priority.py\<close>,
  \<^verbatim>\<open>config/priority_matrix.json\<close>) and the one rule for every way a ticket's priority can change
  (\<^verbatim>\<open>serviceops_core/priority_governance.py\<close>).
\<close>

record priority_policy =
  pol_levels :: "string list"
  pol_matrix :: "(string \<times> (string \<times> string) list) list"

definition priority_matrix :: priority_policy where
  "priority_matrix = \<lparr>pol_levels = [''Critical'', ''High'', ''Medium'', ''Low''],
     pol_matrix =
       [(''Critical'', [(''Critical'', ''P1''), (''High'', ''P1''), (''Medium'', ''P2''), (''Low'', ''P3'')]),
        (''High'', [(''Critical'', ''P1''), (''High'', ''P2''), (''Medium'', ''P2''), (''Low'', ''P3'')]),
        (''Medium'', [(''Critical'', ''P2''), (''High'', ''P2''), (''Medium'', ''P3''), (''Low'', ''P4'')]),
        (''Low'', [(''Critical'', ''P3''), (''High'', ''P3''), (''Medium'', ''P4''), (''Low'', ''P4'')])]\<rparr>"

text \<open>The checks on a policy read from the configuration file.\<close>

definition load_priority_policy :: "priority_policy \<Rightarrow> priority_policy result" where
  "load_priority_policy policy =
     (if pol_levels policy = [] \<or> \<not> distinct (pol_levels policy)
        then Inl (RuntimeError ''Priority levels must be unique and non-empty.'')
      else if set (map fst (pol_matrix policy)) \<noteq> set (pol_levels policy)
        then Inl (RuntimeError ''Priority matrix must contain every impact level.'')
      else if list_ex (\<lambda>impact. case map_of (pol_matrix policy) impact of
             None \<Rightarrow> True
           | Some row \<Rightarrow> set (map fst row) \<noteq> set (pol_levels policy)
               \<or> \<not> set (map snd row) \<subseteq> set [''P1'', ''P2'', ''P3'', ''P4'']) (pol_levels policy)
        then Inl (RuntimeError ''Invalid priority row.'')
      else Inr policy)"

definition calculate_priority :: "priority_policy \<Rightarrow> string \<Rightarrow> string \<Rightarrow> string result" where
  "calculate_priority file impact urgency =
     bindE (load_priority_policy file) (\<lambda>policy.
       case map_of (pol_matrix policy) impact of
         None \<Rightarrow> Inl (ValueError ''Impact and urgency must be Critical, High, Medium or Low.'')
       | Some row \<Rightarrow>
           (case map_of row urgency of
              None \<Rightarrow> Inl (ValueError ''Impact and urgency must be Critical, High, Medium or Low.'')
            | Some p \<Rightarrow> Inr p))"

definition PRIORITIES :: "string list" where
  "PRIORITIES = [''P1'', ''P2'', ''P3'', ''P4'']"

definition MIN_OVERRIDE_REASON :: nat where
  "MIN_OVERRIDE_REASON = 10"

definition check_governed_priority ::
    "priority_policy \<Rightarrow> db \<Rightarrow> user \<Rightarrow> string \<Rightarrow> string \<Rightarrow> string option \<Rightarrow> string option \<Rightarrow> bool
       \<Rightarrow> (string \<times> string) result" where
  "check_governed_priority file s actor impact urgency priority reason overridden =
     (case calculate_priority file impact urgency of
        Inl (ValueError msg) \<Rightarrow> Inl (Abort 400 msg)
      | Inl e \<Rightarrow> Inl e
      | Inr calculated \<Rightarrow>
          let requested = opt calculated priority in
          if requested \<notin> set PRIORITIES then Inl (Abort 400 ''priority must be P1, P2, P3 or P4.'')
          else if overridden \<and> requested = calculated \<and> \<not> role_at_least (effective_role s actor) ''manager''
            then Inl (Abort 403 ''Only a manager or administrator may clear a priority override.'')
          else if requested \<noteq> calculated \<and> \<not> role_at_least (effective_role s actor) ''manager''
            then Inl (Abort 403 ''Only a manager or administrator may override the calculated priority.'')
          else if requested \<noteq> calculated \<and> length (strip (opt '''' reason)) < MIN_OVERRIDE_REASON
            then Inl (Abort 400 ''A priority override needs a reason of at least 10 characters.'')
          else Inr (calculated, requested))"

text \<open>\<^verbatim>\<open>previous_reason or "None"\<close>\<close>

definition or_None :: "string option \<Rightarrow> string option" where
  "or_None r = or_str r (Some ''None'')"

definition apply_governed_priority ::
    "priority_policy \<Rightarrow> ticket \<Rightarrow> user \<Rightarrow> string option \<Rightarrow> string option \<Rightarrow> string option \<Rightarrow> string option
       \<Rightarrow> string \<Rightarrow> db \<Rightarrow> (string \<times> db) result" where
  "apply_governed_priority file ticket actor impact urgency priority reason source s =
     (let impact = opt (tk_impact ticket) impact; urgency = opt (tk_urgency ticket) urgency in
      bindE (check_governed_priority file s actor impact urgency priority reason (tk_priority_overridden ticket))
        (\<lambda>(calculated, requested).
          let reason = strip (opt '''' reason);
              previous_reason = tk_priority_override_reason ticket;
              overriding = requested \<noteq> calculated;
              s = (if overriding then
                     (if Some reason \<noteq> previous_reason then
                        log_history ''ticket'' (tk_id ticket) ''Priority override reason recorded''
                          (Some ''priority override reason'') (or_None previous_reason) (Some reason)
                          (u_name actor @ '' overrode priority to '' @ requested @ '' (calculated: '' @ calculated
                             @ '') via '' @ source @ '': '' @ reason) None s
                      else s)
                   else if tk_priority_overridden ticket then
                     log_history ''ticket'' (tk_id ticket) ''Priority override cleared''
                       (Some ''priority override reason'') (or_None previous_reason) (Some ''None'')
                       (''Cleared via '' @ source @ ''.'') None s
                   else s);
              ticket' = ticket\<lparr>tk_priority_overridden := overriding,
                tk_priority_override_reason := (if overriding then Some reason else None),
                tk_impact := impact, tk_urgency := urgency, tk_priority := requested\<rparr>;
              s = s\<lparr>db_tickets := put_row tk_id ticket' (db_tickets s)\<rparr>
          in if requested \<noteq> tk_priority ticket
             then bindE (retarget_slas ''ticket'' (tk_id ticket) (Some requested) (tk_state ticket) None s)
                    (\<lambda>s. Inr (requested, s))
             else Inr (requested, s)))"

section \<open>The matrix\<close>

definition severity_rank :: "string \<Rightarrow> nat" where
  "severity_rank level = opt 4 (map_of [(''Critical'', 0), (''High'', 1), (''Medium'', 2), (''Low'', 3)] level)"

lemma case_both:
  "(case (a, b) of (Inr p, Inr p') \<Rightarrow> Q p p' | _ \<Rightarrow> False) \<longleftrightarrow> (\<exists>p p'. a = Inr p \<and> b = Inr p' \<and> Q p p')"
  by (auto split: sum.split)

text \<open>
  Every pair of the four levels has a priority, every other input is refused, and the matrix is
  monotone: an impact and an urgency that are at least as severe never give a less urgent priority.
\<close>

theorem priority_matrix_monotone:
  "(\<forall>i u. (\<exists>p. calculate_priority priority_matrix i u = Inr p)
       \<longleftrightarrow> i \<in> set (pol_levels priority_matrix) \<and> u \<in> set (pol_levels priority_matrix))
   \<and> (\<forall>i \<in> set (pol_levels priority_matrix). \<forall>u \<in> set (pol_levels priority_matrix).
      \<forall>i' \<in> set (pol_levels priority_matrix). \<forall>u' \<in> set (pol_levels priority_matrix).
        severity_rank i \<le> severity_rank i' \<and> severity_rank u \<le> severity_rank u' \<longrightarrow>
        (\<exists>p p'. calculate_priority priority_matrix i u = Inr p \<and> calculate_priority priority_matrix i' u' = Inr p'
           \<and> p \<in> set PRIORITIES \<and> p' \<in> set PRIORITIES \<and> p \<le> p'))"
proof -
  have load: "load_priority_policy priority_matrix = Inr priority_matrix" by code_simp
  have "(\<exists>p. calculate_priority priority_matrix i u = Inr p)
       \<longleftrightarrow> i \<in> set (pol_levels priority_matrix) \<and> u \<in> set (pol_levels priority_matrix)" for i u
    unfolding calculate_priority_def load by (simp add: priority_matrix_def)
  moreover have "list_all (\<lambda>i. list_all (\<lambda>u. list_all (\<lambda>i'. list_all (\<lambda>u'.
      severity_rank i \<le> severity_rank i' \<and> severity_rank u \<le> severity_rank u' \<longrightarrow>
      (case (calculate_priority priority_matrix i u, calculate_priority priority_matrix i' u') of
         (Inr p, Inr p') \<Rightarrow> p \<in> set PRIORITIES \<and> p' \<in> set PRIORITIES \<and> p \<le> p' | _ \<Rightarrow> False))
      (pol_levels priority_matrix)) (pol_levels priority_matrix)) (pol_levels priority_matrix))
      (pol_levels priority_matrix)"
    by code_simp
  ultimately show ?thesis unfolding case_both list_all_iff by blast
qed

theorem priority_matrix_monotone_witness:
  "calculate_priority priority_matrix ''High'' ''Medium'' = Inr ''P2''
   \<and> calculate_priority priority_matrix ''Low'' ''Low'' = Inr ''P4'' \<and> ''P2'' \<le> ''P4''"
proof -
  have "\<exists>p p'. calculate_priority priority_matrix ''High'' ''Medium'' = Inr p
      \<and> calculate_priority priority_matrix ''Low'' ''Low'' = Inr p'
      \<and> p \<in> set PRIORITIES \<and> p' \<in> set PRIORITIES \<and> p \<le> p'"
    using conjunct2 [OF priority_matrix_monotone, rule_format, of "''High''" "''Medium''" "''Low''" "''Low''"]
    by (simp add: priority_matrix_def severity_rank_def)
  moreover have "calculate_priority priority_matrix ''High'' ''Medium'' = Inr ''P2''"
      "calculate_priority priority_matrix ''Low'' ''Low'' = Inr ''P4''"
    by code_simp+
  ultimately show ?thesis by auto
qed

section \<open>Governed changes\<close>

text \<open>
  What is true of a ticket whose priority was set by the rule: it is the calculated one, or a flagged
  override with a reason of at least ten characters.
\<close>

definition priority_governed :: "priority_policy \<Rightarrow> ticket \<Rightarrow> bool" where
  "priority_governed file t \<longleftrightarrow>
     (case calculate_priority file (tk_impact t) (tk_urgency t) of
        Inl e \<Rightarrow> False
      | Inr calculated \<Rightarrow> tk_priority t \<in> set PRIORITIES
          \<and> (tk_priority_overridden t \<longleftrightarrow> tk_priority t \<noteq> calculated)
          \<and> (if tk_priority_overridden t
             then (case tk_priority_override_reason t of
                     None \<Rightarrow> False | Some r \<Rightarrow> MIN_OVERRIDE_REASON \<le> length r)
             else tk_priority_override_reason t = None))"

lemma check_governed_priority_ok:
  assumes "check_governed_priority file s actor impact urgency priority reason overridden = Inr (calculated, requested)"
  shows "calculate_priority file impact urgency = Inr calculated" and "requested \<in> set PRIORITIES"
    and "requested = opt calculated priority"
    and "requested \<noteq> calculated \<or> overridden \<Longrightarrow> role_at_least (effective_role s actor) ''manager''"
    and "requested \<noteq> calculated \<Longrightarrow> MIN_OVERRIDE_REASON \<le> length (strip (opt [] reason))"
  using assms
  by (auto simp: check_governed_priority_def Let_def not_less split: sum.splits error.splits if_splits)

text \<open>
  C33. Whatever the channel, a priority change that is accepted leaves the ticket governed: its priority
  is the calculated one, or it is flagged as an override with a reason; and setting or clearing an
  override succeeds only for a manager or administrator.
\<close>

theorem governed_priority:
  assumes run: "apply_governed_priority file ticket actor impact urgency priority reason source s = Inr (requested, s')"
    and row: "get_row tk_id (tk_id ticket) (db_tickets s) = Some ticket"
  shows "\<exists>ticket'. get_row tk_id (tk_id ticket) (db_tickets s') = Some ticket' \<and> tk_priority ticket' = requested
      \<and> priority_governed file ticket'
      \<and> (tk_priority_overridden ticket' \<or> tk_priority_overridden ticket
         \<longrightarrow> role_at_least (effective_role s actor) ''manager'')"
proof -
  let ?impact = "opt (tk_impact ticket) impact" and ?urgency = "opt (tk_urgency ticket) urgency"
  obtain calculated where check: "check_governed_priority file s actor ?impact ?urgency priority reason
      (tk_priority_overridden ticket) = Inr (calculated, requested)"
    using run by (auto simp: apply_governed_priority_def Let_def bindE_Inr_iff split: if_splits)
  note ok = check_governed_priority_ok [OF check]
  define ticket' where "ticket' = ticket\<lparr>tk_priority_overridden := requested \<noteq> calculated,
      tk_priority_override_reason := (if requested \<noteq> calculated then Some (strip (opt [] reason)) else None),
      tk_impact := ?impact, tk_urgency := ?urgency, tk_priority := requested\<rparr>"
  have "db_tickets s' = put_row tk_id ticket' (db_tickets s)"
    using run unfolding apply_governed_priority_def Let_def check
    by (auto simp: bindE_Inr_iff ticket'_def split: if_splits dest!: retarget_slas.fields(18))
  then have "get_row tk_id (tk_id ticket) (db_tickets s') = Some ticket'"
    using row by (simp add: get_put_row ticket'_def)
  moreover have "priority_governed file ticket'"
    using ok(1,2,5) by (auto simp: priority_governed_def ticket'_def)
  moreover have "tk_priority_overridden ticket' \<or> tk_priority_overridden ticket
      \<longrightarrow> role_at_least (effective_role s actor) ''manager''"
    using ok(4) by (auto simp: ticket'_def)
  ultimately show ?thesis by (intro exI [of _ ticket']) (simp add: ticket'_def)
qed

definition example_manager :: user where
  "example_manager = blank_user\<lparr>u_id := 5, u_name := ''Ann'', u_role := ''manager'', u_tenant_id := 2\<rparr>"

definition example_priority_ticket :: ticket where
  "example_priority_ticket = blank_ticket\<lparr>tk_id := 9, tk_kind := ''incident'', tk_state := ''New'',
     tk_impact := ''Low'', tk_urgency := ''Low'', tk_priority := ''P4'', tk_tenant_id := 2\<rparr>"

definition example_priority_db :: db where
  "example_priority_db = empty_db\<lparr>db_tickets := [example_priority_ticket], db_users := [example_manager]\<rparr>"

theorem governed_priority_witness:
  "\<exists>s' ticket'. apply_governed_priority priority_matrix example_priority_ticket example_manager None None
       (Some ''P1'') (Some ''Outage of the payroll run'') ''REST API'' example_priority_db = Inr (''P1'', s')
     \<and> get_row tk_id 9 (db_tickets s') = Some ticket' \<and> tk_priority_overridden ticket'
     \<and> priority_governed priority_matrix ticket'"
proof -
  let ?run = "apply_governed_priority priority_matrix example_priority_ticket example_manager None None
       (Some ''P1'') (Some ''Outage of the payroll run'') ''REST API'' example_priority_db"
  have "(case ?run of Inl e \<Rightarrow> False | Inr (p, s') \<Rightarrow> p = ''P1'' \<and>
      map tk_priority_overridden (db_tickets s') = [True] \<and> map tk_id (db_tickets s') = [9])"
    by code_simp
  then obtain s' where run: "?run = Inr (''P1'', s')" and rows: "map tk_priority_overridden (db_tickets s') = [True]"
    by (auto split: sum.splits)
  have id: "tk_id example_priority_ticket = 9" by (simp add: example_priority_ticket_def)
  have row: "get_row tk_id (tk_id example_priority_ticket) (db_tickets example_priority_db) = Some example_priority_ticket"
    by (simp add: example_priority_db_def get_row_Cons)
  from governed_priority [OF run row] obtain ticket' where
    t: "get_row tk_id 9 (db_tickets s') = Some ticket'" "priority_governed priority_matrix ticket'"
    unfolding id by blast
  have "tk_priority_overridden ticket'"
    using get_row_key [OF t(1)] rows by (metis (full_types) imageI list.simps(15) set_map singletonD empty_set)
  with run t show ?thesis by blast
qed

end
