(* ===== verification/Hierarchy.thy ===== *)
theory Hierarchy
  imports Tickets
begin

text \<open>
  Parent and child incidents (\<^verbatim>\<open>serviceops_core/incident_hierarchy.py\<close>) and the visibility of tickets they rest
  on (\<^verbatim>\<open>app.py\<close>). The link from a child to its parent is a record link; every path that sets a parent goes
  through \<open>set_parent\<close>. The walks up and down the hierarchy stop at the limits the source gives them.
\<close>

section \<open>Which tickets a person may see\<close>

definition user_support_group_ids :: "db \<Rightarrow> user \<Rightarrow> nat list" where
  "user_support_group_ids s user' =
     (if \<not> u_active user' then []
      else map g_id (filter (\<lambda>g. g_active g \<and> g_tenant_id g = u_tenant_id user'
        \<and> (g_id g \<in> set (membership_group_ids s user') \<or> g_manager_id g = Some (u_id user'))) (db_groups s)))"

definition IT_FULFILLMENT_GROUP_TYPES :: "string list" where
  "IT_FULFILLMENT_GROUP_TYPES = [''IT Fulfillment'', ''Data Center'']"

definition voted_ticket_ids :: "db \<Rightarrow> user \<Rightarrow> nat list" where
  "voted_ticket_ids s user' =
     map ch_target_id (filter (\<lambda>c. ch_target_type c = ''ticket'' \<and> list_ex (\<lambda>g. list_ex (\<lambda>v. v_approver_id v = u_id user'
       \<and> v_state v \<in> set [''Requested'', ''Approved'', ''Rejected'']) (gt_votes g)) (ch_gates c)) (db_chains s))"

text \<open>Membership of a ticket in \<^verbatim>\<open>visible_ticket_query(user)\<close>.\<close>

definition user_can_view_ticket :: "db \<Rightarrow> user \<Rightarrow> ticket \<Rightarrow> bool" where
  "user_can_view_ticket s user' ticket \<longleftrightarrow>
     u_active user' \<and> tk_tenant_id ticket = u_tenant_id user' \<and>
     (let group_ids = user_support_group_ids s user' in
      role_at_least (effective_role s user') ''admin''
      \<or> role_at_least (effective_role s user') ''agent''
          \<and> list_ex (\<lambda>g. g_id g \<in> set group_ids \<and> g_group_type g \<in> set IT_FULFILLMENT_GROUP_TYPES \<and> g_active g) (db_groups s)
      \<or> tk_requester_id ticket = u_id user'
      \<or> tk_id ticket \<in> set (voted_ticket_ids s user')
      \<or> list_ex (\<lambda>t. ot_parent_type t = ''ticket'' \<and> ot_parent_id t = tk_id ticket
          \<and> ot_assignment_group_id t \<in> set group_ids) (db_op_tasks s))"

text \<open>The branch of \<^verbatim>\<open>find_record_by_number\<close> that returns tickets; the other prefixes return other records.\<close>

definition find_ticket_by_number :: "db \<Rightarrow> string \<Rightarrow> nat option \<Rightarrow> ticket option" where
  "find_ticket_by_number s number tenant_id =
     (let normalized = upper (strip number);
          current_user = (case db_current_user s of None \<Rightarrow> None | Some i \<Rightarrow> get_user s i);
          tenant_id = (if tenant_id = None then map_option u_tenant_id current_user else tenant_id) in
      case tenant_id of
        None \<Rightarrow> None
      | Some tenant \<Rightarrow>
          if starts_with ''INC'' normalized \<or> starts_with ''CHG'' normalized
          then find (\<lambda>t. upper (tk_number t) = normalized \<and> tk_tenant_id t = tenant) (db_tickets s) else None)"

section \<open>Parents and children\<close>

definition parent_link :: "nat \<Rightarrow> record_link \<Rightarrow> bool" where
  "parent_link i l \<longleftrightarrow> rl_source_type l = ''ticket'' \<and> rl_source_id l = i \<and> rl_link_type l = ''parent_incident''"

definition parent_of :: "db \<Rightarrow> ticket \<Rightarrow> ticket option" where
  "parent_of s ticket =
     (case find (parent_link (tk_id ticket)) (db_record_links s) of
        None \<Rightarrow> None
      | Some link \<Rightarrow>
          (case get_row tk_id (rl_target_id link) (db_tickets s) of
             None \<Rightarrow> None
           | Some parent \<Rightarrow> if tk_tenant_id parent = tk_tenant_id ticket then Some parent else None))"

definition children_of :: "db \<Rightarrow> ticket \<Rightarrow> ticket list" where
  "children_of s ticket =
     (let ids = map rl_source_id (child_links s ticket)
      in sort_key tk_id (filter (\<lambda>t. tk_id t \<in> set ids \<and> tk_tenant_id t = tk_tenant_id ticket \<and> tk_deleted_at t = None) (db_tickets s)))"

function ancestors_loop :: "db \<Rightarrow> nat \<Rightarrow> ticket option \<Rightarrow> nat list \<Rightarrow> nat list" where
  "ancestors_loop s limit None seen = seen"
| "ancestors_loop s limit (Some current) seen =
     (if tk_id current \<notin> set seen \<and> length seen < limit
      then ancestors_loop s limit (parent_of s current) (seen @ [tk_id current])
      else seen)"
  by pat_completeness auto
termination
  by (relation "measure (\<lambda>(s, limit, current, seen). limit - length seen)") auto

definition ancestors :: "db \<Rightarrow> ticket \<Rightarrow> nat list" where
  "ancestors s ticket = ancestors_loop s 50 (Some ticket) []"

definition links_below :: "db \<Rightarrow> nat list \<Rightarrow> nat list" where
  "links_below s frontier = map rl_source_id (filter (\<lambda>l. rl_target_type l = ''ticket'' \<and> rl_target_id l \<in> set frontier
     \<and> rl_link_type l = ''parent_incident'') (db_record_links s))"

function descendants_loop :: "db \<Rightarrow> nat \<Rightarrow> nat list \<Rightarrow> nat list \<Rightarrow> nat list" where
  "descendants_loop s limit found frontier =
     (if frontier \<noteq> [] \<and> length found < limit
      then let frontier' = remdups (filter (\<lambda>i. i \<notin> set found) (links_below s frontier))
           in descendants_loop s limit (found @ frontier') frontier'
      else found)"
  by pat_completeness auto
termination
proof (relation "measure (\<lambda>(s, limit, found, frontier). if frontier = [] then 0 else Suc (limit - length found))",
    goal_cases)
  case (2 s limit found frontier new)
  show ?case
  proof (cases "new = []")
    case False
    then have "0 < length new" by simp
    with False 2(1) show ?thesis by (simp del: length_greater_0_conv) arith
  qed (use 2(1) in simp)
qed simp

declare descendants_loop.simps [simp del]

definition descendants :: "db \<Rightarrow> ticket \<Rightarrow> nat list" where
  "descendants s ticket = descendants_loop s 500 [] [tk_id ticket]"

section \<open>Setting the parent\<close>

definition find_parent :: "db \<Rightarrow> user \<Rightarrow> string \<Rightarrow> nat \<Rightarrow> ticket result" where
  "find_parent s user' number tenant_id =
     (let number = upper (strip number) in
      case (if number = [] then None else find_ticket_by_number s number None) of
        None \<Rightarrow> Inl (Abort 404 ''No incident matches'')
      | Some parent \<Rightarrow>
          if tk_tenant_id parent \<noteq> tenant_id \<or> \<not> user_can_view_ticket s user' parent then Inl (Abort 404 ''No incident matches'')
          else if tk_kind parent \<noteq> ''incident'' then Inl (Abort 400 ''Only an incident can be the parent of an incident.'')
          else Inr parent)"

definition checked_parent :: "db \<Rightarrow> user \<Rightarrow> ticket \<Rightarrow> string \<Rightarrow> ticket option result" where
  "checked_parent s user' child number =
     (let number = upper (strip number) in
      if number = [] then Inr None
      else bindE (find_parent s user' number (tk_tenant_id child)) (\<lambda>parent.
        if tk_kind child \<noteq> ''incident'' then Inl (Abort 400 ''Only an incident can be the parent of an incident.'')
        else if tk_id parent = tk_id child then Inl (Abort 400 ''An incident cannot be its own parent.'')
        else if tk_id child \<in> set (ancestors s parent) then Inl (Abort 409 ''an incident cannot be its own ancestor'')
        else Inr (Some parent)))"

definition set_parent :: "user \<Rightarrow> ticket \<Rightarrow> string option \<Rightarrow> db \<Rightarrow> (ticket option \<times> db) result" where
  "set_parent user' child number s =
     (let current = parent_of s child in
      bindE (checked_parent s user' child (opt [] number)) (\<lambda>parent.
        if map_option tk_id current = map_option tk_id parent then Inr (parent, s)
        else let
          s = s\<lparr>db_record_links := filter (\<lambda>l. \<not> parent_link (tk_id child) l) (db_record_links s)\<rparr>;
          s = (case current of None \<Rightarrow> s
            | Some c \<Rightarrow> log_history ''ticket'' (tk_id c) ''Child incident removed'' None None None (tk_number child @ '' is no longer a child.'') None s);
          s = (case parent of None \<Rightarrow> s
            | Some p \<Rightarrow> log_history ''ticket'' (tk_id p) ''Child incident added'' None None None (tk_number child @ '': '' @ tk_title child) None
                (s\<lparr>db_record_links := db_record_links s @ [\<lparr>rl_id = next_id rl_id (db_record_links s),
                   rl_tenant_id = fill_tenant s ''ticket'' (tk_id child), rl_source_type = ''ticket'', rl_source_id = tk_id child,
                   rl_target_type = ''ticket'', rl_target_id = tk_id p, rl_link_type = ''parent_incident'', rl_created_at = db_clock s\<rparr>]\<rparr>));
          name = (\<lambda>none t. case t of None \<Rightarrow> none | Some t \<Rightarrow> tk_number t);
          s = log_history ''ticket'' (tk_id child) ''Field changed'' (Some ''parent incident'') (Some (name ''None'' current))
                (Some (name ''None'' parent)) [] None s
        in Inr (parent, audit ''parent incident'' (tk_number child) (name ''none'' current @ '' -> '' @ name ''none'' parent) None None s)))"


section \<open>The hierarchy has no loops\<close>

definition parent_rel :: "db \<Rightarrow> (nat \<times> nat) set" where
  "parent_rel s = {(tk_id t, tk_id p) | t p. t \<in> set (db_tickets s) \<and> parent_of s t = Some p}"

lemma parent_of_row: "parent_of s t = Some p \<Longrightarrow> p \<in> set (db_tickets s) \<and> tk_tenant_id p = tk_tenant_id t"
  by (auto simp: parent_of_def split: option.splits if_splits dest: get_row_key)

lemma parent_of_same:
  assumes "db_record_links s' = db_record_links s" and "db_tickets s' = db_tickets s"
  shows "parent_of s' t = parent_of s t"
  unfolding parent_of_def assms ..

text \<open>Every id the walk collects is an ancestor, and a walk that is not cut short collects all of them.\<close>

lemma ancestors_loop_sound:
  assumes "\<And>t. current = Some t \<Longrightarrow> t \<in> set (db_tickets s) \<and> (i, tk_id t) \<in> (parent_rel s)\<^sup>*" and "\<forall>x \<in> set seen. (i, x) \<in> (parent_rel s)\<^sup>*"
    and "distinct seen"
  shows "distinct (ancestors_loop s limit current seen) \<and> (\<forall>x \<in> set (ancestors_loop s limit current seen). (i, x) \<in> (parent_rel s)\<^sup>*)"
  using assms
proof (induction s limit current seen rule: ancestors_loop.induct)
  case (2 s limit t seen)
  have t: "t \<in> set (db_tickets s)" "(i, tk_id t) \<in> (parent_rel s)\<^sup>*" using 2(2) by auto
  have "p \<in> set (db_tickets s) \<and> (i, tk_id p) \<in> (parent_rel s)\<^sup>*" if "parent_of s t = Some p" for p
  proof -
    have "(tk_id t, tk_id p) \<in> parent_rel s" using that t(1) by (auto simp: parent_rel_def)
    with t(2) parent_of_row [OF that] show ?thesis by auto
  qed
  with 2 t show ?case by simp
qed simp

lemma ancestors_loop_grows: "set seen \<subseteq> set (ancestors_loop s limit current seen)"
  by (induction s limit current seen rule: ancestors_loop.induct) auto

lemma ancestors_loop_complete:
  assumes keys: "distinct (map tk_id (db_tickets s))" and "\<And>t. current = Some t \<Longrightarrow> t \<in> set (db_tickets s)"
    and closed: "\<And>x y. x \<in> set seen \<Longrightarrow> (x, y) \<in> parent_rel s \<Longrightarrow> y \<in> set seen \<or> map_option tk_id current = Some y"
    and uncut: "length (ancestors_loop s limit current seen) < limit"
  shows "(\<forall>t. current = Some t \<longrightarrow> tk_id t \<in> set (ancestors_loop s limit current seen))
    \<and> (\<forall>x \<in> set (ancestors_loop s limit current seen). \<forall>y. (x, y) \<in> parent_rel s \<longrightarrow> y \<in> set (ancestors_loop s limit current seen))"
  using assms
proof (induction s limit current seen rule: ancestors_loop.induct)
  case (1 s limit seen)
  then show ?case by auto
next
  case (2 s limit t seen)
  show ?case
  proof (cases "tk_id t \<notin> set seen \<and> length seen < limit")
    case True
    have row: "u = t" if "u \<in> set (db_tickets s)" "tk_id u = tk_id t" for u
      by (rule row_of_key [OF 2(2) that(1) _ that(2)]) (use 2(3) in simp)
    have "p \<in> set (db_tickets s)" if "parent_of s t = Some p" for p using parent_of_row [OF that] by simp
    moreover have "y \<in> set (seen @ [tk_id t]) \<or> map_option tk_id (parent_of s t) = Some y"
      if "x \<in> set (seen @ [tk_id t])" "(x, y) \<in> parent_rel s" for x y
    proof (cases "x = tk_id t")
      case True
      then show ?thesis using that(2) row by (auto simp: parent_rel_def)
    next
      case False
      then show ?thesis using that 2(4) [of x y] by auto
    qed
    moreover have "length (ancestors_loop s limit (parent_of s t) (seen @ [tk_id t])) < limit" using 2(5) True by simp
    ultimately have "\<forall>x \<in> set (ancestors_loop s limit (parent_of s t) (seen @ [tk_id t])). \<forall>y. (x, y) \<in> parent_rel s \<longrightarrow>
        y \<in> set (ancestors_loop s limit (parent_of s t) (seen @ [tk_id t]))"
      using 2(1) [OF True 2(2)] by blast
    moreover have "tk_id t \<in> set (ancestors_loop s limit (parent_of s t) (seen @ [tk_id t]))"
      using ancestors_loop_grows [of "seen @ [tk_id t]" s limit "parent_of s t"] by auto
    ultimately show ?thesis using True by simp
  next
    case False
    then show ?thesis using 2(4,5) by auto
  qed
qed

lemma ancestors_exact:
  assumes keys: "distinct (map tk_id (db_tickets s))" and t: "t \<in> set (db_tickets s)"
    and small: "card ((parent_rel s)\<^sup>* `` {tk_id t}) < 50" and fin: "finite ((parent_rel s)\<^sup>* `` {tk_id t})"
  shows "set (ancestors s t) = (parent_rel s)\<^sup>* `` {tk_id t}"
proof -
  let ?A = "ancestors s t"
  have sound: "distinct ?A \<and> (\<forall>x \<in> set ?A. (tk_id t, x) \<in> (parent_rel s)\<^sup>*)"
    unfolding ancestors_def by (rule ancestors_loop_sound) (use t in auto)
  then have "length ?A = card (set ?A)" by (simp add: distinct_card)
  also have "\<dots> \<le> card ((parent_rel s)\<^sup>* `` {tk_id t})" by (rule card_mono [OF fin]) (use sound in auto)
  finally have uncut: "length (ancestors_loop s 50 (Some t) []) < 50" using small by (simp add: ancestors_def)
  have "(\<forall>t'. Some t = Some t' \<longrightarrow> tk_id t' \<in> set ?A) \<and> (\<forall>x \<in> set ?A. \<forall>y. (x, y) \<in> parent_rel s \<longrightarrow> y \<in> set ?A)"
    unfolding ancestors_def by (rule ancestors_loop_complete [OF keys _ _ uncut]) (use t in auto)
  then have start: "tk_id t \<in> set ?A" and closed: "\<And>x y. x \<in> set ?A \<Longrightarrow> (x, y) \<in> parent_rel s \<Longrightarrow> y \<in> set ?A" by auto
  have "x \<in> set ?A" if "(tk_id t, x) \<in> (parent_rel s)\<^sup>*" for x
    using that by (induction rule: rtrancl_induct) (use start closed in auto)
  with sound show ?thesis by auto
qed

lemma find_filter: "(\<And>x. P x \<Longrightarrow> Q x) \<Longrightarrow> find P (filter Q xs) = find P xs"
  by (induction xs) auto

lemma find_append_some: "find P (xs @ ys) = (case find P xs of None \<Rightarrow> find P ys | Some x \<Rightarrow> Some x)"
  by (induction xs) auto

lemma parent_of_cong: "tk_id t = tk_id t' \<Longrightarrow> tk_tenant_id t = tk_tenant_id t' \<Longrightarrow> parent_of s t = parent_of s t'"
  by (simp only: parent_of_def)

lemma checked_parent_ok:
  assumes "checked_parent s user' child number = Inr (Some p)"
  shows "p \<in> set (db_tickets s)" and "tk_tenant_id p = tk_tenant_id child" and "tk_kind p = ''incident''" and "tk_id p \<noteq> tk_id child"
    and "tk_id child \<notin> set (ancestors s p)"
proof -
  show "p \<in> set (db_tickets s)" "tk_tenant_id p = tk_tenant_id child" "tk_kind p = ''incident''" "tk_id p \<noteq> tk_id child"
    "tk_id child \<notin> set (ancestors s p)"
    using assms
    by (auto simp: checked_parent_def find_parent_def find_ticket_by_number_def Let_def bindE_Inr_iff find_Some_iff
        split: if_splits option.splits)
qed

lemma set_parent_links:
  assumes run: "set_parent user' child number s = Inr (par, s')"
  shows "checked_parent s user' child (opt [] number) = Inr par" and "db_tickets s' = db_tickets s"
    and "map_option tk_id (parent_of s child) = map_option tk_id par \<and> db_record_links s' = db_record_links s
      \<or> (\<exists>new. db_record_links s' = filter (\<lambda>l. \<not> parent_link (tk_id child) l) (db_record_links s) @ new
          \<and> (case par of None \<Rightarrow> new = [] | Some p \<Rightarrow> \<exists>l. new = [l] \<and> parent_link (tk_id child) l \<and> rl_target_id l = tk_id p))"
proof -
  obtain p where p: "checked_parent s user' child (opt [] number) = Inr p" using run by (auto simp: set_parent_def Let_def bindE_Inr_iff)
  show "checked_parent s user' child (opt [] number) = Inr par" using run p by (auto simp: set_parent_def Let_def split: if_splits)
  show "db_tickets s' = db_tickets s"
    using run p by (auto simp: set_parent_def Let_def split: if_splits option.splits)
  show "map_option tk_id (parent_of s child) = map_option tk_id par \<and> db_record_links s' = db_record_links s
      \<or> (\<exists>new. db_record_links s' = filter (\<lambda>l. \<not> parent_link (tk_id child) l) (db_record_links s) @ new
          \<and> (case par of None \<Rightarrow> new = [] | Some p \<Rightarrow> \<exists>l. new = [l] \<and> parent_link (tk_id child) l \<and> rl_target_id l = tk_id p))"
    using run p by (cases "parent_of s child"; cases p) (auto simp: set_parent_def Let_def parent_link_def split: if_splits)
qed

lemma set_parent_effect:
  assumes keys: "distinct (map tk_id (db_tickets s))" and run: "set_parent user' child number s = Inr (par, s')"
  shows "tk_id t \<noteq> tk_id child \<Longrightarrow> parent_of s' t = parent_of s t"
    and "tk_id t = tk_id child \<Longrightarrow> tk_tenant_id t = tk_tenant_id child \<Longrightarrow> map_option tk_id (parent_of s' t) = map_option tk_id par"
proof -
  note links = set_parent_links [OF run]
  have other: "find (parent_link i) (filter (\<lambda>l. \<not> parent_link (tk_id child) l) xs) = find (parent_link i) xs" if "i \<noteq> tk_id child" for i xs
    by (rule find_filter) (use that in \<open>auto simp: parent_link_def\<close>)
  show "parent_of s' t = parent_of s t" if "tk_id t \<noteq> tk_id child"
  proof -
    have "find (parent_link (tk_id t)) (db_record_links s') = find (parent_link (tk_id t)) (db_record_links s)"
      using links(3) other [OF that] that
      by (auto simp: find_append_some parent_link_def split: option.splits)
    then show ?thesis unfolding parent_of_def links(2) by simp
  qed
  show "map_option tk_id (parent_of s' t) = map_option tk_id par" if t: "tk_id t = tk_id child" "tk_tenant_id t = tk_tenant_id child"
    using links(3)
  proof (elim disjE conjE exE)
    assume "map_option tk_id (parent_of s child) = map_option tk_id par" "db_record_links s' = db_record_links s"
    then show ?thesis using parent_of_same [OF _ links(2)] parent_of_cong [OF t] by metis
  next
    fix new assume new: "db_record_links s' = filter (\<lambda>l. \<not> parent_link (tk_id child) l) (db_record_links s) @ new"
      "case par of None \<Rightarrow> new = [] | Some p \<Rightarrow> \<exists>l. new = [l] \<and> parent_link (tk_id child) l \<and> rl_target_id l = tk_id p"
    have "find (parent_link (tk_id child)) (filter (\<lambda>l. \<not> parent_link (tk_id child) l) (db_record_links s)) = None"
      by (auto simp: find_None_iff)
    then have first: "find (parent_link (tk_id t)) (db_record_links s') = find (parent_link (tk_id child)) new"
      by (simp add: new(1) find_append_some t)
    show ?thesis
    proof (cases par)
      case None
      then show ?thesis using first new(2) by (simp add: parent_of_def)
    next
      case (Some p)
      then obtain l where l: "new = [l]" "parent_link (tk_id child) l" "rl_target_id l = tk_id p" using new(2) by auto
      note p = checked_parent_ok [OF links(1) [unfolded Some]]
      have "get_row tk_id (tk_id p) (db_tickets s) = Some p" by (rule get_row_distinct [OF keys p(1)])
      then show ?thesis using first l p(2) t(2) by (simp add: parent_of_def links(2) Some)
    qed
  qed
qed

text \<open>
  C28. Setting a parent never makes a loop as long as the chosen parent has fewer than fifty ancestors: the
  incident gets exactly the chosen parent (or none), every other incident keeps its own, and a hierarchy
  without loops stays without loops.
\<close>

theorem set_parent_keeps_hierarchy:
  assumes keys: "distinct (map tk_id (db_tickets s))" and child: "child \<in> set (db_tickets s)"
    and tree: "acyclic (parent_rel s)" and run: "set_parent user' child number s = Inr (par, s')"
    and small: "case par of None \<Rightarrow> True | Some p \<Rightarrow> card ((parent_rel s)\<^sup>* `` {tk_id p}) < 50"
  shows "acyclic (parent_rel s') \<and> map_option tk_id (parent_of s' child) = map_option tk_id par
    \<and> list_all (\<lambda>t. tk_id t \<noteq> tk_id child \<longrightarrow> parent_of s' t = parent_of s t) (db_tickets s)"
proof -
  note effect = set_parent_effect [OF keys run]
  have row: "t = child" if "t \<in> set (db_tickets s)" "tk_id t = tk_id child" for t by (rule row_of_key [OF keys that(1) child that(2)])
  have new: "parent_rel s' \<subseteq> parent_rel s \<union> {(tk_id child, i) | i. map_option tk_id par = Some i}"
  proof (rule subrelI)
    fix i j assume "(i, j) \<in> parent_rel s'"
    then obtain t p where t: "i = tk_id t" "j = tk_id p" "t \<in> set (db_tickets s)" "parent_of s' t = Some p"
      by (auto simp: parent_rel_def set_parent_links(2) [OF run])
    show "(i, j) \<in> parent_rel s \<union> {(tk_id child, i) | i. map_option tk_id par = Some i}"
    proof (cases "tk_id t = tk_id child")
      case True
      then have "map_option tk_id (parent_of s' t) = map_option tk_id par" using row [OF t(3)] by (intro effect(2)) auto
      then have "map_option tk_id par = Some j" using t by simp
      then show ?thesis using t(1) True by simp
    next
      case False
      then have "parent_of s t = Some p" using effect(1) [OF False] t(4) by simp
      then show ?thesis using t(1,2,3) by (auto simp: parent_rel_def)
    qed
  qed
  have fin: "finite (parent_rel s)"
  proof (rule finite_subset)
    show "parent_rel s \<subseteq> tk_id ` set (db_tickets s) \<times> tk_id ` set (db_tickets s)"
      using parent_of_row by (auto simp: parent_rel_def)
  qed simp
  have "acyclic (parent_rel s')"
  proof (cases par)
    case None
    then show ?thesis using new acyclic_subset [OF tree] by auto
  next
    case (Some p)
    note p = checked_parent_ok [OF set_parent_links(1) [OF run, unfolded Some]]
    have "finite ((parent_rel s)\<^sup>* `` {tk_id p})"
      by (rule finite_subset [of _ "insert (tk_id p) (Range (parent_rel s))"])
        (use fin finite_Range in \<open>auto elim: rtranclE\<close>)
    then have "(tk_id p, tk_id child) \<notin> (parent_rel s)\<^sup>*"
      using ancestors_exact [OF keys p(1)] small Some p(5) by auto
    then have "acyclic (insert (tk_id child, tk_id p) (parent_rel s))" using tree by (simp add: acyclic_insert)
    moreover have "parent_rel s' \<subseteq> insert (tk_id child, tk_id p) (parent_rel s)" using new Some by auto
    ultimately show ?thesis by (rule acyclic_subset)
  qed
  with effect show ?thesis by (auto simp: list_all_iff)
qed

definition example_incident :: "nat \<Rightarrow> ticket" where
  "example_incident i = blank_ticket\<lparr>tk_id := i, tk_tenant_id := 3, tk_number := ''INC'' @ show_nat i, tk_kind := ''incident'',
     tk_requester_id := 8\<rparr>"

definition example_caller :: user where
  "example_caller = blank_user\<lparr>u_id := 8, u_tenant_id := 3, u_active := True\<rparr>"

definition example_link :: "nat \<Rightarrow> record_link" where
  "example_link i = \<lparr>rl_id = i, rl_tenant_id = Some 3, rl_source_type = ''ticket'', rl_source_id = i, rl_target_type = ''ticket'',
     rl_target_id = Suc i, rl_link_type = ''parent_incident'', rl_created_at = 0\<rparr>"

text \<open>A chain of incidents from 10 up to the given one, each the child of the next.\<close>

definition example_ladder_db :: "nat \<Rightarrow> db" where
  "example_ladder_db n = empty_db\<lparr>db_current_user := Some 8, db_users := [example_caller], db_tickets := map example_incident [10..<Suc n],
     db_record_links := map example_link [10..<n]\<rparr>"

definition example_hierarchy_db :: db where
  "example_hierarchy_db = (example_ladder_db 11)\<lparr>db_tickets := map example_incident [10, 11, 20]\<rparr>"

lemma example_incident_simps [simp]:
  "tk_id (example_incident i) = i" "tk_tenant_id (example_incident i) = 3" "tk_kind (example_incident i) = ''incident''"
  "tk_number (example_incident i) = ''INC'' @ show_nat i" "tk_requester_id (example_incident i) = 8"
  by (simp_all add: example_incident_def)

lemma parent_rel_code:
  "parent_rel s = set (concat (map (\<lambda>t. case parent_of s t of None \<Rightarrow> [] | Some p \<Rightarrow> [(tk_id t, tk_id p)]) (db_tickets s)))"
  by (auto simp: parent_rel_def split: option.splits) force+

theorem set_parent_keeps_hierarchy_witness:
  "case set_parent example_caller (example_incident 20) (Some ''inc10'') example_hierarchy_db of
     Inl e \<Rightarrow> False
   | Inr (par, s') \<Rightarrow> acyclic (parent_rel s') \<and> map_option tk_id (parent_of s' (example_incident 20)) = Some 10
       \<and> parent_of s' (example_incident 10) = Some (example_incident 11)"
proof -
  let ?s = example_hierarchy_db and ?child = "example_incident 20"
  have "case set_parent example_caller ?child (Some ''inc10'') ?s of Inl e \<Rightarrow> False | Inr (par, s') \<Rightarrow> map_option tk_id par = Some 10"
    by code_simp
  then obtain par s' where run: "set_parent example_caller ?child (Some ''inc10'') ?s = Inr (par, s')" and par: "map_option tk_id par = Some 10"
    by (auto split: sum.splits)
  have keys: "distinct (map tk_id (db_tickets ?s))" and child: "?child \<in> set (db_tickets ?s)"
    and start: "parent_of ?s (example_incident 10) = Some (example_incident 11)" by code_simp+
  have "concat (map (\<lambda>t. case parent_of ?s t of None \<Rightarrow> [] | Some p \<Rightarrow> [(tk_id t, tk_id p)]) (db_tickets ?s)) = [(10, 11)]"
    by code_simp
  then have rel: "parent_rel ?s = {(10, 11)}" by (simp only: parent_rel_code) simp
  have "({(10, 11)} :: (nat \<times> nat) set)\<^sup>* `` {10} \<subseteq> {10, 11}" by (auto elim: rtranclE)
  then have "card ((parent_rel ?s)\<^sup>* `` {10}) \<le> card {10::nat, 11}" unfolding rel by (rule card_mono [rotated]) simp
  then have small: "case par of None \<Rightarrow> True | Some p \<Rightarrow> card ((parent_rel ?s)\<^sup>* `` {tk_id p}) < 50" using par by (auto split: option.splits)
  have tree: "acyclic (parent_rel ?s)" unfolding rel by (simp add: acyclic_insert) (simp add: acyclic_def)
  have "example_incident 10 \<in> set (db_tickets ?s)" by (simp add: example_hierarchy_db_def)
  then show ?thesis using set_parent_keeps_hierarchy [OF keys child tree run small] run par start by (auto simp: list_all_iff)
qed

lemma find_only:
  assumes "x \<in> set xs" and "P x" and only: "\<And>y. y \<in> set xs \<Longrightarrow> P y \<Longrightarrow> y = x"
  shows "find P xs = Some x"
proof (cases "find P xs")
  case None
  then show ?thesis using assms(1,2) by (auto simp: find_None_iff)
next
  case (Some y)
  then have "y \<in> set xs" "P y" by (auto simp: find_Some_iff)
  with only Some show ?thesis by simp
qed

lemma chain_row: "10 \<le> i \<Longrightarrow> i \<le> n \<Longrightarrow> get_row tk_id i (db_tickets (example_ladder_db n)) = Some (example_incident i)"
  unfolding get_row_def example_ladder_db_def by (rule find_only) (auto simp del: upt_Suc)

lemma chain_parent:
  assumes "10 \<le> i" and "i < n"
  shows "parent_of (example_ladder_db n) (example_incident i) = Some (example_incident (Suc i))"
proof -
  have "find (parent_link i) (db_record_links (example_ladder_db n)) = Some (example_link i)"
    unfolding example_ladder_db_def using assms by (intro find_only) (auto simp: parent_link_def example_link_def)
  then show ?thesis using chain_row [of "Suc i" n] assms by (simp add: parent_of_def example_link_def)
qed

lemma chain_end: "parent_of (example_ladder_db n) (example_incident n) = None"
proof -
  have "find (parent_link n) (db_record_links (example_ladder_db n)) = None"
    by (auto simp: find_None_iff example_ladder_db_def parent_link_def example_link_def)
  then show ?thesis by (simp add: parent_of_def)
qed

lemma chain_walk:
  assumes "10 \<le> i" and "i \<le> n" and "i \<le> 10 + limit"
  shows "ancestors_loop (example_ladder_db n) limit (Some (example_incident i)) [10..<i] = [10..<min (Suc n) (10 + limit)]"
  using assms
proof (induction "n - i" arbitrary: i)
  case 0
  then have "i = n" by simp
  then show ?case using 0 chain_end [of n] by (cases "n < 10 + limit") (auto simp: min_def upt_Suc_append)
next
  case (Suc d)
  show ?case
  proof (cases "i < 10 + limit")
    case True
    have "[10..<i] @ [i] = [10..<Suc i]" using Suc.prems by simp
    then show ?thesis using Suc True chain_parent [of i n] Suc.hyps(1) [of "Suc i"] by simp
  next
    case False
    then have "i = 10 + limit" using Suc.prems by simp
    then show ?thesis using Suc.prems by (simp add: min_def)
  qed
qed

lemma chain_ancestors: "10 \<le> n \<Longrightarrow> set (ancestors (example_ladder_db n) (example_incident 10)) = {10..<min (Suc n) 60}"
proof -
  assume n: "10 \<le> n"
  have "ancestors (example_ladder_db n) (example_incident 10) = [10..<min (Suc n) 60]"
    unfolding ancestors_def using chain_walk [of 10 n 50] n by (simp del: ancestors_loop.simps)
  then show ?thesis by (simp del: min_Suc2 upt_Suc)
qed

lemma chain_bottom:
  assumes "10 < n"
  shows "find_parent (example_ladder_db n) example_caller ''INC10'' 3 = Inr (example_incident 10)"
proof -
  have first: "db_tickets (example_ladder_db n) = example_incident 10 # map example_incident [11..<Suc n]"
    using assms by (simp add: example_ladder_db_def upt_conv_Cons del: upt_Suc)
  have "upper (''INC'' @ show_nat 10) = ''INC10''" "upper (strip ''INC10'') = ''INC10''" by code_simp+
  moreover have "get_user (example_ladder_db n) 8 = Some example_caller" "db_current_user (example_ladder_db n) = Some 8"
    by (simp_all add: example_ladder_db_def get_user_def get_row_def example_caller_def)
  ultimately show ?thesis using first
    by (simp add: find_parent_def find_ticket_by_number_def user_can_view_ticket_def example_caller_def Let_def starts_with_def)
qed

lemma chain_check:
  assumes "10 < n"
  shows "checked_parent (example_ladder_db n) example_caller (example_incident n) '' inc10 ''
    = (if n < 60 then Inl (Abort 409 ''an incident cannot be its own ancestor'') else Inr (Some (example_incident 10)))"
proof -
  have "upper (strip '' inc10 '') = ''INC10''" by code_simp
  then show ?thesis using chain_bottom [OF assms] chain_ancestors [of n] assms by (simp add: checked_parent_def Let_def)
qed

lemma chain_loop:
  assumes n: "10 < n" and run: "set_parent example_caller (example_incident n) (Some '' inc10 '') (example_ladder_db n) = Inr (p, s')"
  shows "60 \<le> n \<and> db_tickets s' = map example_incident [10..<Suc n] \<and> (\<forall>t \<in> set (db_tickets s'). (tk_id t, tk_id t) \<in> (parent_rel s')\<^sup>+)"
proof -
  note check = chain_check [OF n]
  have big: "60 \<le> n" and p: "p = Some (example_incident 10)" using set_parent_links(1) [OF run] check by (auto split: if_splits)
  have keys: "distinct (map tk_id (db_tickets (example_ladder_db n)))" by (simp add: example_ladder_db_def comp_def)
  note effect = set_parent_effect [OF keys run]
  have rows: "db_tickets s' = map example_incident [10..<Suc n]" using set_parent_links(2) [OF run] by (simp add: example_ladder_db_def)
  have up: "(i, Suc i) \<in> parent_rel s'" if "10 \<le> i" "i < n" for i
  proof -
    have "parent_of s' (example_incident i) = Some (example_incident (Suc i))"
      using effect(1) [of "example_incident i"] chain_parent [OF that] that by simp
    moreover have "example_incident i \<in> set (db_tickets s')" using that by (simp add: rows)
    ultimately show ?thesis unfolding parent_rel_def by (intro CollectI exI [of _ "example_incident i"] exI [of _ "example_incident (Suc i)"]) simp
  qed
  have climb: "(i, j) \<in> (parent_rel s')\<^sup>*" if "10 \<le> i" "i \<le> j" "j \<le> n" for i j
    using that(2,3) by (induction j rule: dec_induct) (use that(1) in \<open>auto intro: rtrancl_into_rtrancl [OF _ up]\<close>)
  have closing: "(n, 10) \<in> parent_rel s'"
  proof -
    obtain q where q: "parent_of s' (example_incident n) = Some q" "tk_id q = 10" using effect(2) [of "example_incident n"] p by auto
    moreover have "example_incident n \<in> set (db_tickets s')" using n by (simp add: rows)
    ultimately show ?thesis unfolding parent_rel_def by (intro CollectI exI [of _ "example_incident n"] exI [of _ q]) simp
  qed
  have "(i, i) \<in> (parent_rel s')\<^sup>+" if i: "10 \<le> i" "i \<le> n" for i
    using rtrancl_into_trancl1 [OF climb [of i n] closing] climb [of 10 i] i by (auto intro: trancl_rtrancl_trancl)
  with big rows show ?thesis by auto
qed

text \<open>
  C38. The walk that looks for loops visits at most fifty incidents. In a chain of incidents in which 10 is at the
  bottom and \<open>n\<close> at the top, making the top a child of the bottom is refused with 409 up to fifty incidents; from
  fifty-one on it is accepted, and every incident is then its own ancestor.
\<close>

theorem long_chain_becomes_loop:
  "case set_parent example_caller (example_incident (11 + k)) (Some '' inc10 '') (example_ladder_db (11 + k)) of
     Inl e \<Rightarrow> 11 + k < 60 \<and> e = Abort 409 ''an incident cannot be its own ancestor''
   | Inr (p, s') \<Rightarrow> 60 \<le> 11 + k \<and> map tk_id (db_tickets s') = [10..<12 + k]
       \<and> list_all (\<lambda>t. (tk_id t, tk_id t) \<in> (parent_rel s')\<^sup>+) (db_tickets s')"
proof (cases "set_parent example_caller (example_incident (11 + k)) (Some '' inc10 '') (example_ladder_db (11 + k))")
  case (Inl e)
  then have "checked_parent (example_ladder_db (11 + k)) example_caller (example_incident (11 + k)) '' inc10 '' = Inl e"
    by (auto simp: set_parent_def Let_def bindE_def split: sum.splits if_splits)
  then show ?thesis using Inl chain_check [of "11 + k"] by (auto split: if_splits)
next
  case (Inr r)
  obtain p s' where r: "r = (p, s')" by (cases r)
  have "map tk_id (map example_incident xs) = xs" for xs by (simp add: comp_def)
  then show ?thesis using chain_loop [of "11 + k" p s'] Inr unfolding r by (simp add: list_all_iff del: upt_Suc)
qed

end
