(* ===== verification/Incident_Handling.thy ===== *)
theory Incident_Handling
  imports Policy_Administration Hierarchy Numbering
begin

text \<open>
  Incident handling (\<^verbatim>\<open>serviceops_core/incident_handling.py\<close>): the caller's reply that ends a hold, the assignment rules
  that route a new incident to a team and their administration, the templates of frequent incidents, and the problem
  raised from an incident. The search for similar incidents and the copying of comments are not modelled: the first
  takes an arbitrary part of a Python set, the second writes to the discussion, which is not part of the model's tables.
  The column \<^verbatim>\<open>updated_at\<close> of rules and templates is refreshed by the database layer and read by no operation; it is set at the
  creation only.
\<close>

section \<open>The caller's reply\<close>

definition caller_replied :: "ticket \<Rightarrow> user \<Rightarrow> db \<Rightarrow> (bool \<times> db) result" where
  "caller_replied ticket author s =
     (if tk_kind ticket = ''incident'' \<and> tk_state ticket = ''Pending'' \<and> tk_hold_reason ticket = Some ''Awaiting caller''
         \<and> u_id author = tk_requester_id ticket \<and> ''In Progress'' \<in> set (allowed_ticket_states s ticket)
      then bindE (transition_ticket ticket ''In Progress'' None s) (\<lambda>s.
        Inr (True, log_history ''ticket'' (tk_id ticket) ''State changed'' (Some ''state'') (Some ''Pending'') (Some ''In Progress'')
          ''The caller replied, so work resumed.'' None s))
      else Inr (False, s))"

section \<open>Teams, forms and categories\<close>

definition GOVERNANCE_GROUP_NAMES :: "string list" where
  "GOVERNANCE_GROUP_NAMES = [''Change Control Board'', ''Executive Office'']"

definition is_team_group :: "support_group \<Rightarrow> bool" where
  "is_team_group grp \<longleftrightarrow> g_active grp \<and> g_group_type grp \<noteq> ''CCB Approval'' \<and> g_name grp \<notin> set GOVERNANCE_GROUP_NAMES"

text \<open>\<^verbatim>\<open>tenant_record_or_404\<close> for the teams and the service offerings; a submitted key is any integer.\<close>

definition tenant_record_or_404 :: "('r \<Rightarrow> nat) \<Rightarrow> ('r \<Rightarrow> nat) \<Rightarrow> 'r list \<Rightarrow> db \<Rightarrow> int \<Rightarrow> 'r result" where
  "tenant_record_or_404 key tenant rows s record_id =
     (case find (\<lambda>r. int (key r) = record_id \<and> tenant r = tenant_context_id s) rows of
        None \<Rightarrow> Inl (Abort 404 ''Not Found'')
      | Some r \<Rightarrow> Inr r)"

text \<open>\<^verbatim>\<open>parse_int\<close> without bounds.\<close>

definition parse_int :: "string option \<Rightarrow> string \<Rightarrow> bool \<Rightarrow> int option result" where
  "parse_int raw name required =
     (let text = strip (opt [] raw) in
      if text = [] then (if required then Inl (Abort 400 (''Choose or enter '' @ name)) else Inr None)
      else (case int_of_str text of
              None \<Rightarrow> Inl (Abort 400 (name @ '' must be a whole number.''))
            | Some value \<Rightarrow> Inr (Some value)))"

definition TICKET_CATEGORY_OPTIONS :: "string list" where
  "TICKET_CATEGORY_OPTIONS = [''Hardware'', ''Software / Application'', ''Network'', ''Access / Identity'',
     ''Infrastructure / Platform'', ''Security'', ''Data / Database'', ''Communication'', ''Facilities / Endpoint services'']"

definition tenant_ticket_categories :: "db \<Rightarrow> nat \<Rightarrow> string list" where
  "tenant_ticket_categories s tenant_id =
     (let rows = filter (\<lambda>c. tc_tenant_id c = tenant_id \<and> tc_active c) (db_categories s)
      in if rows = [] then TICKET_CATEGORY_OPTIONS else sort (map tc_name rows))"

text \<open>The active subcategories with the name of their active category.\<close>

definition tenant_ticket_subcategories :: "db \<Rightarrow> nat \<Rightarrow> (string \<times> string) list" where
  "tenant_ticket_subcategories s tenant_id =
     concat (map (\<lambda>sub. map (\<lambda>c. (tc_name c, ts_name sub)) (filter (\<lambda>c. tc_id c = ts_category_id sub \<and> tc_active c) (db_categories s)))
       (filter (\<lambda>sub. ts_tenant_id sub = tenant_id \<and> ts_active sub) (db_subcategories s)))"

definition category_values :: "db \<Rightarrow> nat \<Rightarrow> form \<Rightarrow> (string \<times> string) result" where
  "category_values s tenant_id f =
     (let category = strip (opt [] (map_of f ''category'')); subcategory = strip (opt [] (map_of f ''subcategory'')) in
      if category \<noteq> [] \<and> category \<notin> set (tenant_ticket_categories s tenant_id)
        then Inl (Abort 400 ''Choose a category from the list.'')
      else if subcategory \<noteq> [] \<and> \<not> list_ex (\<lambda>(parent, name). name = subcategory \<and> (category = [] \<or> parent = category))
                 (tenant_ticket_subcategories s tenant_id)
        then Inl (Abort 400 ''Choose a subcategory that belongs to the category.'')
      else Inr (category, subcategory))"

text \<open>\<^verbatim>\<open>form.get("active", "1") in ("1", "on", "true")\<close>: a form without the field means active.\<close>

definition form_active :: "form \<Rightarrow> bool" where
  "form_active f \<longleftrightarrow> opt ''1'' (map_of f ''active'') \<in> set [''1'', ''on'', ''true'']"

section \<open>Assignment rules\<close>

definition rules :: "db \<Rightarrow> nat \<Rightarrow> assignment_rule list" where
  "rules s tenant_id = sort_key ar_position (sort_key ar_id (filter (\<lambda>r. ar_tenant_id r = tenant_id) (db_rules s)))"

definition rule_matches :: "assignment_rule \<Rightarrow> string \<Rightarrow> string \<Rightarrow> configuration_item option \<Rightarrow> nat option \<Rightarrow> bool" where
  "rule_matches rule category subcategory ci offering_id \<longleftrightarrow>
     (ar_category rule = [] \<or> ar_category rule = category)
     \<and> (ar_subcategory rule = [] \<or> ar_subcategory rule = subcategory)
     \<and> (ar_ci_class rule = [] \<or> map_option ci_ci_class ci = Some (ar_ci_class rule))
     \<and> (ar_service_offering_id rule \<in> {None, Some 0} \<or> ar_service_offering_id rule = offering_id)"

fun first_match ::
    "db \<Rightarrow> string \<Rightarrow> string \<Rightarrow> configuration_item option \<Rightarrow> nat option \<Rightarrow> assignment_rule list \<Rightarrow> (support_group \<times> string) option" where
  "first_match s category subcategory ci offering_id [] = None"
| "first_match s category subcategory ci offering_id (rule # rest) =
     (case get_row g_id (ar_group_id rule) (db_groups s) of
        None \<Rightarrow> first_match s category subcategory ci offering_id rest
      | Some grp \<Rightarrow>
          if ar_active rule \<and> is_team_group grp \<and> rule_matches rule category subcategory ci offering_id
          then Some (grp, ''assignment rule '' @ ar_name rule)
          else first_match s category subcategory ci offering_id rest)"

definition support_group_of :: "db \<Rightarrow> configuration_item option \<Rightarrow> support_group option" where
  "support_group_of s ci = Option.bind ci (\<lambda>c. Option.bind (ci_support_group_id c) (\<lambda>i. get_row g_id i (db_groups s)))"

definition route :: "db \<Rightarrow> nat \<Rightarrow> string \<Rightarrow> string \<Rightarrow> configuration_item option \<Rightarrow> nat option \<Rightarrow> (support_group \<times> string) option" where
  "route s tenant_id category subcategory ci offering_id =
     (case first_match s category subcategory ci offering_id (rules s tenant_id) of
        Some found \<Rightarrow> Some found
      | None \<Rightarrow>
          (case support_group_of s ci of
             Some grp \<Rightarrow> if is_team_group grp then Some (grp, ''the support group of '' @ ci_name (the ci)) else None
           | None \<Rightarrow> None))"

definition chosen_offering :: "db \<Rightarrow> form \<Rightarrow> nat option result" where
  "chosen_offering s f =
     (if opt [] (map_of f ''service_offering_id'') = [] then Inr None
      else bindE (parse_int (map_of f ''service_offering_id'') ''service_offering_id'' False) (\<lambda>i.
        case i of
          None \<Rightarrow> Inl (Abort 404 ''Not Found'')
        | Some i \<Rightarrow> bindE (tenant_record_or_404 sv_id sv_tenant_id (db_offerings s) s i) (\<lambda>offering. Inr (Some (sv_id offering)))))"

text \<open>The team a rule routes to, and the values of the rule, checked in the order of the code.\<close>

definition chosen_team :: "db \<Rightarrow> form \<Rightarrow> string \<Rightarrow> support_group result" where
  "chosen_team s f refusal =
     bindE (parse_int (map_of f ''group_id'') ''group_id'' True) (\<lambda>i.
     bindE (tenant_record_or_404 g_id g_tenant_id (db_groups s) s (opt 0 i)) (\<lambda>grp.
       if is_team_group grp then Inr grp else Inl (Abort 400 refusal)))"

definition edited_rule ::
    "form \<Rightarrow> string \<Rightarrow> support_group \<Rightarrow> nat option \<Rightarrow> string \<times> string \<Rightarrow> assignment_rule \<Rightarrow> assignment_rule" where
  "edited_rule f name grp offering_id categories rule =
     rule\<lparr>ar_name := name, ar_group_id := g_id grp, ar_service_offering_id := offering_id, ar_category := fst categories,
       ar_subcategory := snd categories, ar_ci_class := take 80 (strip (opt [] (map_of f ''ci_class''))), ar_active := form_active f\<rparr>"

definition has_condition :: "assignment_rule \<Rightarrow> bool" where
  "has_condition rule \<longleftrightarrow>
     ar_category rule \<noteq> [] \<or> ar_subcategory rule \<noteq> [] \<or> ar_ci_class rule \<noteq> [] \<or> ar_service_offering_id rule \<notin> {None, Some 0}"

definition save_rule :: "user \<Rightarrow> form \<Rightarrow> assignment_rule option \<Rightarrow> db \<Rightarrow> (assignment_rule \<times> db) result" where
  "save_rule actor f rule s =
     (let tenant_id = u_tenant_id actor; name = strip (opt [] (map_of f ''name'')) in
      if \<not> (0 < length name \<and> length name \<le> 80) then Inl (Abort 400 ''A rule name has 1 to 80 characters.'')
      else
      bindE (chosen_team s f ''Rules can only route to an active team.'') (\<lambda>grp.
      bindE (chosen_offering s f) (\<lambda>offering_id.
      bindE (category_values s tenant_id f) (\<lambda>categories.
        let edit = edited_rule f name grp offering_id categories in
        if \<not> has_condition (edit blank_assignment_rule) then Inl (Abort 400 ''Give the rule at least one condition'')
        else (case rule of
            None \<Rightarrow>
              let row = edit (blank_assignment_rule\<lparr>ar_id := next_id ar_id (db_rules s), ar_tenant_id := tenant_id,
                    ar_position := length (rules s tenant_id), ar_created_at := db_clock s, ar_updated_at := db_clock s\<rparr>)
              in Inr (row, audit ''assignment rule created'' name (''-> '' @ g_name grp) None None (s\<lparr>db_rules := db_rules s @ [row]\<rparr>))
          | Some old \<Rightarrow>
              Inr (edit old, audit ''assignment rule updated'' name (''-> '' @ g_name grp) None None
                (s\<lparr>db_rules := put_row ar_id (edit old) (db_rules s)\<rparr>)))))))"

text \<open>\<^verbatim>\<open>for position, row in enumerate(ordered): row.position = position\<close>.\<close>

definition put_rule_position :: "nat \<Rightarrow> assignment_rule \<Rightarrow> assignment_rule" where
  "put_rule_position i rule = rule\<lparr>ar_position := i\<rparr>"

interpretation rule_list: positioned ar_position put_rule_position ar_id
  by unfold_locales (simp_all add: put_rule_position_def)

definition save_order :: "assignment_rule list \<Rightarrow> db \<Rightarrow> db" where
  "save_order ordered s = s\<lparr>db_rules := fold (put_row ar_id) (renumber put_rule_position ordered) (db_rules s)\<rparr>"

definition delete_rule :: "user \<Rightarrow> assignment_rule \<Rightarrow> db \<Rightarrow> db" where
  "delete_rule actor rule s =
     (let s = audit ''assignment rule deleted'' (ar_name rule) [] None None s;
          s = s\<lparr>db_rules := filter (\<lambda>r. ar_id r \<noteq> ar_id rule) (db_rules s)\<rparr>
      in save_order (rules s (u_tenant_id actor)) s)"

definition move_rule :: "user \<Rightarrow> assignment_rule \<Rightarrow> string \<Rightarrow> db \<Rightarrow> db result" where
  "move_rule actor rule direction s =
     (let ordered = rules s (u_tenant_id actor) in
      case row_index ar_id (ar_id rule) ordered of
        None \<Rightarrow> Inl (ValueError ''not in list'')
      | Some index \<Rightarrow>
          let other = (if direction = ''up'' then int index - 1 else int index + 1) in
          if 0 \<le> other \<and> other < int (length ordered)
          then Inr (audit ''assignment rule moved'' (ar_name rule) direction None None
                 (save_order (swap_nth index (nat other) ordered) s))
          else Inr s)"

definition rule_or_404 :: "db \<Rightarrow> nat \<Rightarrow> nat \<Rightarrow> assignment_rule result" where
  "rule_or_404 s tenant_id rule_id =
     (case find (\<lambda>r. ar_id r = rule_id \<and> ar_tenant_id r = tenant_id) (db_rules s) of
        None \<Rightarrow> Inl (Abort 404 ''Not Found'')
      | Some r \<Rightarrow> Inr r)"

section \<open>Templates\<close>

definition IMPACTS :: "string list" where
  "IMPACTS = [''Critical'', ''High'', ''Medium'', ''Low'']"

definition templates :: "db \<Rightarrow> nat \<Rightarrow> bool \<Rightarrow> incident_template list" where
  "templates s tenant_id active_only =
     sort_key it_name (filter (\<lambda>t. it_tenant_id t = tenant_id \<and> (active_only \<longrightarrow> it_active t)) (db_templates s))"

definition template_or_404 :: "db \<Rightarrow> nat \<Rightarrow> nat \<Rightarrow> incident_template result" where
  "template_or_404 s tenant_id template_id =
     (case find (\<lambda>t. it_id t = template_id \<and> it_tenant_id t = tenant_id) (db_templates s) of
        None \<Rightarrow> Inl (Abort 404 ''Not Found'')
      | Some t \<Rightarrow> Inr t)"

definition duplicate_template :: "db \<Rightarrow> nat \<Rightarrow> string \<Rightarrow> incident_template option \<Rightarrow> bool" where
  "duplicate_template s tenant_id name template \<longleftrightarrow>
     list_ex (\<lambda>t. it_tenant_id t = tenant_id \<and> lower (it_name t) = lower name \<and> map_option it_id template \<noteq> Some (it_id t)) (db_templates s)"

definition chosen_template_team :: "db \<Rightarrow> form \<Rightarrow> nat option result" where
  "chosen_template_team s f =
     (if opt [] (map_of f ''group_id'') = [] then Inr None
      else bindE (parse_int (map_of f ''group_id'') ''group_id'' False) (\<lambda>i.
        case i of
          None \<Rightarrow> Inl (Abort 404 ''Not Found'')
        | Some i \<Rightarrow> bindE (tenant_record_or_404 g_id g_tenant_id (db_groups s) s i) (\<lambda>grp.
            if is_team_group grp then Inr (Some (g_id grp)) else Inl (Abort 400 ''Templates can only assign an active team.''))))"

definition save_template :: "user \<Rightarrow> form \<Rightarrow> incident_template option \<Rightarrow> db \<Rightarrow> (incident_template \<times> db) result" where
  "save_template actor f template s =
     (let tenant_id = u_tenant_id actor; name = strip (opt [] (map_of f ''name''));
          impact = opt ''Medium'' (map_of f ''impact''); urgency = opt ''Medium'' (map_of f ''urgency'') in
      if \<not> (0 < length name \<and> length name \<le> 80) then Inl (Abort 400 ''A template name has 1 to 80 characters.'')
      else if duplicate_template s tenant_id name template then Inl (Abort 409 (''A template named '' @ name @ '' already exists.''))
      else if impact \<notin> set IMPACTS \<or> urgency \<notin> set IMPACTS then Inl (Abort 400 ''Impact and urgency must be Critical, High, Medium or Low.'')
      else
      bindE (chosen_template_team s f) (\<lambda>group_id.
      bindE (category_values s tenant_id f) (\<lambda>(category, subcategory).
        let title = strip (opt [] (map_of f ''title'')) in
        if length title > 180 then Inl (Abort 400 ''The short description has at most 180 characters.'')
        else let
          edit = (\<lambda>t. t\<lparr>it_name := name, it_title := title, it_description := take 10000 (strip (opt [] (map_of f ''description''))),
            it_category := category, it_subcategory := subcategory, it_impact := impact, it_urgency := urgency,
            it_group_id := group_id, it_active := form_active f\<rparr>)
        in (case template of
            None \<Rightarrow>
              let row = edit (blank_incident_template\<lparr>it_id := next_id it_id (db_templates s), it_tenant_id := tenant_id,
                    it_created_at := db_clock s, it_updated_at := db_clock s\<rparr>)
              in Inr (row, audit ''incident template created'' name [] None None (s\<lparr>db_templates := db_templates s @ [row]\<rparr>))
          | Some old \<Rightarrow>
              Inr (edit old, audit ''incident template updated'' name [] None None
                (s\<lparr>db_templates := put_row it_id (edit old) (db_templates s)\<rparr>))))))"

definition prefill :: "incident_template \<Rightarrow> form" where
  "prefill template =
     [(''title'', it_title template), (''description'', it_description template), (''category'', it_category template),
      (''subcategory'', it_subcategory template), (''impact'', it_impact template), (''urgency'', it_urgency template)]
     @ (case it_group_id template of None \<Rightarrow> [] | Some i \<Rightarrow> if i = 0 then [] else [(''group_id'', show_nat i)])"

section \<open>A problem from an incident\<close>

definition underlying_problem :: "ticket \<Rightarrow> record_link \<Rightarrow> bool" where
  "underlying_problem ticket l \<longleftrightarrow> rl_source_type l = ''ticket'' \<and> rl_source_id l = tk_id ticket \<and> rl_link_type l = ''underlying_problem''"

definition copy_ci :: "ticket \<Rightarrow> nat \<Rightarrow> task_ci \<Rightarrow> db \<Rightarrow> db" where
  "copy_ci ticket record_id link s =
     (case get_row ci_id (tci_ci_id link) (db_cis s) of
        None \<Rightarrow> s
      | Some ci \<Rightarrow>
          if ci_tenant_id ci \<noteq> tk_tenant_id ticket then s
          else s\<lparr>db_task_cis := db_task_cis s @ [\<lparr>tci_id = next_id tci_id (db_task_cis s), tci_tenant_id = fill_tenant s ''enterprise'' record_id,
                 tci_target_type = ''enterprise'', tci_target_id = record_id, tci_ci_id = ci_id ci,
                 tci_relationship_role = tci_relationship_role link, tci_created_at = db_clock s\<rparr>]\<rparr>)"

definition problem_record :: "user \<Rightarrow> ticket \<Rightarrow> string \<Rightarrow> db \<Rightarrow> enterprise_record" where
  "problem_record user' ticket number s =
     blank_enterprise_record\<lparr>er_id := next_id er_id (db_enterprise_records s), er_number := number,
       er_domain := ''problem'', er_record_type := ''Root cause analysis'', er_title := take 180 (tk_title ticket),
       er_description := ''Raised from '' @ tk_number ticket @ ''.'' @ [CHR 10, CHR 10] @ tk_description ticket,
       er_state := ''New'', er_priority := tk_priority ticket, er_risk := ''Medium'', er_requester_id := u_id user',
       er_tenant_id := tk_tenant_id ticket, er_metadata_json := ''{}'', er_created_at := db_clock s, er_updated_at := db_clock s\<rparr>"

definition add_problem :: "enterprise_record \<Rightarrow> db \<Rightarrow> db" where
  "add_problem record' s =
     (let s = s\<lparr>db_enterprise_records := db_enterprise_records s @ [record']\<rparr>
      in s\<lparr>db_problem_profiles := db_problem_profiles s @ [\<lparr>pp_id = next_id pp_id (db_problem_profiles s),
           pp_tenant_id = fill_tenant s ''enterprise'' (er_id record'), pp_enterprise_record_id = er_id record',
           pp_known_error = False, pp_root_cause = [], pp_workaround = [], pp_fix_notes = [], pp_primary_ci_id = None\<rparr>]\<rparr>)"

definition link_problem :: "ticket \<Rightarrow> enterprise_record \<Rightarrow> db \<Rightarrow> db" where
  "link_problem ticket record' s =
     s\<lparr>db_record_links := db_record_links s @ [\<lparr>rl_id = next_id rl_id (db_record_links s),
       rl_tenant_id = fill_tenant s ''ticket'' (tk_id ticket), rl_source_type = ''ticket'', rl_source_id = tk_id ticket,
       rl_target_type = ''enterprise'', rl_target_id = er_id record', rl_link_type = ''underlying_problem'', rl_created_at = db_clock s\<rparr>]\<rparr>"

definition create_problem :: "user \<Rightarrow> ticket \<Rightarrow> db \<Rightarrow> (enterprise_record \<times> db) result" where
  "create_problem user' ticket s =
     (if list_ex (underlying_problem ticket) (db_record_links s)
      then Inl (Abort 409 (tk_number ticket @ '' already has an underlying problem.''))
      else bindE (next_enterprise_number s ''problem'') (\<lambda>number.
        let record' = problem_record user' ticket number s;
            s = add_problem record' s;
            s = fold (copy_ci ticket (er_id record'))
                  (filter (\<lambda>l. tci_target_type l = ''ticket'' \<and> tci_target_id l = tk_id ticket) (db_task_cis s)) s;
            s = link_problem ticket record' s;
            s = log_history ''enterprise'' (er_id record') ''Record created'' None None None (number @ '': raised from '' @ tk_number ticket) None s;
            s = log_history ''ticket'' (tk_id ticket) ''Related record linked'' None None None
                  (''Problem linked to '' @ number @ '': '' @ er_title record') None s
        in Inr (record', audit ''create'' number (''Problem from '' @ tk_number ticket) None None s)))"

section \<open>The rules of a tenant form a list\<close>

text \<open>
  What an administrator sees is the list of the tenant's rules; the position column only stores it. \<open>save_order\<close> writes
  one such list back, whatever the table held before.
\<close>

definition rules_ok :: "db \<Rightarrow> bool" where
  "rules_ok s \<longleftrightarrow> distinct (map ar_id (db_rules s))"

definition rule_order :: "db \<Rightarrow> nat \<Rightarrow> nat list" where
  "rule_order s tenant_id = map ar_id (rules s tenant_id)"

lemma mset_rules: "mset (rules s tenant_id) = mset (filter (\<lambda>r. ar_tenant_id r = tenant_id) (db_rules s))"
  by (simp add: rules_def)

lemma set_rules: "set (rules s tenant_id) = {r \<in> set (db_rules s). ar_tenant_id r = tenant_id}"
  by (auto simp: rules_def)

lemma rules_distinct: "rules_ok s \<Longrightarrow> distinct (rule_order s tenant_id)"
  by (simp add: rule_order_def rules_ok_def rules_def distinct_map distinct_filter inj_on_def)

lemma rules_cong: "db_rules s' = db_rules s \<Longrightarrow> rules s' = rules s"
  by (simp add: rules_def fun_eq_iff)

lemma fold_put_row:
  "distinct (map key rows) \<Longrightarrow> fold (put_row key) rows table = map (\<lambda>x. opt x (get_row key (key x) rows)) table"
proof (induction rows arbitrary: table)
  case (Cons r rows)
  have "get_row key (key r) rows = None" using Cons.prems by (auto simp: get_row_None_iff)
  then have "opt (if key x = key r then r else x) (get_row key (key (if key x = key r then r else x)) rows)
      = opt x (get_row key (key x) (r # rows))" for x
    by (simp add: get_row_Cons)
  then show ?case using Cons by (simp add: put_row_def)
qed simp

lemma renumber_as_map:
  assumes "distinct (map ar_id ordered)"
  shows "renumber put_rule_position ordered = map (\<lambda>x. opt x (get_row ar_id (ar_id x) (renumber put_rule_position ordered))) ordered"
proof (rule nth_equalityI)
  fix i assume i: "i < length (renumber put_rule_position ordered)"
  let ?r = "renumber put_rule_position ordered"
  have ids: "map ar_id ?r = map ar_id ordered" by (rule rule_list.map_ident_renumber)
  then have "ar_id (?r ! i) = ar_id (ordered ! i)" using i by (metis length_renumber nth_map)
  moreover have "get_row ar_id (ar_id (?r ! i)) ?r = Some (?r ! i)"
    using assms ids i by (intro get_row_distinct) simp_all
  ultimately show "?r ! i = map (\<lambda>x. opt x (get_row ar_id (ar_id x) ?r)) ordered ! i" using i by simp
qed simp

lemma put_rule_position_simps [simp]:
  "ar_id (put_rule_position i r) = ar_id r" "ar_tenant_id (put_rule_position i r) = ar_tenant_id r"
  "ar_position (put_rule_position i r) = i"
  by (simp_all add: put_rule_position_def)

lemma tenant_after_order:
  assumes "rules_ok s" and "mset ordered = mset (rules s t)" and "x \<in> set (db_rules s)"
  shows "ar_tenant_id (opt x (get_row ar_id (ar_id x) (renumber put_rule_position ordered))) = ar_tenant_id x"
proof (cases "get_row ar_id (ar_id x) (renumber put_rule_position ordered)")
  case (Some r)
  then have "ar_id r = ar_id x" "r \<in> set (renumber put_rule_position ordered)" by (auto dest: get_row_key)
  then obtain i where i: "i < length ordered" "r = put_rule_position i (ordered ! i)" by (auto simp: in_set_conv_nth nth_renumber)
  have "ordered ! i \<in> set (rules s t)" using i(1) assms(2) by (metis nth_mem set_mset_mset)
  then have "ordered ! i = x" using assms(1,3) i \<open>ar_id r = ar_id x\<close> by (auto simp: set_rules rules_ok_def distinct_map inj_on_def)
  then show ?thesis using Some i by simp
qed simp

lemma rules_save_order:
  assumes "rules_ok s" and "mset ordered = mset (rules s t)"
  shows "rules (save_order ordered s) t = renumber put_rule_position ordered"
    and "t' \<noteq> t \<Longrightarrow> rules (save_order ordered s) t' = rules s t'"
    and "rules_ok (save_order ordered s)"
proof -
  let ?r = "renumber put_rule_position ordered"
  let ?h = "\<lambda>x. opt x (get_row ar_id (ar_id x) ?r)"
  have dist: "distinct (map ar_id ordered)"
    using rules_distinct [OF assms(1), of t] assms(2) unfolding rule_order_def by (metis mset_map mset_eq_imp_distinct_iff)
  then have saved: "db_rules (save_order ordered s) = map ?h (db_rules s)"
    by (simp add: save_order_def fold_put_row rule_list.map_ident_renumber)
  have tenant: "ar_tenant_id (?h x) = ar_tenant_id x" if "x \<in> set (db_rules s)" for x
    by (rule tenant_after_order [OF assms that])
  have key: "ar_id (?h x) = ar_id x" for x by (auto split: option.split dest: get_row_key)
  have own: "filter (\<lambda>r. ar_tenant_id r = u) (map ?h (db_rules s)) = map ?h (filter (\<lambda>r. ar_tenant_id r = u) (db_rules s))" for u
    using tenant by (induction "db_rules s") (auto simp: filter_map o_def cong: filter_cong)
  have same: "mset (map ?h (filter (\<lambda>r. ar_tenant_id r = t) (db_rules s))) = mset ?r"
  proof -
    have "mset (map ?h (filter (\<lambda>r. ar_tenant_id r = t) (db_rules s))) = mset (map ?h ordered)"
      using assms(2) by (simp add: mset_rules)
    also have "\<dots> = mset ?r" by (simp add: renumber_as_map [OF dist, symmetric])
    finally show ?thesis .
  qed
  have "sort_key ar_position (sort_key ar_id (map ?h (filter (\<lambda>r. ar_tenant_id r = t) (db_rules s)))) = ?r"
  proof (rule sort_key_inj_key_eq)
    show "mset (sort_key ar_id (map ?h (filter (\<lambda>r. ar_tenant_id r = t) (db_rules s)))) = mset ?r" using same by simp
    have "distinct (map ar_position ?r)" by (simp add: rule_list.map_pos_renumber)
    moreover have "set (sort_key ar_id (map ?h (filter (\<lambda>r. ar_tenant_id r = t) (db_rules s)))) = set ?r"
      using arg_cong [OF same, of set_mset] by (simp only: set_mset_mset set_sort)
    ultimately show "inj_on ar_position (set (sort_key ar_id (map ?h (filter (\<lambda>r. ar_tenant_id r = t) (db_rules s)))))"
      by (simp add: distinct_map)
    show "sorted (map ar_position ?r)" by (rule rule_list.renumber_sorted)
  qed
  then show "rules (save_order ordered s) t = ?r" unfolding rules_def saved own .
  show "rules (save_order ordered s) t' = rules s t'" if "t' \<noteq> t"
  proof -
    have "?h x = x" if x: "x \<in> set (filter (\<lambda>r. ar_tenant_id r = t') (db_rules s))" for x
    proof -
      have "ar_id x \<notin> ar_id ` set ordered"
      proof
        assume "ar_id x \<in> ar_id ` set ordered"
        then obtain y where y: "y \<in> set ordered" "ar_id y = ar_id x" by auto
        then have "y \<in> set (rules s t)" using assms(2) by (metis set_mset_mset)
        then have "y = x" using y x assms(1) by (auto simp: set_rules rules_ok_def distinct_map inj_on_def)
        then show False using x \<open>y \<in> set (rules s t)\<close> \<open>t' \<noteq> t\<close> by (simp add: set_rules)
      qed
      then have "get_row ar_id (ar_id x) ?r = None"
        using arg_cong [OF rule_list.map_ident_renumber [of ordered], of set] by (simp add: get_row_None_iff)
      then show ?thesis by simp
    qed
    then have "map ?h (filter (\<lambda>r. ar_tenant_id r = t') (db_rules s)) = filter (\<lambda>r. ar_tenant_id r = t') (db_rules s)" by (rule map_idI)
    then show ?thesis unfolding rules_def saved own by simp
  qed
  show "rules_ok (save_order ordered s)" using assms(1) by (simp add: rules_ok_def saved o_def key)
qed

definition rule_table_ok :: "db \<Rightarrow> bool" where
  "rule_table_ok s \<longleftrightarrow> rules_ok s \<and> (\<forall>t. map ar_position (rules s t) = [0..<length (rules s t)])"

lemma rule_table_okD: "rule_table_ok s \<Longrightarrow> rules_ok s"
  by (simp add: rule_table_ok_def)

lemma rule_table_cong: "db_rules s' = db_rules s \<Longrightarrow> rule_table_ok s' = rule_table_ok s"
  by (simp add: rule_table_ok_def rules_ok_def rules_cong [of s' s])

lemma save_order_ok:
  assumes "rules_ok s" and "\<And>u. u \<noteq> t \<Longrightarrow> map ar_position (rules s u) = [0..<length (rules s u)]" and "mset ordered = mset (rules s t)"
  shows "rule_table_ok (save_order ordered s)"
proof -
  note after = rules_save_order [OF assms(1,3)]
  have "map ar_position (rules (save_order ordered s) u) = [0..<length (rules (save_order ordered s) u)]" for u
    using assms(2) [of u] after(1) after(2) [of u] by (cases "u = t") (simp_all add: rule_list.map_pos_renumber)
  then show ?thesis using after(3) by (simp add: rule_table_ok_def)
qed

lemma mset_swap: "i < length xs \<Longrightarrow> j < length xs \<Longrightarrow> mset (swap_nth i j xs) = mset xs"
  by (simp add: swap_nth_def mset_swap)

text \<open>Deleting the row of one tenant keeps the order of every other tenant's rules.\<close>

lemma rules_filter:
  "db_rules s' = filter P (db_rules s) \<Longrightarrow> rules s' t = filter P (rules s t)"
  by (simp add: rules_def filter_sort filter_filter conj_commute)

lemma delete_rule_list:
  assumes "rule_table_ok s" and "ar_tenant_id rule = u_tenant_id actor" and "rule \<in> set (db_rules s)"
  shows "rules (delete_rule actor rule s) (u_tenant_id actor)
      = renumber put_rule_position (filter (\<lambda>r. ar_id r \<noteq> ar_id rule) (rules s (u_tenant_id actor)))"
    and "t \<noteq> u_tenant_id actor \<Longrightarrow> rules (delete_rule actor rule s) t = rules s t"
    and "rule_table_ok (delete_rule actor rule s)"
proof -
  let ?d = "(audit ''assignment rule deleted'' (ar_name rule) [] None None s)\<lparr>db_rules := filter (\<lambda>r. ar_id r \<noteq> ar_id rule) (db_rules s)\<rparr>"
  have del: "delete_rule actor rule s = save_order (rules ?d (u_tenant_id actor)) ?d" by (simp add: delete_rule_def Let_def)
  have ok: "rules_ok ?d" using rule_table_okD [OF assms(1)] by (simp add: rules_ok_def distinct_map_filter)
  have kept: "rules ?d t = filter (\<lambda>r. ar_id r \<noteq> ar_id rule) (rules s t)" for t by (rule rules_filter) simp
  have others: "rules ?d t = rules s t" if "t \<noteq> u_tenant_id actor" for t
  proof -
    have "ar_id r \<noteq> ar_id rule" if r: "r \<in> set (rules s t)" for r
    proof
      assume "ar_id r = ar_id rule"
      then have "r = rule" using r assms(3) rule_table_okD [OF assms(1)] by (auto simp: set_rules rules_ok_def distinct_map inj_on_def)
      then show False using r assms(2) \<open>t \<noteq> u_tenant_id actor\<close> by (simp add: set_rules)
    qed
    then show ?thesis unfolding kept by (simp add: filter_id_conv)
  qed
  show "rules (delete_rule actor rule s) (u_tenant_id actor)
      = renumber put_rule_position (filter (\<lambda>r. ar_id r \<noteq> ar_id rule) (rules s (u_tenant_id actor)))"
    unfolding del using rules_save_order(1) [OF ok refl] kept by simp
  show "t \<noteq> u_tenant_id actor \<Longrightarrow> rules (delete_rule actor rule s) t = rules s t"
    unfolding del using rules_save_order(2) [OF ok refl, of t "u_tenant_id actor"] others by simp
  show "rule_table_ok (delete_rule actor rule s)"
    unfolding del by (rule save_order_ok [OF ok _ refl]) (use assms(1) others in \<open>simp add: rule_table_ok_def\<close>)
qed

lemma move_rule_list:
  assumes "rule_table_ok s" and "move_rule actor rule direction s = Inr s'"
  obtains (moved) k other where "row_index ar_id (ar_id rule) (rules s (u_tenant_id actor)) = Some k" "k < length (rules s (u_tenant_id actor))"
      "other < length (rules s (u_tenant_id actor))" "other = (if direction = ''up'' then k - 1 else Suc k)" "direction = ''up'' \<longrightarrow> 0 < k"
      "rules s' (u_tenant_id actor) = renumber put_rule_position (swap_nth k other (rules s (u_tenant_id actor)))"
      "\<And>t. t \<noteq> u_tenant_id actor \<Longrightarrow> rules s' t = rules s t" "rule_table_ok s'" "db_groups s' = db_groups s"
    | (unmoved) k where "s' = s" "row_index ar_id (ar_id rule) (rules s (u_tenant_id actor)) = Some k"
      "if direction = ''up'' then k = 0 else Suc k \<ge> length (rules s (u_tenant_id actor))"
proof -
  let ?t = "u_tenant_id actor" and ?rs = "rules s (u_tenant_id actor)"
  obtain k where k: "row_index ar_id (ar_id rule) ?rs = Some k" using assms(2) by (auto simp: move_rule_def Let_def split: option.splits)
  have bound: "k < length ?rs" by (rule row_index_bound [OF k])
  let ?o = "if direction = ''up'' then k - 1 else Suc k"
  show ?thesis
  proof (cases "if direction = ''up'' then k = 0 else Suc k \<ge> length ?rs")
    case True
    then have "s' = s" using assms(2) k bound by (auto simp: move_rule_def Let_def split: if_splits)
    then show ?thesis using unmoved k True by blast
  next
    case False
    let ?new = "save_order (swap_nth k ?o ?rs) s"
    have o: "?o < length ?rs" using False bound by (auto split: if_splits)
    have "nat (if direction = ''up'' then int k - 1 else int k + 1) = ?o" using False by (auto split: if_splits)
    then have s': "s' = audit ''assignment rule moved'' (ar_name rule) direction None None ?new"
      using assms(2) k False bound by (auto simp: move_rule_def Let_def split: if_splits)
    have m: "mset (swap_nth k ?o ?rs) = mset ?rs" by (rule mset_swap [OF bound o])
    note after = rules_save_order [OF rule_table_okD [OF assms(1)] m]
    have same: "rules s' = rules ?new" by (rule rules_cong) (simp add: s')
    have "rule_table_ok ?new"
      by (rule save_order_ok [OF rule_table_okD [OF assms(1)] _ m]) (use assms(1) in \<open>simp add: rule_table_ok_def\<close>)
    then have "rule_table_ok s'" using rule_table_cong [of s' ?new] by (simp add: s')
    moreover have "db_groups s' = db_groups s" by (simp add: s' save_order_def)
    moreover have "direction = ''up'' \<longrightarrow> 0 < k" using False by auto
    ultimately show ?thesis using moved [OF k bound o refl] after(1,2) same by simp
  qed
qed

lemma edited_rule_keeps [simp]:
  "ar_id (edited_rule f name grp offering cats rule) = ar_id rule"
  "ar_tenant_id (edited_rule f name grp offering cats rule) = ar_tenant_id rule"
  "ar_position (edited_rule f name grp offering cats rule) = ar_position rule"
  by (simp_all add: edited_rule_def)

lemma save_rule_cases:
  assumes "save_rule actor f rule s = Inr (row, s')"
  obtains (created) "rule = None" "db_rules s' = db_rules s @ [row]" "ar_id row = next_id ar_id (db_rules s)" "ar_tenant_id row = u_tenant_id actor"
      "ar_position row = length (rules s (u_tenant_id actor))" "has_condition row" "db_groups s' = db_groups s"
    | (updated) old where "rule = Some old" "db_rules s' = put_row ar_id row (db_rules s)" "ar_id row = ar_id old" "ar_tenant_id row = ar_tenant_id old"
      "ar_position row = ar_position old" "has_condition row" "db_groups s' = db_groups s"
proof -
  let ?name = "strip (opt [] (map_of f ''name''))"
  obtain grp offering cats where c: "has_condition (edited_rule f ?name grp offering cats blank_assignment_rule)"
    and r: "case rule of
        None \<Rightarrow> row = edited_rule f ?name grp offering cats (blank_assignment_rule\<lparr>ar_id := next_id ar_id (db_rules s), ar_tenant_id := u_tenant_id actor,
            ar_position := length (rules s (u_tenant_id actor)), ar_created_at := db_clock s, ar_updated_at := db_clock s\<rparr>)
          \<and> s' = audit ''assignment rule created'' ?name (''-> '' @ g_name grp) None None (s\<lparr>db_rules := db_rules s @ [row]\<rparr>)
      | Some old \<Rightarrow> row = edited_rule f ?name grp offering cats old
          \<and> s' = audit ''assignment rule updated'' ?name (''-> '' @ g_name grp) None None (s\<lparr>db_rules := put_row ar_id row (db_rules s)\<rparr>)"
    using assms unfolding save_rule_def Let_def
    by (auto simp: bindE_Inr_iff split: if_splits option.splits)
  have cond: "has_condition (edited_rule f ?name grp offering cats x)" for x using c by (simp add: has_condition_def edited_rule_def)
  show ?thesis
  proof (cases rule)
    case None
    then show ?thesis using created r cond by simp
  next
    case (Some old)
    then show ?thesis using updated r cond by simp
  qed
qed

lemma rules_append:
  assumes "db_rules s' = db_rules s @ [row]" and "ar_position row = length (rules s (ar_tenant_id row))"
    and "map ar_position (rules s (ar_tenant_id row)) = [0..<length (rules s (ar_tenant_id row))]" and "\<And>r. r \<in> set (db_rules s) \<Longrightarrow> ar_id r < ar_id row"
  shows "rules s' t = (if t = ar_tenant_id row then rules s t @ [row] else rules s t)"
proof (cases "t = ar_tenant_id row")
  case True
  let ?own = "filter (\<lambda>r. ar_tenant_id r = t) (db_rules s)"
  have "sort_key ar_id (?own @ [row]) = sort_key ar_id ?own @ [row]" by (rule sort_key_snoc) (use assms(4) in auto)
  moreover have "sort_key ar_position (sort_key ar_id ?own @ [row]) = sort_key ar_position (sort_key ar_id ?own) @ [row]"
  proof (rule sort_key_snoc)
    fix r assume "r \<in> set (sort_key ar_id ?own)"
    then have "ar_position r \<in> set (map ar_position (rules s t))" by (auto simp: set_rules)
    then show "ar_position r < ar_position row" using assms(2,3) True by (metis atLeastLessThan_iff set_upt)
  qed
  ultimately show ?thesis using True assms(1) by (simp add: rules_def)
qed (use assms(1) in \<open>simp add: rules_def\<close>)

lemma sort_key_map_same: "(\<And>x. x \<in> set xs \<Longrightarrow> key (f x) = key x) \<Longrightarrow> sort_key key (map f xs) = map f (sort_key key xs)"
proof (induction xs)
  case (Cons x xs)
  have "insort_key key (f x) (map f ys) = map f (insort_key key x ys)" if "\<And>y. y \<in> set ys \<Longrightarrow> key (f y) = key y" for ys
    using that Cons.prems by (induction ys) auto
  from this [of "sort_key key xs"] show ?case using Cons by simp
qed simp

lemma rules_replace:
  assumes "db_rules s' = put_row ar_id row (db_rules s)" and "old \<in> set (db_rules s)" and "rules_ok s"
    and "ar_id row = ar_id old" "ar_tenant_id row = ar_tenant_id old" "ar_position row = ar_position old"
  shows "rules s' t = put_row ar_id row (rules s t)" and "rules_ok s'"
proof -
  let ?h = "\<lambda>x. if ar_id x = ar_id row then row else x"
  have row: "x = old" if "x \<in> set (db_rules s)" "ar_id x = ar_id row" for x
    using that assms(2-4) by (auto simp: rules_ok_def distinct_map inj_on_def)
  have own: "filter (\<lambda>r. ar_tenant_id r = t) (map ?h (db_rules s)) = map ?h (filter (\<lambda>r. ar_tenant_id r = t) (db_rules s))"
    using row assms(5) by (auto simp: filter_map o_def intro: arg_cong [of _ _ "map ?h"] filter_cong)
  have "sort_key ar_position (sort_key ar_id (map ?h (filter (\<lambda>r. ar_tenant_id r = t) (db_rules s))))
      = map ?h (sort_key ar_position (sort_key ar_id (filter (\<lambda>r. ar_tenant_id r = t) (db_rules s))))"
  proof -
    let ?own = "filter (\<lambda>r. ar_tenant_id r = t) (db_rules s)"
    have same: "ar_id (?h x) = ar_id x" "ar_position (?h x) = ar_position x" if "x \<in> set ?own" for x
      using that row [of x] assms(6) by simp_all
    have a: "sort_key ar_id (map ?h ?own) = map ?h (sort_key ar_id ?own)" by (rule sort_key_map_same) (rule same(1))
    have b: "sort_key ar_position (map ?h (sort_key ar_id ?own)) = map ?h (sort_key ar_position (sort_key ar_id ?own))"
      by (rule sort_key_map_same) (rule same(2), simp)
    show ?thesis unfolding a by (rule b)
  qed
  then show "rules s' t = put_row ar_id row (rules s t)" using own by (simp add: rules_def assms(1) put_row_def)
  show "rules_ok s'" using assms(1,3) by (simp add: rules_ok_def map_key_put_row)
qed

lemma rule_order_steps:
  assumes ok: "rule_table_ok s" and own: "ar_tenant_id rule = u_tenant_id actor" "rule \<in> set (db_rules s)"
  shows "rule_table_ok (delete_rule actor rule s)
      \<and> rule_order (delete_rule actor rule s) t =
          (if t = u_tenant_id actor then filter (\<lambda>i. i \<noteq> ar_id rule) (rule_order s t) else rule_order s t)"
    and "move_rule actor rule direction s = Inr s' \<Longrightarrow> rule_table_ok s'
      \<and> rule_order s' t = (if t = u_tenant_id actor then (if direction = ''up'' then move_up else move_down) (ar_id rule) (rule_order s t)
          else rule_order s t)"
    and "save_rule actor f None s = Inr (row, s') \<Longrightarrow> rule_table_ok s'
      \<and> rule_order s' t = (if t = u_tenant_id actor then rule_order s t @ [ar_id row] else rule_order s t)"
    and "save_rule actor f (Some rule) s = Inr (row, s') \<Longrightarrow> rule_table_ok s' \<and> rule_order s' t = rule_order s t"
proof -
  note del = delete_rule_list [OF ok own]
  show "rule_table_ok (delete_rule actor rule s) \<and> rule_order (delete_rule actor rule s) t =
      (if t = u_tenant_id actor then filter (\<lambda>i. i \<noteq> ar_id rule) (rule_order s t) else rule_order s t)"
    using del by (simp add: rule_order_def rule_list.map_ident_renumber filter_map o_def)
  show "rule_table_ok s' \<and> rule_order s' t = (if t = u_tenant_id actor then (if direction = ''up'' then move_up else move_down) (ar_id rule) (rule_order s t)
      else rule_order s t)" if m: "move_rule actor rule direction s = Inr s'"
    using ok m
  proof (cases rule: move_rule_list)
    case (moved k other)
    have "map ar_id (swap_nth k other (rules s (u_tenant_id actor)))
        = (if direction = ''up'' then move_up else move_down) (ar_id rule) (map ar_id (rules s (u_tenant_id actor)))"
      using move_down_swap [OF moved(1)] move_up_swap [of ar_id "ar_id rule" "rules s (u_tenant_id actor)" "k - 1"] moved by auto
    then show ?thesis using moved by (simp add: rule_order_def rule_list.map_ident_renumber)
  next
    case (unmoved k)
    then show ?thesis using ok move_end [of ar_id "ar_id rule" "rules s (u_tenant_id actor)"] by (auto simp: rule_order_def split: if_splits)
  qed
  show "rule_table_ok s' \<and> rule_order s' t = (if t = u_tenant_id actor then rule_order s t @ [ar_id row] else rule_order s t)"
    if "save_rule actor f None s = Inr (row, s')"
    using that
  proof (cases rule: save_rule_cases)
    case created
    have new: "rules s' u = (if u = ar_tenant_id row then rules s u @ [row] else rules s u)" for u
      by (rule rules_append [OF created(2)]) (use created ok in \<open>simp_all add: rule_table_ok_def next_id_fresh\<close>)
    have "rules_ok s'" using created(2,3) rule_table_okD [OF ok] next_id_unused [of ar_id "db_rules s"] by (auto simp: rules_ok_def)
    then show ?thesis using ok created new by (simp add: rule_table_ok_def rule_order_def)
  qed simp
  show "rule_table_ok s' \<and> rule_order s' t = rule_order s t" if "save_rule actor f (Some rule) s = Inr (row, s')"
    using that
  proof (cases rule: save_rule_cases)
    case (updated old)
    then have "old = rule" by simp
    note rep = rules_replace [OF updated(2) own(2) rule_table_okD [OF ok]]
    have "rules s' u = put_row ar_id row (rules s u)" for u using rep(1) updated \<open>old = rule\<close> by simp
    moreover have "map ar_position (put_row ar_id row (rules s u)) = map ar_position (rules s u)" for u
      using rule_table_okD [OF ok] own(2) updated \<open>old = rule\<close>
      by (auto simp: put_row_def set_rules rules_ok_def distinct_map inj_on_def)
    ultimately show ?thesis using ok rep(2) updated \<open>old = rule\<close>
      by (simp add: rule_table_ok_def rule_order_def map_key_put_row)
  qed simp
qed

text \<open>
  C23. The position column implements the list of a tenant's assignment rules. Deleting a rule removes it from the list,
  moving one exchanges it with its neighbour (and does nothing at the end), saving a new one appends it, and saving an
  existing one keeps the order. The lists of the other tenants stay as they are, and the positions stay consecutive from 0.
\<close>

theorem rule_order_refines:
  assumes "rule_table_ok s" and "ar_tenant_id rule = u_tenant_id actor" and "rule \<in> set (db_rules s)"
  shows "(rule_table_ok (delete_rule actor rule s)
        \<and> rule_order (delete_rule actor rule s) t =
            (if t = u_tenant_id actor then filter (\<lambda>i. i \<noteq> ar_id rule) (rule_order s t) else rule_order s t))
    \<and> (move_rule actor rule direction s = Inr s' \<longrightarrow> rule_table_ok s'
        \<and> rule_order s' t = (if t = u_tenant_id actor then (if direction = ''up'' then move_up else move_down) (ar_id rule) (rule_order s t)
            else rule_order s t))
    \<and> (save_rule actor f None s = Inr (row, s') \<longrightarrow> rule_table_ok s'
        \<and> rule_order s' t = (if t = u_tenant_id actor then rule_order s t @ [ar_id row] else rule_order s t))
    \<and> (save_rule actor f (Some rule) s = Inr (row, s') \<longrightarrow> rule_table_ok s' \<and> rule_order s' t = rule_order s t)"
  using rule_order_steps [OF assms] by (intro conjI impI) (simp_all only: conj_ac)

section \<open>Which incidents a change of the rules concerns\<close>

text \<open>Routing reads the list of rules and the teams; neither the position nor a rule that does not match matters.\<close>

lemma first_match_position: "first_match s c sc ci off (map (put_rule_position 0) rs) = first_match s c sc ci off rs"
  by (induction rs) (auto simp: put_rule_position_def rule_matches_def split: option.split)

lemma first_match_skip:
  assumes "\<And>r. r \<in> set rs \<Longrightarrow> ar_id r = i \<Longrightarrow> \<not> rule_matches r c sc ci off"
  shows "first_match s c sc ci off (filter (\<lambda>r. ar_id r \<noteq> i) rs) = first_match s c sc ci off rs"
  using assms by (induction rs) (auto split: option.split)

lemma first_match_groups: "db_groups s' = db_groups s \<Longrightarrow> first_match s' c sc ci off rs = first_match s c sc ci off rs"
  by (induction rs) (auto split: option.split)

lemma renumber_contents: "map (put_rule_position 0) (renumber put_rule_position rs) = map (put_rule_position 0) rs"
  by (rule nth_equalityI) (simp_all add: nth_renumber put_rule_position_def)

text \<open>Two lists of rules that agree up to positions and up to rules that do not match route in the same way.\<close>

definition same_routing :: "nat \<Rightarrow> assignment_rule list \<Rightarrow> assignment_rule list \<Rightarrow> bool" where
  "same_routing i rs rs' \<longleftrightarrow>
     map (put_rule_position 0) (filter (\<lambda>r. ar_id r \<noteq> i) rs) = map (put_rule_position 0) (filter (\<lambda>r. ar_id r \<noteq> i) rs')"

lemma same_routing_match:
  assumes "same_routing i rs rs'"
    and "\<And>r. r \<in> set rs \<union> set rs' \<Longrightarrow> ar_id r = i \<Longrightarrow> \<not> rule_matches r c sc ci off"
  shows "first_match s c sc ci off rs = first_match s c sc ci off rs'"
proof -
  have "first_match s c sc ci off rs = first_match s c sc ci off (map (put_rule_position 0) (filter (\<lambda>r. ar_id r \<noteq> i) rs))"
    using assms(2) by (simp add: first_match_position first_match_skip)
  also have "\<dots> = first_match s c sc ci off (map (put_rule_position 0) (filter (\<lambda>r. ar_id r \<noteq> i) rs'))"
    using assms(1) by (simp add: same_routing_def)
  also have "\<dots> = first_match s c sc ci off rs'" using assms(2) by (simp add: first_match_position first_match_skip)
  finally show ?thesis .
qed

lemma route_same:
  assumes "db_groups s' = db_groups s" and "same_routing i (rules s t) (rules s' t)"
    and "\<And>r. r \<in> set (rules s t) \<union> set (rules s' t) \<Longrightarrow> ar_id r = i \<Longrightarrow> \<not> rule_matches r c sc ci off"
  shows "route s' t c sc ci off = route s t c sc ci off"
  using same_routing_match [OF assms(2,3)] first_match_groups [OF assms(1)] assms(1)
  by (simp add: route_def support_group_of_def cong: option.case_cong)

lemma renumber_filter:
  "map (put_rule_position 0) (filter (\<lambda>r. ar_id r \<noteq> i) (renumber put_rule_position rs)) = map (put_rule_position 0) (filter (\<lambda>r. ar_id r \<noteq> i) rs)"
proof -
  have "map (put_rule_position 0) (filter (\<lambda>r. ar_id r \<noteq> i) xs) = filter (\<lambda>r. ar_id r \<noteq> i) (map (put_rule_position 0) xs)" for xs
    by (simp add: filter_map o_def)
  then show ?thesis by (simp only: renumber_contents)
qed

lemma swap_filter:
  "Suc k < length xs \<Longrightarrow> key (xs ! k) = i \<or> key (xs ! Suc k) = i
   \<Longrightarrow> filter (\<lambda>r. key r \<noteq> i) (swap_nth k (Suc k) xs) = filter (\<lambda>r. key r \<noteq> i) xs"
proof (induction xs arbitrary: k)
  case (Cons x xs)
  show ?case
  proof (cases k)
    case 0
    then obtain y ys where "xs = y # ys" using Cons.prems by (cases xs) auto
    then show ?thesis using Cons.prems 0 by (auto simp: swap_nth_def)
  next
    case (Suc j)
    then show ?thesis using Cons by (simp add: swap_nth_Cons)
  qed
qed simp

lemma swap_commute: "swap_nth i j xs = swap_nth j i xs"
  by (cases "i = j") (simp_all add: swap_nth_def list_update_swap)

lemma row_index_key: "row_index key i xs = Some k \<Longrightarrow> key (xs ! k) = i"
  by (induction xs arbitrary: k) (auto split: if_splits)

lemma own_rule:
  assumes "rule_table_ok s" and "rule \<in> set (db_rules s)" and "r \<in> set (rules s t)" and "ar_id r = ar_id rule"
  shows "r = rule"
  using assms by (auto simp: rule_table_ok_def set_rules rules_ok_def distinct_map inj_on_def)

lemma renumbered_row:
  assumes "r \<in> set (renumber put_rule_position rs)"
  obtains r' i where "r' \<in> set rs" "r = put_rule_position i r'"
proof -
  obtain i where "i < length rs" "r = renumber put_rule_position rs ! i" using assms by (auto simp: in_set_conv_nth)
  then show ?thesis using that [of "rs ! i" i] by (simp add: nth_renumber)
qed

lemma rule_matches_position [simp]: "rule_matches (put_rule_position i r) c sc ci off = rule_matches r c sc ci off"
  by (simp add: rule_matches_def put_rule_position_def)

lemma route_after_delete:
  assumes ok: "rule_table_ok s" and own: "ar_tenant_id rule = u_tenant_id actor" "rule \<in> set (db_rules s)" and no: "\<not> rule_matches rule c sc ci off"
  shows "route (delete_rule actor rule s) t c sc ci off = route s t c sc ci off"
proof (rule route_same [where i = "ar_id rule"])
  note del = delete_rule_list [OF ok own]
  show "db_groups (delete_rule actor rule s) = db_groups s" by (simp add: delete_rule_def Let_def save_order_def)
  show "same_routing (ar_id rule) (rules s t) (rules (delete_rule actor rule s) t)"
    using del(1) del(2) [of t] by (cases "t = u_tenant_id actor") (simp_all add: same_routing_def renumber_filter)
  fix r assume r: "r \<in> set (rules s t) \<union> set (rules (delete_rule actor rule s) t)" "ar_id r = ar_id rule"
  have "r \<in> set (rules s t)"
  proof (rule ccontr)
    assume n: "r \<notin> set (rules s t)"
    then have in': "r \<in> set (rules (delete_rule actor rule s) t)" using r by auto
    then have "t = u_tenant_id actor" using n del(2) [of t] by (cases "t = u_tenant_id actor") simp_all
    then show False using in' del(1) r(2) by (auto elim!: renumbered_row)
  qed
  then show "\<not> rule_matches r c sc ci off" using own_rule [OF ok own(2) _ r(2)] no by blast
qed

lemma route_after_move:
  assumes ok: "rule_table_ok s" and own: "ar_tenant_id rule = u_tenant_id actor" "rule \<in> set (db_rules s)" and no: "\<not> rule_matches rule c sc ci off"
    and m: "move_rule actor rule direction s = Inr s'"
  shows "route s' t c sc ci off = route s t c sc ci off"
  using ok m
proof (cases rule: move_rule_list)
  case (moved k other)
  let ?rs = "rules s (u_tenant_id actor)"
  show ?thesis
  proof (rule route_same [where i = "ar_id rule"])
    have "filter (\<lambda>r. ar_id r \<noteq> ar_id rule) (swap_nth k other ?rs) = filter (\<lambda>r. ar_id r \<noteq> ar_id rule) ?rs"
    proof (cases "direction = ''up''")
      case True
      then obtain j where "k = Suc j" "other = j" using moved(4,5) by (cases k) auto
      then show ?thesis using swap_filter [of j ?rs ar_id "ar_id rule"] row_index_key [OF moved(1)] moved(2) by (simp add: swap_commute [of "Suc j"])
    next
      case False
      then show ?thesis using swap_filter [of k ?rs ar_id "ar_id rule"] row_index_key [OF moved(1)] moved(3,4) by simp
    qed
    then show "same_routing (ar_id rule) (rules s t) (rules s' t)"
      using moved(6,7) by (cases "t = u_tenant_id actor") (simp_all add: same_routing_def renumber_filter)
    fix r assume r: "r \<in> set (rules s t) \<union> set (rules s' t)" "ar_id r = ar_id rule"
    obtain r' i where r': "r' \<in> set (rules s t)" "r = r' \<or> r = put_rule_position i r'"
    proof (cases "r \<in> set (rules s t)")
      case False
      then have in': "r \<in> set (rules s' t)" using r by auto
      then have t: "t = u_tenant_id actor" using False moved(7) [of t] by (cases "t = u_tenant_id actor") simp_all
      have "r \<in> set (renumber put_rule_position (swap_nth k other ?rs))" using in' moved(6) by (simp add: t)
      then obtain r' i where "r' \<in> set (swap_nth k other ?rs)" "r = put_rule_position i r'" by (rule renumbered_row)
      then show ?thesis using that [of r' i] moved(2,3) t by (simp add: set_swap_nth)
    qed blast
    then have "ar_id r' = ar_id rule" using r(2) by auto
    then have "r' = rule" using own_rule [OF ok own(2) r'(1)] by blast
    then show "\<not> rule_matches r c sc ci off" using no r'(2) by auto
  qed (rule moved)
qed simp

lemma route_after_update:
  assumes ok: "rule_table_ok s" and own: "rule \<in> set (db_rules s)" and no: "\<not> rule_matches rule c sc ci off"
    and m: "save_rule actor f (Some rule) s = Inr (row, s')" and no': "\<not> rule_matches row c sc ci off"
  shows "route s' t c sc ci off = route s t c sc ci off"
  using m
proof (cases rule: save_rule_cases)
  case (updated old)
  then have [simp]: "old = rule" by simp
  have rep: "rules s' t = put_row ar_id row (rules s t)"
    using rules_replace(1) [OF updated(2) own rule_table_okD [OF ok]] updated by simp
  show ?thesis
  proof (rule route_same [where i = "ar_id rule"])
    show "same_routing (ar_id rule) (rules s t) (rules s' t)"
      unfolding same_routing_def rep put_row_def using updated(3)
      by (induction "rules s t") (auto simp: filter_map o_def intro!: arg_cong [of _ _ "map (put_rule_position 0)"] filter_cong)
    fix r assume r: "r \<in> set (rules s t) \<union> set (rules s' t)" "ar_id r = ar_id rule"
    then have "r \<in> set (rules s t) \<or> r = row" using set_put_row [of ar_id row "rules s t"] by (auto simp: rep)
    then show "\<not> rule_matches r c sc ci off" using own_rule [OF ok own _ r(2)] no no' by blast
  qed (rule updated)
qed simp

lemma route_after_create:
  assumes ok: "rule_table_ok s" and m: "save_rule actor f None s = Inr (row, s')" and no: "\<not> rule_matches row c sc ci off"
  shows "route s' t c sc ci off = route s t c sc ci off"
  using m
proof (cases rule: save_rule_cases)
  case created
  have new: "rules s' t = (if t = ar_tenant_id row then rules s t @ [row] else rules s t)"
    by (rule rules_append [OF created(2)]) (use created ok in \<open>simp_all add: rule_table_ok_def next_id_fresh\<close>)
  show ?thesis
  proof (rule route_same [where i = "ar_id row"])
    show "same_routing (ar_id row) (rules s t) (rules s' t)" by (simp add: same_routing_def new)
    fix r assume r: "r \<in> set (rules s t) \<union> set (rules s' t)" "ar_id r = ar_id row"
    have "r \<notin> set (rules s t)" using r(2) created(3) next_id_fresh [of r "db_rules s" ar_id] by (auto simp: set_rules)
    then show "\<not> rule_matches r c sc ci off" using r(1) no by (auto simp: new split: if_splits)
  qed (rule created)
qed simp

text \<open>
  C24. Changing the assignment rules concerns only the incidents the changed rule matches: deleting or moving a rule, saving
  it with new conditions, or adding one leaves the route of every incident alone that the rule matches neither before nor
  after the change, in every tenant.
\<close>

theorem rule_change_concerns_its_incidents:
  assumes "rule_table_ok s" and "ar_tenant_id rule = u_tenant_id actor" and "rule \<in> set (db_rules s)"
    and "\<not> rule_matches rule category subcategory ci offering"
  shows "route (delete_rule actor rule s) t category subcategory ci offering = route s t category subcategory ci offering
    \<and> (move_rule actor rule direction s = Inr s1 \<longrightarrow> route s1 t category subcategory ci offering = route s t category subcategory ci offering)
    \<and> (save_rule actor f (Some rule) s = Inr (row, s2) \<and> \<not> rule_matches row category subcategory ci offering
        \<longrightarrow> route s2 t category subcategory ci offering = route s t category subcategory ci offering)
    \<and> (save_rule actor f None s = Inr (row, s3) \<and> \<not> rule_matches row category subcategory ci offering
        \<longrightarrow> route s3 t category subcategory ci offering = route s t category subcategory ci offering)"
  using route_after_delete [OF assms] route_after_move [OF assms] route_after_update [OF assms(1,3,4)] route_after_create [OF assms(1)]
  by blast

definition example_rule :: "nat \<Rightarrow> nat \<Rightarrow> string \<Rightarrow> assignment_rule" where
  "example_rule i position category =
     blank_assignment_rule\<lparr>ar_id := i, ar_tenant_id := 4, ar_name := category, ar_position := position, ar_active := True,
       ar_category := category, ar_group_id := 8\<rparr>"

definition example_rule_db :: db where
  "example_rule_db = empty_db\<lparr>db_rules := [example_rule 5 0 ''Network'', example_rule 6 1 ''Security''],
     db_groups := [blank_support_group\<lparr>g_id := 8, g_name := ''Operations'', g_active := True, g_tenant_id := 4\<rparr>]\<rparr>"

lemma example_rule_db_ok: "rule_table_ok example_rule_db"
proof -
  have "rules example_rule_db t = (if t = 4 then db_rules example_rule_db else [])" for t
    by (auto simp: rules_def example_rule_db_def example_rule_def blank_assignment_rule_def)
  then show ?thesis by (auto simp: rule_table_ok_def rules_ok_def example_rule_db_def example_rule_def)
qed

lemma example_rule_id [simp]: "ar_id (example_rule i position category) = i"
  by (simp add: example_rule_def)

lemma example_rule_facts:
  "ar_tenant_id (example_rule 6 1 ''Security'') = u_tenant_id (blank_user\<lparr>u_tenant_id := 4\<rparr>)"
  "example_rule 6 1 ''Security'' \<in> set (db_rules example_rule_db)"
  by (simp_all add: example_rule_def example_rule_db_def)

text \<open>Two rules; the second is deleted or moved.\<close>

theorem rule_order_refines_witness:
  "rule_order (delete_rule (blank_user\<lparr>u_tenant_id := 4\<rparr>) (example_rule 6 1 ''Security'') example_rule_db) 4 = [5]"
proof -
  have "rule_order example_rule_db 4 = [5, 6]"
    by (simp add: rule_order_def rules_def example_rule_db_def example_rule_def blank_assignment_rule_def)
  then show ?thesis using rule_order_refines [OF example_rule_db_ok example_rule_facts, of 4] by simp
qed

theorem rule_change_concerns_its_incidents_witness:
  "route (delete_rule (blank_user\<lparr>u_tenant_id := 4\<rparr>) (example_rule 6 1 ''Security'') example_rule_db) 4 ''Network'' [] None None
    = Some (blank_support_group\<lparr>g_id := 8, g_name := ''Operations'', g_active := True, g_tenant_id := 4\<rparr>, ''assignment rule Network'')"
proof -
  have "\<not> rule_matches (example_rule 6 1 ''Security'') ''Network'' [] None None" by (simp add: rule_matches_def example_rule_def)
  note same = rule_change_concerns_its_incidents [OF example_rule_db_ok example_rule_facts this, of 4]
  have "route example_rule_db 4 ''Network'' [] None None
    = Some (blank_support_group\<lparr>g_id := 8, g_name := ''Operations'', g_active := True, g_tenant_id := 4\<rparr>, ''assignment rule Network'')"
    by (simp add: route_def rules_def example_rule_db_def example_rule_def blank_assignment_rule_def rule_matches_def is_team_group_def
        GOVERNANCE_GROUP_NAMES_def blank_support_group_def get_row_def)
  then show ?thesis using same by simp
qed

section \<open>One problem per incident\<close>

definition ci_role :: "task_ci \<Rightarrow> nat \<times> string" where
  "ci_role l = (tci_ci_id l, tci_relationship_role l)"

definition record_cis :: "db \<Rightarrow> string \<Rightarrow> nat \<Rightarrow> (nat \<times> string) list" where
  "record_cis s target_type target_id =
     map ci_role (filter (\<lambda>l. tci_target_type l = target_type \<and> tci_target_id l = target_id) (db_task_cis s))"

definition own_ci :: "db \<Rightarrow> nat \<Rightarrow> nat \<times> string \<Rightarrow> bool" where
  "own_ci s tenant_id l \<longleftrightarrow> (case get_row ci_id (fst l) (db_cis s) of None \<Rightarrow> False | Some ci \<Rightarrow> ci_tenant_id ci = tenant_id)"

lemma copy_ci_tables [simp]:
  "db_cis (copy_ci ticket i l s) = db_cis s" "db_record_links (copy_ci ticket i l s) = db_record_links s"
  "db_enterprise_records (copy_ci ticket i l s) = db_enterprise_records s" "db_problem_profiles (copy_ci ticket i l s) = db_problem_profiles s"
  by (simp_all add: copy_ci_def split: option.split)

lemma copy_ci_cis:
  "record_cis (copy_ci ticket i l s) ty j =
     record_cis s ty j @ (if ty = ''enterprise'' \<and> j = i \<and> own_ci s (tk_tenant_id ticket) (ci_role l) then [ci_role l] else [])"
  by (auto simp: copy_ci_def record_cis_def own_ci_def ci_role_def split: option.split dest: get_row_key)

lemma copy_cis:
  "db_cis (fold (copy_ci ticket i) ls s) = db_cis s \<and> db_record_links (fold (copy_ci ticket i) ls s) = db_record_links s
   \<and> db_enterprise_records (fold (copy_ci ticket i) ls s) = db_enterprise_records s
   \<and> db_problem_profiles (fold (copy_ci ticket i) ls s) = db_problem_profiles s
   \<and> record_cis (fold (copy_ci ticket i) ls s) ty j =
       record_cis s ty j @ (if ty = ''enterprise'' \<and> j = i then filter (own_ci s (tk_tenant_id ticket)) (map ci_role ls) else [])"
proof (induction ls arbitrary: s)
  case (Cons l ls)
  have "own_ci (copy_ci ticket i l s) (tk_tenant_id ticket) = own_ci s (tk_tenant_id ticket)" by (simp add: own_ci_def fun_eq_iff)
  then show ?case using Cons [of "copy_ci ticket i l s"] by (simp add: copy_ci_cis)
qed simp

text \<open>
  C25. Raising a problem from an incident happens at most once: it creates one problem record under a fresh key with its
  profile, adds one link, from the incident to that record, which is then the only underlying problem of the incident, carries over exactly the incident's configuration items of its own tenant with their roles, leaves the items of every other
  record alone, and every later attempt for the incident is refused with 409.
\<close>

theorem problem_raised_once:
  assumes "create_problem user' ticket s = Inr (record', s')"
    and fresh: "\<And>l. l \<in> set (db_task_cis s) \<Longrightarrow> tci_target_type l = ''enterprise'' \<Longrightarrow> tci_target_id l \<in> er_id ` set (db_enterprise_records s)"
  shows "db_enterprise_records s' = db_enterprise_records s @ [record'] \<and> er_id record' \<notin> er_id ` set (db_enterprise_records s)
    \<and> er_domain record' = ''problem'' \<and> er_tenant_id record' = tk_tenant_id ticket
    \<and> map pp_enterprise_record_id (db_problem_profiles s') = map pp_enterprise_record_id (db_problem_profiles s) @ [er_id record']
    \<and> (\<exists>l. db_record_links s' = db_record_links s @ [l] \<and> filter (underlying_problem ticket) (db_record_links s') = [l]
        \<and> rl_source_type l = ''ticket'' \<and> rl_source_id l = tk_id ticket \<and> rl_target_type l = ''enterprise'' \<and> rl_target_id l = er_id record')
    \<and> record_cis s' ''enterprise'' (er_id record') = filter (own_ci s (tk_tenant_id ticket)) (record_cis s ''ticket'' (tk_id ticket))
    \<and> ((ty, i) \<noteq> (''enterprise'', er_id record') \<longrightarrow> record_cis s' ty i = record_cis s ty i)
    \<and> create_problem user'' ticket s' = Inl (Abort 409 (tk_number ticket @ '' already has an underlying problem.''))"
proof -
  let ?links = "filter (\<lambda>l. tci_target_type l = ''ticket'' \<and> tci_target_id l = tk_id ticket) (db_task_cis s)"
  obtain number where r: "record' = problem_record user' ticket number s"
    and rows: "db_enterprise_records s' = db_enterprise_records (fold (copy_ci ticket (er_id record')) ?links (add_problem record' s))"
      "db_task_cis s' = db_task_cis (fold (copy_ci ticket (er_id record')) ?links (add_problem record' s))"
      "db_problem_profiles s' = db_problem_profiles (fold (copy_ci ticket (er_id record')) ?links (add_problem record' s))"
      "db_record_links s' = db_record_links (link_problem ticket record' (fold (copy_ci ticket (er_id record')) ?links (add_problem record' s)))"
      and none: "\<not> list_ex (underlying_problem ticket) (db_record_links s)"
    using assms(1) unfolding create_problem_def Let_def
    by (auto simp: bindE_Inr_iff link_problem_def add_problem_def Let_def split: if_splits)
  have id: "er_id record' = next_id er_id (db_enterprise_records s)"
    and rec: "er_domain record' = ''problem''" "er_tenant_id record' = tk_tenant_id ticket" by (simp_all add: r problem_record_def)
  define s1 where "s1 = add_problem record' s"
  have s1: "db_enterprise_records s1 = db_enterprise_records s @ [record']" "db_cis s1 = db_cis s" "db_task_cis s1 = db_task_cis s"
      "map pp_enterprise_record_id (db_problem_profiles s1) = map pp_enterprise_record_id (db_problem_profiles s) @ [er_id record']"
    by (simp_all add: s1_def add_problem_def Let_def)
  have links1: "db_record_links s1 = db_record_links s" by (simp add: s1_def add_problem_def Let_def)
  note s' = rows [folded s1_def]
  obtain l where l: "db_record_links s' = db_record_links s @ [l]" "underlying_problem ticket l"
      "rl_source_type l = ''ticket''" "rl_source_id l = tk_id ticket" "rl_target_type l = ''enterprise''" "rl_target_id l = er_id record'"
    using s'(4) copy_cis [of ticket "er_id record'" ?links s1] links1 by (simp add: link_problem_def underlying_problem_def)
  have only: "filter (underlying_problem ticket) (db_record_links s') = [l]"
    using none l by (simp add: list_ex_iff filter_empty_conv)
  have cis: "record_cis s' ty j = record_cis s ty j
      @ (if ty = ''enterprise'' \<and> j = er_id record' then filter (own_ci s (tk_tenant_id ticket)) (record_cis s ''ticket'' (tk_id ticket)) else [])" for ty j
  proof -
    have "record_cis s' ty j = record_cis (fold (copy_ci ticket (er_id record')) ?links s1) ty j" by (simp add: record_cis_def s'(2))
    also have "\<dots> = record_cis s1 ty j @ (if ty = ''enterprise'' \<and> j = er_id record'
        then filter (own_ci s1 (tk_tenant_id ticket)) (map ci_role ?links) else [])"
      using copy_cis [of ticket "er_id record'" ?links s1 ty j] by blast
    finally have "record_cis s' ty j = record_cis s1 ty j @ (if ty = ''enterprise'' \<and> j = er_id record'
        then filter (own_ci s1 (tk_tenant_id ticket)) (map ci_role ?links) else [])" .
    moreover have "own_ci s1 = own_ci s" using s1(2) by (simp add: own_ci_def fun_eq_iff)
    ultimately show ?thesis using s1(3) by (simp add: record_cis_def)
  qed
  have new: "er_id record' \<notin> er_id ` set (db_enterprise_records s)" using id next_id_unused by metis
  have "record_cis s ''enterprise'' (er_id record') = []"
  proof -
    have "\<not> (tci_target_type l = ''enterprise'' \<and> tci_target_id l = er_id record')" if "l \<in> set (db_task_cis s)" for l
      using fresh [OF that] new by metis
    then show ?thesis by (simp add: record_cis_def filter_empty_conv)
  qed
  moreover have "create_problem user'' ticket s' = Inl (Abort 409 (tk_number ticket @ '' already has an underlying problem.''))"
    using l(1,2) by (simp add: create_problem_def)
  ultimately show ?thesis using id new rec s1 s'(1-3) l only cis copy_cis [of ticket "er_id record'" ?links s1] by auto
qed

definition example_problem_db :: db where
  "example_problem_db = empty_db\<lparr>db_tickets := [example_incident 7],
     db_cis := [blank_configuration_item\<lparr>ci_id := 3, ci_tenant_id := tk_tenant_id (example_incident 7)\<rparr>,
       blank_configuration_item\<lparr>ci_id := 4, ci_tenant_id := Suc (tk_tenant_id (example_incident 7))\<rparr>],
     db_task_cis := map (\<lambda>i. blank_task_ci\<lparr>tci_id := i, tci_target_type := ''ticket'', tci_target_id := 7, tci_ci_id := i,
       tci_relationship_role := ''Affected CI''\<rparr>) [3, 4]\<rparr>"

text \<open>An incident with one item of its tenant and one of another tenant.\<close>

theorem problem_raised_once_witness:
  "\<exists>record' s'. create_problem example_caller (example_incident 7) example_problem_db = Inr (record', s')
    \<and> record_cis s' ''enterprise'' (er_id record') = [(3, ''Affected CI'')]"
proof -
  have "\<exists>r. create_problem example_caller (example_incident 7) example_problem_db = Inr r"
  proof -
    have "\<not> list_ex (underlying_problem (example_incident 7)) (db_record_links example_problem_db)" by (simp add: example_problem_db_def empty_db_def)
    then show ?thesis unfolding create_problem_def next_enterprise_number_def domain_prefix_def Let_def by simp
  qed
  then obtain record' s' where c: "create_problem example_caller (example_incident 7) example_problem_db = Inr (record', s')" by auto
  have "record_cis s' ''enterprise'' (er_id record')
      = filter (own_ci example_problem_db (tk_tenant_id (example_incident 7))) (record_cis example_problem_db ''ticket'' (tk_id (example_incident 7)))"
  proof -
    have "tci_target_id l \<in> er_id ` set (db_enterprise_records example_problem_db)"
      if "l \<in> set (db_task_cis example_problem_db)" "tci_target_type l = ''enterprise''" for l
      using that by (auto simp: example_problem_db_def)
    from problem_raised_once [OF c this] show ?thesis by blast
  qed
  also have "\<dots> = [(3, ''Affected CI'')]"
    by (simp add: record_cis_def ci_role_def own_ci_def example_problem_db_def get_row_def blank_configuration_item_def blank_task_ci_def example_incident_def)
  finally show ?thesis using c by blast
qed

end
