(* ===== verification/Workflow.thy ===== *)
theory Workflow
  imports Prelude
begin

text \<open>
  Declarative workflows (\<^verbatim>\<open>serviceops_core/workflow.py\<close>): the validation of actions, workflows and subflows, the
  search for dependency cycles, the expansion of subflows into plain actions, and the matching of events.

  A package is a JSON value; whatever the validation meets that is not of the expected shape is answered with the
  exception Python raises for it. Numbers with a fraction do not occur in the supported schema and are left out of
  the JSON values. Python's limit on the depth of recursion is not modelled: the recursions here are as deep as
  subflows are nested, and the theorem on the expansion shows that this depth is finite.
\<close>

section \<open>Python's view of JSON values\<close>

fun hashable :: "json \<Rightarrow> bool" where
  "hashable (JList _) = False"
| "hashable (JObj _) = False"
| "hashable _ = True"

text \<open>The truth value of a decoded JSON value.\<close>

fun json_true :: "json \<Rightarrow> bool" where
  "json_true JNull = False"
| "json_true (JBool b) = b"
| "json_true (JInt n) = (n \<noteq> 0)"
| "json_true (JStr s) = (s \<noteq> [])"
| "json_true (JList xs) = (xs \<noteq> [])"
| "json_true (JObj xs) = (xs \<noteq> [])"

text \<open>\<^verbatim>\<open>isinstance(value, int)\<close> with its value: Python's booleans are integers.\<close>

fun json_number :: "json \<Rightarrow> int option" where
  "json_number (JInt n) = Some n"
| "json_number (JBool b) = Some (if b then 1 else 0)"
| "json_number _ = None"

text \<open>\<^verbatim>\<open>a == b\<close>.\<close>

function (sequential) json_eq :: "json \<Rightarrow> json \<Rightarrow> bool" where
  "json_eq (JList xs) b = (case b of JList ys \<Rightarrow> length xs = length ys \<and> list_all (\<lambda>(x, y). json_eq x y) (zip xs ys) | _ \<Rightarrow> False)"
| "json_eq (JObj xs) b = (case b of
       JObj ys \<Rightarrow> list_all (\<lambda>(k, v). case map_of ys k of None \<Rightarrow> False | Some w \<Rightarrow> json_eq v w) xs
         \<and> list_all (\<lambda>k. k \<in> set (map fst xs)) (map fst ys)
     | _ \<Rightarrow> False)"
| "json_eq JNull b = (b = JNull)"
| "json_eq (JStr s) b = (b = JStr s)"
| "json_eq (JInt n) b = (json_number b = Some n)"
| "json_eq (JBool c) b = (json_number b = Some (if c then 1 else 0))"
  by pat_completeness auto
termination
  by (relation "measure (\<lambda>(a, b). size a)") (auto simp: less_Suc_eq_le intro!: size_list_estimation' dest: set_zip_leftD)

text \<open>\<^verbatim>\<open>value in {...}\<close> for a set of strings, \<^verbatim>\<open>set(value)\<close>, and \<^verbatim>\<open>value[key]\<close>.\<close>

definition in_names :: "json \<Rightarrow> string list \<Rightarrow> bool result" where
  "in_names v names = (if hashable v then Inr (v \<in> set (map JStr names)) else Inl (TypeError ''unhashable type''))"

fun key_set :: "json \<Rightarrow> json list result" where
  "key_set (JObj xs) = Inr (map (\<lambda>(k, v). JStr k) xs)"
| "key_set (JStr s) = Inr (map (\<lambda>c. JStr [c]) s)"
| "key_set (JList xs) = (if list_all hashable xs then Inr xs else Inl (TypeError ''unhashable type''))"
| "key_set _ = Inl (TypeError ''object is not iterable'')"

definition jitem :: "(string \<times> json) list \<Rightarrow> string \<Rightarrow> json result" where
  "jitem obj k = (case map_of obj k of None \<Rightarrow> Inl (KeyError k) | Some v \<Rightarrow> Inr v)"

definition jset :: "string \<Rightarrow> json \<Rightarrow> (string \<times> json) list \<Rightarrow> (string \<times> json) list" where
  "jset k v obj = (if k \<in> set (map fst obj) then map (\<lambda>(i, w). (i, if i = k then v else w)) obj else obj @ [(k, v)])"

fun as_object :: "json \<Rightarrow> (string \<times> json) list result" where
  "as_object (JObj xs) = Inr xs"
| "as_object _ = Inl (AttributeError ''get'')"

definition has_keys :: "(string \<times> json) list \<Rightarrow> string list \<Rightarrow> bool" where
  "has_keys obj names \<longleftrightarrow> set names \<subseteq> set (map fst obj)"

definition only_keys :: "(string \<times> json) list \<Rightarrow> string list \<Rightarrow> bool" where
  "only_keys obj names \<longleftrightarrow> set (map fst obj) \<subseteq> set names"

definition check :: "bool \<Rightarrow> string \<Rightarrow> unit result" where
  "check ok message = (if ok then Inr () else Inl (WorkflowConfigurationError message))"

section \<open>Validation\<close>

definition EVENTS :: "string list" where
  "EVENTS = [''ticket.state_entry'', ''ticket.manual'', ''ticket.api_trigger'', ''ticket.sla_breached'', ''ticket.scheduled'']"

definition OPERATORS :: "string list" where
  "OPERATORS = [''equals'', ''not_equals'', ''in'', ''not_empty'', ''empty'']"

definition ACTIONS :: "string list" where
  "ACTIONS = [''add_history'', ''notify_requester'', ''notify_team_manager'', ''wait'', ''run_subflow'']"

definition FIELDS :: "string list" where
  "FIELDS = [''kind'', ''state'', ''priority'', ''impact'', ''urgency'', ''category'', ''sla_name'', ''triggered_by'']"

text \<open>The canonical encoding sorts the keys of every object; the text stands for the value in this order.\<close>

fun canonical_json :: "json \<Rightarrow> json" where
  "canonical_json (JList xs) = JList (map canonical_json xs)"
| "canonical_json (JObj xs) = JObj (sort_key fst (map (\<lambda>(k, v). (k, canonical_json v)) xs))"
| "canonical_json v = v"

definition action_type :: "(string \<times> json) list \<Rightarrow> json" where
  "action_type action = jget action ''type''"

definition check_compensation :: "json \<Rightarrow> unit result" where
  "check_compensation compensation =
     (case compensation of
        JNull \<Rightarrow> Inr ()
      | JObj c \<Rightarrow>
          bindE (check (json_eq (jget c ''type'') (JStr ''add_history'')) ''Only add_history compensation is supported.'') (\<lambda>_.
            check (has_keys c [''type'', ''event'', ''details''] \<and> only_keys c [''type'', ''event'', ''details''])
              ''Compensation action schema is invalid.'')
      | _ \<Rightarrow> Inl (WorkflowConfigurationError ''Only add_history compensation is supported.''))"

definition exactly_keys :: "(string \<times> json) list \<Rightarrow> string list \<Rightarrow> bool" where
  "exactly_keys obj names \<longleftrightarrow> has_keys obj names \<and> only_keys obj names"

definition validate_action :: "json \<Rightarrow> unit result" where
  "validate_action v =
     bindE (as_object v) (\<lambda>action.
     bindE (in_names (action_type action) ACTIONS) (\<lambda>known.
     bindE (check known ''Workflow action is unsupported.'') (\<lambda>_.
     bindE (check (only_keys action [''type'', ''event'', ''details'', ''title'', ''body'', ''minutes'', ''compensate'', ''subflow''])
       ''Action contains unsupported fields.'') (\<lambda>_.
     bindE (check_compensation (jget action ''compensate'')) (\<lambda>_.
     if action_type action = JStr ''add_history'' then
       check (has_keys action [''type'', ''event'', ''details'']) ''History action schema is invalid.''
     else if action_type action = JStr ''wait'' then
       (case json_number (jget action ''minutes'') of
          None \<Rightarrow> Inl (WorkflowConfigurationError ''Wait action schema is invalid.'')
        | Some minutes \<Rightarrow>
            bindE (check (exactly_keys action [''type'', ''minutes'']) ''Wait action schema is invalid.'') (\<lambda>_.
              check (1 \<le> minutes \<and> minutes \<le> 10080) ''Wait must be between 1 and 10080 minutes.''))
     else if action_type action = JStr ''run_subflow'' then
       check (exactly_keys action [''type'', ''subflow''] \<and> json_true (jget action ''subflow'')) ''Subflow action schema is invalid.''
     else check (has_keys action [''type'', ''title'', ''body'']) ''Notification action schema is invalid.'')))))"

text \<open>\<^verbatim>\<open>action["type"] == "run_subflow" and action["subflow"] not in known\<close>, after the action itself was validated.\<close>

definition check_reference :: "string list \<Rightarrow> string \<Rightarrow> json \<Rightarrow> unit result" where
  "check_reference known message v =
     bindE (as_object v) (\<lambda>action.
       if action_type action = JStr ''run_subflow''
       then bindE (jitem action ''subflow'') (\<lambda>sub. bindE (in_names sub known) (\<lambda>ok. check ok message))
       else Inr ())"

definition validate_condition :: "json \<Rightarrow> unit result" where
  "validate_condition v =
     bindE (key_set v) (\<lambda>keys.
     bindE (check (list_all (\<lambda>k. k \<in> set (map JStr [''field'', ''operator'', ''value''])) keys) ''Condition contains unsupported fields.'') (\<lambda>_.
     bindE (as_object v) (\<lambda>condition.
     bindE (in_names (jget condition ''field'') FIELDS) (\<lambda>field.
     bindE (if field then in_names (jget condition ''operator'') OPERATORS else Inr False) (\<lambda>ok.
       check ok ''Condition field or operator is unsupported.'')))))"

definition required_fields :: "string list" where
  "required_fields = [''key'', ''name'', ''event'', ''conditions'', ''actions'', ''rate_limit_per_minute'']"

definition each :: "('a \<Rightarrow> unit result) \<Rightarrow> 'a list \<Rightarrow> unit result" where
  "each f xs = foldE (\<lambda>x _. f x) xs ()"

definition check_lists :: "string list \<Rightarrow> (string \<times> json) list \<Rightarrow> unit result" where
  "check_lists known w =
     (case (jget w ''conditions'', jget w ''actions'') of
        (JList conditions, JList actions) \<Rightarrow>
          bindE (check (actions \<noteq> []) ''Workflow must contain at least one action.'') (\<lambda>_.
          bindE (case json_number (jget w ''rate_limit_per_minute'') of
              None \<Rightarrow> Inl (WorkflowConfigurationError ''Workflow rate limit must be 1 through 1000.'')
            | Some limit \<Rightarrow> check (1 \<le> limit \<and> limit \<le> 1000) ''Workflow rate limit must be 1 through 1000.'') (\<lambda>_.
          bindE (each validate_condition conditions) (\<lambda>_.
            each (\<lambda>a. bindE (validate_action a) (\<lambda>_. check_reference known ''Workflow references an unknown subflow.'' a)) actions)))
      | _ \<Rightarrow> Inl (WorkflowConfigurationError ''Workflow conditions and actions must be lists.''))"

definition validate_workflow :: "json \<Rightarrow> string list \<Rightarrow> unit result" where
  "validate_workflow v known =
     bindE (key_set v) (\<lambda>keys.
     bindE (check (set keys = set (map JStr required_fields)) ''Workflow fields do not match the supported schema.'') (\<lambda>_.
     case v of
       JObj w \<Rightarrow>
         bindE (if json_true (jget w ''key'') then in_names (jget w ''event'') EVENTS else Inr False) (\<lambda>ok.
         bindE (check ok ''Workflow key or event is invalid.'') (\<lambda>_. check_lists known w))
     | _ \<Rightarrow> Inl (TypeError ''indices must be integers'')))"

section \<open>Subflows\<close>

type_synonym subflows = "(string \<times> json) list"

definition subflow_actions :: "json \<Rightarrow> json list" where
  "subflow_actions v = (case v of JList actions \<Rightarrow> actions | _ \<Rightarrow> [])"

definition validate_subflow :: "subflows \<Rightarrow> string \<times> json \<Rightarrow> unit result" where
  "validate_subflow subflows = (\<lambda>(key, v).
     bindE (check (key \<noteq> [] \<and> subflow_actions v \<noteq> []) ''Every subflow needs a key and actions.'') (\<lambda>_.
       each (\<lambda>a. bindE (validate_action a) (\<lambda>_.
         check_reference (map fst subflows) ''Subflow references an unknown subflow.'' a)) (subflow_actions v)))"

text \<open>The subflows that a list of actions runs, in order.\<close>

definition called :: "json list \<Rightarrow> string list" where
  "called actions = List.map_filter (\<lambda>v. case v of
       JObj a \<Rightarrow> if action_type a = JStr ''run_subflow'' then (case jget a ''subflow'' of JStr k \<Rightarrow> Some k | _ \<Rightarrow> None) else None
     | _ \<Rightarrow> None) actions"

text \<open>
  The nested function \<^verbatim>\<open>visit\<close>, called for every key of the list in turn. \<open>visiting\<close> are the keys on the way from
  the start to the current one (it is as before when a call returns), and the result is the new value of \<^verbatim>\<open>visited\<close>.
\<close>

function visit :: "subflows \<Rightarrow> string list \<Rightarrow> string list \<Rightarrow> string list \<Rightarrow> string list result" where
  "visit subflows visiting visited [] = Inr visited"
| "visit subflows visiting visited (key # keys) =
     bindE (if key \<in> set visiting then Inl (WorkflowConfigurationError ''Subflow dependency cycle detected.'')
            else if key \<in> set visited then Inr visited
            else (case map_of subflows key of
                None \<Rightarrow> Inl (KeyError key)
              | Some actions \<Rightarrow>
                  bindE (visit subflows (key # visiting) visited (called (subflow_actions actions))) (\<lambda>visited. Inr (key # visited))))
       (\<lambda>visited. visit subflows visiting visited keys)"
  by pat_completeness auto
termination
proof (relation "measures [\<lambda>(subflows, visiting, visited, keys). card (set (map fst subflows) - set visiting),
    \<lambda>(subflows, visiting, visited, keys). length keys]", goal_cases)
  case (2 subflows visiting visited key keys actions)
  then have "key \<in> set (map fst subflows) - set visiting" by (auto dest!: map_of_SomeD intro: rev_image_eqI)
  then have "card (set (map fst subflows) - set (key # visiting)) < card (set (map fst subflows) - set visiting)"
    by (intro psubset_card_mono) auto
  then show ?case by simp
qed auto

definition validate_subflows :: "json \<Rightarrow> subflows result" where
  "validate_subflows v =
     (case v of
        JObj subflows \<Rightarrow>
          bindE (each (validate_subflow subflows) subflows) (\<lambda>_.
          bindE (visit subflows [] [] (map fst subflows)) (\<lambda>_. Inr subflows))
      | _ \<Rightarrow> Inl (WorkflowConfigurationError ''Subflows must be an object.''))"

text \<open>
  The expansion follows every reference without looking for cycles; \<open>None\<close> stands for a call that does not return.
\<close>

partial_function (option) materialize_actions :: "subflows \<Rightarrow> json list \<Rightarrow> json list result option" where
  "materialize_actions subflows actions =
     (case actions of
        [] \<Rightarrow> Some (Inr [])
      | v # rest \<Rightarrow>
          (case as_object v of
             Inl e \<Rightarrow> Some (Inl (TypeError ''indices must be integers''))
           | Inr action \<Rightarrow>
               (case jitem action ''type'' of
                  Inl e \<Rightarrow> Some (Inl e)
                | Inr ty \<Rightarrow>
                    if json_eq ty (JStr ''run_subflow'') then
                      (case bindE (jitem action ''subflow'') (\<lambda>k. case k of JStr k \<Rightarrow> jitem subflows k | _ \<Rightarrow> Inl (KeyError ''subflow'')) of
                         Inl e \<Rightarrow> Some (Inl e)
                       | Inr sub \<Rightarrow>
                           Option.bind (materialize_actions subflows (subflow_actions sub)) (\<lambda>expanded.
                           case expanded of
                             Inl e \<Rightarrow> Some (Inl e)
                           | Inr xs \<Rightarrow>
                               Option.bind (materialize_actions subflows rest) (\<lambda>r. Some (bindE r (\<lambda>ys. Inr (xs @ ys))))))
                    else Option.bind (materialize_actions subflows rest) (\<lambda>r. Some (bindE r (\<lambda>ys. Inr (v # ys)))))))"

declare materialize_actions.simps [code]

definition materialize_workflow :: "(string \<times> json) list \<Rightarrow> subflows \<Rightarrow> (string \<times> json) list result option" where
  "materialize_workflow workflow subflows =
     (case jitem workflow ''actions'' of
        Inl e \<Rightarrow> Some (Inl e)
      | Inr actions \<Rightarrow>
          Option.bind (materialize_actions subflows (subflow_actions actions)) (\<lambda>r.
            Some (bindE r (\<lambda>xs. Inr (jset ''actions'' (JList xs) workflow)))))"

text \<open>\<^verbatim>\<open>load_workflow_package\<close> after the file was read and decoded.\<close>

definition check_package :: "json \<Rightarrow> unit result" where
  "check_package v =
     bindE (as_object v) (\<lambda>package.
     case jget package ''workflows'' of
       JList workflows \<Rightarrow>
         bindE (check (json_eq (jget package ''schema_version'') (JInt 1) \<or> json_eq (jget package ''schema_version'') (JInt 2))
           ''Unsupported workflow package schema.'') (\<lambda>_.
         bindE (validate_subflows (opt (JObj []) (map_of package ''subflows''))) (\<lambda>subflows.
         bindE (each (\<lambda>w. validate_workflow w (map fst subflows)) workflows) (\<lambda>_.
         let keys = map (\<lambda>w. case w of JObj w \<Rightarrow> jget w ''key'' | _ \<Rightarrow> JNull) workflows in
         if \<not> list_all hashable keys then Inl (TypeError ''unhashable type'')
         else check (distinct (map (\<lambda>k. case json_number k of Some n \<Rightarrow> JInt n | None \<Rightarrow> k) keys)) ''Workflow keys must be unique.'')))
     | _ \<Rightarrow> Inl (WorkflowConfigurationError ''Unsupported workflow package schema.''))"

section \<open>Matching\<close>

definition condition_matches :: "(string \<times> json) list \<Rightarrow> (string \<times> json) list \<Rightarrow> bool" where
  "condition_matches condition context =
     (let actual = (case jget condition ''field'' of JStr f \<Rightarrow> jget context f | _ \<Rightarrow> JNull);
          operator = jget condition ''operator'';
          expected = jget condition ''value''
      in if operator = JStr ''equals'' then json_eq actual expected
         else if operator = JStr ''not_equals'' then \<not> json_eq actual expected
         else if operator = JStr ''in'' then (case expected of JList xs \<Rightarrow> list_ex (json_eq actual) xs | _ \<Rightarrow> False)
         else if operator = JStr ''empty'' then actual \<in> set [JNull, JStr []]
         else if operator = JStr ''not_empty'' then actual \<notin> set [JNull, JStr []]
         else False)"

definition workflow_matches :: "(string \<times> json) list \<Rightarrow> string \<Rightarrow> (string \<times> json) list \<Rightarrow> bool" where
  "workflow_matches workflow event context \<longleftrightarrow>
     jget workflow ''event'' = JStr event
     \<and> list_all (\<lambda>c. case c of JObj c \<Rightarrow> condition_matches c context | _ \<Rightarrow> False) (subflow_actions (jget workflow ''conditions''))"

section \<open>The cycle search is exact\<close>

text \<open>Which subflow runs which.\<close>

definition calls :: "subflows \<Rightarrow> (string \<times> string) set" where
  "calls subflows = {(k, k') | k k' v. map_of subflows k = Some v \<and> k' \<in> set (called (subflow_actions v))}"

text \<open>A list of keys in which everything a subflow runs stands behind it.\<close>

fun settled_keys :: "subflows \<Rightarrow> string list \<Rightarrow> bool" where
  "settled_keys subflows [] = True"
| "settled_keys subflows (k # ks) \<longleftrightarrow> k \<in> set (map fst subflows) \<and> (\<forall>k'. (k, k') \<in> calls subflows \<longrightarrow> k' \<in> set ks) \<and> settled_keys subflows ks"

lemma each_iff: "each f xs = Inr () \<longleftrightarrow> list_all (\<lambda>x. f x = Inr ()) xs"
  unfolding each_def by (induction xs) (auto simp: bindE_Inr_iff)

lemma check_iff [simp]: "check b m = Inr u \<longleftrightarrow> b" "check b m = Inl e \<longleftrightarrow> \<not> b \<and> e = WorkflowConfigurationError m"
  by (auto simp: check_def)

lemma visit_settles:
  assumes "visit subflows visiting visited keys = Inr visited'" and "settled_keys subflows visited"
  shows "settled_keys subflows visited' \<and> set visited \<subseteq> set visited' \<and> set keys \<subseteq> set visited'"
  using assms
proof (induction subflows visiting visited keys arbitrary: visited' rule: visit.induct)
  case (2 subflows visiting visited key keys)
  let ?step = "if key \<in> set visiting then Inl (WorkflowConfigurationError ''Subflow dependency cycle detected.'')
            else if key \<in> set visited then Inr visited
            else (case map_of subflows key of
                None \<Rightarrow> Inl (KeyError key)
              | Some actions \<Rightarrow>
                  bindE (visit subflows (key # visiting) visited (called (subflow_actions actions))) (\<lambda>visited. Inr (key # visited)))"
  obtain m where m: "?step = Inr m" "visit subflows visiting m keys = Inr visited'" using 2(3) by (auto simp: bindE_Inr_iff)
  have "settled_keys subflows m \<and> set visited \<subseteq> set m \<and> key \<in> set m"
  proof (cases "key \<in> set visited")
    case True
    then show ?thesis using m(1) 2(4) by (auto split: if_splits)
  next
    case False
    then obtain actions m' where a: "key \<notin> set visiting" "map_of subflows key = Some actions" "m = key # m'"
        "visit subflows (key # visiting) visited (called (subflow_actions actions)) = Inr m'"
      using m(1) by (auto simp: bindE_Inr_iff split: if_splits option.splits)
    have "settled_keys subflows m' \<and> set visited \<subseteq> set m' \<and> set (called (subflow_actions actions)) \<subseteq> set m'"
      by (rule 2(1) [OF a(1) False a(2) a(4) 2(4)])
    moreover have "key \<in> set (map fst subflows)" using a(2) by (auto dest!: map_of_SomeD intro: rev_image_eqI)
    ultimately show ?thesis using a(2,3) by (auto simp: calls_def)
  qed
  moreover have "settled_keys subflows visited' \<and> set m \<subseteq> set visited' \<and> set keys \<subseteq> set visited'" if "settled_keys subflows m"
    by (rule 2(2) [OF m(1,2) that])
  ultimately show ?case by auto
qed simp

lemma settled_acc: "settled_keys subflows ks \<Longrightarrow> k \<in> set ks \<Longrightarrow> k \<in> Wellfounded.acc ((calls subflows)\<inverse>)"
proof (induction ks arbitrary: k)
  case (Cons a ks)
  show ?case
  proof (cases "k \<in> set ks")
    case True
    then show ?thesis using Cons by simp
  next
    case False
    then have "k = a" using Cons.prems by simp
    show ?thesis
    proof (rule accI)
      fix y assume "(y, k) \<in> (calls subflows)\<inverse>"
      then have "y \<in> set ks" using Cons.prems(1) \<open>k = a\<close> by simp
      then show "y \<in> Wellfounded.acc ((calls subflows)\<inverse>)" using Cons by simp
    qed
  qed
qed simp

lemma visit_acyclic:
  assumes "visit subflows [] [] (map fst subflows) = Inr visited"
  shows "wf ((calls subflows)\<inverse>)"
proof -
  have v: "settled_keys subflows visited" "set (map fst subflows) \<subseteq> set visited" using visit_settles [OF assms] by auto
  have "k \<in> Wellfounded.acc ((calls subflows)\<inverse>)" for k
  proof (cases "k \<in> set (map fst subflows)")
    case True
    then show ?thesis using settled_acc [OF v(1)] v(2) by auto
  next
    case False
    then have "(k, k') \<notin> calls subflows" for k' by (auto simp: calls_def dest!: map_of_SomeD intro: rev_image_eqI)
    then show ?thesis by (auto intro: accI)
  qed
  then show ?thesis by (simp add: wf_iff_acc)
qed

lemma visit_succeeds:
  assumes "acyclic (calls subflows)" and "\<And>k k'. (k, k') \<in> calls subflows \<Longrightarrow> k' \<in> set (map fst subflows)"
    and "set keys \<subseteq> set (map fst subflows)" and "\<And>x k. x \<in> set visiting \<Longrightarrow> k \<in> set keys \<Longrightarrow> (x, k) \<in> (calls subflows)\<^sup>+"
  shows "\<exists>visited'. visit subflows visiting visited keys = Inr visited'"
  using assms
proof (induction subflows visiting visited keys rule: visit.induct)
  case (2 subflows visiting visited key keys)
  note ac = 2(3) and closed = 2(4) and known = 2(5) and path = 2(6)
  have fresh: "key \<notin> set visiting" using path [of key key] ac by (auto simp: acyclic_def)
  obtain actions where a: "map_of subflows key = Some actions" using known by (cases "map_of subflows key") (auto simp: map_of_eq_None_iff)
  have called: "(key, k) \<in> calls subflows" if "k \<in> set (called (subflow_actions actions))" for k using that a by (auto simp: calls_def)
  obtain m where m: "(if key \<in> set visiting then Inl (WorkflowConfigurationError ''Subflow dependency cycle detected.'')
            else if key \<in> set visited then Inr visited
            else (case map_of subflows key of
                None \<Rightarrow> Inl (KeyError key)
              | Some actions \<Rightarrow>
                  bindE (visit subflows (key # visiting) visited (called (subflow_actions actions))) (\<lambda>visited. Inr (key # visited)))) = Inr m"
  proof (cases "key \<in> set visited")
    case True
    then show ?thesis using that fresh by simp
  next
    case False
    have "\<exists>v. visit subflows (key # visiting) visited (called (subflow_actions actions)) = Inr v"
    proof (rule 2(1) [OF fresh False a ac closed])
      show "set (called (subflow_actions actions)) \<subseteq> set (map fst subflows)" using called closed by blast
      show "(x, k) \<in> (calls subflows)\<^sup>+" if "x \<in> set (key # visiting)" "k \<in> set (called (subflow_actions actions))" for x k
        using that called [OF that(2)] path [of x key] by (auto intro: trancl_into_trancl)
    qed
    then show ?thesis using that fresh False a by auto
  qed
  have "\<exists>v. visit subflows visiting m keys = Inr v" by (rule 2(2) [OF m ac closed]) (use known path in auto)
  then show ?case using m by (auto simp: bindE_def split: sum.splits)
qed simp

section \<open>Facts about validated actions\<close>

definition action_ok :: "string list \<Rightarrow> json \<Rightarrow> bool" where
  "action_ok known v \<longleftrightarrow> validate_action v = Inr () \<and> check_reference known [] v = Inr ()"

lemma reference_message: "check_reference known m v = Inr () \<longleftrightarrow> check_reference known [] v = Inr ()"
  by (auto simp: check_reference_def bindE_Inr_iff)

definition check_action :: "string list \<Rightarrow> string \<Rightarrow> json \<Rightarrow> unit result" where
  "check_action known m v = bindE (validate_action v) (\<lambda>_. check_reference known m v)"

lemma check_action_iff: "check_action known m v = Inr () \<longleftrightarrow> action_ok known v"
  using reference_message [of known m v] by (auto simp: action_ok_def check_action_def bindE_Inr_iff)

lemma action_ok_type:
  assumes "action_ok known v"
  obtains a ty where "v = JObj a" and "jitem a ''type'' = Inr (JStr ty)" and "action_type a = JStr ty"
proof -
  obtain a where a: "v = JObj a" using assms by (cases v) (auto simp: action_ok_def validate_action_def)
  then have "action_type a \<in> set (map JStr ACTIONS)"
    using assms by (auto simp: action_ok_def validate_action_def bindE_Inr_iff in_names_def split: if_splits)
  then obtain ty where "action_type a = JStr ty" by auto
  moreover from this have "jitem a ''type'' = Inr (JStr ty)" by (auto simp: action_type_def jget_def jitem_def split: option.splits)
  ultimately show ?thesis using that a by blast
qed

lemma action_ok_reference:
  assumes "action_ok known v" and "v = JObj a" and "action_type a = JStr ''run_subflow''"
  shows "\<exists>k. jitem a ''subflow'' = Inr (JStr k) \<and> called [v] = [k] \<and> k \<in> set known"
  using assms
  by (auto simp: action_ok_def check_reference_def bindE_Inr_iff in_names_def called_def map_filter_simps jitem_def jget_def
      split: if_splits option.splits)

lemma action_ok_plain:
  assumes "action_ok known v" and "v = JObj a" and "action_type a \<noteq> JStr ''run_subflow''"
  shows "action_ok known' v"
  using assms by (auto simp: action_ok_def check_reference_def)

lemma called_known:
  assumes "list_all (action_ok known) actions" and "k \<in> set (called actions)"
  shows "k \<in> set known"
  using assms
proof (induction actions)
  case (Cons v actions)
  have split: "called (v # actions) = called [v] @ called actions" by (simp add: called_def map_filter_simps split: option.split)
  have ok: "action_ok known v" using Cons.prems(1) by simp
  obtain a ty where a: "v = JObj a" "action_type a = JStr ty" by (rule action_ok_type [OF ok])
  have "k \<in> set known" if "k \<in> set (called [v])"
  proof (cases "ty = ''run_subflow''")
    case True
    then show ?thesis using action_ok_reference [of known v a] a Cons.prems(1) that by auto
  next
    case False
    then show ?thesis using that a by (simp add: called_def map_filter_simps)
  qed
  then show ?case using Cons split by auto
qed (simp add: called_def map_filter_simps)

lemma validated_entry:
  assumes "list_all (\<lambda>entry. validate_subflow subflows entry = Inr ()) subflows" and "map_of subflows k = Some sub"
  shows "subflow_actions sub \<noteq> [] \<and> list_all (action_ok (map fst subflows)) (subflow_actions sub)"
proof -
  have "validate_subflow subflows (k, sub) = Inr ()" using assms by (auto simp: list_all_iff dest: map_of_SomeD)
  then show ?thesis by (simp add: validate_subflow_def bindE_Inr_iff each_iff check_action_iff flip: check_action_def)
qed

lemma calls_known:
  assumes "list_all (\<lambda>entry. validate_subflow subflows entry = Inr ()) subflows" and "(k, k') \<in> calls subflows"
  shows "k' \<in> set (map fst subflows)"
proof -
  obtain v where v: "map_of subflows k = Some v" "k' \<in> set (called (subflow_actions v))" using assms(2) by (auto simp: calls_def)
  then show ?thesis using validated_entry [OF assms(1) v(1)] called_known by blast
qed

lemma jget_jset: "jget (jset k v obj) i = (if i = k then v else jget obj i)"
proof -
  have m: "map_of (map (\<lambda>(j, w). (j, if j = k then v else w)) obj) i = (if i = k then map_option (\<lambda>_. v) (map_of obj i) else map_of obj i)"
    by (induction obj) auto
  show ?thesis
  proof (cases "map_of obj k")
    case None
    then have "k \<notin> set (map fst obj)" by (simp add: map_of_eq_None_iff)
    then show ?thesis using None by (auto simp: jset_def jget_def map_add_def split: option.splits)
  next
    case (Some w)
    then have "k \<in> set (map fst obj)" by (auto dest!: map_of_SomeD intro: rev_image_eqI)
    then show ?thesis using Some m by (simp add: jset_def jget_def)
  qed
qed

lemma jset_keys: "k \<in> set (map fst obj) \<Longrightarrow> map fst (jset k v obj) = map fst obj"
  by (auto simp: jset_def)

lemma validated_actions:
  assumes "validate_workflow (JObj w) known = Inr ()"
  obtains actions where "map_of w ''actions'' = Some (JList actions)" and "actions \<noteq> []" and "list_all (action_ok known) actions"
proof -
  have c: "check_lists known w = Inr ()" using assms by (auto simp: validate_workflow_def bindE_Inr_iff)
  then obtain conditions actions where ca: "jget w ''conditions'' = JList conditions" "jget w ''actions'' = JList actions"
    by (auto simp: check_lists_def split: json.splits)
  then have "map_of w ''actions'' = Some (JList actions)" by (auto simp: jget_def split: option.splits)
  moreover have "actions \<noteq> []" "list_all (action_ok known) actions"
    using c by (simp_all add: check_lists_def ca bindE_Inr_iff each_iff check_action_iff flip: check_action_def)
  ultimately show ?thesis using that by blast
qed

lemma validated_rate:
  assumes "validate_workflow (JObj w) known = Inr ()"
  shows "json_number (jget w ''rate_limit_per_minute'') \<noteq> None"
proof -
  have "check_lists known w = Inr ()" using assms by (auto simp: validate_workflow_def bindE_Inr_iff)
  then show ?thesis by (auto simp: check_lists_def elim!: bindE_InrE split: json.splits option.splits)
qed

lemma replaced_actions:
  assumes ok: "validate_workflow (JObj w) known = Inr ()" and xs: "list_all (action_ok known') xs" "xs \<noteq> []"
  shows "validate_workflow (JObj (jset ''actions'' (JList xs) w)) known' = Inr ()"
proof -
  obtain actions where a: "map_of w ''actions'' = Some (JList actions)" by (rule validated_actions [OF ok])
  have "''actions'' \<in> set (map fst w)" using a by (auto dest!: map_of_SomeD intro: rev_image_eqI)
  then have "key_set (JObj (jset ''actions'' (JList xs) w)) = key_set (JObj w)"
    by (auto simp: jset_def)
  moreover have "check_lists known' (jset ''actions'' (JList xs) w) = Inr ()"
  proof -
    have c: "check_lists known w = Inr ()" using ok by (auto simp: validate_workflow_def bindE_Inr_iff)
    then obtain conditions ys where ca: "jget w ''conditions'' = JList conditions" "jget w ''actions'' = JList ys"
      by (auto simp: check_lists_def split: json.splits)
    show ?thesis
      using c xs by (simp add: check_lists_def ca jget_jset bindE_Inr_iff each_iff check_action_iff flip: check_action_def)
  qed
  ultimately show ?thesis using ok
    by (simp only: validate_workflow_def json.case jget_jset bindE_Inr_iff check_iff) (auto split: if_splits)
qed

text \<open>
  C32. The validation of subflows accepts exactly the objects whose every entry is valid, refers only to known
  subflows, and whose references form no cycle.
\<close>

theorem cycle_search_exact:
  "validate_subflows (JObj subflows) = Inr subflows
     \<longleftrightarrow> list_all (\<lambda>entry. validate_subflow subflows entry = Inr ()) subflows \<and> acyclic (calls subflows)"
proof
  assume ok: "validate_subflows (JObj subflows) = Inr subflows"
  then have "\<exists>v. visit subflows [] [] (map fst subflows) = Inr v" by (auto simp: validate_subflows_def bindE_Inr_iff)
  then have "acyclic ((calls subflows)\<inverse>)" using visit_acyclic wf_acyclic by blast
  then show "list_all (\<lambda>entry. validate_subflow subflows entry = Inr ()) subflows \<and> acyclic (calls subflows)"
    using ok by (auto simp: validate_subflows_def bindE_Inr_iff each_iff)
next
  assume ok: "list_all (\<lambda>entry. validate_subflow subflows entry = Inr ()) subflows \<and> acyclic (calls subflows)"
  have "\<exists>v. visit subflows [] [] (map fst subflows) = Inr v"
    by (rule visit_succeeds) (use ok calls_known [of subflows] in \<open>simp_all del: set_map\<close>)
  moreover have "each (validate_subflow subflows) subflows = Inr ()" using ok by (simp add: each_iff)
  ultimately show "validate_subflows (JObj subflows) = Inr subflows" by (auto simp: validate_subflows_def)
qed

section \<open>Expanding subflows\<close>

lemma expand_list:
  assumes "list_all (action_ok known) actions"
    and "\<And>k. k \<in> set (called actions) \<Longrightarrow> \<exists>sub xs. map_of subflows k = Some sub
        \<and> materialize_actions subflows (subflow_actions sub) = Some (Inr xs) \<and> xs \<noteq> [] \<and> list_all (action_ok []) xs"
  shows "\<exists>xs. materialize_actions subflows actions = Some (Inr xs) \<and> list_all (action_ok []) xs \<and> (actions \<noteq> [] \<longrightarrow> xs \<noteq> [])"
  using assms
proof (induction actions)
  case Nil
  then show ?case by (simp add: materialize_actions.simps)
next
  case (Cons v actions)
  have ok: "action_ok known v" using Cons.prems(1) by simp
  have rest: "\<exists>xs. materialize_actions subflows actions = Some (Inr xs) \<and> list_all (action_ok []) xs"
    using Cons by (auto simp: called_def map_filter_simps split: option.splits)
  obtain a ty where a: "v = JObj a" "jitem a ''type'' = Inr (JStr ty)" "action_type a = JStr ty" by (rule action_ok_type [OF ok])
  show ?case
  proof (cases "ty = ''run_subflow''")
    case True
    then obtain k where k: "jitem a ''subflow'' = Inr (JStr k)" "called [v] = [k]"
      using action_ok_reference [OF ok a(1)] a(3) by auto
    then have "k \<in> set (called (v # actions))" by (auto simp: called_def map_filter_simps split: option.splits)
    then obtain sub xs where "map_of subflows k = Some sub" "materialize_actions subflows (subflow_actions sub) = Some (Inr xs)"
        "xs \<noteq> []" "list_all (action_ok []) xs" using Cons.prems(2) by blast
    then show ?thesis using rest a k True by (subst materialize_actions.simps) (auto simp: jitem_def [of subflows])
  next
    case False
    then have "action_ok [] v" using action_ok_plain [OF ok a(1)] a(3) by simp
    then show ?thesis using rest a False by (subst materialize_actions.simps) auto
  qed
qed

lemma expand_key:
  assumes wf: "wf ((calls subflows)\<inverse>)" and ok: "list_all (\<lambda>entry. validate_subflow subflows entry = Inr ()) subflows"
    and k: "map_of subflows k = Some sub"
  shows "\<exists>xs. materialize_actions subflows (subflow_actions sub) = Some (Inr xs) \<and> xs \<noteq> [] \<and> list_all (action_ok []) xs"
  using wf k
proof (induction k arbitrary: sub)
  case (less k)
  have valid: "subflow_actions sub \<noteq> []" "list_all (action_ok (map fst subflows)) (subflow_actions sub)"
    using validated_entry [OF ok less(2)] by auto
  have "\<exists>sub' xs. map_of subflows k' = Some sub' \<and> materialize_actions subflows (subflow_actions sub') = Some (Inr xs)
      \<and> xs \<noteq> [] \<and> list_all (action_ok []) xs" if "k' \<in> set (called (subflow_actions sub))" for k'
  proof -
    have kk: "(k, k') \<in> calls subflows" using that less(2) by (auto simp: calls_def)
    then obtain sub' where "map_of subflows k' = Some sub'" using calls_known [OF ok kk] by (cases "map_of subflows k'") (auto simp: map_of_eq_None_iff)
    then show ?thesis using less(1) [of k' sub'] kk by auto
  qed
  then show ?case using expand_list [OF valid(2), of subflows] valid(1) by blast
qed

lemma expansion_ends:
  assumes "validate_subflows (JObj subflows) = Inr subflows'" and "validate_workflow (JObj w) (map fst subflows) = Inr ()"
  shows "\<exists>w'. materialize_workflow w subflows = Some (Inr w') \<and> validate_workflow (JObj w') [] = Inr ()
    \<and> map fst w' = map fst w \<and> (\<forall>k. k \<noteq> ''actions'' \<longrightarrow> jget w' k = jget w k)"
proof -
  have ok: "list_all (\<lambda>entry. validate_subflow subflows entry = Inr ()) subflows" and "\<exists>v. visit subflows [] [] (map fst subflows) = Inr v"
    using assms(1) by (auto simp: validate_subflows_def bindE_Inr_iff each_iff)
  then have wf: "wf ((calls subflows)\<inverse>)" using visit_acyclic by blast
  obtain actions where a: "map_of w ''actions'' = Some (JList actions)" "actions \<noteq> []" "list_all (action_ok (map fst subflows)) actions"
    by (rule validated_actions [OF assms(2)])
  have "\<exists>sub xs. map_of subflows k = Some sub \<and> materialize_actions subflows (subflow_actions sub) = Some (Inr xs)
      \<and> xs \<noteq> [] \<and> list_all (action_ok []) xs" if "k \<in> set (called actions)" for k
  proof -
    have "k \<in> set (map fst subflows)" by (rule called_known [OF a(3) that])
    then obtain sub where "map_of subflows k = Some sub" by (cases "map_of subflows k") (auto simp: map_of_eq_None_iff)
    then show ?thesis using expand_key [OF wf ok] by blast
  qed
  then obtain xs where xs: "materialize_actions subflows actions = Some (Inr xs)" "list_all (action_ok []) xs" "xs \<noteq> []"
    using expand_list [OF a(3)] a(2) by blast
  have key: "''actions'' \<in> set (map fst w)" using a(1) by (auto dest!: map_of_SomeD intro: rev_image_eqI)
  have "materialize_workflow w subflows = Some (Inr (jset ''actions'' (JList xs) w))"
    using a(1) xs(1) by (simp add: materialize_workflow_def jitem_def subflow_actions_def)
  moreover have "validate_workflow (JObj (jset ''actions'' (JList xs) w)) [] = Inr ()" by (rule replaced_actions [OF assms(2) xs(2,3)])
  ultimately show ?thesis using jset_keys [OF key] by (auto simp: jget_jset)
qed

text \<open>
  C31. Expanding the subflows of a validated workflow always ends with a workflow of plain actions only, which the
  validation accepts even when no subflow is known.
\<close>

theorem subflow_expansion_ends:
  assumes "validate_subflows (JObj subflows) = Inr subflows'" and "validate_workflow (JObj w) (map fst subflows) = Inr ()"
  shows "\<exists>w'. materialize_workflow w subflows = Some (Inr w') \<and> validate_workflow (JObj w') [] = Inr ()
    \<and> map fst w' = map fst w \<and> (\<forall>k. k \<noteq> ''actions'' \<longrightarrow> jget w' k = jget w k)"
  using expansion_ends [OF assms] .

definition example_subflows :: subflows where
  "example_subflows =
     [(''evidence'', JList [JObj [(''type'', JStr ''run_subflow''), (''subflow'', JStr ''note'')]]),
      (''note'', JList [JObj [(''type'', JStr ''add_history''), (''event'', JStr ''Done''), (''details'', JStr ''{number}'')]])]"

definition example_workflow :: "(string \<times> json) list" where
  "example_workflow =
     [(''key'', JStr ''resolved''), (''name'', JStr ''Resolved''), (''event'', JStr ''ticket.manual''),
      (''conditions'', JList [JObj [(''field'', JStr ''kind''), (''operator'', JStr ''equals''), (''value'', JStr ''incident'')]]),
      (''actions'', JList [JObj [(''type'', JStr ''run_subflow''), (''subflow'', JStr ''evidence'')],
         JObj [(''type'', JStr ''wait''), (''minutes'', JInt 5)]]),
      (''rate_limit_per_minute'', JInt 20)]"

theorem subflow_expansion_ends_witness:
  "\<exists>w'. materialize_workflow example_workflow example_subflows = Some (Inr w') \<and> validate_workflow (JObj w') [] = Inr ()
    \<and> map fst w' = map fst example_workflow \<and> jget w' ''event'' = JStr ''ticket.manual''"
proof -
  have sub: "validate_subflows (JObj example_subflows) = Inr example_subflows" by code_simp
  have w: "validate_workflow (JObj example_workflow) (map fst example_subflows) = Inr ()" by code_simp
  obtain w' where w': "materialize_workflow example_workflow example_subflows = Some (Inr w')" "validate_workflow (JObj w') [] = Inr ()"
      "map fst w' = map fst example_workflow" "\<And>k. k \<noteq> ''actions'' \<Longrightarrow> jget w' k = jget example_workflow k"
    using subflow_expansion_ends [OF sub w] by blast
  have "jget w' ''event'' = JStr ''ticket.manual''" using w'(4) [of "''event''"] by (simp add: example_workflow_def jget_def)
  with w' show ?thesis by blast
qed

end
