(* ===== verification/Workflow_Engine.thy ===== *)
theory Workflow_Engine
  imports Workflow Tickets
begin

text \<open>
  The execution of workflows (\<^verbatim>\<open>app.py\<close>): publishing a package as versions, queued jobs with their executions and
  steps, waiting, rate limits, retries and compensation, and the schedules that queue jobs.

  A pass over the jobs runs in one worker; every job ends in a commit, and an exception rolls the database back to
  the state before the job. Row locks are therefore not part of the model. Templates use plain field names, as the
  validated package does: a replacement field with an attribute, an index, a conversion or a format specification is
  answered with an error.
\<close>

section \<open>Formatting and previews\<close>

fun py_str :: "json \<Rightarrow> string result" where
  "py_str (JStr s) = Inr s"
| "py_str (JInt n) = Inr (show_int n)"
| "py_str (JBool b) = Inr (if b then ''True'' else ''False'')"
| "py_str JNull = Inr ''None''"
| "py_str _ = Inl (ValueError ''list or object in the context'')"

definition format_field :: "(string \<times> json) list \<Rightarrow> string \<Rightarrow> string result" where
  "format_field context name =
     (if list_all is_digit name then Inl (ValueError ''Format string contains positional fields'')
      else bindE (jitem context name) py_str)"

text \<open>\<^verbatim>\<open>template.format_map(context)\<close>; the first argument is the field name being read, if any.\<close>

fun format_from :: "string option \<Rightarrow> string \<Rightarrow> (string \<times> json) list \<Rightarrow> string result" where
  "format_from None [] context = Inr []"
| "format_from (Some name) [] context = Inl (ValueError ''expected '}' before end of string'')"
| "format_from None [c] context =
     (if c = CHR ''{'' \<or> c = CHR ''}'' then Inl (ValueError ''single brace'') else Inr [c])"
| "format_from None (c # d # cs) context =
     (if c = CHR ''{'' then (if d = CHR ''{'' then bindE (format_from None cs context) (\<lambda>r. Inr (c # r)) else format_from (Some []) (d # cs) context)
      else if c = CHR ''}'' then (if d = CHR ''}'' then bindE (format_from None cs context) (\<lambda>r. Inr (c # r)) else Inl (ValueError ''single brace''))
      else bindE (format_from None (d # cs) context) (\<lambda>r. Inr (c # r)))"
| "format_from (Some name) (c # cs) context =
     (if c = CHR ''}'' then bindE (format_field context name) (\<lambda>v. bindE (format_from None cs context) (\<lambda>r. Inr (v @ r)))
      else if c \<in> set ''{.[!:'' then Inl (ValueError ''replacement field'')
      else format_from (Some (name @ [c])) cs context)"

definition format_map :: "string \<Rightarrow> (string \<times> json) list \<Rightarrow> string result" where
  "format_map template context = format_from None template context"

text \<open>\<^verbatim>\<open>action.get(key, "").format_map(context)\<close>.\<close>

definition formatted :: "(string \<times> json) list \<Rightarrow> string \<Rightarrow> (string \<times> json) list \<Rightarrow> string result" where
  "formatted action key context =
     (case map_of action key of
        None \<Rightarrow> Inr []
      | Some (JStr template) \<Rightarrow> format_map template context
      | Some _ \<Rightarrow> Inl (AttributeError ''format_map''))"

definition workflow_action_preview :: "(string \<times> json) list \<Rightarrow> (string \<times> json) list \<Rightarrow> (string \<times> json) list result" where
  "workflow_action_preview action context =
     bindE (jitem action ''type'') (\<lambda>ty.
       if json_eq ty (JStr ''wait'') then
         bindE (jitem action ''minutes'') (\<lambda>minutes. Inr [(''type'', JStr ''wait''), (''minutes'', minutes), (''resume_at'', JNull)])
       else
         bindE (formatted action ''title'' context) (\<lambda>title.
         bindE (formatted action ''body'' context) (\<lambda>body.
         bindE (formatted action ''details'' context) (\<lambda>details.
           Inr [(''type'', ty),
                (''recipient'', if ty = JStr ''notify_requester'' then JStr ''requester''
                   else if ty = JStr ''notify_team_manager'' then JStr ''team_manager'' else JNull),
                (''title'', JStr title), (''body'', JStr body), (''event'', jget action ''event''), (''details'', JStr details)]))))"

section \<open>Publishing a package\<close>

definition published_version :: "db \<Rightarrow> workflow_definition \<Rightarrow> workflow_version option" where
  "published_version s d = (case wd_published_version_id d of None \<Rightarrow> None | Some i \<Rightarrow> get_row wv_id i (db_workflow_versions s))"

definition latest_version :: "db \<Rightarrow> nat \<Rightarrow> workflow_version option" where
  "latest_version s definition_id =
     (case rev (sort_key wv_version (filter (\<lambda>v. wv_definition_id v = definition_id) (db_workflow_versions s))) of
        [] \<Rightarrow> None | v # _ \<Rightarrow> Some v)"

definition json_text :: "json \<Rightarrow> string result" where
  "json_text v = (case v of JStr s \<Rightarrow> Inr s | _ \<Rightarrow> Inl (TypeError ''text column''))"

text \<open>The definition row of one specification, created when the tenant has none with this key.\<close>

definition definition_row :: "string \<Rightarrow> string \<Rightarrow> string \<Rightarrow> db \<Rightarrow> workflow_definition \<times> db" where
  "definition_row key name event s =
     (case find (\<lambda>d. wd_tenant_id d = tenant_context_id s \<and> wd_workflow_key d = key) (db_workflow_definitions s) of
        Some d \<Rightarrow> (d, s)
      | None \<Rightarrow>
          let d = \<lparr>wd_id = next_id wd_id (db_workflow_definitions s), wd_workflow_key = key, wd_name = name, wd_event_type = event,
                   wd_active = True, wd_published_version_id = None, wd_tenant_id = tenant_context_id s\<rparr>
          in (d, s\<lparr>db_workflow_definitions := db_workflow_definitions s @ [d]\<rparr>))"

definition save_definition :: "workflow_definition \<Rightarrow> db \<Rightarrow> db" where
  "save_definition d s = s\<lparr>db_workflow_definitions := put_row wd_id d (db_workflow_definitions s)\<rparr>"

definition canonical_object :: "(string \<times> json) list \<Rightarrow> (string \<times> json) list" where
  "canonical_object obj = (case canonical_json (JObj obj) of JObj xs \<Rightarrow> xs | _ \<Rightarrow> [])"

definition publish_version :: "nat \<Rightarrow> string \<Rightarrow> string \<Rightarrow> string \<Rightarrow> string \<Rightarrow> (string \<times> json) list \<Rightarrow> db \<Rightarrow> bool \<times> db" where
  "publish_version actor_id digest key name event specification s =
     (let (d, s) = definition_row key name event s;
          d = d\<lparr>wd_name := name, wd_event_type := event\<rparr>;
          latest = latest_version s (wd_id d);
          encoded = canonical_object specification;
          current = (case latest of None \<Rightarrow> None | Some v \<Rightarrow> if wv_package_hash v = digest \<and> wv_definition_json v = encoded then Some v else None)
      in case current of
           Some v \<Rightarrow> (False, save_definition (d\<lparr>wd_published_version_id := Some (wv_id v), wd_active := True\<rparr>) s)
         | None \<Rightarrow>
             let n = next_id wv_id (db_workflow_versions s);
                 v = \<lparr>wv_id = n, wv_definition_id = wd_id d, wv_version = (case latest of None \<Rightarrow> 1 | Some l \<Rightarrow> wv_version l + 1),
                      wv_state = ''Published'', wv_definition_json = encoded, wv_package_hash = digest, wv_created_by_id = actor_id,
                      wv_created_at = db_clock s, wv_published_at = Some (db_clock s), wv_tenant_id = tenant_context_id s\<rparr>;
                 s = s\<lparr>db_workflow_versions := db_workflow_versions s @ [v]\<rparr>;
                 s = (case latest of
                        None \<Rightarrow> s
                      | Some l \<Rightarrow> if wv_state l = ''Published''
                          then s\<lparr>db_workflow_versions := put_row wv_id (l\<lparr>wv_state := ''Superseded''\<rparr>) (db_workflow_versions s)\<rparr> else s)
             in (True, save_definition (d\<lparr>wd_published_version_id := Some n, wd_active := True\<rparr>) s))"

text \<open>One specification of the package: validate, expand, publish. \<open>None\<close> means the expansion does not return.\<close>

definition deploy_specification :: "nat \<Rightarrow> string \<Rightarrow> subflows \<Rightarrow> json \<Rightarrow> nat \<times> db \<Rightarrow> (nat \<times> db) result option" where
  "deploy_specification actor_id digest subflows v = (\<lambda>(deployed, s).
     (case validate_workflow v (map fst subflows) of
        Inl e \<Rightarrow> Some (Inl e)
      | Inr _ \<Rightarrow>
          (case v of
             JObj w \<Rightarrow>
               Option.bind (materialize_workflow w subflows) (\<lambda>r.
                 Some (bindE r (\<lambda>specification.
                   bindE (json_text (jget w ''key'')) (\<lambda>key. bindE (json_text (jget w ''name'')) (\<lambda>name. bindE (json_text (jget w ''event'')) (\<lambda>event.
                     let (published, s) = publish_version actor_id digest key name event specification s
                     in Inr (deployed + (if published then 1 else 0), s)))))))
           | _ \<Rightarrow> Some (Inl (TypeError ''indices must be integers'')))))"

fun deploy_all :: "nat \<Rightarrow> string \<Rightarrow> subflows \<Rightarrow> json list \<Rightarrow> nat \<times> db \<Rightarrow> (nat \<times> db) result option" where
  "deploy_all actor_id digest subflows [] st = Some (Inr st)"
| "deploy_all actor_id digest subflows (v # vs) st =
     Option.bind (deploy_specification actor_id digest subflows v st) (\<lambda>r.
       case r of Inl e \<Rightarrow> Some (Inl e) | Inr st \<Rightarrow> deploy_all actor_id digest subflows vs st)"

definition package_subflows :: "(string \<times> json) list \<Rightarrow> subflows" where
  "package_subflows package = (case map_of package ''subflows'' of Some (JObj xs) \<Rightarrow> xs | _ \<Rightarrow> [])"

definition deploy_workflow_package :: "nat \<Rightarrow> (string \<times> json) list \<Rightarrow> db \<Rightarrow> (nat \<times> db) result option" where
  "deploy_workflow_package actor_id package s =
     deploy_all actor_id (db_sha s (canonical_object package)) (package_subflows package)
       (subflow_actions (jget package ''workflows'')) (0, s)"

section \<open>Running actions\<close>

definition execute_workflow_action ::
    "(string \<times> json) list \<Rightarrow> workflow_job \<Rightarrow> (string \<times> json) list \<Rightarrow> db \<Rightarrow> ((string \<times> json) list \<times> db) result" where
  "execute_workflow_action action job context s =
     bindE (workflow_action_preview action context) (\<lambda>preview.
       case (if wj_target_type job = ''ticket'' then get_row tk_id (wj_target_id job) (db_tickets s) else None) of
         None \<Rightarrow> Inl (RuntimeError ''Workflow target is unavailable.'')
       | Some ticket \<Rightarrow>
           if tk_tenant_id ticket \<noteq> wj_tenant_id job then Inl (RuntimeError ''Workflow target is unavailable.'')
           else bindE (jitem action ''type'') (\<lambda>ty.
             if ty = JStr ''add_history'' then
               bindE (json_text (jget preview ''event'')) (\<lambda>event. bindE (json_text (jget preview ''details'')) (\<lambda>details.
                 Inr (preview, log_history ''ticket'' (tk_id ticket) event None None None details None s)))
             else if ty = JStr ''notify_requester'' then
               bindE (json_text (jget preview ''title'')) (\<lambda>title. bindE (json_text (jget preview ''body'')) (\<lambda>body.
                 Inr (preview, create_notification (tk_requester_id ticket) title body (wj_tenant_id job) (Some ''ticket'') (Some (tk_id ticket)) None [] s)))
             else if ty = JStr ''notify_team_manager'' then
               (case Option.bind (ticket_owning_group s ticket) g_manager_id of
                  None \<Rightarrow> Inl (RuntimeError ''Owning team manager is unavailable.'')
                | Some manager_id \<Rightarrow>
                    bindE (json_text (jget preview ''title'')) (\<lambda>title. bindE (json_text (jget preview ''body'')) (\<lambda>body.
                      Inr (preview, create_notification manager_id title body (wj_tenant_id job) (Some ''ticket'') (Some (tk_id ticket)) None [] s))))
             else Inr (preview, s)))"

text \<open>The specification of a version and its actions.\<close>

definition version_actions :: "workflow_version \<Rightarrow> json list" where
  "version_actions v = subflow_actions (jget (wv_definition_json v) ''actions'')"

definition simulate_workflows :: "string \<Rightarrow> (string \<times> json) list \<Rightarrow> nat \<Rightarrow> db \<Rightarrow> (string \<times> nat \<times> (string \<times> json) list list) list result" where
  "simulate_workflows event_type context tenant_id s =
     foldE (\<lambda>d matches.
       case published_version s d of
         None \<Rightarrow> Inr matches
       | Some version \<Rightarrow>
           if workflow_matches (wv_definition_json version) event_type context
           then bindE (foldE (\<lambda>v previews. bindE (as_object v) (\<lambda>action. bindE (workflow_action_preview action context) (\<lambda>p. Inr (previews @ [p]))))
                  (version_actions version) []) (\<lambda>previews. Inr (matches @ [(wd_workflow_key d, wv_version version, previews)]))
           else Inr matches)
       (filter (\<lambda>d. wd_tenant_id d = tenant_id \<and> wd_event_type d = event_type \<and> wd_active d) (db_workflow_definitions s)) []"

definition workflow_rate_limited :: "workflow_version \<Rightarrow> nat \<Rightarrow> db \<Rightarrow> bool result" where
  "workflow_rate_limited version tenant_id s =
     (let cutoff = db_clock s - 60000000;
          count = length (filter (\<lambda>e. we_version_id e = wv_id version \<and> we_tenant_id e = tenant_id \<and> we_started_at e \<ge> cutoff) (db_workflow_executions s))
      in case json_number (jget (wv_definition_json version) ''rate_limit_per_minute'') of
           None \<Rightarrow> Inl (TypeError ''rate_limit_per_minute'')
         | Some limit \<Rightarrow> Inr (int count \<ge> limit))"

section \<open>One execution\<close>

definition save_execution :: "workflow_execution \<Rightarrow> db \<Rightarrow> db" where
  "save_execution e s = s\<lparr>db_workflow_executions := put_row we_id e (db_workflow_executions s)\<rparr>"

definition save_step :: "workflow_step_execution \<Rightarrow> db \<Rightarrow> db" where
  "save_step w s = s\<lparr>db_workflow_steps := put_row ws_id w (db_workflow_steps s)\<rparr>"

definition save_job :: "workflow_job \<Rightarrow> db \<Rightarrow> db" where
  "save_job j s = s\<lparr>db_workflow_jobs := put_row wj_id j (db_workflow_jobs s)\<rparr>"

definition steps_of :: "db \<Rightarrow> nat \<Rightarrow> workflow_step_execution list" where
  "steps_of s execution_id = sort_key ws_action_index (filter (\<lambda>w. ws_execution_id w = execution_id) (db_workflow_steps s))"

definition find_step :: "db \<Rightarrow> nat \<Rightarrow> nat \<Rightarrow> workflow_step_execution option" where
  "find_step s execution_id index = find (\<lambda>w. ws_execution_id w = execution_id \<and> ws_action_index w = index) (db_workflow_steps s)"

text \<open>The step row of an action, created in state Running when there is none.\<close>

definition open_step :: "workflow_job \<Rightarrow> nat \<Rightarrow> nat \<Rightarrow> json \<Rightarrow> string \<Rightarrow> db \<Rightarrow> workflow_step_execution \<times> db" where
  "open_step job execution_id index v ty s =
     (case find_step s execution_id index of
        Some w \<Rightarrow> (w, s)
      | None \<Rightarrow>
          let w = \<lparr>ws_id = next_id ws_id (db_workflow_steps s), ws_execution_id = execution_id, ws_action_index = index, ws_action_type = ty,
                   ws_state = ''Running'', ws_input_json = canonical_json v, ws_output_json = JObj [], ws_error = None,
                   ws_started_at = db_clock s, ws_completed_at = None, ws_compensation_state = None, ws_tenant_id = wj_tenant_id job\<rparr>
          in (w, s\<lparr>db_workflow_steps := db_workflow_steps s @ [w]\<rparr>))"

definition finish_step :: "workflow_step_execution \<Rightarrow> (string \<times> json) list \<Rightarrow> db \<Rightarrow> db" where
  "finish_step w out s =
     save_step (w\<lparr>ws_output_json := canonical_json (JObj out), ws_state := ''Completed'', ws_completed_at := Some (db_clock s)\<rparr>) s"

text \<open>
  The loop over the actions of an execution, from the given index on. The result says whether the execution waits;
  the job is returned with its new state and time.
\<close>

fun run_actions ::
    "nat \<Rightarrow> json list \<Rightarrow> workflow_job \<Rightarrow> workflow_execution \<Rightarrow> json list \<Rightarrow> db \<Rightarrow> (bool \<times> workflow_job \<times> workflow_execution \<times> json list \<times> db) result" where
  "run_actions index [] job execution outputs s = Inr (False, job, execution, outputs, s)"
| "run_actions index (v # actions) job execution outputs s =
     (if (case find_step s (we_id execution) index of None \<Rightarrow> False | Some w \<Rightarrow> ws_state w = ''Completed'')
      then run_actions (Suc index) actions job (execution\<lparr>we_next_action_index := Suc index\<rparr>) outputs s
      else bindE (as_object v) (\<lambda>action. bindE (bindE (jitem action ''type'') json_text) (\<lambda>ty.
        case open_step job (we_id execution) index v ty s of (step, s) \<Rightarrow>
        if ty = ''wait'' then
          (case json_number (jget action ''minutes'') of
             None \<Rightarrow> Inl (TypeError ''minutes'')
           | Some minutes \<Rightarrow>
               let resume_at = db_clock s + minutes * 60000000;
                   out = [(''type'', JStr ''wait''), (''minutes'', jget action ''minutes''), (''resume_at'', JStr (isoformat resume_at))]
               in Inr (True, job\<lparr>wj_state := ''Waiting'', wj_available_at := resume_at\<rparr>,
                    execution\<lparr>we_next_action_index := Suc index, we_state := ''Waiting'', we_resume_at := Some resume_at\<rparr>,
                    outputs @ [JObj out], finish_step step out s))
        else bindE (execute_workflow_action action job (wj_context_json job) s) (\<lambda>(out, s).
          run_actions (Suc index) actions job (execution\<lparr>we_next_action_index := Suc index\<rparr>) (outputs @ [JObj out]) (finish_step step out s)))))"

definition find_execution :: "db \<Rightarrow> nat \<Rightarrow> nat \<Rightarrow> workflow_execution option" where
  "find_execution s job_id version_id = find (\<lambda>e. we_job_id e = job_id \<and> we_version_id e = version_id) (db_workflow_executions s)"

text \<open>The execution of a job under a version in state Running, created when there is none.\<close>

definition open_execution :: "workflow_job \<Rightarrow> workflow_version \<Rightarrow> db \<Rightarrow> workflow_execution \<times> db" where
  "open_execution job version s =
     (case find_execution s (wj_id job) (wv_id version) of
        Some e \<Rightarrow> (e\<lparr>we_state := ''Running'', we_resume_at := None\<rparr>, save_execution (e\<lparr>we_state := ''Running'', we_resume_at := None\<rparr>) s)
      | None \<Rightarrow>
          let e = \<lparr>we_id = next_id we_id (db_workflow_executions s), we_job_id = wj_id job, we_version_id = wv_id version,
                   we_correlation_id = wj_event_id job, we_state = ''Running'', we_input_json = wj_context_json job, we_output_json = [],
                   we_error = None, we_started_at = db_clock s, we_completed_at = None, we_next_action_index = 0, we_resume_at = None,
                   we_tenant_id = wj_tenant_id job\<rparr>
          in (e, s\<lparr>db_workflow_executions := db_workflow_executions s @ [e]\<rparr>))"

definition run_execution :: "workflow_job \<Rightarrow> workflow_version \<Rightarrow> db \<Rightarrow> (bool \<times> workflow_job \<times> db) result" where
  "run_execution job version s =
     (case open_execution job version s of (execution, s) \<Rightarrow>
      let outputs = map ws_output_json (filter (\<lambda>w. ws_state w = ''Completed'') (steps_of s (we_id execution)));
          start = we_next_action_index execution
      in bindE (run_actions start (drop start (version_actions version)) job execution outputs s) (\<lambda>(waiting, job, execution, outputs, s).
           let execution = execution\<lparr>we_output_json := map canonical_json outputs\<rparr> in
           Inr (waiting, job,
             save_execution (if waiting then execution
               else execution\<lparr>we_state := ''Completed'', we_resume_at := None, we_completed_at := Some (db_clock s)\<rparr>) s)))"

section \<open>One job\<close>

fun run_matches :: "workflow_job \<Rightarrow> string list \<Rightarrow> db \<Rightarrow> (workflow_job \<times> db) result" where
  "run_matches job [] s = Inr (job, s)"
| "run_matches job (key # keys) s =
     (case filter (\<lambda>d. wd_tenant_id d = wj_tenant_id job \<and> wd_workflow_key d = key) (db_workflow_definitions s) of
        [d] \<Rightarrow>
          (case published_version s d of
             None \<Rightarrow> Inl (AttributeError ''id'')
           | Some version \<Rightarrow>
               let existing = find_execution s (wj_id job) (wv_id version) in
               if (case existing of None \<Rightarrow> False | Some e \<Rightarrow> we_state e = ''Completed'') then run_matches job keys s
               else bindE (if existing = None then workflow_rate_limited version (wj_tenant_id job) s else Inr False) (\<lambda>limited.
                 if limited then Inr (job\<lparr>wj_state := ''Rate Limited'', wj_available_at := db_clock s + 60000000\<rparr>, s)
                 else bindE (run_execution job version s) (\<lambda>(waiting, job, s).
                   if waiting then Inr (job, s) else run_matches job keys s)))
      | _ \<Rightarrow> Inl (RuntimeError ''one''))"

definition attempt_job :: "workflow_job \<Rightarrow> db \<Rightarrow> db result" where
  "attempt_job job s =
     (let job = job\<lparr>wj_state := ''Running''\<rparr> in
      bindE (simulate_workflows (wj_event_type job) (wj_context_json job) (wj_tenant_id job) s) (\<lambda>matches.
      bindE (run_matches job (map fst matches) s) (\<lambda>(job, s).
        if wj_state job \<in> set [''Waiting'', ''Rate Limited''] then Inr (save_job job s)
        else Inr (save_job (job\<lparr>wj_state := ''Completed'', wj_completed_at := Some (db_clock s), wj_last_error := None\<rparr>) s))))"

fun error_text :: "error \<Rightarrow> string" where
  "error_text (Abort code m) = m"
| "error_text (ValueError m) = m"
| "error_text (KeyError m) = char_of (39::nat) # m @ [char_of (39::nat)]"
| "error_text (TypeError m) = m"
| "error_text (WorkflowConfigurationError m) = m"
| "error_text (ApprovalRouteError m) = m"
| "error_text (BusinessCalendarError m) = m"
| "error_text (AttributeError m) = m"
| "error_text (RuntimeError m) = m"
| "error_text (OverflowError m) = m"
| "error_text (QueryError m n) = m"
| "error_text OutOfFuel = []"

definition compensate_step :: "workflow_job \<Rightarrow> json list \<Rightarrow> workflow_step_execution \<Rightarrow> db \<Rightarrow> db result" where
  "compensate_step job actions step s =
     (if length actions \<le> ws_action_index step then Inl (RuntimeError ''list index out of range'')
      else bindE (as_object (actions ! ws_action_index step)) (\<lambda>action.
        if ws_state step \<noteq> ''Completed'' \<or> \<not> json_true (jget action ''compensate'') \<or> ws_compensation_state step = Some ''Completed'' then Inr s
        else (case bindE (as_object (jget action ''compensate'')) (\<lambda>c. execute_workflow_action c job (wj_context_json job) s) of
            Inr (out, s) \<Rightarrow> Inr (save_step (step\<lparr>ws_compensation_state := Some ''Completed''\<rparr>) s)
          | Inl e \<Rightarrow> Inr (save_step (step\<lparr>ws_compensation_state := Some ''Failed'',
              ws_error := Some (strip (opt [] (ws_error step) @ [char_of (10::nat)] @ ''Compensation: '' @ error_text e))\<rparr>) s))))"

definition compensate_workflow_execution :: "workflow_execution \<Rightarrow> workflow_job \<Rightarrow> db \<Rightarrow> db result" where
  "compensate_workflow_execution execution job s =
     (case get_row wv_id (we_version_id execution) (db_workflow_versions s) of
        None \<Rightarrow> Inl (AttributeError ''specification'')
      | Some version \<Rightarrow> foldE (compensate_step job (version_actions version)) (rev (steps_of s (we_id execution))) s)"

definition last_execution :: "db \<Rightarrow> nat \<Rightarrow> workflow_execution option" where
  "last_execution s job_id =
     (case rev (sort_key we_id (filter (\<lambda>e. we_job_id e = job_id) (db_workflow_executions s))) of [] \<Rightarrow> None | e # _ \<Rightarrow> Some e)"

text \<open>The exception handler, on the database as it was before the job.\<close>

definition job_failed :: "error \<Rightarrow> workflow_job \<Rightarrow> db \<Rightarrow> db result" where
  "job_failed err job s =
     (let text = take 2000 (error_text err);
          execution = map_option (\<lambda>e. e\<lparr>we_state := ''Retry'', we_error := Some text\<rparr>) (last_execution s (wj_id job));
          attempts = wj_attempts job + 1;
          job = job\<lparr>wj_attempts := attempts, wj_last_error := Some text\<rparr>
      in if attempts \<ge> 5 then
           let job = job\<lparr>wj_state := ''Dead''\<rparr>; s = save_job job s in
           (case execution of
              None \<Rightarrow> Inr s
            | Some e \<Rightarrow>
                let e = e\<lparr>we_state := ''Failed'', we_completed_at := Some (db_clock s)\<rparr>
                in compensate_workflow_execution e job (save_execution e s))
         else
           let s = save_job (job\<lparr>wj_state := ''Retry'', wj_available_at := db_clock s + min 300 (2 ^ attempts) * 1000000\<rparr>) s
           in Inr (case execution of None \<Rightarrow> s | Some e \<Rightarrow> save_execution e s))"

definition process_workflow_job :: "workflow_job \<Rightarrow> db \<Rightarrow> db result" where
  "process_workflow_job job s = (case attempt_job job s of Inr s' \<Rightarrow> Inr s' | Inl e \<Rightarrow> job_failed e job s)"

definition due_jobs :: "nat \<Rightarrow> db \<Rightarrow> workflow_job list" where
  "due_jobs limit s =
     take limit (sort_key wj_id (filter (\<lambda>j. wj_state j \<in> set [''Pending'', ''Retry'', ''Waiting'', ''Rate Limited''] \<and> wj_available_at j \<le> db_clock s)
       (db_workflow_jobs s)))"

definition process_workflow_jobs :: "nat \<Rightarrow> db \<Rightarrow> (nat \<times> db) result" where
  "process_workflow_jobs limit s =
     bindE (foldE process_workflow_job (due_jobs limit s) s) (\<lambda>s'. Inr (length (due_jobs limit s), s'))"

section \<open>Schedules\<close>

text \<open>The loop that moves a schedule past the current time; \<open>None\<close> means that it does not end.\<close>

partial_function (option) advance_run :: "int \<Rightarrow> datetime \<Rightarrow> datetime \<Rightarrow> datetime option" where
  "advance_run interval current next_run =
     (if next_run \<le> current then advance_run interval current (next_run + interval) else Some next_run)"

declare advance_run.simps [code]

definition run_schedule :: "workflow_schedule \<Rightarrow> db \<Rightarrow> (workflow_schedule \<times> db) option" where
  "run_schedule schedule s =
     (case get_row tk_id (wsc_ticket_id schedule) (db_tickets s) of
        None \<Rightarrow> Some (schedule\<lparr>wsc_active := False\<rparr>, s)
      | Some ticket \<Rightarrow>
          if tk_tenant_id ticket \<noteq> wsc_tenant_id schedule then Some (schedule\<lparr>wsc_active := False\<rparr>, s)
          else let context = ticket_workflow_context ticket None
                 @ [(''schedule_key'', JStr (wsc_schedule_key schedule)), (''scheduled_for'', JStr (isoformat (wsc_next_run_at schedule)))];
               s = queue_workflow_event ''ticket.scheduled'' ''ticket'' (tk_id ticket) context (wsc_tenant_id schedule) s
          in map_option (\<lambda>next_run. (schedule\<lparr>wsc_last_run_at := Some (db_clock s), wsc_next_run_at := next_run\<rparr>, s))
               (advance_run (int (wsc_interval_minutes schedule) * 60000000) (db_clock s) (wsc_next_run_at schedule)))"

fun run_schedules :: "workflow_schedule list \<Rightarrow> workflow_schedule list \<Rightarrow> db \<Rightarrow> (workflow_schedule list \<times> db) option" where
  "run_schedules [] rows s = Some (rows, s)"
| "run_schedules (schedule # schedules) rows s =
     Option.bind (run_schedule schedule s) (\<lambda>(schedule, s). run_schedules schedules (put_row wsc_id schedule rows) s)"

definition process_workflow_schedules :: "nat \<Rightarrow> workflow_schedule list \<Rightarrow> db \<Rightarrow> (nat \<times> workflow_schedule list \<times> db) option" where
  "process_workflow_schedules limit rows s =
     (let schedules = take limit (sort_key wsc_next_run_at (filter (\<lambda>r. wsc_active r \<and> wsc_next_run_at r \<le> db_clock s) rows))
      in map_option (\<lambda>(rows, s). (length schedules, rows, s)) (run_schedules schedules rows s))"

lemma advance_run_ends:
  assumes "0 < interval"
  shows "\<exists>k r. advance_run interval current next_run = Some r \<and> current < r \<and> r = next_run + int k * interval \<and> (k = 0 \<or> r - interval \<le> current)"
proof (induction "nat (current - next_run + 1)" arbitrary: next_run rule: less_induct)
  case less
  show ?case
  proof (cases "next_run \<le> current")
    case True
    have "nat (current - (next_run + interval) + 1) < nat (current - next_run + 1)" using True assms by simp
    from less [OF this] obtain k r where "advance_run interval current (next_run + interval) = Some r" "current < r"
        "r = next_run + interval + int k * interval" "k = 0 \<or> r - interval \<le> current" by blast
    then show ?thesis using True
      by (intro exI [of _ "Suc k"] exI [of _ r]) (auto simp: advance_run.simps [of interval current next_run] algebra_simps)
  next
    case False
    then show ?thesis by (intro exI [of _ 0] exI [of _ next_run]) (simp add: advance_run.simps)
  qed
qed

section \<open>What an action may change\<close>

definition step_frame :: "db \<Rightarrow> db \<Rightarrow> bool" where
  "step_frame s s' \<longleftrightarrow> db_workflow_jobs s' = db_workflow_jobs s
     \<and> db_core (s'\<lparr>db_workflow_steps := [], db_workflow_executions := []\<rparr>) = db_core (s\<lparr>db_workflow_steps := [], db_workflow_executions := []\<rparr>)"

lemma step_frame_refl [simp]: "step_frame s s"
  by (simp add: step_frame_def)

lemma step_frame_trans [trans]: "step_frame s s' \<Longrightarrow> step_frame s' s'' \<Longrightarrow> step_frame s s''"
  by (simp add: step_frame_def)

lemma step_frame_tables:
  assumes "step_frame s s'"
  shows "db_workflow_jobs s' = db_workflow_jobs s" "db_workflow_versions s' = db_workflow_versions s"
    "db_workflow_definitions s' = db_workflow_definitions s" "db_clock s' = db_clock s" "db_tickets s' = db_tickets s"
  using assms by (simp_all add: step_frame_def db_core_eq_iff)

lemma step_frame_updates [simp]:
  "step_frame s (s'\<lparr>db_workflow_steps := xs\<rparr>) \<longleftrightarrow> step_frame s s'"
  "step_frame s (s'\<lparr>db_workflow_executions := es\<rparr>) \<longleftrightarrow> step_frame s s'"
  by (simp_all add: step_frame_def db_core_def)

lemma queue_jobs [simp]:
  "db_workflow_jobs (log_history a b c d e f g h s) = db_workflow_jobs s"
  "db_workflow_jobs (create_notification i j k l m n p q s) = db_workflow_jobs s"
  by (simp_all add: log_history_def create_notification_def add_outbox_def Let_def)

lemma log_frame [simp]:
  "step_frame s (log_history a b c d e f g h s)"
  "step_frame s (create_notification i j k l m n p q s)"
  by (simp_all add: step_frame_def log_history_def create_notification_def add_outbox_def Let_def db_core_def)

lemma execute_frame:
  assumes "execute_workflow_action action job context s = Inr (out, s')"
  shows "step_frame s s' \<and> db_workflow_steps s' = db_workflow_steps s \<and> db_workflow_executions s' = db_workflow_executions s"
  using assms by (auto simp: execute_workflow_action_def elim!: bindE_InrE split: option.splits if_splits)

section \<open>Executed steps are the first actions, each once\<close>

definition json_type :: "json \<Rightarrow> json" where
  "json_type v = (case v of JObj a \<Rightarrow> action_type a | _ \<Rightarrow> JNull)"

lemma put_appended: "key w \<notin> key ` set rows \<Longrightarrow> key w' = key w \<Longrightarrow> put_row key w' (rows @ [w]) = rows @ [w']"
  by (induction rows) (auto simp: put_row_def)

text \<open>One action that has no step yet appends one completed step.\<close>

lemma step_appended:
  assumes "find_step s i index = None" and "open_step job i index v ty s = (w, s1)" and "db_workflow_steps s2 = db_workflow_steps s1"
  shows "\<exists>w'. db_workflow_steps (finish_step w out s2) = db_workflow_steps s @ [w'] \<and> ws_execution_id w' = i \<and> ws_action_index w' = index
    \<and> ws_action_type w' = ty \<and> ws_state w' = ''Completed'' \<and> ws_id w' \<notin> ws_id ` set (db_workflow_steps s)"
    and "step_frame s s1" and "db_workflow_executions s1 = db_workflow_executions s"
  using assms next_id_unused [of ws_id "db_workflow_steps s"]
  by (auto simp: open_step_def finish_step_def save_step_def Let_def put_appended)

lemma finish_frame [simp]:
  "step_frame s (finish_step w out s') \<longleftrightarrow> step_frame s s'"
  "db_workflow_executions (finish_step w out s') = db_workflow_executions s'"
  by (simp_all add: finish_step_def save_step_def)

text \<open>The steps a run of actions leaves behind.\<close>

definition ran :: "nat \<Rightarrow> nat \<Rightarrow> json list \<Rightarrow> workflow_step_execution list \<Rightarrow> workflow_step_execution list \<Rightarrow> bool" where
  "ran i index actions old new \<longleftrightarrow>
     map ws_action_index new = [index..<index + length new] \<and> length new \<le> length actions
     \<and> list_all (\<lambda>w. ws_execution_id w = i \<and> ws_state w = ''Completed'') new
     \<and> map (JStr \<circ> ws_action_type) new = map json_type (take (length new) actions)
     \<and> distinct (map ws_id new) \<and> set (map ws_id new) \<inter> set (map ws_id old) = {}"

lemma ran_Nil [simp]: "ran i index actions old []"
  by (simp add: ran_def)

lemma ran_Cons:
  assumes "ran i (Suc index) actions (old @ [w]) new" and "ws_execution_id w = i" and "ws_action_index w = index" and "ws_state w = ''Completed''"
    and "JStr (ws_action_type w) = json_type v" and "ws_id w \<notin> ws_id ` set old"
  shows "ran i index (v # actions) old (w # new)"
proof -
  have "index # [Suc index..<Suc index + length new] = [index..<index + length (w # new)]" by (simp add: upt_conv_Cons del: upt_Suc)
  then show ?thesis using assms by (auto simp: ran_def simp del: upt_Suc)
qed

definition run_effect ::
    "bool \<Rightarrow> nat \<Rightarrow> json list \<Rightarrow> workflow_job \<Rightarrow> workflow_execution \<Rightarrow> db \<Rightarrow> workflow_job \<Rightarrow> workflow_execution \<Rightarrow> db
      \<Rightarrow> workflow_step_execution list \<Rightarrow> bool" where
  "run_effect waiting index actions job e s job' e' s' new \<longleftrightarrow>
     db_workflow_steps s' = db_workflow_steps s @ new \<and> ran (we_id e) index actions (db_workflow_steps s) new
     \<and> (waiting \<or> length new = length actions) \<and> step_frame s s' \<and> db_workflow_executions s' = db_workflow_executions s
     \<and> (if waiting then wj_state job' = ''Waiting'' \<and> db_clock s < wj_available_at job' \<and> wj_id job' = wj_id job else job' = job)
     \<and> we_id e' = we_id e \<and> we_job_id e' = we_job_id e \<and> we_version_id e' = we_version_id e
     \<and> we_next_action_index e' = index + length new \<and> we_state e' = (if waiting then ''Waiting'' else we_state e)"

lemma run_effect_Cons:
  assumes "run_effect waiting (Suc index) actions job (e\<lparr>we_next_action_index := Suc index\<rparr>) s1 job' e' s' new"
    and "db_workflow_steps s1 = db_workflow_steps s @ [w]" and "step_frame s s1" and "db_workflow_executions s1 = db_workflow_executions s"
    and "ws_execution_id w = we_id e" and "ws_action_index w = index" and "ws_state w = ''Completed''"
    and "JStr (ws_action_type w) = json_type v" and "ws_id w \<notin> ws_id ` set (db_workflow_steps s)"
  shows "run_effect waiting index (v # actions) job e s job' e' s' (w # new)"
proof -
  have "ran (we_id e) index (v # actions) (db_workflow_steps s) (w # new)"
    using assms by (intro ran_Cons) (auto simp: run_effect_def)
  moreover have "step_frame s s'" using assms(1,3) step_frame_trans by (auto simp: run_effect_def)
  ultimately show ?thesis using assms(1,2,4) step_frame_tables(4) [OF assms(3)] by (auto simp: run_effect_def)
qed

lemma run_actions_spec:
  assumes "run_actions index actions job e outs s = Inr (waiting, job', e', outs', s')"
    and "\<forall>w \<in> set (db_workflow_steps s). ws_execution_id w = we_id e \<longrightarrow> ws_action_index w < index"
    and "we_next_action_index e = index" and "list_all (action_ok []) actions"
  shows "\<exists>new. run_effect waiting index actions job e s job' e' s' new"
  using assms
proof (induction actions arbitrary: index e outs s)
  case Nil
  then show ?case by (auto simp: run_effect_def)
next
  case (Cons v actions)
  have none: "find_step s (we_id e) index = None" using Cons.prems(2) by (auto simp: find_step_def find_None_iff)
  have ok: "action_ok [] v" using Cons.prems(4) by simp
  obtain action ty where a: "v = JObj action" "jitem action ''type'' = Inr (JStr ty)" "action_type action = JStr ty"
    by (rule action_ok_type [OF ok])
  have ty: "JStr ty = json_type v" by (simp add: json_type_def a)
  obtain w s1 where w: "open_step job (we_id e) index v ty s = (w, s1)" by (cases "open_step job (we_id e) index v ty s")
  note app = step_appended [OF none w]
  have one: "step_frame s s1" "db_workflow_executions s1 = db_workflow_executions s" using app(2,3) by auto
  note run = Cons.prems(1) [unfolded run_actions.simps none, simplified, unfolded a(1) as_object.simps bindE_simps a(2) json_text_def json.case,
      folded a(1), unfolded w prod.case]
  show ?case
  proof (cases "ty = ''wait''")
    case True
    obtain minutes where m: "json_number (jget action ''minutes'') = Some minutes" "1 \<le> minutes"
      using ok True a(3) by (auto simp: action_ok_def validate_action_def a(1) bindE_Inr_iff split: option.splits)
    obtain out where s': "s' = finish_step w out s1" and job': "job' = job\<lparr>wj_state := ''Waiting'', wj_available_at := db_clock s1 + minutes * 60000000\<rparr>"
      and e': "e' = e\<lparr>we_next_action_index := Suc index, we_state := ''Waiting'', we_resume_at := Some (db_clock s1 + minutes * 60000000)\<rparr>" and "waiting"
      using run by (auto simp: True m Let_def)
    obtain w' where w': "db_workflow_steps s' = db_workflow_steps s @ [w']" "ws_execution_id w' = we_id e" "ws_action_index w' = index"
        "ws_action_type w' = ty" "ws_state w' = ''Completed''" "ws_id w' \<notin> ws_id ` set (db_workflow_steps s)"
      using app(1) [OF refl, of out] s' by auto
    have "run_effect True (Suc index) actions job (e\<lparr>we_next_action_index := Suc index\<rparr>) s' job' e' s' []"
      using m step_frame_tables(4) [OF one(1)] by (auto simp: run_effect_def job' e' s' finish_step_def save_step_def)
    then have "run_effect True index (v # actions) job e s job' e' s' [w']"
      by (rule run_effect_Cons [OF _ w'(1) _ _ w'(2,3,5)]) (use one w' ty s' in auto)
    then show ?thesis using \<open>waiting\<close> by auto
  next
    case False
    obtain out s2 where ex: "execute_workflow_action action job (wj_context_json job) s1 = Inr (out, s2)"
      and rest: "run_actions (Suc index) actions job (e\<lparr>we_next_action_index := Suc index\<rparr>) (outs @ [JObj out]) (finish_step w out s2)
        = Inr (waiting, job', e', outs', s')"
      using run False by (auto simp: bindE_Inr_iff)
    note frame = execute_frame [OF ex]
    obtain w' where w': "db_workflow_steps (finish_step w out s2) = db_workflow_steps s @ [w']" "ws_execution_id w' = we_id e" "ws_action_index w' = index"
        "ws_action_type w' = ty" "ws_state w' = ''Completed''" "ws_id w' \<notin> ws_id ` set (db_workflow_steps s)"
      using app(1) [of s2 out] frame by blast
    have "\<exists>new. run_effect waiting (Suc index) actions job (e\<lparr>we_next_action_index := Suc index\<rparr>) (finish_step w out s2) job' e' s' new"
      by (rule Cons.IH [OF rest]) (use Cons.prems w' in auto)
    then obtain new where "run_effect waiting (Suc index) actions job (e\<lparr>we_next_action_index := Suc index\<rparr>) (finish_step w out s2) job' e' s' new" ..
    then have "run_effect waiting index (v # actions) job e s job' e' s' (w' # new)"
      by (rule run_effect_Cons [OF _ w'(1) _ _ w'(2,3,5)]) (use one frame w' ty step_frame_trans [of s s1 s2] in auto)
    then show ?thesis by blast
  qed
qed

section \<open>The engine keeps its books\<close>

definition version_ok :: "workflow_version \<Rightarrow> bool" where
  "version_ok v \<longleftrightarrow> list_all (action_ok []) (version_actions v) \<and> json_number (jget (wv_definition_json v) ''rate_limit_per_minute'') \<noteq> None"

definition own_steps :: "workflow_step_execution list \<Rightarrow> nat \<Rightarrow> workflow_step_execution list" where
  "own_steps rows i = filter (\<lambda>w. ws_execution_id w = i) rows"

text \<open>
  The committed steps of an execution are exactly the first \<open>we_next_action_index\<close> actions of its version, in
  order, each once and completed; a completed execution has run all of them.
\<close>

definition execution_ok :: "workflow_version list \<Rightarrow> workflow_step_execution list \<Rightarrow> workflow_execution \<Rightarrow> bool" where
  "execution_ok versions rows e \<longleftrightarrow>
     (case get_row wv_id (we_version_id e) versions of
        None \<Rightarrow> False
      | Some v \<Rightarrow>
          map ws_action_index (own_steps rows (we_id e)) = [0..<we_next_action_index e]
          \<and> list_all (\<lambda>w. ws_state w = ''Completed'') (own_steps rows (we_id e))
          \<and> map (JStr \<circ> ws_action_type) (own_steps rows (we_id e)) = map json_type (take (we_next_action_index e) (version_actions v))
          \<and> we_next_action_index e \<le> length (version_actions v)
          \<and> (we_state e = ''Completed'' \<longrightarrow> we_next_action_index e = length (version_actions v)))"

definition engine_ok :: "db \<Rightarrow> bool" where
  "engine_ok s \<longleftrightarrow>
     list_all version_ok (db_workflow_versions s) \<and> distinct (map wv_id (db_workflow_versions s)) \<and> distinct (map we_id (db_workflow_executions s)) \<and> distinct (map ws_id (db_workflow_steps s))
     \<and> distinct (map (\<lambda>e. (we_job_id e, we_version_id e)) (db_workflow_executions s))
     \<and> list_all (\<lambda>w. ws_execution_id w \<in> set (map we_id (db_workflow_executions s))) (db_workflow_steps s)
     \<and> list_all (execution_ok (db_workflow_versions s) (db_workflow_steps s)) (db_workflow_executions s)"

text \<open>Executions survive, and never go back.\<close>

definition progressed :: "db \<Rightarrow> db \<Rightarrow> bool" where
  "progressed s s' \<longleftrightarrow> list_all (\<lambda>e. list_ex (\<lambda>e'. we_id e' = we_id e \<and> we_job_id e' = we_job_id e \<and> we_version_id e' = we_version_id e
     \<and> we_next_action_index e \<le> we_next_action_index e') (db_workflow_executions s')) (db_workflow_executions s)"

lemma progressed_refl [simp]: "progressed s s"
  by (auto simp: progressed_def list_all_iff list_ex_iff)

lemma progressed_same: "db_workflow_executions s' = db_workflow_executions s \<Longrightarrow> progressed s s'"
  by (auto simp: progressed_def list_all_iff list_ex_iff)

lemma progressed_trans: "progressed s s' \<Longrightarrow> progressed s' s'' \<Longrightarrow> progressed s s''"
  unfolding progressed_def list_all_iff list_ex_iff by (metis order_trans)

lemma own_steps_append: "own_steps (xs @ ys) i = own_steps xs i @ own_steps ys i"
  by (simp add: own_steps_def)

lemma ran_own:
  assumes "ran i index actions old new"
  shows "own_steps new j = (if j = i then new else [])"
  using assms by (auto simp: ran_def own_steps_def list_all_iff filter_empty_conv intro: filter_True)

text \<open>Continuing an execution with the steps of a run keeps it well formed.\<close>

lemma execution_continued:
  assumes ok: "execution_ok versions rows e" and v: "get_row wv_id (we_version_id e) versions = Some v"
    and ran: "ran (we_id e) (we_next_action_index e) (drop (we_next_action_index e) (version_actions v)) rows new"
    and e': "we_id e' = we_id e" "we_version_id e' = we_version_id e" "we_next_action_index e' = we_next_action_index e + length new"
    and fin: "we_state e' = ''Completed'' \<Longrightarrow> length new = length (drop (we_next_action_index e) (version_actions v))"
  shows "execution_ok versions (rows @ new) e'"
proof -
  let ?n = "we_next_action_index e" and ?as = "version_actions v"
  have own: "own_steps (rows @ new) (we_id e) = own_steps rows (we_id e) @ new" using ran_own [OF ran, of "we_id e"] by (simp add: own_steps_append)
  have r: "map ws_action_index new = [?n..<?n + length new]" "length new \<le> length (drop ?n ?as)" "list_all (\<lambda>w. ws_state w = ''Completed'') new"
      "map (JStr \<circ> ws_action_type) new = map json_type (take (length new) (drop ?n ?as))"
    using ran by (auto simp: ran_def list_all_iff)
  have old: "map ws_action_index (own_steps rows (we_id e)) = [0..<?n]" "list_all (\<lambda>w. ws_state w = ''Completed'') (own_steps rows (we_id e))"
      "map (JStr \<circ> ws_action_type) (own_steps rows (we_id e)) = map json_type (take ?n ?as)" "?n \<le> length ?as"
    using ok v by (auto simp: execution_ok_def)
  have "map ws_action_index (own_steps rows (we_id e) @ new) = [0..<?n + length new]"
    unfolding map_append old(1) r(1) by (simp only: upt_add_eq_append [OF zero_le])
  moreover have "map (JStr \<circ> ws_action_type) (own_steps rows (we_id e) @ new) = map json_type (take (?n + length new) ?as)"
    unfolding map_append old(3) r(4) take_add by simp
  ultimately show ?thesis
    using v old r(2,3) e' fin by (simp add: execution_ok_def own)
qed

lemma execution_untouched:
  assumes "execution_ok versions rows e" and "ran i index actions rows new" and "we_id e \<noteq> i"
  shows "execution_ok versions (rows @ new) e"
  using assms ran_own [OF assms(2)] by (simp add: execution_ok_def own_steps_append split: option.splits)

lemma version_ok_row: "engine_ok s \<Longrightarrow> get_row wv_id i (db_workflow_versions s) = Some v \<Longrightarrow> version_ok v"
  by (auto simp: engine_ok_def list_all_iff dest: get_row_key)

lemma execution_ok_state:
  assumes "execution_ok versions rows e" and "we_id e' = we_id e" and "we_version_id e' = we_version_id e"
    and "we_next_action_index e' = we_next_action_index e" and "we_state e' \<noteq> ''Completed''"
  shows "execution_ok versions rows e'"
  using assms by (simp add: execution_ok_def split: option.splits)

lemma put_row_at:
  assumes "distinct (map key xs)" and "x \<in> set xs" and "key r = key x"
  shows "\<exists>as bs. xs = as @ x # bs \<and> put_row key r xs = as @ r # bs"
  using assms
proof (induction xs)
  case (Cons a xs)
  show ?case
  proof (cases "a = x")
    case True
    then have "put_row key r xs = xs" using Cons.prems by (auto simp: put_row_def image_iff intro!: map_idI)
    then show ?thesis using True Cons.prems by (intro exI [of _ "[]"] exI [of _ xs]) (simp add: put_row_def)
  next
    case False
    then obtain as bs where "xs = as @ x # bs" "put_row key r xs = as @ r # bs" using Cons by auto
    moreover have "key a \<noteq> key r" using Cons.prems False by (auto simp: image_iff)
    ultimately show ?thesis by (intro exI [of _ "a # as"] exI [of _ bs]) (simp add: put_row_def)
  qed
qed simp

text \<open>Writing one execution back.\<close>

lemma engine_ok_save:
  assumes ok: "engine_ok s" and e0: "e0 \<in> set (db_workflow_executions s)"
    and e: "we_id e = we_id e0" "we_job_id e = we_job_id e0" "we_version_id e = we_version_id e0"
    and good: "execution_ok (db_workflow_versions s) (db_workflow_steps s) e0 \<Longrightarrow> execution_ok (db_workflow_versions s) (db_workflow_steps s) e"
    and forward: "we_next_action_index e0 \<le> we_next_action_index e"
  shows "engine_ok (save_execution e s) \<and> e \<in> set (db_workflow_executions (save_execution e s)) \<and> step_frame s (save_execution e s)
    \<and> progressed s (save_execution e s)"
proof -
  obtain as bs where xs: "db_workflow_executions s = as @ e0 # bs" "put_row we_id e (db_workflow_executions s) = as @ e # bs"
    using put_row_at [of we_id "db_workflow_executions s" e0 e] ok e0 e(1) by (auto simp: engine_ok_def)
  note put = xs(2) [unfolded xs(1)]
  show ?thesis
    using ok good e forward by (auto simp: save_execution_def engine_ok_def xs(1) put list_all_iff progressed_def list_ex_iff)
qed

lemma open_execution_ok:
  assumes ok: "engine_ok s" and v: "get_row wv_id (wv_id version) (db_workflow_versions s) = Some version"
    and op: "open_execution job version s = (e, s1)"
    and unfinished: "find_execution s (wj_id job) (wv_id version) = Some e0 \<Longrightarrow> we_state e0 \<noteq> ''Completed''"
  shows "engine_ok s1" and "e \<in> set (db_workflow_executions s1)" and "we_state e = ''Running''" and "we_version_id e = wv_id version"
    and "we_job_id e = wj_id job" and "step_frame s s1" and "progressed s s1"
proof -
  have "engine_ok s1 \<and> e \<in> set (db_workflow_executions s1) \<and> we_state e = ''Running'' \<and> we_version_id e = wv_id version
    \<and> we_job_id e = wj_id job \<and> step_frame s s1 \<and> progressed s s1"
  proof (cases "find_execution s (wj_id job) (wv_id version)")
    case None
    have new: "e = \<lparr>we_id = next_id we_id (db_workflow_executions s), we_job_id = wj_id job, we_version_id = wv_id version,
                   we_correlation_id = wj_event_id job, we_state = ''Running'', we_input_json = wj_context_json job, we_output_json = [],
                   we_error = None, we_started_at = db_clock s, we_completed_at = None, we_next_action_index = 0, we_resume_at = None,
                   we_tenant_id = wj_tenant_id job\<rparr>" and s1: "s1 = s\<lparr>db_workflow_executions := db_workflow_executions s @ [e]\<rparr>"
      using op None by (auto simp: open_execution_def Let_def)
    have fresh: "we_id e \<notin> we_id ` set (db_workflow_executions s)" using next_id_unused by (simp add: new)
    then have "ws_execution_id w \<noteq> we_id e" if "w \<in> set (db_workflow_steps s)" for w
      using ok that unfolding engine_ok_def list_all_iff set_map by metis
    then have "own_steps (db_workflow_steps s) (we_id e) = []" by (simp add: own_steps_def filter_empty_conv)
    then have "execution_ok (db_workflow_versions s) (db_workflow_steps s) e" using v by (simp add: execution_ok_def new)
    moreover have "(wj_id job, wv_id version) \<notin> (\<lambda>e. (we_job_id e, we_version_id e)) ` set (db_workflow_executions s)"
      using None by (auto simp: find_execution_def find_None_iff)
    ultimately show ?thesis using ok fresh by (auto simp: s1 engine_ok_def list_all_iff new progressed_def list_ex_iff)
  next
    case (Some e0)
    then have e0: "e0 \<in> set (db_workflow_executions s)" "we_job_id e0 = wj_id job" "we_version_id e0 = wv_id version"
      by (auto simp: find_execution_def find_Some_iff)
    have e: "e = e0\<lparr>we_state := ''Running'', we_resume_at := None\<rparr>" and s1: "s1 = save_execution e s"
      using op Some by (auto simp: open_execution_def)
    have "engine_ok (save_execution e s) \<and> e \<in> set (db_workflow_executions (save_execution e s)) \<and> step_frame s (save_execution e s)
        \<and> progressed s (save_execution e s)"
      by (rule engine_ok_save [OF ok e0(1)]) (auto intro: execution_ok_state simp: e)
    then show ?thesis using e0 by (simp add: s1 e)
  qed
  then show "engine_ok s1" "e \<in> set (db_workflow_executions s1)" "we_state e = ''Running''" "we_version_id e = wv_id version"
    "we_job_id e = wj_id job" "step_frame s s1" "progressed s s1" by auto
qed

text \<open>The steps of a run and the execution they belong to, written together.\<close>

lemma engine_ok_run:
  assumes ok: "engine_ok s" and e: "e \<in> set (db_workflow_executions s)"
    and s1: "db_workflow_steps s1 = db_workflow_steps s @ new" "db_workflow_executions s1 = db_workflow_executions s" "step_frame s s1"
    and ran: "ran (we_id e) index actions (db_workflow_steps s) new"
    and e': "we_id e' = we_id e" "we_job_id e' = we_job_id e" "we_version_id e' = we_version_id e" "we_next_action_index e \<le> we_next_action_index e'"
    and good: "execution_ok (db_workflow_versions s) (db_workflow_steps s @ new) e'"
  shows "engine_ok (save_execution e' s1) \<and> step_frame s (save_execution e' s1) \<and> progressed s (save_execution e' s1)"
proof -
  obtain as bs where xs: "db_workflow_executions s = as @ e # bs" "put_row we_id e' (db_workflow_executions s) = as @ e' # bs"
    using put_row_at [of we_id "db_workflow_executions s" e e'] ok e e'(1) by (auto simp: engine_ok_def)
  note put = xs(2) [unfolded xs(1)]
  have "we_id x \<noteq> we_id e" if "x \<in> set as \<union> set bs" for x using ok that by (auto simp: engine_ok_def xs(1) image_iff)
  then have others: "list_all (execution_ok (db_workflow_versions s) (db_workflow_steps s @ new)) (as @ bs)"
    using ok execution_untouched [OF _ ran] by (auto simp: engine_ok_def xs(1) list_all_iff)
  have new: "list_all (\<lambda>w. ws_execution_id w = we_id e) new" "distinct (map ws_id (db_workflow_steps s @ new))"
    using ran ok by (auto simp: ran_def list_all_iff engine_ok_def)
  have "engine_ok (save_execution e' s1)"
    using ok others new good e' step_frame_tables(2) [OF s1(3)]
    by (auto simp: save_execution_def engine_ok_def xs(1) put s1(1,2) list_all_iff)
  moreover have "progressed s (save_execution e' s1)"
    using e' by (auto simp: progressed_def save_execution_def s1(2) xs(1) put list_all_iff list_ex_iff)
  moreover have "step_frame s (save_execution e' s1)" using s1(3) by (simp add: save_execution_def)
  ultimately show ?thesis by blast
qed

lemma run_execution_ok:
  assumes ok: "engine_ok s" and v: "get_row wv_id (wv_id version) (db_workflow_versions s) = Some version"
    and unfinished: "\<And>e0. find_execution s (wj_id job) (wv_id version) = Some e0 \<Longrightarrow> we_state e0 \<noteq> ''Completed''"
    and run: "run_execution job version s = Inr (waiting, job', s')"
  shows "engine_ok s' \<and> step_frame s s' \<and> progressed s s'
    \<and> (if waiting then wj_state job' = ''Waiting'' \<and> db_clock s < wj_available_at job' \<and> wj_id job' = wj_id job else job' = job)"
proof -
  obtain e s1 where op: "open_execution job version s = (e, s1)" by (cases "open_execution job version s")
  note opened = open_execution_ok [OF ok v op unfinished]
  let ?n = "we_next_action_index e"
  obtain e2 outs' s2 where acts: "run_actions ?n (drop ?n (version_actions version)) job e
      (map ws_output_json (filter (\<lambda>w. ws_state w = ''Completed'') (steps_of s1 (we_id e)))) s1 = Inr (waiting, job', e2, outs', s2)"
    and s': "s' = save_execution (if waiting then e2\<lparr>we_output_json := map canonical_json outs'\<rparr>
       else e2\<lparr>we_output_json := map canonical_json outs', we_state := ''Completed'', we_resume_at := None, we_completed_at := Some (db_clock s2)\<rparr>) s2"
    using run by (auto simp: run_execution_def op Let_def elim!: bindE_InrE split: if_splits)
  have v1: "get_row wv_id (we_version_id e) (db_workflow_versions s1) = Some version"
    using v opened step_frame_tables(2) [OF opened(6)] by simp
  have eok: "execution_ok (db_workflow_versions s1) (db_workflow_steps s1) e" using opened(1,2) by (simp add: engine_ok_def list_all_iff)
  have below: "ws_action_index w < ?n" if "w \<in> set (db_workflow_steps s1)" "ws_execution_id w = we_id e" for w
  proof -
    have "map ws_action_index (own_steps (db_workflow_steps s1) (we_id e)) = [0..<?n]" using eok v1 by (simp add: execution_ok_def)
    moreover have "ws_action_index w \<in> set (map ws_action_index (own_steps (db_workflow_steps s1) (we_id e)))" using that by (auto simp: own_steps_def)
    ultimately show ?thesis by (metis atLeastLessThan_iff set_upt)
  qed
  have plain: "list_all (action_ok []) (drop ?n (version_actions version))"
    using version_ok_row [OF ok v] by (auto simp: version_ok_def list_all_iff dest: in_set_dropD)
  have "\<exists>new. run_effect waiting ?n (drop ?n (version_actions version)) job e s1 job' e2 s2 new"
    by (rule run_actions_spec [OF acts]) (use below plain in auto)
  then obtain new where eff: "run_effect waiting ?n (drop ?n (version_actions version)) job e s1 job' e2 s2 new" ..
  define e' where "e' = (if waiting then e2\<lparr>we_output_json := map canonical_json outs'\<rparr>
       else e2\<lparr>we_output_json := map canonical_json outs', we_state := ''Completed'', we_resume_at := None, we_completed_at := Some (db_clock s2)\<rparr>)"
  have good: "execution_ok (db_workflow_versions s1) (db_workflow_steps s1 @ new) e'"
    by (rule execution_continued [OF eok v1]) (use eff opened(3) in \<open>auto simp: run_effect_def e'_def\<close>)
  have "engine_ok (save_execution e' s2) \<and> step_frame s1 (save_execution e' s2) \<and> progressed s1 (save_execution e' s2)"
    by (rule engine_ok_run [OF opened(1,2) _ _ _ _ _ _ _ _ good]) (use eff in \<open>auto simp: run_effect_def e'_def\<close>)
  then have "engine_ok s' \<and> step_frame s s' \<and> progressed s s'"
    using opened(6,7) step_frame_trans progressed_trans unfolding s' e'_def by blast
  moreover have "if waiting then wj_state job' = ''Waiting'' \<and> db_clock s < wj_available_at job' \<and> wj_id job' = wj_id job else job' = job"
    using eff step_frame_tables(4) [OF opened(6)] by (simp add: run_effect_def split: if_splits)
  ultimately show ?thesis by blast
qed

lemma run_matches_ok:
  assumes "run_matches job keys s = Inr (job', s')" and "engine_ok s"
  shows "engine_ok s' \<and> step_frame s s' \<and> progressed s s'
    \<and> (job' = job \<or> wj_state job' \<in> set [''Waiting'', ''Rate Limited''] \<and> db_clock s < wj_available_at job' \<and> wj_id job' = wj_id job)"
  using assms
proof (induction keys arbitrary: job s)
  case (Cons key keys)
  let ?ds = "filter (\<lambda>d. wd_tenant_id d = wj_tenant_id job \<and> wd_workflow_key d = key) (db_workflow_definitions s)"
  obtain d where d: "?ds = [d]" using Cons.prems(1) by (auto split: list.splits)
  obtain version where v: "published_version s d = Some version" using Cons.prems(1) d by (auto split: option.splits)
  have row: "get_row wv_id (wv_id version) (db_workflow_versions s) = Some version"
    using v get_row_key by (fastforce simp: published_version_def split: option.splits)
  let ?ex = "find_execution s (wj_id job) (wv_id version)"
  show ?case
  proof (cases "case ?ex of None \<Rightarrow> False | Some e \<Rightarrow> we_state e = ''Completed''")
    case True
    then have "run_matches job keys s = Inr (job', s')" using Cons.prems(1) d v by simp
    then show ?thesis using Cons.IH Cons.prems(2) by blast
  next
    case False
    then obtain limited where l: "(if ?ex = None then workflow_rate_limited version (wj_tenant_id job) s else Inr False) = Inr limited"
      and rest: "(if limited then Inr (job\<lparr>wj_state := ''Rate Limited'', wj_available_at := db_clock s + 60000000\<rparr>, s)
                 else bindE (run_execution job version s) (\<lambda>(waiting, job, s). if waiting then Inr (job, s) else run_matches job keys s)) = Inr (job', s')"
      using Cons.prems(1) d v by (auto simp: Let_def elim!: bindE_InrE)
    show ?thesis
    proof (cases limited)
      case True
      then show ?thesis using rest Cons.prems(2) by auto
    next
      case False
      then obtain waiting j1 s1 where run: "run_execution job version s = Inr (waiting, j1, s1)"
        and after: "(if waiting then Inr (j1, s1) else run_matches j1 keys s1) = Inr (job', s')"
        using rest by (auto elim!: bindE_InrE)
      have one: "engine_ok s1 \<and> step_frame s s1 \<and> progressed s s1
          \<and> (if waiting then wj_state j1 = ''Waiting'' \<and> db_clock s < wj_available_at j1 \<and> wj_id j1 = wj_id job else j1 = job)"
        by (rule run_execution_ok [OF Cons.prems(2) row _ run]) (use \<open>\<not> (case ?ex of None \<Rightarrow> False | Some e \<Rightarrow> we_state e = ''Completed'')\<close> in auto)
      show ?thesis
      proof (cases waiting)
        case True
        then show ?thesis using one after by auto
      next
        case False
        then have "run_matches job keys s1 = Inr (job', s')" using after one by simp
        from Cons.IH [OF this] show ?thesis
          using one step_frame_trans [of s s1 s'] progressed_trans [of s s1 s'] step_frame_tables(4) [of s s1] by auto
      qed
    qed
  qed
qed simp

section \<open>Failures and compensation\<close>

text \<open>What the books say about a step; compensation changes none of it.\<close>

definition step_core :: "workflow_step_execution \<Rightarrow> nat \<times> nat \<times> nat \<times> string \<times> string" where
  "step_core w = (ws_id w, ws_execution_id w, ws_action_index w, ws_action_type w, ws_state w)"

lemma own_steps_core:
  assumes "map step_core rows' = map step_core rows"
  shows "map step_core (own_steps rows' i) = map step_core (own_steps rows i)"
proof -
  have *: "map step_core (own_steps xs i) = filter (\<lambda>c. fst (snd c) = i) (map step_core xs)" for xs
    by (induction xs) (auto simp: own_steps_def step_core_def)
  show ?thesis unfolding * assms ..
qed

lemma step_core_maps:
  assumes "map step_core rows' = map step_core rows"
  shows "map ws_id rows' = map ws_id rows" "map ws_execution_id rows' = map ws_execution_id rows" "map ws_action_index rows' = map ws_action_index rows"
    "map (JStr \<circ> ws_action_type) rows' = map (JStr \<circ> ws_action_type) rows" "map ws_state rows' = map ws_state rows"
  using arg_cong [OF assms, of "map fst"] arg_cong [OF assms, of "map (fst \<circ> snd)"] arg_cong [OF assms, of "map (fst \<circ> snd \<circ> snd)"]
    arg_cong [OF assms, of "map (JStr \<circ> fst \<circ> snd \<circ> snd \<circ> snd)"] arg_cong [OF assms, of "map (snd \<circ> snd \<circ> snd \<circ> snd)"]
  by (simp_all add: comp_def step_core_def)

lemma execution_ok_core:
  assumes "map step_core rows' = map step_core rows" and "execution_ok versions rows e"
  shows "execution_ok versions rows' e"
proof -
  note maps = step_core_maps [OF own_steps_core [OF assms(1), of "we_id e"]]
  have "list_all (\<lambda>w. ws_state w = ''Completed'') xs \<longleftrightarrow> list_all (\<lambda>st. st = ''Completed'') (map ws_state xs)" for xs :: "workflow_step_execution list"
    by (induction xs) auto
  then show ?thesis using assms(2) maps by (simp add: execution_ok_def split: option.splits)
qed

lemma engine_ok_core:
  assumes ok: "engine_ok s" and same: "map step_core (db_workflow_steps s') = map step_core (db_workflow_steps s)"
    and "step_frame s s'" and "db_workflow_executions s' = db_workflow_executions s"
  shows "engine_ok s'"
proof -
  have "ws_execution_id ` set (db_workflow_steps s') = ws_execution_id ` set (db_workflow_steps s)"
    using arg_cong [OF step_core_maps(2) [OF same], of set] by simp
  moreover have "ws_execution_id ` set (db_workflow_steps s) \<subseteq> we_id ` set (db_workflow_executions s)"
    using ok by (auto simp: engine_ok_def list_all_iff)
  ultimately have "\<forall>w \<in> set (db_workflow_steps s'). ws_execution_id w \<in> we_id ` set (db_workflow_executions s)"
    by (metis image_eqI subsetD)
  then show ?thesis
    using ok step_core_maps [OF same] execution_ok_core [OF same] step_frame_tables(2) [OF assms(3)] assms(4)
    by (simp add: engine_ok_def list_all_iff)
qed

lemma save_step_core:
  assumes "distinct (map ws_id rows)" and "step_core w \<in> set (map step_core rows)"
  shows "map step_core (put_row ws_id w rows) = map step_core rows"
proof -
  obtain w0 where w0: "w0 \<in> set rows" "step_core w0 = step_core w" using assms(2) by auto
  then have "ws_id w = ws_id w0" by (simp add: step_core_def)
  from put_row_at [OF assms(1) w0(1) this] show ?thesis using w0(2) by auto
qed

lemma compensate_step_ok:
  assumes steps: "distinct (map ws_id (db_workflow_steps s))" "step_core w \<in> set (map step_core (db_workflow_steps s))"
    and act: "ws_action_index w < length actions" "list_all (action_ok []) actions"
  shows "\<exists>s'. compensate_step job actions w s = Inr s' \<and> step_frame s s' \<and> db_workflow_executions s' = db_workflow_executions s
    \<and> map step_core (db_workflow_steps s') = map step_core (db_workflow_steps s)"
proof -
  have "action_ok [] (actions ! ws_action_index w)" using act by (simp add: list_all_length)
  then obtain action where a: "actions ! ws_action_index w = JObj action" by (rule action_ok_type)
  have saved: "map step_core (db_workflow_steps (save_step w' s2)) = map step_core (db_workflow_steps s)"
    if "step_core w' = step_core w" "db_workflow_steps s2 = db_workflow_steps s" for w' s2
    using save_step_core [OF steps(1), of w'] steps(2) that by (simp add: save_step_def)
  let ?r = "bindE (as_object (jget action ''compensate'')) (\<lambda>c. execute_workflow_action c job (wj_context_json job) s)"
  have frame: "step_frame s s2 \<and> db_workflow_steps s2 = db_workflow_steps s \<and> db_workflow_executions s2 = db_workflow_executions s"
    if "?r = Inr (out, s2)" for out s2 using that execute_frame by (auto elim!: bindE_InrE)
  have "compensate_step job actions w s = Inr s
    \<or> (\<exists>w' s2. compensate_step job actions w s = Inr (save_step w' s2) \<and> step_core w' = step_core w \<and> (s2 = s \<or> (\<exists>out. ?r = Inr (out, s2))))"
  proof (cases "ws_state w \<noteq> ''Completed'' \<or> \<not> json_true (jget action ''compensate'') \<or> ws_compensation_state w = Some ''Completed''")
    case True
    then show ?thesis using act(1) a by (auto simp: compensate_step_def not_le)
  next
    case False
    show ?thesis
    proof (cases ?r)
      case (Inl e)
      then have "compensate_step job actions w s = Inr (save_step (w\<lparr>ws_compensation_state := Some ''Failed'',
          ws_error := Some (strip (opt [] (ws_error w) @ [char_of (10::nat)] @ ''Compensation: '' @ error_text e))\<rparr>) s)"
        using act(1) a False by (simp add: compensate_step_def not_le)
      moreover have "step_core (w\<lparr>ws_compensation_state := c, ws_error := x\<rparr>) = step_core w" for c x by (simp add: step_core_def)
      ultimately show ?thesis by blast
    next
      case (Inr r)
      then obtain out s2 where r: "?r = Inr (out, s2)" by (cases r) auto
      then have "compensate_step job actions w s = Inr (save_step (w\<lparr>ws_compensation_state := Some ''Completed''\<rparr>) s2)"
        using act(1) a False by (simp add: compensate_step_def not_le)
      moreover have "step_core (w\<lparr>ws_compensation_state := Some ''Completed''\<rparr>) = step_core w" by (simp add: step_core_def)
      ultimately show ?thesis using r by blast
    qed
  qed
  then show ?thesis
  proof (elim disjE exE conjE)
    fix w' s2 assume c: "compensate_step job actions w s = Inr (save_step w' s2)" "step_core w' = step_core w" "s2 = s"
    then show ?thesis using saved [OF c(2), of s2] by (simp add: save_step_def)
  next
    fix w' s2 out assume c: "compensate_step job actions w s = Inr (save_step w' s2)" "step_core w' = step_core w" "?r = Inr (out, s2)"
    then show ?thesis using saved [OF c(2), of s2] frame [OF c(3)] by (simp add: save_step_def)
  qed simp
qed

lemma compensate_fold_ok:
  assumes "distinct (map ws_id (db_workflow_steps s))" and "\<forall>w \<in> set ws. step_core w \<in> set (map step_core (db_workflow_steps s))"
    and "\<forall>w \<in> set ws. ws_action_index w < length actions" and "list_all (action_ok []) actions"
  shows "\<exists>s'. foldE (compensate_step job actions) ws s = Inr s' \<and> step_frame s s' \<and> db_workflow_executions s' = db_workflow_executions s
    \<and> map step_core (db_workflow_steps s') = map step_core (db_workflow_steps s)"
  using assms
proof (induction ws arbitrary: s)
  case (Cons w ws)
  have "\<exists>s1. compensate_step job actions w s = Inr s1 \<and> step_frame s s1 \<and> db_workflow_executions s1 = db_workflow_executions s
      \<and> map step_core (db_workflow_steps s1) = map step_core (db_workflow_steps s)"
    by (rule compensate_step_ok) (use Cons.prems in auto)
  then obtain s1 where s1: "compensate_step job actions w s = Inr s1" "step_frame s s1" "db_workflow_executions s1 = db_workflow_executions s"
      "map step_core (db_workflow_steps s1) = map step_core (db_workflow_steps s)" by blast
  have "\<exists>s'. foldE (compensate_step job actions) ws s1 = Inr s' \<and> step_frame s1 s' \<and> db_workflow_executions s' = db_workflow_executions s1
      \<and> map step_core (db_workflow_steps s') = map step_core (db_workflow_steps s1)"
    by (rule Cons.IH) (use Cons.prems s1(4) step_core_maps(1) [OF s1(4)] in \<open>simp_all del: set_map\<close>)
  then show ?case using s1 step_frame_trans [of s s1] by auto
qed simp

section \<open>A pass over the jobs\<close>

definition job_due :: "datetime \<Rightarrow> workflow_job \<Rightarrow> bool" where
  "job_due clock j \<longleftrightarrow> wj_state j \<in> set [''Pending'', ''Retry'', ''Waiting'', ''Rate Limited''] \<and> wj_available_at j \<le> clock"

text \<open>A job was handled: the books are in order, nothing went back, and its row (the only one changed) is no longer due.\<close>

definition handled :: "workflow_job \<Rightarrow> db \<Rightarrow> db \<Rightarrow> bool" where
  "handled job s s' \<longleftrightarrow> engine_ok s' \<and> progressed s s' \<and> db_clock s' = db_clock s
     \<and> (\<exists>j'. wj_id j' = wj_id job \<and> \<not> job_due (db_clock s) j' \<and> db_workflow_jobs s' = put_row wj_id j' (db_workflow_jobs s))"

lemma save_job_simps [simp]:
  "engine_ok (save_job j s) \<longleftrightarrow> engine_ok s" "progressed s' (save_job j s) \<longleftrightarrow> progressed s' s" "progressed (save_job j s) s' \<longleftrightarrow> progressed s s'"
  "db_clock (save_job j s) = db_clock s" "db_workflow_jobs (save_job j s) = put_row wj_id j (db_workflow_jobs s)"
  by (simp_all add: save_job_def engine_ok_def progressed_def)

lemma handled_saved: "engine_ok s \<Longrightarrow> wj_id j = wj_id job \<Longrightarrow> \<not> job_due (db_clock s) j \<Longrightarrow> handled job s (save_job j s)"
  by (auto simp: handled_def)

lemma attempt_job_handled:
  assumes run: "attempt_job job s = Inr s'" and ok: "engine_ok s"
  shows "handled job s s'"
proof -
  obtain keys j1 s1 where m: "run_matches (job\<lparr>wj_state := ''Running''\<rparr>) keys s = Inr (j1, s1)"
    and s': "s' = (if wj_state j1 \<in> set [''Waiting'', ''Rate Limited''] then save_job j1 s1
        else save_job (j1\<lparr>wj_state := ''Completed'', wj_completed_at := Some (db_clock s1), wj_last_error := None\<rparr>) s1)"
    using run by (auto simp: attempt_job_def Let_def elim!: bindE_InrE split: if_splits)
  note r = run_matches_ok [OF m ok]
  then have tables: "db_workflow_jobs s1 = db_workflow_jobs s" "db_clock s1 = db_clock s" using step_frame_tables by blast+
  show ?thesis
  proof (cases "wj_state j1 \<in> set [''Waiting'', ''Rate Limited'']")
    case True
    then have "\<not> job_due (db_clock s) j1 \<and> wj_id j1 = wj_id job" using r by (auto simp: job_due_def)
    then show ?thesis using r tables s' True by (auto simp: handled_def)
  next
    case False
    let ?j = "j1\<lparr>wj_state := ''Completed'', wj_completed_at := Some (db_clock s1), wj_last_error := None\<rparr>"
    have "\<not> job_due (db_clock s) ?j" "wj_id ?j = wj_id job" using False r by (auto simp: job_due_def)
    moreover have "s' = save_job ?j s1" using s' False by simp
    ultimately show ?thesis using r tables unfolding handled_def by (intro conjI exI [of _ ?j]) simp_all
  qed
qed

lemma last_execution_row: "last_execution s i = Some e \<Longrightarrow> e \<in> set (db_workflow_executions s)"
proof -
  assume "last_execution s i = Some e"
  then have "e \<in> set (rev (sort_key we_id (filter (\<lambda>e. we_job_id e = i) (db_workflow_executions s))))"
    by (auto simp: last_execution_def simp del: set_rev split: list.splits)
  then show ?thesis by simp
qed

lemma compensation_ok:
  assumes ok: "engine_ok s" and e: "e \<in> set (db_workflow_executions s)"
  shows "\<exists>s'. compensate_workflow_execution e job s = Inr s' \<and> engine_ok s' \<and> step_frame s s' \<and> progressed s s'
    \<and> db_workflow_executions s' = db_workflow_executions s \<and> map step_core (db_workflow_steps s') = map step_core (db_workflow_steps s)"
proof -
  have eok: "execution_ok (db_workflow_versions s) (db_workflow_steps s) e" using ok e by (simp add: engine_ok_def list_all_iff)
  then obtain v where v: "get_row wv_id (we_version_id e) (db_workflow_versions s) = Some v"
      "map ws_action_index (own_steps (db_workflow_steps s) (we_id e)) = [0..<we_next_action_index e]" "we_next_action_index e \<le> length (version_actions v)"
    by (auto simp: execution_ok_def split: option.splits)
  have mine: "w \<in> set (own_steps (db_workflow_steps s) (we_id e))" if "w \<in> set (rev (steps_of s (we_id e)))" for w
    using that by (auto simp: steps_of_def own_steps_def)
  have index: "ws_action_index w < length (version_actions v)" if "w \<in> set (rev (steps_of s (we_id e)))" for w
  proof -
    have "ws_action_index w \<in> set (map ws_action_index (own_steps (db_workflow_steps s) (we_id e)))" using mine [OF that] by simp
    then show ?thesis using v(2,3) by (metis atLeastLessThan_iff less_le_trans set_upt)
  qed
  have "\<exists>s'. foldE (compensate_step job (version_actions v)) (rev (steps_of s (we_id e))) s = Inr s' \<and> step_frame s s'
      \<and> db_workflow_executions s' = db_workflow_executions s \<and> map step_core (db_workflow_steps s') = map step_core (db_workflow_steps s)"
    by (rule compensate_fold_ok) (use ok mine index version_ok_row [OF ok v(1)] in \<open>auto simp: engine_ok_def version_ok_def own_steps_def\<close>)
  then obtain s' where s': "foldE (compensate_step job (version_actions v)) (rev (steps_of s (we_id e))) s = Inr s'" "step_frame s s'"
      "db_workflow_executions s' = db_workflow_executions s" "map step_core (db_workflow_steps s') = map step_core (db_workflow_steps s)" by blast
  then have "engine_ok s'" using engine_ok_core [OF ok] by blast
  moreover have "progressed s s'" using s'(3) by (rule progressed_same)
  ultimately show ?thesis using s' v(1) by (simp add: compensate_workflow_execution_def)
qed

lemma marked_execution:
  assumes "engine_ok s" and "e0 \<in> set (db_workflow_executions s)" and "we_state e \<noteq> ''Completed''" and "we_id e = we_id e0"
    and "we_job_id e = we_job_id e0" and "we_version_id e = we_version_id e0" and "we_next_action_index e = we_next_action_index e0"
  shows "engine_ok (save_execution e s) \<and> e \<in> set (db_workflow_executions (save_execution e s)) \<and> step_frame s (save_execution e s)
    \<and> progressed s (save_execution e s)"
  by (rule engine_ok_save [OF assms(1,2)]) (use assms in \<open>auto intro: execution_ok_state\<close>)

lemma job_failed_handled:
  assumes ok: "engine_ok s"
  shows "\<exists>s'. job_failed err job s = Inr s' \<and> handled job s s'"
proof (cases "last_execution s (wj_id job)")
  case None
  have pos: "\<not> min 300 (2 * 2 ^ n) \<le> (0::int)" for n by (simp add: min_def not_le)
  show ?thesis
    using None pos [of "wj_attempts job"] by (auto simp: job_failed_def Let_def intro!: handled_saved [OF ok]) (auto simp: job_due_def)
next
  case (Some e0)
  note e0 = last_execution_row [OF Some]
  let ?text = "take 2000 (error_text err)"
  let ?retry = "e0\<lparr>we_state := ''Retry'', we_error := Some ?text\<rparr>"
  show ?thesis
  proof (cases "wj_attempts job + 1 \<ge> 5")
    case True
    define j where "j = job\<lparr>wj_attempts := wj_attempts job + 1, wj_last_error := Some ?text, wj_state := ''Dead''\<rparr>"
    define e where "e = ?retry\<lparr>we_state := ''Failed'', we_completed_at := Some (db_clock s)\<rparr>"
    have m: "engine_ok (save_execution e (save_job j s)) \<and> e \<in> set (db_workflow_executions (save_execution e (save_job j s)))
        \<and> step_frame (save_job j s) (save_execution e (save_job j s)) \<and> progressed (save_job j s) (save_execution e (save_job j s))"
      by (rule marked_execution [of _ e0]) (use ok e0 in \<open>auto simp: e_def save_job_def engine_ok_def\<close>)
    obtain s' where c: "compensate_workflow_execution e j (save_execution e (save_job j s)) = Inr s'" "engine_ok s'"
        "step_frame (save_execution e (save_job j s)) s'" "progressed (save_execution e (save_job j s)) s'"
      using compensation_ok m by blast
    have frame: "step_frame (save_job j s) s'" using m c(3) step_frame_trans by blast
    have "progressed s s'" using m c(4) progressed_trans by (metis save_job_simps(3))
    moreover have "\<not> job_due (db_clock s) j" "wj_id j = wj_id job" by (simp_all add: j_def job_due_def)
    ultimately have "handled job s s'" using c(2) step_frame_tables(1,4) [OF frame] by (auto simp: handled_def)
    moreover have "job_failed err job s = Inr s'" using True Some c(1) by (simp add: job_failed_def Let_def e_def j_def)
    ultimately show ?thesis by blast
  next
    case False
    define j where "j = job\<lparr>wj_attempts := wj_attempts job + 1, wj_last_error := Some ?text, wj_state := ''Retry'',
      wj_available_at := db_clock s + min 300 (2 ^ (wj_attempts job + 1)) * 1000000\<rparr>"
    have m: "engine_ok (save_execution ?retry (save_job j s)) \<and> ?retry \<in> set (db_workflow_executions (save_execution ?retry (save_job j s)))
        \<and> step_frame (save_job j s) (save_execution ?retry (save_job j s)) \<and> progressed (save_job j s) (save_execution ?retry (save_job j s))"
      by (rule marked_execution [of _ e0]) (use ok e0 in \<open>auto simp: save_job_def engine_ok_def\<close>)
    have "\<not> min 300 (2 * 2 ^ wj_attempts job) \<le> (0::int)" by (simp add: min_def not_le)
    then have "\<not> job_due (db_clock s) j" "wj_id j = wj_id job" by (simp_all add: j_def job_due_def)
    then have "handled job s (save_execution ?retry (save_job j s))"
      using m step_frame_tables(1,4) [of "save_job j s" "save_execution ?retry (save_job j s)"] by (auto simp: handled_def)
    moreover have "job_failed err job s = Inr (save_execution ?retry (save_job j s))" using False Some by (simp add: job_failed_def Let_def j_def)
    ultimately show ?thesis by blast
  qed
qed

lemma process_job_handled:
  assumes "engine_ok s"
  shows "\<exists>s'. process_workflow_job job s = Inr s' \<and> handled job s s'"
  using attempt_job_handled [OF _ assms] job_failed_handled [OF assms] by (auto simp: process_workflow_job_def split: sum.split)

lemma process_jobs_fold:
  assumes "engine_ok s"
  shows "\<exists>s'. foldE process_workflow_job js s = Inr s' \<and> engine_ok s' \<and> progressed s s' \<and> db_clock s' = db_clock s
    \<and> (\<forall>r \<in> set (db_workflow_jobs s'). wj_id r \<in> wj_id ` set js \<longrightarrow> \<not> job_due (db_clock s) r)
    \<and> filter (\<lambda>r. wj_id r \<notin> wj_id ` set js) (db_workflow_jobs s') = filter (\<lambda>r. wj_id r \<notin> wj_id ` set js) (db_workflow_jobs s)"
  using assms
proof (induction js arbitrary: s)
  case (Cons j js)
  obtain s1 where s1: "process_workflow_job j s = Inr s1" "handled j s s1" using process_job_handled [OF Cons.prems] by blast
  then obtain j' where j': "wj_id j' = wj_id j" "\<not> job_due (db_clock s) j'" "db_workflow_jobs s1 = put_row wj_id j' (db_workflow_jobs s)"
      "engine_ok s1" "progressed s s1" "db_clock s1 = db_clock s" by (auto simp: handled_def)
  obtain s' where s': "foldE process_workflow_job js s1 = Inr s'" "engine_ok s'" "progressed s1 s'" "db_clock s' = db_clock s1"
      "\<And>r. r \<in> set (db_workflow_jobs s') \<Longrightarrow> wj_id r \<in> wj_id ` set js \<Longrightarrow> \<not> job_due (db_clock s1) r"
      "filter (\<lambda>r. wj_id r \<notin> wj_id ` set js) (db_workflow_jobs s') = filter (\<lambda>r. wj_id r \<notin> wj_id ` set js) (db_workflow_jobs s1)"
    using Cons.IH [OF j'(4)] by blast
  have "\<not> job_due (db_clock s) r" if r: "r \<in> set (db_workflow_jobs s')" "wj_id r \<in> wj_id ` set (j # js)" for r
  proof (cases "wj_id r \<in> wj_id ` set js")
    case True
    then show ?thesis using s'(5) r j'(6) by simp
  next
    case False
    then have "r \<in> set (filter (\<lambda>r. wj_id r \<notin> wj_id ` set js) (db_workflow_jobs s1))" using r(1) unfolding s'(6) [symmetric] by simp
    then show ?thesis using False r(2) j' by (auto simp: put_row_def split: if_splits)
  qed
  moreover have "filter (\<lambda>r. wj_id r \<notin> wj_id ` set (j # js)) (db_workflow_jobs s') = filter (\<lambda>r. wj_id r \<notin> wj_id ` set (j # js)) (db_workflow_jobs s)"
  proof -
    have *: "filter (\<lambda>r. wj_id r \<notin> wj_id ` set (j # js)) xs = filter (\<lambda>r. wj_id r \<noteq> wj_id j) (filter (\<lambda>r. wj_id r \<notin> wj_id ` set js) xs)" for xs
      by (simp add: conj_commute)
    have "filter (\<lambda>r. wj_id r \<notin> wj_id ` set (j # js)) (put_row wj_id j' xs) = filter (\<lambda>r. wj_id r \<notin> wj_id ` set (j # js)) xs" for xs
      using j'(1) by (induction xs) (auto simp: put_row_def)
    then show ?thesis using s'(6) by (simp only: * j'(3))
  qed
  ultimately show ?case using s1(1) s' j' progressed_trans [of s s1 s'] by auto
qed simp

text \<open>
  C29. A pass over the workflow jobs always returns with the books in order: the steps recorded for every execution
  are exactly the first actions of its workflow version, each once, in order and completed, and a completed
  execution has run them all. No execution goes back or is lost, no job that was handled is still due, and the other
  jobs are untouched.
\<close>

theorem workflow_steps_exactly_once:
  assumes "engine_ok s"
  shows "\<exists>s'. process_workflow_jobs limit s = Inr (length (due_jobs limit s), s') \<and> engine_ok s' \<and> progressed s s'
    \<and> list_all (\<lambda>r. wj_id r \<in> set (map wj_id (due_jobs limit s)) \<longrightarrow> \<not> job_due (db_clock s) r) (db_workflow_jobs s')
    \<and> filter (\<lambda>r. wj_id r \<notin> set (map wj_id (due_jobs limit s))) (db_workflow_jobs s')
      = filter (\<lambda>r. wj_id r \<notin> set (map wj_id (due_jobs limit s))) (db_workflow_jobs s)"
  using process_jobs_fold [OF assms, of "due_jobs limit s"] by (auto simp: process_workflow_jobs_def list_all_iff)

section \<open>Publishing keeps the books in order\<close>

lemma map_of_filter: "map_of xs k = (case filter (\<lambda>p. fst p = k) xs of [] \<Rightarrow> None | p # _ \<Rightarrow> Some (snd p))"
  by (induction xs) auto

lemma map_of_sort [simp]: "map_of (sort_key fst xs) k = map_of xs k"
proof -
  have "filter (\<lambda>p. fst p = k) (sort_key fst xs) = filter (\<lambda>p. fst p = k) xs"
    by (rule sort_key_stable)
  then show ?thesis by (simp only: map_of_filter)
qed

lemma canonical_object_eq: "canonical_object obj = sort_key fst (map (\<lambda>(k, v). (k, canonical_json v)) obj)"
  by (simp add: canonical_object_def)

lemma canonical_keys [simp]: "set (map fst (canonical_object obj)) = set (map fst obj)"
  by (force simp: canonical_object_eq)

lemma map_of_canonical: "map_of (canonical_object obj) k = map_option canonical_json (map_of obj k)"
proof -
  have "map_of (map (\<lambda>(k, v). (k, canonical_json v)) obj) k = map_option canonical_json (map_of obj k)" by (induction obj) auto
  then show ?thesis by (simp add: canonical_object_eq)
qed

lemma jget_canonical [simp]: "jget (canonical_object obj) k = canonical_json (jget obj k)"
  by (simp add: jget_def map_of_canonical split: option.split)

lemma canonical_scalar [simp]:
  "canonical_json v = JStr t \<longleftrightarrow> v = JStr t" "canonical_json v = JNull \<longleftrightarrow> v = JNull" "json_number (canonical_json v) = json_number v"
  "hashable (canonical_json v) = hashable v" "json_true (canonical_json v) = json_true v" "in_names (canonical_json v) names = in_names v names"
proof -
  show "canonical_json v = JStr t \<longleftrightarrow> v = JStr t" "canonical_json v = JNull \<longleftrightarrow> v = JNull" for t by (cases v; simp)+
  show "json_number (canonical_json v) = json_number v" "hashable (canonical_json v) = hashable v" by (cases v; simp)+
  have "sort_key f xs = [] \<longleftrightarrow> xs = []" for f :: "string \<times> json \<Rightarrow> string" and xs
    using length_sort [of f xs] by (cases xs) (auto simp del: length_sort)
  then show "json_true (canonical_json v) = json_true v" by (cases v) simp_all
  show "in_names (canonical_json v) names = in_names v names" by (cases v) (auto simp: in_names_def)
qed

lemma json_eq_text: "json_eq (canonical_json v) (JStr t) = json_eq v (JStr t)"
  by (cases v) simp_all

lemma check_compensation_canonical: "check_compensation (canonical_json v) = check_compensation v"
  by (cases v) (simp_all add: check_compensation_def json_eq_text has_keys_def only_keys_def del: set_map flip: canonical_object_eq)

lemma keys_canonical:
  "only_keys (canonical_object a) = only_keys a" "has_keys (canonical_object a) = has_keys a" "exactly_keys (canonical_object a) = exactly_keys a"
  by (simp_all add: fun_eq_iff only_keys_def has_keys_def exactly_keys_def del: set_map)

lemma action_ok_canonical: "action_ok known (canonical_json v) \<longleftrightarrow> action_ok known v"
proof (cases v)
  case (JObj a)
  have c: "canonical_json (JObj a) = JObj (canonical_object a)" by (simp add: canonical_object_eq)
  have "jitem (canonical_object a) k = (case jitem a k of Inl e \<Rightarrow> Inl e | Inr x \<Rightarrow> Inr (canonical_json x))" for k
    by (simp add: jitem_def map_of_canonical split: option.split)
  then have "check_reference known m (JObj (canonical_object a)) = check_reference known m (JObj a)" for m
    by (cases "jitem a ''subflow''") (simp_all add: check_reference_def action_type_def)
  moreover have "validate_action (JObj (canonical_object a)) = validate_action (JObj a)"
    unfolding validate_action_def as_object.simps bindE_simps action_type_def jget_canonical canonical_scalar check_compensation_canonical keys_canonical ..
  ultimately show ?thesis by (simp only: JObj c action_ok_def)
qed (simp_all add: action_ok_def validate_action_def)

lemma published_version_ok:
  assumes "validate_workflow (JObj w) [] = Inr ()" and "wv_definition_json v = canonical_object w"
  shows "version_ok v"
proof -
  obtain actions where "map_of w ''actions'' = Some (JList actions)" "list_all (action_ok []) actions" by (rule validated_actions [OF assms(1)])
  then have "version_actions v = map canonical_json actions" "list_all (action_ok []) actions"
    by (simp_all add: version_actions_def assms(2) jget_def map_of_canonical subflow_actions_def)
  then show ?thesis using validated_rate [OF assms(1)] by (simp add: version_ok_def assms(2) list_all_iff action_ok_canonical)
qed

lemma engine_ok_versions:
  assumes ok: "engine_ok s" and good: "list_all version_ok (db_workflow_versions s')"
    and keys: "distinct (map wv_id (db_workflow_versions s'))"
    and rows: "\<And>i v. get_row wv_id i (db_workflow_versions s) = Some v \<Longrightarrow>
      \<exists>v'. get_row wv_id i (db_workflow_versions s') = Some v' \<and> wv_definition_json v' = wv_definition_json v"
    and same: "db_workflow_executions s' = db_workflow_executions s" "db_workflow_steps s' = db_workflow_steps s"
  shows "engine_ok s'"
proof -
  have "execution_ok (db_workflow_versions s') (db_workflow_steps s) e" if e: "execution_ok (db_workflow_versions s) (db_workflow_steps s) e" for e
  proof -
    obtain v where v: "get_row wv_id (we_version_id e) (db_workflow_versions s) = Some v" using e by (auto simp: execution_ok_def split: option.splits)
    then show ?thesis using rows [OF v] e by (auto simp: execution_ok_def version_actions_def)
  qed
  then show ?thesis using ok good keys same by (auto simp: engine_ok_def list_all_iff)
qed

lemma latest_version_row: "latest_version s i = Some v \<Longrightarrow> v \<in> set (db_workflow_versions s)"
proof -
  assume "latest_version s i = Some v"
  then have "v \<in> set (rev (sort_key wv_version (filter (\<lambda>v. wv_definition_id v = i) (db_workflow_versions s))))"
    by (auto simp: latest_version_def simp del: set_rev split: list.splits)
  then show ?thesis by simp
qed

lemma definition_row_frame:
  assumes "definition_row key name event s = (d, s1)"
  shows "db_workflow_executions s1 = db_workflow_executions s" "db_workflow_steps s1 = db_workflow_steps s"
    "db_workflow_versions s1 = db_workflow_versions s"
  using assms by (auto simp: definition_row_def Let_def split: option.splits)

text \<open>Publishing adds at most one version; at most the state of another one changes.\<close>

lemma publish_version_tables:
  assumes run: "publish_version actor_id digest key name event w s = (published, s')" and keys: "distinct (map wv_id (db_workflow_versions s))"
  shows "db_workflow_executions s' = db_workflow_executions s" "db_workflow_steps s' = db_workflow_steps s"
    and "\<exists>new. map (\<lambda>v. (wv_id v, wv_definition_json v)) (db_workflow_versions s') = map (\<lambda>v. (wv_id v, wv_definition_json v)) (db_workflow_versions s @ new)
      \<and> list_all (\<lambda>v. wv_definition_json v = canonical_object w) new \<and> distinct (map wv_id (db_workflow_versions s @ new))"
proof -
  obtain d s1 where d: "definition_row key name event s = (d, s1)" by (cases "definition_row key name event s")
  note frame = definition_row_frame [OF d]
  show "db_workflow_executions s' = db_workflow_executions s" "db_workflow_steps s' = db_workflow_steps s"
    using run frame by (auto simp: publish_version_def d Let_def save_definition_def split: option.splits if_splits)
  let ?vs = "db_workflow_versions s"
  let ?view = "map (\<lambda>v. (wv_id v, wv_definition_json v))"
  have put: "?view (put_row wv_id (l\<lparr>wv_state := x\<rparr>) (?vs @ [v])) = ?view (?vs @ [v])"
    if l: "l \<in> set ?vs" "distinct (map wv_id (?vs @ [v]))" for l v x
  proof -
    obtain as bs where xs: "?vs @ [v] = as @ l # bs" "put_row wv_id (l\<lparr>wv_state := x\<rparr>) (?vs @ [v]) = as @ l\<lparr>wv_state := x\<rparr> # bs"
      using put_row_at [of wv_id "?vs @ [v]" l "l\<lparr>wv_state := x\<rparr>"] l by auto
    show ?thesis unfolding xs(2) unfolding xs(1) by simp
  qed
  have fresh: "distinct (map wv_id (?vs @ [v]))" if "wv_id v = next_id wv_id ?vs" for v
    using keys that next_id_unused [of wv_id ?vs] by auto
  show "\<exists>new. ?view (db_workflow_versions s') = ?view (?vs @ new)
      \<and> list_all (\<lambda>v. wv_definition_json v = canonical_object w) new \<and> distinct (map wv_id (?vs @ new))"
  proof (cases published)
    case False
    then show ?thesis using run keys frame(3)
      by (intro exI [of _ "[]"]) (auto simp: publish_version_def d Let_def save_definition_def split: option.splits if_splits)
  next
    case True
    define v where "v = \<lparr>wv_id = next_id wv_id ?vs, wv_definition_id = wd_id d,
        wv_version = (case latest_version s1 (wd_id d) of None \<Rightarrow> 1 | Some l \<Rightarrow> wv_version l + 1), wv_state = ''Published'',
        wv_definition_json = canonical_object w, wv_package_hash = digest, wv_created_by_id = actor_id, wv_created_at = db_clock s1,
        wv_published_at = Some (db_clock s1), wv_tenant_id = tenant_context_id s1\<rparr>"
    have "db_workflow_versions s' = (case latest_version s1 (wd_id d) of
        None \<Rightarrow> ?vs @ [v]
      | Some l \<Rightarrow> if wv_state l = ''Published'' then put_row wv_id (l\<lparr>wv_state := ''Superseded''\<rparr>) (?vs @ [v]) else ?vs @ [v])"
      using run True frame(3) by (auto simp: publish_version_def d Let_def save_definition_def v_def split: option.splits if_splits)
    then have "?view (db_workflow_versions s') = ?view (?vs @ [v])"
      using put [OF _ fresh] latest_version_row [of s1 "wd_id d"] frame(3) by (auto simp: v_def split: option.splits if_splits)
    then show ?thesis using fresh [of v] by (intro exI [of _ "[v]"]) (auto simp: v_def)
  qed
qed

lemma get_row_view:
  assumes "map (\<lambda>v. (wv_id v, wv_definition_json v)) xs = map (\<lambda>v. (wv_id v, wv_definition_json v)) ys" and "get_row wv_id i ys = Some v"
  shows "\<exists>v'. get_row wv_id i xs = Some v' \<and> wv_definition_json v' = wv_definition_json v"
  using assms by (induction ys arbitrary: xs) (auto simp: get_row_Cons Cons_eq_map_conv map_eq_Cons_conv split: if_splits)

lemma publish_version_ok:
  assumes ok: "engine_ok s" and w: "validate_workflow (JObj w) [] = Inr ()" and run: "publish_version actor_id digest key name event w s = (published, s')"
  shows "engine_ok s' \<and> db_workflow_executions s' = db_workflow_executions s"
proof -
  have keys: "distinct (map wv_id (db_workflow_versions s))" using ok by (simp add: engine_ok_def)
  note tables = publish_version_tables [OF run keys]
  obtain new where vs: "map (\<lambda>v. (wv_id v, wv_definition_json v)) (db_workflow_versions s') = map (\<lambda>v. (wv_id v, wv_definition_json v)) (db_workflow_versions s @ new)"
      "list_all (\<lambda>v. wv_definition_json v = canonical_object w) new" "distinct (map wv_id (db_workflow_versions s @ new))" using tables(3) by blast
  have view: "version_ok v \<longleftrightarrow> version_ok v'" if "wv_definition_json v = wv_definition_json v'" for v v'
    using that by (simp add: version_ok_def version_actions_def)
  have all: "version_ok v" if "v \<in> set (db_workflow_versions s @ new)" for v
    using that ok vs(2) published_version_ok [OF w] by (auto simp: engine_ok_def list_all_iff)
  have shared: "\<exists>v' \<in> set (db_workflow_versions s @ new). wv_definition_json v = wv_definition_json v'" if "v \<in> set (db_workflow_versions s')" for v
  proof -
    have "(wv_id v, wv_definition_json v) \<in> set (map (\<lambda>v. (wv_id v, wv_definition_json v)) (db_workflow_versions s @ new))"
      unfolding vs(1) [symmetric] using that by auto
    then show ?thesis by auto
  qed
  have "version_ok v" if v: "v \<in> set (db_workflow_versions s')" for v
  proof -
    obtain v' where "v' \<in> set (db_workflow_versions s @ new)" "wv_definition_json v = wv_definition_json v'" using shared [OF v] by blast
    then show ?thesis using all view by blast
  qed
  then have good: "list_all version_ok (db_workflow_versions s')" by (simp add: list_all_iff)
  have "map wv_id (db_workflow_versions s') = map wv_id (db_workflow_versions s @ new)" using arg_cong [OF vs(1), of "map fst"] by (simp add: comp_def)
  then have keys': "distinct (map wv_id (db_workflow_versions s'))" using vs(3) by simp
  have rows: "\<exists>v'. get_row wv_id i (db_workflow_versions s') = Some v' \<and> wv_definition_json v' = wv_definition_json v"
    if "get_row wv_id i (db_workflow_versions s) = Some v" for i v
    by (rule get_row_view [OF vs(1)]) (simp add: get_row_append that)
  show ?thesis using engine_ok_versions [OF ok good keys' rows tables(1,2)] tables(1) by simp
qed

lemma deploy_all_ok:
  assumes sub: "validate_subflows (JObj subflows) = Inr subflows" and "list_all (\<lambda>v. validate_workflow v (map fst subflows) = Inr ()) vs" and "engine_ok s"
  shows "\<exists>r. deploy_all actor_id digest subflows vs (n, s) = Some r
    \<and> (\<forall>n' s'. r = Inr (n', s') \<longrightarrow> engine_ok s' \<and> db_workflow_executions s' = db_workflow_executions s)"
  using assms(2,3)
proof (induction vs arbitrary: n s)
  case (Cons v vs)
  have v: "validate_workflow v (map fst subflows) = Inr ()" using Cons.prems(1) by simp
  then obtain w where w: "v = JObj w" by (cases v) (auto simp: validate_workflow_def elim!: bindE_InrE)
  obtain w' where w': "materialize_workflow w subflows = Some (Inr w')" "validate_workflow (JObj w') [] = Inr ()"
    using expansion_ends [OF sub v [unfolded w]] by blast
  show ?case
  proof (cases "deploy_specification actor_id digest subflows v (n, s)")
    case None
    then show ?thesis using v w w'(1) by (auto simp: deploy_specification_def)
  next
    case (Some r)
    show ?thesis
    proof (cases r)
      case (Inl e)
      then show ?thesis using Some by simp
    next
      case (Inr st)
      obtain n1 s1 where st: "st = (n1, s1)" by (cases st)
      obtain key name event published where "publish_version actor_id digest key name event w' s = (published, s1)"
        using Some v w w'(1) Inr st by (auto simp: deploy_specification_def elim!: bindE_InrE split: prod.splits)
      then have s1: "engine_ok s1" "db_workflow_executions s1 = db_workflow_executions s" using publish_version_ok [OF Cons.prems(2) w'(2)] by auto
      obtain r' where "deploy_all actor_id digest subflows vs (n1, s1) = Some r'"
          "\<forall>n' s'. r' = Inr (n', s') \<longrightarrow> engine_ok s' \<and> db_workflow_executions s' = db_workflow_executions s1"
        using Cons.IH [OF _ s1(1), of n1] Cons.prems(1) by auto
      then show ?thesis using Some Inr st s1(2) by auto
    qed
  qed
qed simp

lemma deploy_package_ok:
  assumes package: "check_package (JObj package) = Inr ()" and ok: "engine_ok s"
  shows "\<exists>r. deploy_workflow_package actor_id package s = Some r
    \<and> (\<forall>n s'. r = Inr (n, s') \<longrightarrow> engine_ok s' \<and> db_workflow_executions s' = db_workflow_executions s)"
proof -
  obtain vs subflows where vs: "jget package ''workflows'' = JList vs" "validate_subflows (opt (JObj []) (map_of package ''subflows'')) = Inr subflows"
      "list_all (\<lambda>v. validate_workflow v (map fst subflows) = Inr ()) vs"
    using package by (auto simp: check_package_def each_iff elim!: bindE_InrE split: json.splits)
  then have "opt (JObj []) (map_of package ''subflows'') = JObj subflows"
    by (auto simp: validate_subflows_def elim!: bindE_InrE split: json.splits option.splits)
  then have "package_subflows package = subflows" by (auto simp: package_subflows_def split: option.splits)
  moreover have "validate_subflows (JObj subflows) = Inr subflows" using vs(2) \<open>opt (JObj []) _ = JObj subflows\<close> by simp
  ultimately show ?thesis
    unfolding deploy_workflow_package_def using deploy_all_ok [of subflows vs s] vs(1,3) ok by (simp add: subflow_actions_def)
qed

section \<open>The engine as a state machine\<close>

text \<open>
  What happens to the workflow tables: a package that passes the validation is published, an event is queued, due
  schedules queue events, a worker makes a pass over the jobs, and time goes by.
\<close>

inductive engine_step :: "db \<Rightarrow> db \<Rightarrow> bool" where
  deploy: "check_package (JObj package) = Inr () \<Longrightarrow> deploy_workflow_package actor_id package s = Some (Inr (n, s')) \<Longrightarrow> engine_step s s'"
| queue: "engine_step s (queue_workflow_event event_type target_type target_id context tenant_id s)"
| schedule: "process_workflow_schedules limit rows s = Some (n, rows', s') \<Longrightarrow> engine_step s s'"
| pass: "process_workflow_jobs limit s = Inr (n, s') \<Longrightarrow> engine_step s s'"
| clock: "engine_step s (s\<lparr>db_clock := t\<rparr>)"

lemma engine_tables:
  assumes "db_workflow_versions s' = db_workflow_versions s" "db_workflow_executions s' = db_workflow_executions s" "db_workflow_steps s' = db_workflow_steps s"
  shows "engine_ok s \<Longrightarrow> engine_ok s' \<and> progressed s s'"
  using assms progressed_same [of s' s] by (simp add: engine_ok_def)

lemma run_schedules_tables:
  assumes "run_schedules schedules rows s = Some (rows', s')"
  shows "db_workflow_versions s' = db_workflow_versions s \<and> db_workflow_executions s' = db_workflow_executions s \<and> db_workflow_steps s' = db_workflow_steps s"
  using assms
proof (induction schedules arbitrary: rows s)
  case (Cons schedule schedules)
  then obtain r s1 where r: "run_schedule schedule s = Some (r, s1)" "run_schedules schedules (put_row wsc_id r rows) s1 = Some (rows', s')"
    by (auto simp: bind_eq_Some_conv)
  have "db_workflow_versions s1 = db_workflow_versions s \<and> db_workflow_executions s1 = db_workflow_executions s \<and> db_workflow_steps s1 = db_workflow_steps s"
    using r(1) by (auto simp: run_schedule_def Let_def split: option.splits if_splits)
  then show ?case using Cons.IH [OF r(2)] by simp
qed simp

lemma engine_step_ok: "engine_step s s' \<Longrightarrow> engine_ok s \<Longrightarrow> engine_ok s' \<and> progressed s s'"
proof (induction rule: engine_step.induct)
  case (deploy package actor_id s n s')
  have "engine_ok s'" "db_workflow_executions s' = db_workflow_executions s" using deploy_package_ok [OF deploy(1,3), of actor_id] deploy(2) by auto
  then show ?case by (simp add: progressed_same)
next
  case (schedule limit rows s n rows' s')
  then have "\<exists>xs. run_schedules xs rows s = Some (rows', s')" by (auto simp: process_workflow_schedules_def Let_def)
  then show ?case using run_schedules_tables engine_tables schedule(2) by blast
next
  case (pass limit s n s')
  then have "foldE process_workflow_job (due_jobs limit s) s = Inr s'" by (auto simp: process_workflow_jobs_def bindE_Inr_iff)
  then show ?case using process_jobs_fold [OF pass(2), of "due_jobs limit s"] by auto
next
  case (queue s event_type target_type target_id "context" tenant_id)
  show ?case by (rule engine_tables [OF _ _ _ queue]) simp_all
next
  case (clock s t)
  show ?case by (rule engine_tables [OF _ _ _ clock]) simp_all
qed

text \<open>
  C30. However publishing, queueing, scheduling and passes interleave, starting from an empty engine: every execution
  belongs to one job and one published version and its recorded steps are the first actions of that version, each
  once and in order; and an execution never loses a step it has taken.
\<close>

theorem workflow_engine_invariant:
  assumes "engine_step\<^sup>*\<^sup>* s s'" and "engine_step\<^sup>*\<^sup>* s' s''"
    and "db_workflow_versions s = []" and "db_workflow_executions s = []" and "db_workflow_steps s = []"
  shows "engine_ok s' \<and> engine_ok s'' \<and> progressed s' s''"
proof -
  have run: "engine_ok b \<and> progressed a b" if "engine_step\<^sup>*\<^sup>* a b" "engine_ok a" for a b
    using that by (induction rule: rtranclp_induct) (auto dest: engine_step_ok intro: progressed_trans)
  have "engine_ok s" using assms by (simp add: engine_ok_def)
  then show ?thesis using run assms(1,2) by blast
qed

definition example_package :: "(string \<times> json) list" where
  "example_package = [(''schema_version'', JInt 2), (''subflows'', JObj example_subflows), (''workflows'', JList [JObj example_workflow])]"

definition example_engine_db :: db where
  "example_engine_db = empty_db\<lparr>db_current_user := Some 8, db_users := [blank_user\<lparr>u_id := 8, u_tenant_id := 3, u_active := True\<rparr>],
     db_tickets := [blank_ticket\<lparr>tk_id := 9, tk_tenant_id := 3, tk_kind := ''incident'', tk_number := ''INC0000009''\<rparr>]\<rparr>"

definition example_event :: "db \<Rightarrow> db" where
  "example_event s = queue_workflow_event ''ticket.manual'' ''ticket'' 9
     (ticket_workflow_context (blank_ticket\<lparr>tk_id := 9, tk_tenant_id := 3, tk_kind := ''incident'', tk_number := ''INC0000009''\<rparr>) None) 3 s"

theorem workflow_engine_invariant_witness:
  "\<exists>s' s''. engine_step\<^sup>*\<^sup>* example_engine_db s' \<and> engine_step\<^sup>*\<^sup>* s' s'' \<and> map we_state (db_workflow_executions s'') = [''Waiting'']
    \<and> engine_ok s'' \<and> progressed s' s''"
proof -
  have package: "check_package (JObj example_package) = Inr ()" by code_simp
  let ?deploy = "deploy_workflow_package 8 example_package example_engine_db"
  have run: "case ?deploy of
      Some (Inr (n, s1)) \<Rightarrow> (case process_workflow_jobs 10 (example_event s1) of
          Inr (m, s2) \<Rightarrow> map we_state (db_workflow_executions s2) = [''Waiting''] | Inl e \<Rightarrow> False)
    | _ \<Rightarrow> False" by code_simp
  obtain r where r: "?deploy = Some r" using run by (cases ?deploy) auto
  obtain n s1 where d: "?deploy = Some (Inr (n, s1))" using run r by (cases r) auto
  obtain m s2 where p: "process_workflow_jobs 10 (example_event s1) = Inr (m, s2)" and w: "map we_state (db_workflow_executions s2) = [''Waiting'']"
    using run d by (cases "process_workflow_jobs 10 (example_event s1)") auto
  have one: "engine_step\<^sup>*\<^sup>* example_engine_db s1" by (rule r_into_rtranclp) (rule engine_step.deploy [OF package d])
  have "engine_step s1 (example_event s1)" unfolding example_event_def by (rule engine_step.queue)
  then have two: "engine_step\<^sup>*\<^sup>* s1 s2" by (rule converse_rtranclp_into_rtranclp) (rule r_into_rtranclp, rule engine_step.pass [OF p])
  have "engine_ok s1 \<and> engine_ok s2 \<and> progressed s1 s2"
    by (rule workflow_engine_invariant [OF one two]) (simp_all add: example_engine_db_def empty_db_def)
  then show ?thesis using one two w by (intro exI [of _ s1] exI [of _ s2] conjI) simp_all
qed

definition example_job_db :: db where
  "example_job_db = example_event (example_engine_db\<lparr>
     db_workflow_definitions := [\<lparr>wd_id = 4, wd_workflow_key = ''resolved'', wd_name = ''Resolved'', wd_event_type = ''ticket.manual'', wd_active = True,
       wd_published_version_id = Some 5, wd_tenant_id = 3\<rparr>],
     db_workflow_versions := [\<lparr>wv_id = 5, wv_definition_id = 4, wv_version = 2, wv_state = ''Published'',
       wv_definition_json = jset ''actions'' (JList [JObj [(''type'', JStr ''add_history''), (''event'', JStr ''Done''), (''details'', JStr ''{number}'')]]) example_workflow,
       wv_package_hash = [], wv_created_by_id = 8, wv_created_at = 0, wv_published_at = None, wv_tenant_id = 3\<rparr>]\<rparr>)"

theorem workflow_steps_exactly_once_witness:
  "\<exists>s'. process_workflow_jobs 10 example_job_db = Inr (length (due_jobs 10 example_job_db), s') \<and> length (due_jobs 10 example_job_db) = Suc 0
    \<and> engine_ok s' \<and> progressed example_job_db s' \<and> list_all (\<lambda>r. \<not> job_due 0 r) (db_workflow_jobs s')"
proof -
  have "engine_ok example_job_db" by code_simp
  then obtain s' where s': "process_workflow_jobs 10 example_job_db = Inr (length (due_jobs 10 example_job_db), s')" "engine_ok s'" "progressed example_job_db s'"
      "list_all (\<lambda>r. wj_id r \<in> set (map wj_id (due_jobs 10 example_job_db)) \<longrightarrow> \<not> job_due (db_clock example_job_db) r) (db_workflow_jobs s')"
      "filter (\<lambda>r. wj_id r \<notin> set (map wj_id (due_jobs 10 example_job_db))) (db_workflow_jobs s')
        = filter (\<lambda>r. wj_id r \<notin> set (map wj_id (due_jobs 10 example_job_db))) (db_workflow_jobs example_job_db)"
    using workflow_steps_exactly_once [of example_job_db 10] by blast
  have due: "length (due_jobs 10 example_job_db) = Suc 0" "db_clock example_job_db = 0"
    and none: "filter (\<lambda>r. wj_id r \<notin> set (map wj_id (due_jobs 10 example_job_db))) (db_workflow_jobs example_job_db) = []" by code_simp+
  have "list_all (\<lambda>r. \<not> job_due 0 r) (db_workflow_jobs s')"
    using s'(4,5) none due(2) unfolding list_all_iff by (auto simp: filter_empty_conv)
  then show ?thesis using s'(1,2,3) due(1) by blast
qed

definition example_two_workflows :: db where
  "example_two_workflows = example_engine_db\<lparr>
     db_workflow_definitions :=
       [\<lparr>wd_id = 4, wd_workflow_key = ''history'', wd_name = ''History'', wd_event_type = ''ticket.manual'', wd_active = True, wd_published_version_id = Some 5, wd_tenant_id = 3\<rparr>,
        \<lparr>wd_id = 6, wd_workflow_key = ''manager'', wd_name = ''Manager'', wd_event_type = ''ticket.manual'', wd_active = True, wd_published_version_id = Some 7, wd_tenant_id = 3\<rparr>],
     db_workflow_versions :=
       [\<lparr>wv_id = 5, wv_definition_id = 4, wv_version = 2, wv_state = ''Published'',
         wv_definition_json = jset ''actions'' (JList [JObj [(''type'', JStr ''add_history''), (''event'', JStr ''Done''), (''details'', JStr []),
           (''compensate'', JObj [(''type'', JStr ''add_history''), (''event'', JStr ''Undone''), (''details'', JStr [])])]]) example_workflow,
         wv_package_hash = [], wv_created_by_id = 8, wv_created_at = 0, wv_published_at = None, wv_tenant_id = 3\<rparr>,
        \<lparr>wv_id = 7, wv_definition_id = 6, wv_version = 2, wv_state = ''Published'',
         wv_definition_json = jset ''actions'' (JList [JObj [(''type'', JStr ''notify_team_manager''), (''title'', JStr []), (''body'', JStr [])]]) example_workflow,
         wv_package_hash = [], wv_created_by_id = 8, wv_created_at = 0, wv_published_at = None, wv_tenant_id = 3\<rparr>],
     db_workflow_jobs := [\<lparr>wj_id = 2, wj_event_id = [], wj_event_type = ''ticket.manual'', wj_target_type = ''ticket'', wj_target_id = 9,
       wj_context_json = [(''kind'', JStr ''incident'')], wj_state = ''Retry'', wj_attempts = 4, wj_available_at = 0, wj_last_error = None, wj_created_at = 0,
       wj_completed_at = None, wj_tenant_id = 3\<rparr>],
     db_workflow_executions := [\<lparr>we_id = 3, we_job_id = 2, we_version_id = 5, we_correlation_id = [], we_state = ''Completed'', we_input_json = [],
       we_output_json = [], we_error = None, we_started_at = 0, we_completed_at = Some 0, we_next_action_index = Suc 0, we_resume_at = None, we_tenant_id = 3\<rparr>],
     db_workflow_steps := [\<lparr>ws_id = 3, ws_execution_id = 3, ws_action_index = 0, ws_action_type = ''add_history'', ws_state = ''Completed'',
       ws_input_json = JNull, ws_output_json = JNull, ws_error = None, ws_started_at = 0, ws_completed_at = Some 0, ws_compensation_state = None, ws_tenant_id = 3\<rparr>]\<rparr>"

section \<open>Which execution is compensated\<close>

definition has_compensation :: "json \<Rightarrow> bool" where
  "has_compensation v = (case v of JObj action \<Rightarrow> json_true (jget action ''compensate'') | _ \<Rightarrow> False)"

definition compensated :: "json list \<Rightarrow> workflow_step_execution \<Rightarrow> bool" where
  "compensated actions w \<longleftrightarrow>
     (has_compensation (actions ! ws_action_index w) \<longrightarrow> ws_compensation_state w = Some ''Completed'' \<or> ws_compensation_state w = Some ''Failed'')"

lemma compensated_step:
  assumes run: "compensate_step job actions w s = Inr s'" and row: "get_row ws_id (ws_id w) (db_workflow_steps s) = Some w"
    and completed: "ws_state w = ''Completed''"
  shows "(\<exists>w'. get_row ws_id (ws_id w) (db_workflow_steps s') = Some w' \<and> step_core w' = step_core w \<and> compensated actions w')
    \<and> (\<forall>i. i \<noteq> ws_id w \<longrightarrow> get_row ws_id i (db_workflow_steps s') = get_row ws_id i (db_workflow_steps s))"
proof -
  obtain action where a: "as_object (actions ! ws_action_index w) = Inr action" using run by (auto simp: compensate_step_def elim!: bindE_InrE split: if_splits)
  have obj: "actions ! ws_action_index w = JObj action" using a by (cases "actions ! ws_action_index w") auto
  let ?r = "bindE (as_object (jget action ''compensate'')) (\<lambda>c. execute_workflow_action c job (wj_context_json job) s)"
  have frame: "db_workflow_steps s2 = db_workflow_steps s" if "?r = Inr (out, s2)" for out s2 using that execute_frame by (auto elim!: bindE_InrE)
  have saved: ?thesis if "s' = save_step w' s2" "step_core w' = step_core w" "compensated actions w'" "db_workflow_steps s2 = db_workflow_steps s" for w' s2
    using that row by (auto simp: save_step_def get_put_row step_core_def)
  show ?thesis
  proof (cases "json_true (jget action ''compensate'') \<and> ws_compensation_state w \<noteq> Some ''Completed''")
    case False
    then have "s' = s" "compensated actions w" using run obj completed by (auto simp: compensate_step_def compensated_def has_compensation_def split: if_splits)
    then show ?thesis using row by simp
  next
    case True
    show ?thesis
    proof (cases ?r)
      case (Inl e)
      then show ?thesis using run obj completed True
        by (intro saved [of "w\<lparr>ws_compensation_state := Some ''Failed'',
              ws_error := Some (strip (opt [] (ws_error w) @ [char_of (10::nat)] @ ''Compensation: '' @ error_text e))\<rparr>" s])
          (simp_all add: compensate_step_def step_core_def compensated_def split: if_splits)
    next
      case (Inr r)
      then obtain out s2 where r: "?r = Inr (out, s2)" by (cases r) auto
      then show ?thesis using run obj completed True frame [OF r]
        by (intro saved [of "w\<lparr>ws_compensation_state := Some ''Completed''\<rparr>" s2])
          (simp_all add: compensate_step_def step_core_def compensated_def split: if_splits)
    qed
  qed
qed

lemma compensated_steps:
  assumes "foldE (compensate_step job actions) ws s = Inr s'" and "distinct (map ws_id ws)"
    and "\<forall>w \<in> set ws. get_row ws_id (ws_id w) (db_workflow_steps s) = Some w \<and> ws_state w = ''Completed''"
  shows "(\<forall>w \<in> set ws. \<exists>w'. get_row ws_id (ws_id w) (db_workflow_steps s') = Some w' \<and> compensated actions w')
    \<and> (\<forall>i. i \<notin> ws_id ` set ws \<longrightarrow> get_row ws_id i (db_workflow_steps s') = get_row ws_id i (db_workflow_steps s))"
  using assms
proof (induction ws arbitrary: s)
  case (Cons w ws)
  obtain s1 where s1: "compensate_step job actions w s = Inr s1" "foldE (compensate_step job actions) ws s1 = Inr s'"
    using Cons.prems(1) by (auto elim!: bindE_InrE)
  have one: "\<exists>w'. get_row ws_id (ws_id w) (db_workflow_steps s1) = Some w' \<and> compensated actions w'"
      "\<And>i. i \<noteq> ws_id w \<Longrightarrow> get_row ws_id i (db_workflow_steps s1) = get_row ws_id i (db_workflow_steps s)"
    using compensated_step [OF s1(1)] Cons.prems(3) by auto
  have "(\<forall>w \<in> set ws. \<exists>w'. get_row ws_id (ws_id w) (db_workflow_steps s') = Some w' \<and> compensated actions w')
    \<and> (\<forall>i. i \<notin> ws_id ` set ws \<longrightarrow> get_row ws_id i (db_workflow_steps s') = get_row ws_id i (db_workflow_steps s1))"
  proof (rule Cons.IH [OF s1(2)])
    have "ws_id x \<noteq> ws_id w" if "x \<in> set ws" for x using Cons.prems(2) that by (metis distinct.simps(2) image_eqI list.set_map list.simps(9))
    then show "\<forall>x \<in> set ws. get_row ws_id (ws_id x) (db_workflow_steps s1) = Some x \<and> ws_state x = ''Completed''"
      using Cons.prems(3) one(2) by simp
  qed (use Cons.prems(2) in simp)
  then show ?case using one Cons.prems(2) by auto
qed simp

lemma compensation_reaches_steps:
  assumes ok: "engine_ok s" and e: "execution_ok (db_workflow_versions s) (db_workflow_steps s) e"
    and v: "get_row wv_id (we_version_id e) (db_workflow_versions s) = Some v" and run: "compensate_workflow_execution e job s = Inr s'"
    and w: "w \<in> set (own_steps (db_workflow_steps s) (we_id e))"
  shows "\<exists>w'. get_row ws_id (ws_id w) (db_workflow_steps s') = Some w' \<and> compensated (version_actions v) w'"
proof -
  let ?ws = "rev (steps_of s (we_id e))"
  have own: "set ?ws = set (own_steps (db_workflow_steps s) (we_id e))" by (auto simp: steps_of_def own_steps_def)
  have "distinct (map ws_id ?ws)"
    using ok by (auto simp: steps_of_def engine_ok_def distinct_map rev_map [symmetric] inj_on_def)
  moreover have "\<forall>w \<in> set ?ws. get_row ws_id (ws_id w) (db_workflow_steps s) = Some w \<and> ws_state w = ''Completed''"
    unfolding own using ok e v by (auto simp: engine_ok_def execution_ok_def list_all_iff own_steps_def intro!: get_row_distinct)
  ultimately show ?thesis using compensated_steps [of job "version_actions v" ?ws s s'] run v w own by (auto simp: compensate_workflow_execution_def)
qed

lemma compensation_complete:
  assumes "engine_ok s" and "execution_ok (db_workflow_versions s) (db_workflow_steps s) e"
    and "get_row wv_id (we_version_id e) (db_workflow_versions s) = Some v" and "compensate_workflow_execution e job s = Inr s'"
    and ok: "engine_ok s'" and same: "map step_core (db_workflow_steps s') = map step_core (db_workflow_steps s)"
  shows "list_all (compensated (version_actions v)) (own_steps (db_workflow_steps s') (we_id e))"
  unfolding list_all_iff
proof
  fix w' assume w': "w' \<in> set (own_steps (db_workflow_steps s') (we_id e))"
  then have "step_core w' \<in> set (map step_core (own_steps (db_workflow_steps s) (we_id e)))" unfolding own_steps_core [OF same, symmetric] by simp
  then obtain w where w: "w \<in> set (own_steps (db_workflow_steps s) (we_id e))" "ws_id w = ws_id w'" by (auto simp: step_core_def)
  have "get_row ws_id (ws_id w') (db_workflow_steps s') = Some w'"
    by (rule get_row_distinct) (use ok w' in \<open>auto simp: engine_ok_def own_steps_def\<close>)
  then show "compensated (version_actions v) w'" using compensation_reaches_steps [OF assms(1-4) w(1)] w(2) by simp
qed

text \<open>
  C40. When an attempt of a job fails for the fifth time, the handler takes the latest execution row of the job, whatever
  became of it: when that execution had completed, the pass still succeeds for the job, but the execution is turned from
  Completed to Failed with an error that was not its own, and every one of its steps (it had run all its actions) whose
  action names a compensation has been compensated, or its compensation failed, although the execution succeeded.
\<close>

theorem completed_execution_compensated:
  assumes ok: "engine_ok s" and fails: "attempt_job job s = Inl err" and last: "4 \<le> wj_attempts job"
    and e: "last_execution s (wj_id job) = Some e" and complete: "we_state e = ''Completed''"
    and v: "get_row wv_id (we_version_id e) (db_workflow_versions s) = Some v"
  shows "\<exists>s'. process_workflow_job job s = Inr s'
    \<and> get_row we_id (we_id e) (db_workflow_executions s')
      = Some (e\<lparr>we_state := ''Failed'', we_error := Some (take 2000 (error_text err)), we_completed_at := Some (db_clock s)\<rparr>)
    \<and> map ws_action_index (own_steps (db_workflow_steps s') (we_id e)) = [0..<length (version_actions v)]
    \<and> list_all (compensated (version_actions v)) (own_steps (db_workflow_steps s') (we_id e))"
proof -
  define j where "j = job\<lparr>wj_attempts := wj_attempts job + 1, wj_last_error := Some (take 2000 (error_text err)), wj_state := ''Dead''\<rparr>"
  define f where "f = e\<lparr>we_error := Some (take 2000 (error_text err)), we_state := ''Failed'', we_completed_at := Some (db_clock s)\<rparr>"
  define s1 where "s1 = save_execution f (save_job j s)"
  note row = last_execution_row [OF e]
  have m: "engine_ok s1 \<and> f \<in> set (db_workflow_executions s1) \<and> step_frame (save_job j s) s1 \<and> progressed (save_job j s) s1"
    unfolding s1_def by (rule marked_execution [of _ e]) (use ok row in \<open>auto simp: f_def save_job_def engine_ok_def\<close>)
  obtain s' where c: "compensate_workflow_execution f j s1 = Inr s'" "engine_ok s'" "db_workflow_executions s' = db_workflow_executions s1"
      "map step_core (db_workflow_steps s') = map step_core (db_workflow_steps s1)"
    using compensation_ok [of s1 f j] m by blast
  have tables: "db_workflow_versions s1 = db_workflow_versions s" "db_workflow_steps s1 = db_workflow_steps s"
    by (simp_all add: s1_def save_execution_def save_job_def)
  have ids: "we_id f = we_id e" "we_version_id f = we_version_id e" "we_next_action_index f = we_next_action_index e" by (simp_all add: f_def)
  have e_ok: "execution_ok (db_workflow_versions s) (db_workflow_steps s) e" using ok row by (simp add: engine_ok_def list_all_iff)
  have f_ok: "execution_ok (db_workflow_versions s1) (db_workflow_steps s1) f" using m by (simp add: engine_ok_def list_all_iff)
  have all: "map ws_action_index (own_steps (db_workflow_steps s) (we_id e)) = [0..<length (version_actions v)]"
    using e_ok complete v by (simp add: execution_ok_def)
  have "list_all (compensated (version_actions v)) (own_steps (db_workflow_steps s') (we_id e))"
    using compensation_complete [OF _ f_ok _ c(1,2,4), of v] m v tables ids by simp
  moreover have "map ws_action_index (own_steps (db_workflow_steps s') (we_id e)) = [0..<length (version_actions v)]"
    using step_core_maps(3) [OF own_steps_core [OF c(4), of "we_id e"]] all tables by simp
  moreover have "get_row we_id (we_id e) (db_workflow_executions s') = Some f"
    using get_row_distinct [of we_id "db_workflow_executions s1" f] m c(3) ids by (simp add: engine_ok_def)
  moreover have "process_workflow_job job s = Inr s'"
    using fails last e c(1) by (simp add: process_workflow_job_def job_failed_def Let_def j_def f_def s1_def)
  moreover have "f = e\<lparr>we_state := ''Failed'', we_error := Some (take 2000 (error_text err)), we_completed_at := Some (db_clock s)\<rparr>"
    by (cases e) (simp add: f_def)
  ultimately show ?thesis by auto
qed

theorem completed_execution_compensated_witness:
  "\<exists>s'. process_workflow_job (hd (db_workflow_jobs example_two_workflows)) example_two_workflows = Inr s'
    \<and> map_option we_state (get_row we_id 3 (db_workflow_executions s')) = Some ''Failed''
    \<and> length (own_steps (db_workflow_steps s') 3) = Suc 0
    \<and> list_all (\<lambda>w. ws_compensation_state w = Some ''Completed'' \<or> ws_compensation_state w = Some ''Failed'') (own_steps (db_workflow_steps s') 3)"
proof -
  let ?s = example_two_workflows
  let ?job = "hd (db_workflow_jobs ?s)" and ?e = "hd (db_workflow_executions ?s)" and ?v = "hd (db_workflow_versions ?s)"
  have "isl (attempt_job ?job ?s)" by code_simp
  then obtain err where err: "attempt_job ?job ?s = Inl err" by (cases "attempt_job ?job ?s") auto
  have facts: "engine_ok ?s" "4 \<le> wj_attempts ?job" "we_state ?e = ''Completed''" "we_id ?e = 3" by code_simp+
  have rows: "last_execution ?s (wj_id ?job) = Some ?e" "get_row wv_id (we_version_id ?e) (db_workflow_versions ?s) = Some ?v"
    by (simp_all add: example_two_workflows_def last_execution_def get_row_Cons)
  have acts: "length (version_actions ?v) = Suc 0" "list_all has_compensation (version_actions ?v)" by code_simp+
  obtain s' where s': "process_workflow_job ?job ?s = Inr s'" "get_row we_id (we_id ?e) (db_workflow_executions s')
        = Some (?e\<lparr>we_state := ''Failed'', we_error := Some (take 2000 (error_text err)), we_completed_at := Some (db_clock ?s)\<rparr>)"
      "map ws_action_index (own_steps (db_workflow_steps s') (we_id ?e)) = [0..<length (version_actions ?v)]"
      "list_all (compensated (version_actions ?v)) (own_steps (db_workflow_steps s') (we_id ?e))"
    using completed_execution_compensated [OF facts(1) err facts(2) rows(1) facts(3) rows(2)] by blast
  have "ws_action_index w = 0" if "w \<in> set (own_steps (db_workflow_steps s') 3)" for w
  proof -
    have "ws_action_index w \<in> set (map ws_action_index (own_steps (db_workflow_steps s') 3))" using that by simp
    then show ?thesis using s'(3) acts(1) facts(4) by (simp del: set_map)
  qed
  moreover have "has_compensation (version_actions ?v ! 0)" using acts by (simp add: list_all_length)
  ultimately have "list_all (\<lambda>w. ws_compensation_state w = Some ''Completed'' \<or> ws_compensation_state w = Some ''Failed'') (own_steps (db_workflow_steps s') 3)"
    using s'(4) facts(4) by (simp add: list_all_iff compensated_def)
  moreover have "length (own_steps (db_workflow_steps s') 3) = Suc 0" using arg_cong [OF s'(3), of length] acts(1) facts(4) by simp
  ultimately show ?thesis using s'(1,2) facts(4) by auto
qed

end
