(* ===== verification/Mobile_Pagination.thy ===== *)
theory Mobile_Pagination
  imports Workflow Numbering Platform "HOL-Library.Multiset"
begin

text \<open>
  Keyset pagination of the mobile API (\<^verbatim>\<open>serviceops_core/mobile_pagination.py\<close>): the limit, the signed cursor with its
  scope and typed values, the filter behind the cursor and the page that is returned. The signer of the library
  \<^verbatim>\<open>itsdangerous\<close> and the order of texts in the database (its collation) are parameters. Times travel as ISO texts;
  \<open>fromisoformat\<close> is modelled on the texts that \<open>isoformat\<close> writes, the only ones a signed cursor can hold.
\<close>

section \<open>ISO texts back to times\<close>

text \<open>A fixed number of digits, and a fixed text, at the start.\<close>

definition iso_digits :: "nat \<Rightarrow> string \<Rightarrow> (int \<times> string) option" where
  "iso_digits w s = (if w \<le> length s \<and> list_all is_digit (take w s) then Some (int (digits_value (take w s)), drop w s) else None)"

definition iso_text :: "string \<Rightarrow> string \<Rightarrow> string option" where
  "iso_text t s = (if starts_with t s then Some (drop (length t) s) else None)"

definition fromisoformat :: "string \<Rightarrow> datetime option" where
  "fromisoformat s =
     Option.bind (iso_digits 4 s) (\<lambda>(y, r). Option.bind (iso_text ''-'' r) (\<lambda>r.
     Option.bind (iso_digits 2 r) (\<lambda>(m, r). Option.bind (iso_text ''-'' r) (\<lambda>r.
     Option.bind (iso_digits 2 r) (\<lambda>(d, r). Option.bind (iso_text ''T'' r) (\<lambda>r.
     Option.bind (iso_digits 2 r) (\<lambda>(hh, r). Option.bind (iso_text '':'' r) (\<lambda>r.
     Option.bind (iso_digits 2 r) (\<lambda>(mm, r). Option.bind (iso_text '':'' r) (\<lambda>r.
     Option.bind (iso_digits 2 r) (\<lambda>(ss, r).
     Option.bind (case iso_text ''.'' r of None \<Rightarrow> Some (0, r) | Some r \<Rightarrow> iso_digits 6 r) (\<lambda>(frac, r).
       let t = ((days_from_civil y m d * 24 + hh) * 60 + mm) * 60000000 + ss * 1000000 + frac
       in if r = ''+00:00'' \<and> isoformat t = s then Some t else None))))))))))))"

lemma year_range:
  fixes doe :: int
  assumes "0 \<le> b" "b \<le> 3" "36524 * b \<le> doe" "doe < 36524 * b + 36524" "1460 * a \<le> doe" "doe < 1460 * a + 1460"
    "365 * y \<le> doe - a + b" "doe - a + b < 365 * y + 365"
  shows "100 * b \<le> y \<and> y < 100 * b + 100"
proof -
  have "b = 0 \<or> b = 1 \<or> b = 2 \<or> b = 3" using assms(1,2) by linarith
  then show ?thesis using assms by (elim disjE) (simp; linarith)+
qed

lemma day_range:
  fixes doe :: int
  assumes "0 \<le> b" "b \<le> 3" "36524 * b \<le> doe" "doe < 36524 * b + 36524" "1460 * a \<le> doe" "doe < 1460 * a + 1460"
    "365 * y \<le> doe - a + b" "doe - a + b < 365 * y + 365" "4 * q \<le> y" "y < 4 * q + 4"
  shows "365 * y + q - b \<le> doe \<and> doe \<le> 365 * y + q - b + 365"
proof -
  have "b = 0 \<or> b = 1 \<or> b = 2 \<or> b = 3" using assms(1,2) by linarith
  then show ?thesis using assms by (elim disjE) (simp; presburger)+
qed

text \<open>The year of the era and the day of the year computed from a day of the era.\<close>

lemma era_day:
  fixes doe :: int
  assumes "0 \<le> doe" and "doe < 146097"
  defines "yoe \<equiv> (doe - doe div 1460 + doe div 36524 - doe div 146096) div 365"
  shows "0 \<le> yoe \<and> yoe < 400" and "0 \<le> doe - (365 * yoe + yoe div 4 - yoe div 100)" and "doe - (365 * yoe + yoe div 4 - yoe div 100) \<le> 365"
proof -
  have "(0 \<le> yoe \<and> yoe < 400) \<and> 0 \<le> doe - (365 * yoe + yoe div 4 - yoe div 100) \<and> doe - (365 * yoe + yoe div 4 - yoe div 100) \<le> 365"
  proof (cases "doe = 146096")
    case True
    then show ?thesis by (simp add: yoe_def)
  next
    case False
    let ?b = "doe div 36524" and ?a = "doe div 1460"
    have c: "doe div 146096 = 0" using assms(1,2) False by simp
    have parts: "k * (x div k) \<le> x" "x < k * (x div k) + k" if "0 < k" for x k :: int
    proof -
      have "k * (x div k) + x mod k = x" "0 \<le> x mod k" "x mod k < k" using \<open>0 < k\<close> by simp_all
      then show "k * (x div k) \<le> x" "x < k * (x div k) + k" by linarith+
    qed
    have b': "36524 * ?b \<le> doe" "doe < 36524 * ?b + 36524" by (rule parts; simp)+
    then have b: "0 \<le> ?b" "?b \<le> 3" "36524 * ?b \<le> doe" "doe < 36524 * ?b + 36524" using assms(1,2) False by linarith+
    have a: "1460 * ?a \<le> doe" "doe < 1460 * ?a + 1460" by (rule parts; simp)+
    have y: "365 * yoe \<le> doe - ?a + ?b" "doe - ?a + ?b < 365 * yoe + 365"
      using parts [of 365 "doe - ?a + ?b"] by (simp_all add: yoe_def c)
    have r: "100 * ?b \<le> yoe \<and> yoe < 100 * ?b + 100" by (rule year_range [OF b a y])
    have "100 * (yoe div 100) \<le> yoe" "yoe < 100 * (yoe div 100) + 100" by (rule parts; simp)+
    with r have h: "yoe div 100 = ?b" by linarith
    have q: "4 * (yoe div 4) \<le> yoe" "yoe < 4 * (yoe div 4) + 4" by (rule parts; simp)+
    show ?thesis using day_range [OF b a y q] r b(1,2) h by auto
  qed
  then show "0 \<le> yoe \<and> yoe < 400" "0 \<le> doe - (365 * yoe + yoe div 4 - yoe div 100)" "doe - (365 * yoe + yoe div 4 - yoe div 100) \<le> 365" by auto
qed

lemma civil_days:
  assumes "civil_from_days n = (y, m, d)"
  shows "days_from_civil y m d = n" and "1 \<le> m \<and> m \<le> 12" and "1 \<le> d \<and> d \<le> 31"
proof -
  define z where "z = n + 719468"
  define doe where "doe = z mod 146097"
  define yoe where "yoe = (doe - doe div 1460 + doe div 36524 - doe div 146096) div 365"
  define doy where "doy = doe - (365 * yoe + yoe div 4 - yoe div 100)"
  define mp where "mp = (5 * doy + 2) div 153"
  have doe: "0 \<le> doe" "doe < 146097" by (simp_all add: doe_def)
  have yoe: "0 \<le> yoe" "yoe < 400" and doy: "0 \<le> doy" "doy \<le> 365" 
    using era_day [OF doe, folded yoe_def, folded doy_def] by auto
  have "153 * mp + (5 * doy + 2) mod 153 = 5 * doy + 2" "0 \<le> (5 * doy + 2) mod 153" "(5 * doy + 2) mod 153 < 153"
    by (simp_all add: mp_def)
  then have mp': "153 * mp \<le> 5 * doy + 2" "5 * doy + 2 < 153 * mp + 153" by linarith+
  then have mp: "0 \<le> mp" "mp \<le> 11" using doy by linarith+
  have z: "z = z div 146097 * 146097 + doe" by (simp add: doe_def)
  have d: "d = doy - (153 * mp + 2) div 5 + 1" and m: "m = (if mp < 10 then mp + 3 else mp - 9)"
    and y: "y = yoe + z div 146097 * 400 + (if m \<le> 2 then 1 else 0)"
    using assms [unfolded civil_from_days_def Let_def, folded z_def, folded doe_def, folded yoe_def, folded doy_def, folded mp_def]
    by (auto simp only: prod.inject)
  have early: "m \<le> 2 \<longleftrightarrow> 10 \<le> mp" and month: "(if m > 2 then m - 3 else m + 9) = mp" using m mp by auto
  have year: "(if m \<le> 2 then y - 1 else y) = z div 146097 * 400 + yoe" using y by simp
  then have "(if m \<le> 2 then y - 1 else y) div 400 = z div 146097" "(if m \<le> 2 then y - 1 else y) mod 400 = yoe" using yoe by simp_all
  then have "days_from_civil y m d = z div 146097 * 146097 + (yoe * 365 + yoe div 4 - yoe div 100 + ((153 * mp + 2) div 5 + d - 1)) - 719468"
    unfolding days_from_civil_def Let_def month by simp
  also have "\<dots> = z div 146097 * 146097 + doe - 719468" by (simp add: d doy_def)
  also have "\<dots> = n" using z by (simp add: z_def)
  finally show "days_from_civil y m d = n" .
  show "1 \<le> m \<and> m \<le> 12" using m mp by auto
  have "5 * ((153 * mp + 2) div 5) + (153 * mp + 2) mod 5 = 153 * mp + 2" "0 \<le> (153 * mp + 2) mod 5" "(153 * mp + 2) mod 5 < 5" by simp_all
  then have "0 \<le> doy - (153 * mp + 2) div 5" "doy - (153 * mp + 2) div 5 \<le> 30" using mp' by linarith+
  then show "1 \<le> d \<and> d \<le> 31" using d by simp
qed

lemma show_nat_length: "0 < w \<Longrightarrow> n < 10 ^ w \<Longrightarrow> length (show_nat n) \<le> w"
proof (induction w arbitrary: n)
  case (Suc w)
  show ?case
  proof (cases "n < 10")
    case True
    then show ?thesis by (subst show_nat.simps) simp
  next
    case False
    then have "0 < w" using Suc.prems by (cases w) auto
    moreover have "n div 10 < 10 ^ w" using Suc.prems by (simp add: less_mult_imp_div_less mult.commute)
    ultimately show ?thesis using Suc.IH False by (subst show_nat.simps) simp
  qed
qed simp

lemma pad_parts:
  assumes "0 \<le> n" and "n < 10 ^ w" and "0 < w"
  shows "length (show_pad w n) = w" and "list_all is_digit (show_pad w n)" and "int (digits_value (show_pad w n)) = n"
proof -
  have "nat n < 10 ^ w" using assms(1,2) by (simp add: nat_less_iff)
  then have "length (show_nat (nat n)) \<le> w" by (rule show_nat_length [OF assms(3)])
  then show "length (show_pad w n) = w" by (simp add: show_pad_def pad0_def)
  show "list_all is_digit (show_pad w n)" using show_nat_digits by (auto simp: show_pad_def pad0_def list_all_iff is_digit_def)
  show "int (digits_value (show_pad w n)) = n" using assms(1) by (simp add: show_pad_def pad0_def digits_value_zeros digits_value_show)
qed

lemma iso_digits_pad: "0 \<le> n \<Longrightarrow> n < 10 ^ w \<Longrightarrow> 0 < w \<Longrightarrow> iso_digits w (show_pad w n @ r) = Some (n, r)"
  using pad_parts [of n w] by (simp add: iso_digits_def)

lemma iso_text_append [simp]: "iso_text t (t @ r) = Some r"
  by (simp add: iso_text_def starts_with_def)

text \<open>The range of Python's \<^verbatim>\<open>datetime\<close>.\<close>

definition datetime_ok :: "datetime \<Rightarrow> bool" where
  "datetime_ok t \<longleftrightarrow> (case civil_from_days (t div 86400000000) of (y, m, d) \<Rightarrow> 1 \<le> y \<and> y \<le> 9999)"

lemma isoformat_roundtrip:
  assumes "datetime_ok t"
  shows "fromisoformat (isoformat t) = Some t"
proof -
  obtain y m d where c: "civil_from_days (t div 86400000000) = (y, m, d)" by (cases "civil_from_days (t div 86400000000)")
  define us where "us = t mod 86400000000"
  define secs where "secs = us div 1000000"
  define frac where "frac = us mod 1000000"
  have us: "0 \<le> us" "us < 86400000000" by (simp_all add: us_def)
  have split: "us = secs * 1000000 + frac" "0 \<le> frac" "frac < 1000000" by (simp_all add: secs_def frac_def)
  then have secs: "0 \<le> secs" "secs < 86400" using us by linarith+
  have hms: "secs = (secs div 3600 * 60 + secs div 60 mod 60) * 60 + secs mod 60" "0 \<le> secs div 3600" "secs div 3600 < 24"
      "0 \<le> secs div 60 mod 60" "secs div 60 mod 60 < 60" "0 \<le> secs mod 60" "secs mod 60 < 60"
  proof -
    have "secs div 3600 = secs div 60 div 60" using zdiv_zmult2_eq [of 60 secs 60] by simp
    moreover have "secs = secs div 60 * 60 + secs mod 60" "secs div 60 = secs div 60 div 60 * 60 + secs div 60 mod 60" by simp_all
    ultimately show "secs = (secs div 3600 * 60 + secs div 60 mod 60) * 60 + secs mod 60" by simp
  qed (use secs in auto)
  note date = civil_days [OF c]
  have y: "1 \<le> y" "y \<le> 9999" using assms c by (simp_all add: datetime_ok_def)
  have t: "t = t div 86400000000 * 86400000000 + us" by (simp add: us_def)
  let ?h = "secs div 3600" and ?mi = "secs div 60 mod 60" and ?s = "secs mod 60"
  have time: "((days_from_civil y m d * 24 + ?h) * 60 + ?mi) * 60000000 + ?s * 1000000 + frac = t"
  proof -
    have "((k * 24 + ?h) * 60 + ?mi) * 60000000 + ?s * 1000000 = k * 86400000000 + ((?h * 60 + ?mi) * 60 + ?s) * 1000000" for k :: int
      by (simp add: algebra_simps)
    then show ?thesis using t date(1) split(1) hms(1) by simp
  qed
  let ?tail = "(if frac = 0 then [] else ''.'' @ show_pad 6 frac) @ ''+00:00''"
  have iso: "isoformat t = show_pad 4 y @ ''-'' @ show_pad 2 m @ ''-'' @ show_pad 2 d @ ''T'' @ show_pad 2 ?h @ '':'' @ show_pad 2 ?mi @ '':''
      @ show_pad 2 ?s @ ?tail"
    by (simp add: isoformat_def c Let_def us_def secs_def frac_def)
  have p1: "iso_digits 4 (show_pad 4 y @ r) = Some (y, r)" for r using y by (intro iso_digits_pad) simp_all
  have p2: "iso_digits 2 (show_pad 2 m @ r) = Some (m, r)" for r using date(2) by (intro iso_digits_pad) simp_all
  have p3: "iso_digits 2 (show_pad 2 d @ r) = Some (d, r)" for r using date(3) by (intro iso_digits_pad) simp_all
  have p4: "iso_digits 2 (show_pad 2 n @ r) = Some (n, r)" if "0 \<le> n" "n < 60" for r n using that by (intro iso_digits_pad) simp_all
  have h: "?h < 60" using hms(3) by linarith
  note p5 = p4 [OF hms(2) h] p4 [OF hms(4,5)] p4 [OF hms(6,7)]
  have p6: "iso_digits 6 (show_pad 6 frac @ r) = Some (frac, r)" for r using split(2,3) by (intro iso_digits_pad) simp_all
  note pads = p1 p2 p3 p5
  have tail: "(case iso_text ''.'' ?tail of None \<Rightarrow> Some (0, ?tail) | Some r \<Rightarrow> iso_digits 6 r) = Some (frac, ''+00:00'')"
    using p6 [of "''+00:00''"] by (simp add: iso_text_def starts_with_def)
  show ?thesis
    unfolding fromisoformat_def iso by (simp only: pads iso_text_append Option.bind.bind_lunit prod.case tail Let_def time) (simp add: iso)
qed

section \<open>Columns and their order\<close>

datatype cell = CInt int | CStr string | CTime datetime

datatype kind = KInt | KStr | KTime

text \<open>An entry of the ordering: the SQL column, whether it is descending, the accessor on the fetched row, and the type of its values.\<close>

record 'r sort_column =
  sc_column :: "'r \<Rightarrow> cell"
  sc_descending :: bool
  sc_accessor :: "'r \<Rightarrow> cell"
  sc_kind :: kind

fun cell_less :: "(string \<Rightarrow> string \<Rightarrow> bool) \<Rightarrow> cell \<Rightarrow> cell \<Rightarrow> bool" where
  "cell_less collation (CInt a) (CInt b) = (a < b)"
| "cell_less collation (CStr a) (CStr b) = collation a b"
| "cell_less collation (CTime a) (CTime b) = (a < b)"
| "cell_less collation _ _ = False"

definition column_before :: "(string \<Rightarrow> string \<Rightarrow> bool) \<Rightarrow> 'r sort_column \<Rightarrow> cell \<Rightarrow> cell \<Rightarrow> bool" where
  "column_before collation c a b = (if sc_descending c then cell_less collation b a else cell_less collation a b)"

text \<open>\<^verbatim>\<open>order_by(*columns)\<close>: rows in the order of the columns, the first one first.\<close>

fun row_before :: "(string \<Rightarrow> string \<Rightarrow> bool) \<Rightarrow> 'r sort_column list \<Rightarrow> 'r \<Rightarrow> 'r \<Rightarrow> bool" where
  "row_before collation [] a b = False"
| "row_before collation (c # cs) a b =
     (column_before collation c (sc_column c a) (sc_column c b) \<or> sc_column c a = sc_column c b \<and> row_before collation cs a b)"

fun insert_row :: "(string \<Rightarrow> string \<Rightarrow> bool) \<Rightarrow> 'r sort_column list \<Rightarrow> 'r \<Rightarrow> 'r list \<Rightarrow> 'r list" where
  "insert_row collation columns x [] = [x]"
| "insert_row collation columns x (y # ys) =
     (if row_before collation columns y x then y # insert_row collation columns x ys else x # y # ys)"

definition order_by :: "(string \<Rightarrow> string \<Rightarrow> bool) \<Rightarrow> 'r sort_column list \<Rightarrow> 'r list \<Rightarrow> 'r list" where
  "order_by collation columns rows = foldr (insert_row collation columns) rows []"

section \<open>The cursor\<close>

text \<open>What the handler reads of the request and of the signed-in user.\<close>

record page_request =
  pr_limit :: "string option"
  pr_cursor :: "string option"
  pr_q :: "string option"
  pr_path :: string
  pr_tenant_id :: nat
  pr_user_id :: nat

definition page_limit :: "page_request \<Rightarrow> nat result" where
  "page_limit req =
     (let raw = opt ''100'' (pr_limit req) in
      if length raw > 3 \<or> raw = [] \<or> \<not> list_all is_digit raw \<or> \<not> (1 \<le> digits_value raw \<and> digits_value raw \<le> 100)
      then Inl (Abort 400 ''limit must be an integer between 1 and 100.'')
      else Inr (digits_value raw))"

definition cursor_scope :: "page_request \<Rightarrow> json" where
  "cursor_scope req = JList [JInt (int (pr_tenant_id req)), JInt (int (pr_user_id req)), JStr (pr_path req), JStr (strip (opt [] (pr_q req)))]"

text \<open>\<^verbatim>\<open>payload[key]\<close>, and the items \<^verbatim>\<open>zip\<close> takes from a value that has a length.\<close>

fun payload_item :: "json \<Rightarrow> string \<Rightarrow> json result" where
  "payload_item (JObj obj) k = jitem obj k"
| "payload_item v k = Inl (TypeError ''indices must be integers'')"

fun sized_items :: "json \<Rightarrow> json list result" where
  "sized_items (JList xs) = Inr xs"
| "sized_items (JStr s) = Inr (map (\<lambda>c. JStr [c]) s)"
| "sized_items (JObj obj) = Inr (map (\<lambda>(k, v). JStr k) obj)"
| "sized_items v = Inl (TypeError ''object has no len()'')"

fun cursor_value :: "kind \<Rightarrow> json \<Rightarrow> cell result" where
  "cursor_value KTime (JStr s) = (case fromisoformat s of None \<Rightarrow> Inl (ValueError ''Invalid isoformat string'') | Some t \<Rightarrow> Inr (CTime t))"
| "cursor_value KTime _ = Inl (ValueError ''Invalid date'')"
| "cursor_value KInt (JInt n) = Inr (CInt n)"
| "cursor_value KStr (JStr s) = Inr (CStr s)"
| "cursor_value _ _ = Inl (ValueError ''Invalid cursor value'')"

fun cursor_values :: "json list \<Rightarrow> 'r sort_column list \<Rightarrow> cell list result" where
  "cursor_values (v # vs) (c # cs) = bindE (cursor_value (sc_kind c) v) (\<lambda>x. bindE (cursor_values vs cs) (\<lambda>xs. Inr (x # xs)))"
| "cursor_values _ _ = Inr []"

definition read_cursor :: "(string \<Rightarrow> json result) \<Rightarrow> page_request \<Rightarrow> 'r sort_column list \<Rightarrow> string \<Rightarrow> cell list result" where
  "read_cursor loads req columns token =
     (if length token > 4096 then Inl (ValueError ''Oversized cursor'')
      else bindE (loads token) (\<lambda>payload.
        bindE (payload_item payload ''scope'') (\<lambda>scope.
        if \<not> json_eq scope (cursor_scope req) then Inl (ValueError ''Cursor scope mismatch'')
        else bindE (payload_item payload ''values'') (\<lambda>values.
          bindE (sized_items values) (\<lambda>items.
          if length items \<noteq> length columns then Inl (ValueError ''Cursor scope mismatch'')
          else cursor_values items columns)))))"

text \<open>The rows behind the cursor: the \<^verbatim>\<open>or_\<close> of one conjunction per column.\<close>

definition keyset_term :: "(string \<Rightarrow> string \<Rightarrow> bool) \<Rightarrow> 'r sort_column list \<Rightarrow> cell list \<Rightarrow> nat \<Rightarrow> 'r \<Rightarrow> bool" where
  "keyset_term collation columns values index row \<longleftrightarrow>
     list_all (\<lambda>n. sc_column (columns ! n) row = values ! n) [0..<index]
     \<and> (if sc_descending (columns ! index) then cell_less collation (sc_column (columns ! index) row) (values ! index)
        else cell_less collation (values ! index) (sc_column (columns ! index) row))"

definition keyset_filter :: "(string \<Rightarrow> string \<Rightarrow> bool) \<Rightarrow> 'r sort_column list \<Rightarrow> cell list \<Rightarrow> 'r \<Rightarrow> bool" where
  "keyset_filter collation columns values row \<longleftrightarrow>
     columns = [] \<or> list_ex (\<lambda>index. keyset_term collation columns values index row) [0..<length columns]"

section \<open>The page\<close>

record page_meta =
  pm_limit :: nat
  pm_returned :: nat
  pm_has_more :: bool
  pm_next_cursor :: "string option"

fun cell_json :: "cell \<Rightarrow> json" where
  "cell_json (CInt n) = JInt n"
| "cell_json (CStr s) = JStr s"
| "cell_json (CTime t) = JStr (isoformat t)"

definition cursor_payload :: "page_request \<Rightarrow> 'r sort_column list \<Rightarrow> 'r \<Rightarrow> json" where
  "cursor_payload req columns row =
     JObj [(''scope'', cursor_scope req), (''values'', JList (map (\<lambda>c. cell_json (sc_accessor c row)) columns))]"

text \<open>The rows of the query behind the cursor of the request, if it has one.\<close>

definition cursor_rows ::
    "(string \<Rightarrow> json result) \<Rightarrow> (string \<Rightarrow> string \<Rightarrow> bool) \<Rightarrow> page_request \<Rightarrow> 'r sort_column list \<Rightarrow> 'r list \<Rightarrow> 'r list result" where
  "cursor_rows loads collation req columns query =
     (let token = opt [] (pr_cursor req) in
      if token = [] then Inr query
      else (case read_cursor loads req columns token of
              Inl e \<Rightarrow> Inl (Abort 400 ''Invalid cursor for this list.'')
            | Inr values \<Rightarrow> Inr (filter (keyset_filter collation columns values) query)))"

definition paginate ::
    "(json \<Rightarrow> string) \<Rightarrow> (string \<Rightarrow> json result) \<Rightarrow> (string \<Rightarrow> string \<Rightarrow> bool) \<Rightarrow> page_request \<Rightarrow> 'r list \<Rightarrow> 'r sort_column list
     \<Rightarrow> ('r list \<times> page_meta) result" where
  "paginate dumps loads collation req query columns =
     bindE (page_limit req) (\<lambda>limit.
     bindE (cursor_rows loads collation req columns query) (\<lambda>behind.
     let found = take (limit + 1) (order_by collation columns behind);
         rows = take limit found;
         has_more = (length found > limit)
     in Inr (rows, \<lparr>pm_limit = limit, pm_returned = length rows, pm_has_more = has_more,
          pm_next_cursor = (if has_more then Some (dumps (cursor_payload req columns (last rows))) else None)\<rparr>)))"

text \<open>A client that follows the cursors: at most \<open>n\<close> requests, \<open>None\<close> when there is still a next page.\<close>

fun all_pages ::
    "(json \<Rightarrow> string) \<Rightarrow> (string \<Rightarrow> json result) \<Rightarrow> (string \<Rightarrow> string \<Rightarrow> bool) \<Rightarrow> 'r list \<Rightarrow> 'r sort_column list \<Rightarrow> nat \<Rightarrow> page_request
     \<Rightarrow> ('r list list) result option" where
  "all_pages dumps loads collation query columns 0 req = None"
| "all_pages dumps loads collation query columns (Suc n) req =
     (case paginate dumps loads collation req query columns of
        Inl e \<Rightarrow> Some (Inl e)
      | Inr (rows, meta) \<Rightarrow>
          (case pm_next_cursor meta of
             None \<Rightarrow> Some (Inr [rows])
           | Some token \<Rightarrow>
               map_option (map_sum id (\<lambda>pages. rows # pages))
                 (all_pages dumps loads collation query columns n (req\<lparr>pr_cursor := Some token\<rparr>))))"

section \<open>Every row once, in order\<close>

text \<open>What the theorem asks of the texts' order (a collation that tells different texts apart) and of the ordering on the rows of a query.\<close>

definition collation_ok :: "(string \<Rightarrow> string \<Rightarrow> bool) \<Rightarrow> bool" where
  "collation_ok collation \<longleftrightarrow> irreflp collation \<and> transp collation \<and> totalp collation"

fun cell_of_kind :: "kind \<Rightarrow> cell \<Rightarrow> bool" where
  "cell_of_kind KInt (CInt n) = True"
| "cell_of_kind KStr (CStr s) = True"
| "cell_of_kind KTime (CTime t) = datetime_ok t"
| "cell_of_kind _ _ = False"

definition columns_ok :: "'r sort_column list \<Rightarrow> 'r list \<Rightarrow> bool" where
  "columns_ok columns rows \<longleftrightarrow>
     list_all (\<lambda>c. list_all (\<lambda>r. sc_accessor c r = sc_column c r \<and> cell_of_kind (sc_kind c) (sc_column c r)) rows) columns
     \<and> distinct (map (\<lambda>r. map (\<lambda>c. sc_column c r) columns) rows)"

lemma cell_less_order:
  assumes "collation_ok collation"
  shows "\<not> cell_less collation a a"
    and "cell_less collation a b \<Longrightarrow> cell_less collation b c \<Longrightarrow> cell_less collation a c"
    and "cell_of_kind k a \<Longrightarrow> cell_of_kind k b \<Longrightarrow> a = b \<or> cell_less collation a b \<or> cell_less collation b a"
proof -
  have o: "irreflp collation" "transp collation" "totalp collation" using assms by (simp_all add: collation_ok_def)
  show "\<not> cell_less collation a a" using irreflpD [OF o(1)] by (cases a) auto
  show "cell_less collation a b \<Longrightarrow> cell_less collation b c \<Longrightarrow> cell_less collation a c"
    by (cases a; cases b; cases c; simp) (erule (1) transpD [OF o(2)])
  show "cell_of_kind k a \<Longrightarrow> cell_of_kind k b \<Longrightarrow> a = b \<or> cell_less collation a b \<or> cell_less collation b a"
  proof -
    have "x = y \<or> collation x y \<or> collation y x" for x y using totalpD [OF o(3), of x y] by blast
    then show "cell_of_kind k a \<Longrightarrow> cell_of_kind k b \<Longrightarrow> a = b \<or> cell_less collation a b \<or> cell_less collation b a"
      by (cases k; cases a; cases b; simp; linarith)
  qed
qed

lemma column_before_order:
  assumes "collation_ok collation"
  shows "\<not> column_before collation c a a"
    and "column_before collation c a b \<Longrightarrow> column_before collation c b d \<Longrightarrow> column_before collation c a d"
    and "cell_of_kind k a \<Longrightarrow> cell_of_kind k b \<Longrightarrow> a = b \<or> column_before collation c a b \<or> column_before collation c b a"
proof -
  show "\<not> column_before collation c a a" by (simp add: column_before_def cell_less_order(1) [OF assms])
  show "column_before collation c a b \<Longrightarrow> column_before collation c b d \<Longrightarrow> column_before collation c a d"
    unfolding column_before_def by (auto split: if_splits intro: cell_less_order(2) [OF assms])
  show "cell_of_kind k a \<Longrightarrow> cell_of_kind k b \<Longrightarrow> a = b \<or> column_before collation c a b \<or> column_before collation c b a"
    using cell_less_order(3) [OF assms, of k a b] unfolding column_before_def by (auto split: if_splits)
qed

lemma row_before_irrefl: "collation_ok collation \<Longrightarrow> \<not> row_before collation columns a a"
  by (induction columns) (auto simp: column_before_order)

lemma row_before_trans:
  "collation_ok collation \<Longrightarrow> row_before collation columns a b \<Longrightarrow> row_before collation columns b c \<Longrightarrow> row_before collation columns a c"
  by (induction columns) (auto dest: column_before_order(2))

lemma row_before_total:
  "collation_ok collation \<Longrightarrow> list_all (\<lambda>c. cell_of_kind (sc_kind c) (sc_column c a) \<and> cell_of_kind (sc_kind c) (sc_column c b)) columns
   \<Longrightarrow> map (\<lambda>c. sc_column c a) columns \<noteq> map (\<lambda>c. sc_column c b) columns \<Longrightarrow> row_before collation columns a b \<or> row_before collation columns b a"
  by (induction columns) (auto dest: column_before_order(3))

lemma mset_insert_row [simp]: "mset (insert_row collation columns x ys) = add_mset x (mset ys)"
  by (induction ys) auto

lemma mset_order_by: "mset (order_by collation columns rows) = mset rows"
  by (induction rows) (simp_all add: order_by_def)

lemma columns_ok_total:
  assumes "collation_ok collation" and "columns_ok columns rows" and "i < length rows" and "j < length rows" and "i \<noteq> j"
  shows "row_before collation columns (rows ! i) (rows ! j) \<or> row_before collation columns (rows ! j) (rows ! i)"
proof (rule row_before_total [OF assms(1)])
  show "list_all (\<lambda>c. cell_of_kind (sc_kind c) (sc_column c (rows ! i)) \<and> cell_of_kind (sc_kind c) (sc_column c (rows ! j))) columns"
    using assms(2-4) by (auto simp: columns_ok_def list_all_iff)
  show "map (\<lambda>c. sc_column c (rows ! i)) columns \<noteq> map (\<lambda>c. sc_column c (rows ! j)) columns"
    using assms(2-5) nth_eq_iff_index_eq [of "map (\<lambda>r. map (\<lambda>c. sc_column c r) columns) rows" i j] by (auto simp: columns_ok_def)
qed

lemma insert_row_sorted:
  assumes "collation_ok collation" and "sorted_wrt (row_before collation columns) ys"
    and "\<And>y. y \<in> set ys \<Longrightarrow> row_before collation columns x y \<or> row_before collation columns y x"
  shows "sorted_wrt (row_before collation columns) (insert_row collation columns x ys)"
  using assms(2,3)
proof (induction ys)
  case (Cons y ys)
  have set_eq: "set (insert_row collation columns x ys) = insert x (set ys)" using mset_insert_row [of collation columns x ys] by (metis set_mset_mset set_mset_add_mset_insert)
  show ?case
  proof (cases "row_before collation columns y x")
    case True
    then show ?thesis using Cons by (auto simp: set_eq)
  next
    case False
    then have "row_before collation columns x y" using Cons.prems(2) by auto
    then show ?thesis using False Cons.prems(1) by (auto intro: row_before_trans [OF assms(1)])
  qed
qed simp

lemma columns_ok_Cons: "columns_ok columns (r # rows) \<Longrightarrow> columns_ok columns rows"
  by (auto simp: columns_ok_def list_all_iff)

lemma order_by_sorted:
  "collation_ok collation \<Longrightarrow> columns_ok columns rows \<Longrightarrow> sorted_wrt (row_before collation columns) (order_by collation columns rows)"
proof (induction rows)
  case (Cons r rows)
  have "row_before collation columns r y \<or> row_before collation columns y r" if y: "y \<in> set (order_by collation columns rows)" for y
  proof -
    have "y \<in> set rows" using y mset_order_by [of collation columns rows] by (metis set_mset_mset)
    then obtain j where "j < length rows" "y = rows ! j" by (auto simp: in_set_conv_nth)
    then show ?thesis using columns_ok_total [OF Cons.prems, of 0 "Suc j"] by auto
  qed
  then have "sorted_wrt (row_before collation columns) (insert_row collation columns r (order_by collation columns rows))"
    by (intro insert_row_sorted [OF Cons.prems(1)] Cons.IH [OF Cons.prems(1) columns_ok_Cons [OF Cons.prems(2)]])
  then show ?case by (simp add: order_by_def)
qed (simp add: order_by_def)

text \<open>Sorting and filtering commute; the filter behind the cursor of a row keeps exactly the rows after it.\<close>

lemma filter_insert_row:
  assumes "collation_ok collation" and "sorted_wrt (row_before collation columns) ys"
  shows "filter P (insert_row collation columns x ys) = (if P x then insert_row collation columns x (filter P ys) else filter P ys)"
  using assms(2)
proof (induction ys)
  case (Cons y ys)
  have first: "insert_row collation columns x zs = x # zs" if "\<not> row_before collation columns y x" "set zs \<subseteq> set ys" for zs
    using that Cons.prems row_before_trans [OF assms(1), of columns y _ x] by (cases zs) auto
  show ?case
  proof (cases "row_before collation columns y x")
    case True
    then show ?thesis using Cons by auto
  next
    case False
    then show ?thesis using first [OF False, of "filter P ys"] by auto
  qed
qed simp

lemma order_by_filter:
  "collation_ok collation \<Longrightarrow> columns_ok columns rows \<Longrightarrow> order_by collation columns (filter P rows) = filter P (order_by collation columns rows)"
proof (induction rows)
  case (Cons r rows)
  have ok: "columns_ok columns rows" by (rule columns_ok_Cons [OF Cons.prems(2)])
  have "filter P (insert_row collation columns r (order_by collation columns rows))
      = (if P r then insert_row collation columns r (filter P (order_by collation columns rows)) else filter P (order_by collation columns rows))"
    by (rule filter_insert_row [OF Cons.prems(1) order_by_sorted [OF Cons.prems(1) ok]])
  then show ?case using Cons.IH [OF Cons.prems(1) ok] by (simp add: order_by_def)
qed (simp add: order_by_def)

lemma all_upto_Suc: "list_all P [0..<Suc n] \<longleftrightarrow> P 0 \<and> list_all (\<lambda>i. P (Suc i)) [0..<n]"
  by (auto simp: list_all_iff less_Suc_eq_0_disj simp del: upt_Suc)

lemma ex_upto_Suc: "list_ex P [0..<Suc n] \<longleftrightarrow> P 0 \<or> list_ex (\<lambda>i. P (Suc i)) [0..<n]"
  by (auto simp: list_ex_iff Bex_def less_Suc_eq_0_disj simp del: upt_Suc)

lemma keyset_term_Suc:
  "keyset_term collation (c # cs) (v # vs) (Suc i) row \<longleftrightarrow> sc_column c row = v \<and> keyset_term collation cs vs i row"
proof -
  have "list_all (\<lambda>n. sc_column ((c # cs) ! n) row = (v # vs) ! n) [0..<Suc i]
      \<longleftrightarrow> sc_column c row = v \<and> list_all (\<lambda>n. sc_column (cs ! n) row = vs ! n) [0..<i]"
    unfolding all_upto_Suc by simp
  then show ?thesis by (simp add: keyset_term_def del: upt_Suc)
qed

lemma keyset_terms_before:
  "list_ex (\<lambda>i. keyset_term collation columns (map (\<lambda>c. sc_column c x) columns) i row) [0..<length columns] \<longleftrightarrow> row_before collation columns x row"
proof (induction columns)
  case (Cons c cs)
  let ?vs = "map (\<lambda>c. sc_column c x) cs"
  have "list_ex (\<lambda>i. keyset_term collation (c # cs) (sc_column c x # ?vs) i row) [0..<Suc (length cs)]
      \<longleftrightarrow> keyset_term collation (c # cs) (sc_column c x # ?vs) 0 row
        \<or> list_ex (\<lambda>i. keyset_term collation (c # cs) (sc_column c x # ?vs) (Suc i) row) [0..<length cs]"
    by (rule ex_upto_Suc)
  also have "\<dots> \<longleftrightarrow> column_before collation c (sc_column c x) (sc_column c row) \<or> sc_column c row = sc_column c x \<and> row_before collation cs x row"
  proof -
    have "keyset_term collation (c # cs) (sc_column c x # ?vs) 0 row \<longleftrightarrow> column_before collation c (sc_column c x) (sc_column c row)"
      by (simp add: keyset_term_def column_before_def)
    moreover have "list_ex (\<lambda>i. keyset_term collation (c # cs) (sc_column c x # ?vs) (Suc i) row) [0..<length cs]
        \<longleftrightarrow> sc_column c row = sc_column c x \<and> list_ex (\<lambda>i. keyset_term collation cs ?vs i row) [0..<length cs]"
      unfolding keyset_term_Suc by (auto simp: list_ex_iff)
    ultimately show ?thesis using Cons.IH by simp
  qed
  finally show ?case by (simp add: eq_commute del: upt_Suc)
qed simp

lemma filter_after_last:
  assumes "collation_ok collation" and "sorted_wrt (row_before collation columns) (ps @ qs)" and "ps \<noteq> []"
  shows "filter (row_before collation columns (last ps)) (ps @ qs) = qs"
proof -
  obtain as x where ps: "ps = as @ [x]" using assms(3) by (metis append_butlast_last_id)
  have "\<not> row_before collation columns x a" if "a \<in> set ps" for a
    using that assms(2) row_before_irrefl [OF assms(1)] row_before_trans [OF assms(1)] by (fastforce simp: ps sorted_wrt_append)
  moreover have "row_before collation columns x q" if "q \<in> set qs" for q using that assms(2) by (simp add: ps sorted_wrt_append)
  ultimately have "filter (row_before collation columns x) ps = []" "filter (row_before collation columns x) qs = qs"
    by (simp_all add: filter_empty_conv filter_id_conv)
  then show ?thesis by (simp add: ps split: if_splits)
qed

section \<open>Following the cursors\<close>

text \<open>What the handler relies on of the signer, for the cursors of these rows: reading undoes writing, and a token fits the limit of its length.\<close>

definition signer_ok :: "(json \<Rightarrow> string) \<Rightarrow> (string \<Rightarrow> json result) \<Rightarrow> page_request \<Rightarrow> 'r sort_column list \<Rightarrow> 'r list \<Rightarrow> bool" where
  "signer_ok dumps loads req columns rows \<longleftrightarrow>
     list_all (\<lambda>r. let token = dumps (cursor_payload req columns r)
                   in loads token = Inr (cursor_payload req columns r) \<and> 0 < length token \<and> length token \<le> 4096) rows"

lemma cursor_values_written:
  "list_all (\<lambda>c. sc_accessor c r = sc_column c r \<and> cell_of_kind (sc_kind c) (sc_column c r)) columns
   \<Longrightarrow> cursor_values (map (\<lambda>c. cell_json (sc_accessor c r)) columns) columns = Inr (map (\<lambda>c. sc_column c r) columns)"
proof (induction columns)
  case (Cons c cs)
  have "cursor_value (sc_kind c) (cell_json (sc_column c r)) = Inr (sc_column c r)"
    using Cons.prems by (cases "sc_kind c"; cases "sc_column c r") (auto simp: isoformat_roundtrip)
  then show ?case using Cons by simp
qed simp

lemma cursor_scope_cursor [simp]: "cursor_scope (req\<lparr>pr_cursor := t\<rparr>) = cursor_scope req"
  by (simp add: cursor_scope_def)

lemma cursor_payload_cursor [simp]: "cursor_payload (req\<lparr>pr_cursor := t\<rparr>) columns r = cursor_payload req columns r"
  by (simp add: cursor_payload_def)

lemma page_limit_cursor [simp]: "page_limit (req\<lparr>pr_cursor := t\<rparr>) = page_limit req"
  by (simp add: page_limit_def)

lemma read_cursor_written:
  assumes "columns_ok columns rows" and "signer_ok dumps loads req columns rows" and "r \<in> set rows"
  shows "read_cursor loads req columns (dumps (cursor_payload req columns r)) = Inr (map (\<lambda>c. sc_column c r) columns)"
proof -
  have t: "loads (dumps (cursor_payload req columns r)) = Inr (cursor_payload req columns r)" "\<not> 4096 < length (dumps (cursor_payload req columns r))"
    using assms(2,3) by (auto simp: signer_ok_def Let_def list_all_iff)
  have v: "cursor_values (map (\<lambda>c. cell_json (sc_accessor c r)) columns) columns = Inr (map (\<lambda>c. sc_column c r) columns)"
    by (rule cursor_values_written) (use assms(1,3) in \<open>auto simp: columns_ok_def list_all_iff\<close>)
  have scope: "json_eq (cursor_scope req) (cursor_scope req)" by (simp add: cursor_scope_def)
  show ?thesis
    unfolding read_cursor_def using t v scope by (simp add: cursor_payload_def jitem_def)
qed

text \<open>One page: with the rows before the cursor in \<open>ps\<close>, it shows the first rows of the rest and the cursor of the last one shown.\<close>

lemma paginate_page:
  assumes "collation_ok collation" and ok: "columns_ok columns rows" and "signer_ok dumps loads req columns rows" and "page_limit req = Inr limit"
    and xs: "order_by collation columns rows = ps @ qs" and "ps = [] \<or> qs \<noteq> []"
    and cursor: "pr_cursor req' = (if ps = [] then pr_cursor req else Some (dumps (cursor_payload req columns (last ps))))"
    and "req' = req\<lparr>pr_cursor := t\<rparr>" and "opt [] (pr_cursor req) = []"
  shows "paginate dumps loads collation req' rows columns = Inr (take limit qs,
     \<lparr>pm_limit = limit, pm_returned = length (take limit qs), pm_has_more = (limit < length qs),
      pm_next_cursor = (if limit < length qs then Some (dumps (cursor_payload req columns (last (take limit qs)))) else None)\<rparr>)"
proof -
  have behind: "\<exists>behind. cursor_rows loads collation req' columns rows = Inr behind \<and> order_by collation columns behind = qs"
  proof (cases "ps = []")
    case True
    then show ?thesis using xs cursor assms(9) by (simp add: cursor_rows_def Let_def)
  next
    case False
    let ?x = "last ps"
    have "?x \<in> set (order_by collation columns rows)" using False xs by simp
    then have x: "?x \<in> set rows" using mset_order_by [of collation columns rows] by (metis set_mset_mset)
    have "length rows = length ps + length qs" using arg_cong [OF xs, of length] mset_order_by [of collation columns rows]
      by (metis length_append size_mset)
    then have "2 \<le> length rows" using False assms(6) by (cases ps; cases qs) auto
    then have nonempty: "columns \<noteq> []" using ok by (cases rows; cases "tl rows") (auto simp: columns_ok_def)
    have "signer_ok dumps loads req' columns rows" using assms(3,8) by (simp add: signer_ok_def)
    then have read: "read_cursor loads req' columns (dumps (cursor_payload req columns ?x)) = Inr (map (\<lambda>c. sc_column c ?x) columns)"
      using read_cursor_written [OF ok _ x, of dumps loads req'] assms(8) by simp
    have keep: "keyset_filter collation columns (map (\<lambda>c. sc_column c ?x) columns) = row_before collation columns ?x"
      using nonempty by (simp add: keyset_filter_def keyset_terms_before fun_eq_iff)
    have "dumps (cursor_payload req columns ?x) \<noteq> []" using assms(3) x by (auto simp: signer_ok_def Let_def list_all_iff)
    then have "cursor_rows loads collation req' columns rows = Inr (filter (row_before collation columns ?x) rows)"
      using cursor False read by (simp add: cursor_rows_def keep)
    moreover have "order_by collation columns (filter (row_before collation columns ?x) rows) = qs"
      using order_by_filter [OF assms(1) ok] filter_after_last [OF assms(1) _ False] order_by_sorted [OF assms(1) ok] xs by simp
    ultimately show ?thesis by blast
  qed
  then obtain behind where b: "cursor_rows loads collation req' columns rows = Inr behind" "order_by collation columns behind = qs" by blast
  have "page_limit req' = Inr limit" using assms(4,8) by simp
  then show ?thesis using b assms(8) by (simp add: paginate_def Let_def min_def less_Suc_eq_le)
qed

lemma all_pages_rest:
  assumes "collation_ok collation" and ok: "columns_ok columns rows" and sg: "signer_ok dumps loads req columns rows" and l: "page_limit req = Inr limit"
    and "opt [] (pr_cursor req) = []"
  shows "order_by collation columns rows = ps @ qs \<Longrightarrow> ps = [] \<or> qs \<noteq> [] \<Longrightarrow> length qs < n
    \<Longrightarrow> pr_cursor req' = (if ps = [] then pr_cursor req else Some (dumps (cursor_payload req columns (last ps)))) \<Longrightarrow> req' = req\<lparr>pr_cursor := t\<rparr>
    \<Longrightarrow> \<exists>pages. all_pages dumps loads collation rows columns n req' = Some (Inr pages) \<and> concat pages = qs
      \<and> list_all (\<lambda>page. length page \<le> limit) pages"
proof (induction n arbitrary: ps qs req' t)
  case (Suc n)
  have page: "paginate dumps loads collation req' rows columns = Inr (take limit qs,
     \<lparr>pm_limit = limit, pm_returned = length (take limit qs), pm_has_more = (limit < length qs),
      pm_next_cursor = (if limit < length qs then Some (dumps (cursor_payload req columns (last (take limit qs)))) else None)\<rparr>)"
    by (rule paginate_page [OF assms(1) ok sg l Suc.prems(1,2,4,5) assms(5)])
  show ?case
  proof (cases "limit < length qs")
    case False
    then show ?thesis using page by simp
  next
    case True
    have pos: "0 < limit" using l by (auto simp: page_limit_def Let_def split: if_splits)
    let ?tok = "dumps (cursor_payload req columns (last (take limit qs)))"
    have some: "take limit qs \<noteq> []" "drop limit qs \<noteq> []" using True pos by auto
    then have last: "last (ps @ take limit qs) = last (take limit qs)" by simp
    have "\<exists>pages. all_pages dumps loads collation rows columns n (req'\<lparr>pr_cursor := Some ?tok\<rparr>) = Some (Inr pages) \<and> concat pages = drop limit qs
        \<and> list_all (\<lambda>page. length page \<le> limit) pages"
      by (rule Suc.IH [of "ps @ take limit qs" "drop limit qs" _ "Some ?tok"]) (use Suc.prems some last True pos in auto)
    then obtain pages where "all_pages dumps loads collation rows columns n (req'\<lparr>pr_cursor := Some ?tok\<rparr>) = Some (Inr pages)"
        "concat pages = drop limit qs" "list_all (\<lambda>page. length page \<le> limit) pages" by blast
    then show ?thesis using page True by simp
  qed
qed simp

text \<open>
  C35. Following the cursors of a list from its first page ends after at most one request per row and one more. Every request is
  answered; together the pages show every row of the query exactly once, in the requested order (ascending and descending columns mixed), and no page is longer than the
  requested limit. This holds for every ordering that tells the rows apart (each list ends its ordering with the key), every
  order of texts, and times written into the cursor as ISO texts and read back.
\<close>

theorem following_cursors_shows_all:
  assumes "collation_ok collation" and "columns_ok columns rows" and "signer_ok dumps loads req columns rows"
    and "page_limit req = Inr limit" and "pr_cursor req = None"
  shows "\<exists>pages. all_pages dumps loads collation rows columns (Suc (length rows)) req = Some (Inr pages)
    \<and> mset (concat pages) = mset rows \<and> sorted_wrt (row_before collation columns) (concat pages)
    \<and> list_all (\<lambda>page. length page \<le> limit) pages"
proof -
  let ?xs = "order_by collation columns rows"
  have len: "length ?xs = length rows" by (metis mset_order_by size_mset)
  have "\<exists>pages. all_pages dumps loads collation rows columns (Suc (length rows)) req = Some (Inr pages) \<and> concat pages = ?xs
      \<and> list_all (\<lambda>page. length page \<le> limit) pages"
    by (rule all_pages_rest [OF assms(1-4), of "[]" ?xs "Suc (length rows)" req None]) (simp_all add: assms(5) len)
  then obtain pages where p: "all_pages dumps loads collation rows columns (Suc (length rows)) req = Some (Inr pages)" "concat pages = ?xs"
      "list_all (\<lambda>page. length page \<le> limit) pages" by blast
  have "mset (concat pages) = mset rows" "sorted_wrt (row_before collation columns) (concat pages)"
    using p(2) mset_order_by order_by_sorted [OF assms(1,2)] by simp_all
  then show ?thesis using p by blast
qed

definition example_columns :: "(datetime \<times> int) sort_column list" where
  "example_columns =
     [\<lparr>sc_column = \<lambda>r. CTime (fst r), sc_descending = True, sc_accessor = \<lambda>r. CTime (fst r), sc_kind = KTime\<rparr>,
      \<lparr>sc_column = \<lambda>r. CInt (snd r), sc_descending = True, sc_accessor = \<lambda>r. CInt (snd r), sc_kind = KInt\<rparr>]"

definition example_page_request :: page_request where
  "example_page_request = \<lparr>pr_limit = Some ''2'', pr_cursor = None, pr_q = None, pr_path = ''/api/mobile/v1/notifications'', pr_tenant_id = 3, pr_user_id = 7\<rparr>"

definition example_list :: "(datetime \<times> int) list" where
  "example_list = [(1767225600000000, 4), (1767225600000001, 5), (1767225600000000, 6)]"

definition example_dumps :: "json \<Rightarrow> string" where
  "example_dumps v = (case v of JObj [_, (_, JList [_, JInt n])] \<Rightarrow> show_nat (nat n) | _ \<Rightarrow> ''0'')"

definition example_loads :: "string \<Rightarrow> json result" where
  "example_loads s =
     (case find (\<lambda>r. show_nat (nat (snd r)) = s) example_list of
        None \<Rightarrow> Inl (ValueError ''BadSignature'') | Some r \<Rightarrow> Inr (cursor_payload example_page_request example_columns r))"

text \<open>Three notifications, two of the same time, in pages of two.\<close>

theorem following_cursors_shows_all_witness:
  "\<exists>pages. all_pages example_dumps example_loads (<) example_list example_columns 4 example_page_request = Some (Inr pages)
    \<and> mset (concat pages) = mset example_list \<and> sorted_wrt (row_before (<) example_columns) (concat pages)
    \<and> list_all (\<lambda>page. length page \<le> 2) pages"
proof -
  have "collation_ok (<)" by (simp add: collation_ok_def)
  moreover have "columns_ok example_columns example_list" by code_simp
  moreover have "signer_ok example_dumps example_loads example_page_request example_columns example_list"
  proof -
    have "example_dumps (cursor_payload example_page_request example_columns r) = show_nat (nat (snd r))" for r
      by (simp add: example_dumps_def cursor_payload_def example_columns_def)
    moreover have "show_nat 4 = ''4''" "show_nat 5 = ''5''" "show_nat 6 = ''6''" by code_simp+
    ultimately show ?thesis by (simp add: signer_ok_def example_list_def example_loads_def Let_def)
  qed
  moreover have "page_limit example_page_request = Inr 2" by code_simp
  moreover have "pr_cursor example_page_request = None" by (simp add: example_page_request_def)
  moreover have "Suc (length example_list) = 4" by (simp add: example_list_def)
  ultimately show ?thesis
    using following_cursors_shows_all [of "(<)" example_columns example_list example_dumps example_loads example_page_request 2] by simp
qed

end
