(* ===== verification/CMDB.thy ===== *)
theory CMDB
  imports Platform "HOL-Library.Multiset"
begin

text \<open>
  Configuration items with several sources: the provenance of each field (\<^verbatim>\<open>serviceops_core/ci_sources.py\<close>), the
  precedence between sources when an import disagrees (\<^verbatim>\<open>serviceops_core/ci_precedence.py\<close>), the record of what an import
  changed (\<^verbatim>\<open>serviceops_core/import_changes.py\<close>), and the permissions per class
  (\<^verbatim>\<open>serviceops_core/ci_class_policy.py\<close>).

  A field is read and written by its name, as \<^verbatim>\<open>getattr\<close> and \<^verbatim>\<open>setattr\<close> do; its value is a JSON value, where a date is its
  day number. Reports keep the values themselves; the short display texts made of them are not modelled, and neither is
  the mapping of remote custom fields.
\<close>

section \<open>Fields by name\<close>

definition FORM_FIELDS :: "string list" where
  "FORM_FIELDS = [''name'', ''ci_class'', ''description'', ''environment'', ''operational_status'', ''lifecycle_state'',
     ''business_criticality'', ''ip_address'', ''serial_number'', ''vendor'', ''model'', ''location'', ''cost_center'',
     ''rack_id'', ''rack_position'', ''rack_u_height'', ''rack_face'', ''install_date'', ''warranty_expiry_date'',
     ''support_group_id'', ''owner_id'']"

definition jint :: "int option \<Rightarrow> json" where
  "jint v = (case v of None \<Rightarrow> JNull | Some n \<Rightarrow> JInt n)"

definition ci_fields :: "configuration_item \<Rightarrow> (string \<times> json) list" where
  "ci_fields ci =
     [(''name'', JStr (ci_name ci)), (''ci_class'', JStr (ci_ci_class ci)), (''description'', jstr (ci_description ci)),
      (''environment'', JStr (ci_environment ci)), (''operational_status'', JStr (ci_operational_status ci)),
      (''lifecycle_state'', JStr (ci_lifecycle_state ci)), (''business_criticality'', JStr (ci_business_criticality ci)),
      (''ip_address'', jstr (ci_ip_address ci)), (''serial_number'', jstr (ci_serial_number ci)), (''vendor'', jstr (ci_vendor ci)),
      (''model'', jstr (ci_model ci)), (''location'', jstr (ci_location ci)), (''cost_center'', jstr (ci_cost_center ci)),
      (''rack_id'', jnat (ci_rack_id ci)), (''rack_position'', jint (ci_rack_position ci)), (''rack_u_height'', jnat (ci_rack_u_height ci)),
      (''rack_face'', jstr (ci_rack_face ci)), (''install_date'', jint (ci_install_date ci)),
      (''warranty_expiry_date'', jint (ci_warranty_expiry_date ci)), (''support_group_id'', jnat (ci_support_group_id ci)),
      (''owner_id'', jnat (ci_owner_id ci))]"

text \<open>\<^verbatim>\<open>getattr(ci, field, None)\<close>.\<close>

definition ci_get :: "string \<Rightarrow> configuration_item \<Rightarrow> json" where
  "ci_get field ci = jget (ci_fields ci) field"

fun to_text :: "json \<Rightarrow> string" where
  "to_text (JStr s) = s"
| "to_text _ = []"

fun to_otext :: "json \<Rightarrow> string option" where
  "to_otext (JStr s) = Some s"
| "to_otext _ = None"

fun to_oint :: "json \<Rightarrow> int option" where
  "to_oint (JInt n) = Some n"
| "to_oint _ = None"

definition to_onat :: "json \<Rightarrow> nat option" where
  "to_onat v = map_option nat (to_oint v)"

text \<open>\<^verbatim>\<open>setattr(ci, field, value)\<close> for a value of the column's type.\<close>

definition ci_set :: "string \<Rightarrow> json \<Rightarrow> configuration_item \<Rightarrow> configuration_item" where
  "ci_set field v ci =
     (if field = ''name'' then ci\<lparr>ci_name := to_text v\<rparr>
      else if field = ''ci_class'' then ci\<lparr>ci_ci_class := to_text v\<rparr>
      else if field = ''description'' then ci\<lparr>ci_description := to_otext v\<rparr>
      else if field = ''environment'' then ci\<lparr>ci_environment := to_text v\<rparr>
      else if field = ''operational_status'' then ci\<lparr>ci_operational_status := to_text v\<rparr>
      else if field = ''lifecycle_state'' then ci\<lparr>ci_lifecycle_state := to_text v\<rparr>
      else if field = ''business_criticality'' then ci\<lparr>ci_business_criticality := to_text v\<rparr>
      else if field = ''ip_address'' then ci\<lparr>ci_ip_address := to_otext v\<rparr>
      else if field = ''serial_number'' then ci\<lparr>ci_serial_number := to_otext v\<rparr>
      else if field = ''vendor'' then ci\<lparr>ci_vendor := to_otext v\<rparr>
      else if field = ''model'' then ci\<lparr>ci_model := to_otext v\<rparr>
      else if field = ''location'' then ci\<lparr>ci_location := to_otext v\<rparr>
      else if field = ''cost_center'' then ci\<lparr>ci_cost_center := to_otext v\<rparr>
      else if field = ''rack_id'' then ci\<lparr>ci_rack_id := to_onat v\<rparr>
      else if field = ''rack_position'' then ci\<lparr>ci_rack_position := to_oint v\<rparr>
      else if field = ''rack_u_height'' then ci\<lparr>ci_rack_u_height := to_onat v\<rparr>
      else if field = ''rack_face'' then ci\<lparr>ci_rack_face := to_otext v\<rparr>
      else if field = ''install_date'' then ci\<lparr>ci_install_date := to_oint v\<rparr>
      else if field = ''warranty_expiry_date'' then ci\<lparr>ci_warranty_expiry_date := to_oint v\<rparr>
      else if field = ''support_group_id'' then ci\<lparr>ci_support_group_id := to_onat v\<rparr>
      else if field = ''owner_id'' then ci\<lparr>ci_owner_id := to_onat v\<rparr>
      else ci)"

definition column_value :: "string \<Rightarrow> json \<Rightarrow> bool" where
  "column_value field v \<longleftrightarrow>
     (if field \<in> set [''name'', ''ci_class'', ''environment'', ''operational_status'', ''lifecycle_state'', ''business_criticality'']
        then JStr (to_text v) = v
      else if field \<in> set [''rack_id'', ''rack_u_height'', ''support_group_id'', ''owner_id''] then jnat (to_onat v) = v
      else if field \<in> set [''rack_position'', ''install_date'', ''warranty_expiry_date''] then jint (to_oint v) = v
      else jstr (to_otext v) = v)"

text \<open>A dictionary: \<^verbatim>\<open>d[k] = v\<close> and \<^verbatim>\<open>d.pop(k, None)\<close>.\<close>

definition dict_set :: "string \<Rightarrow> 'v \<Rightarrow> (string \<times> 'v) list \<Rightarrow> (string \<times> 'v) list" where
  "dict_set k v d = (if k \<in> set (map fst d) then map (\<lambda>(i, w). (i, if i = k then v else w)) d else d @ [(k, v)])"

definition dict_pop :: "string \<Rightarrow> (string \<times> 'v) list \<Rightarrow> (string \<times> 'v) list" where
  "dict_pop k d = filter (\<lambda>(i, w). i \<noteq> k) d"

text \<open>\<^verbatim>\<open>value in (None, "")\<close>.\<close>

definition blank :: "json \<Rightarrow> bool" where
  "blank v \<longleftrightarrow> v = JNull \<or> v = JStr []"

section \<open>Where each value came from\<close>

definition SOURCE_LABELS :: "(string \<times> string) list" where
  "SOURCE_LABELS = [(''netbox'', ''NetBox''), (''snipeit'', ''Snipe-IT''), (''csv'', ''Spreadsheet''), (''manual'', ''Manual''),
     (''inferred'', ''Same model'')]"

definition mark_field :: "configuration_item \<Rightarrow> string \<Rightarrow> string \<Rightarrow> (string \<times> string) list \<Rightarrow> (string \<times> string) list" where
  "mark_field ci source field sources = (if blank (ci_get field ci) then dict_pop field sources else dict_set field source sources)"

definition mark :: "configuration_item \<Rightarrow> string list \<Rightarrow> string \<Rightarrow> configuration_item" where
  "mark ci names source = ci\<lparr>ci_field_sources := fold (mark_field ci source) names (ci_field_sources ci)\<rparr>"

definition mark_changed :: "configuration_item \<Rightarrow> (string \<times> json) list \<Rightarrow> string \<Rightarrow> string list \<Rightarrow> configuration_item" where
  "mark_changed ci before source names =
     ci\<lparr>ci_field_sources := fold (mark_field ci source) (filter (\<lambda>field. jget before field \<noteq> ci_get field ci) names) (ci_field_sources ci)\<rparr>"

definition label :: "configuration_item option \<Rightarrow> string \<Rightarrow> string option" where
  "label ci field = Option.bind ci (\<lambda>ci. Option.bind (map_of (ci_field_sources ci) field) (map_of SOURCE_LABELS))"

section \<open>What an import changed\<close>

definition TRACKED_FIELDS :: "(string \<times> string) list" where
  "TRACKED_FIELDS =
     [(''name'', ''Name''), (''ci_class'', ''Class''), (''serial_number'', ''Serial''), (''vendor'', ''Manufacturer''),
      (''model'', ''Model''), (''ip_address'', ''IP address''), (''location'', ''Location''), (''operational_status'', ''Status''),
      (''lifecycle_state'', ''Lifecycle''), (''environment'', ''Environment''), (''install_date'', ''Install date''),
      (''warranty_expiry_date'', ''Warranty expiry''), (''owner_id'', ''Owner''), (''support_group_id'', ''Owning team''),
      (''cost_center'', ''Cost center''), (''business_criticality'', ''Criticality''), (''description'', ''Description''),
      (''rack_id'', ''Rack''), (''rack_position'', ''Rack position''), (''rack_u_height'', ''Height (U)''), (''rack_face'', ''Rack face'')]"

record ci_snapshot =
  sn_values :: "(string \<times> json) list"
  sn_attributes :: "(string \<times> json) list"
  sn_sources :: "(string \<times> string) list"

definition snapshot :: "configuration_item \<Rightarrow> ci_snapshot" where
  "snapshot ci = \<lparr>sn_values = map (\<lambda>(field, _). (field, ci_get field ci)) TRACKED_FIELDS, sn_attributes = ci_attributes ci,
     sn_sources = ci_field_sources ci\<rparr>"

record ci_conflict =
  cf_name :: string
  cf_field :: string
  cf_kept_source :: string
  cf_kept :: json
  cf_other_source :: string
  cf_other :: json
  cf_outcome :: string

record ci_change =
  cc_action :: string
  cc_name :: string
  cc_fields :: "(string \<times> json \<times> json) list"

record import_summary =
  sm_changes :: "ci_change list"
  sm_changes_total :: nat
  sm_cis_unchanged :: nat
  sm_conflicts :: "ci_conflict list"
  sm_conflicts_total :: nat

definition CHANGE_LIMIT :: nat where
  "CHANGE_LIMIT = 200"

definition append_change :: "ci_change \<Rightarrow> import_summary \<Rightarrow> import_summary" where
  "append_change entry summary =
     summary\<lparr>sm_changes_total := sm_changes_total summary + 1,
       sm_changes := (if length (sm_changes summary) < CHANGE_LIMIT then sm_changes summary @ [entry] else sm_changes summary)\<rparr>"

definition record_create :: "configuration_item \<Rightarrow> import_summary \<Rightarrow> import_summary" where
  "record_create ci summary =
     append_change \<lparr>cc_action = ''create'', cc_name = ci_name ci,
       cc_fields = map (\<lambda>(field, label). (label, JNull, ci_get field ci))
         (filter (\<lambda>(field, _). field \<noteq> ''name'' \<and> \<not> blank (ci_get field ci)) TRACKED_FIELDS)\<rparr> summary"

definition changed_fields :: "ci_snapshot \<Rightarrow> configuration_item \<Rightarrow> (string \<times> json \<times> json) list" where
  "changed_fields before ci =
     map (\<lambda>(field, label). (label, jget (sn_values before) field, ci_get field ci))
       (filter (\<lambda>(field, _). let old = jget (sn_values before) field; new = ci_get field ci
          in old \<noteq> new \<and> \<not> (blank old \<and> blank new)) TRACKED_FIELDS)"

definition changed_keys :: "ci_snapshot \<Rightarrow> configuration_item \<Rightarrow> string list" where
  "changed_keys before ci =
     filter (\<lambda>key. jget (sn_attributes before) key \<noteq> jget (ci_attributes ci) key)
       (remdups (map fst (sn_attributes before) @ map fst (ci_attributes ci)))"

definition record_update :: "ci_snapshot \<Rightarrow> configuration_item \<Rightarrow> import_summary \<Rightarrow> import_summary" where
  "record_update before ci summary =
     (let count = length (changed_keys before ci);
          fields = changed_fields before ci @
            (if count = 0 then []
             else [(''Attributes'', JStr [], JStr (show_nat count @ '' source attribute'' @ (if count = 1 then [] else ''s'') @ '' changed''))]) in
      if fields = [] then summary\<lparr>sm_cis_unchanged := sm_cis_unchanged summary + 1\<rparr>
      else append_change \<lparr>cc_action = ''update'',
             cc_name = (case jget (sn_values before) ''name'' of JStr n \<Rightarrow> if n = [] then ci_name ci else n | _ \<Rightarrow> ci_name ci),
             cc_fields = fields\<rparr> summary)"

definition checkpoint :: "import_summary \<Rightarrow> nat \<times> nat \<times> nat" where
  "checkpoint summary = (length (sm_changes summary), sm_changes_total summary, sm_cis_unchanged summary)"

definition restore :: "import_summary \<Rightarrow> nat \<times> nat \<times> nat \<Rightarrow> import_summary" where
  "restore summary saved =
     (case saved of (len, n, unchanged) \<Rightarrow>
        summary\<lparr>sm_changes := take len (sm_changes summary), sm_changes_total := n, sm_cis_unchanged := unchanged\<rparr>)"

section \<open>Which source wins\<close>

definition SOURCES_BY_RANK :: "string list" where
  "SOURCES_BY_RANK = [''manual'', ''csv'', ''snipeit'', ''netbox'']"

definition precedence :: "db \<Rightarrow> string list" where
  "precedence s =
     (let raw = setting_value s ''CMDB_SOURCE_PRECEDENCE'' (join '','' SOURCES_BY_RANK);
          order = filter (\<lambda>item. item \<in> set SOURCES_BY_RANK) (map strip (split_on CHR '','' raw))
      in foldl (\<lambda>order source. if source \<in> set order then order else order @ [source]) order SOURCES_BY_RANK)"

fun index_in :: "'a list \<Rightarrow> 'a \<Rightarrow> nat" where
  "index_in [] x = 0"
| "index_in (y # ys) x = (if y = x then 0 else Suc (index_in ys x))"

text \<open>\<^verbatim>\<open>order.index(source) if source in order else len(order)\<close>.\<close>

definition rank :: "string list \<Rightarrow> string \<Rightarrow> nat" where
  "rank order source = (if source \<in> set order then index_in order source else length order)"

definition outranks :: "db \<Rightarrow> string \<Rightarrow> string \<Rightarrow> bool" where
  "outranks s source other \<longleftrightarrow> rank (precedence s) source < rank (precedence s) other"

definition CONFLICT_LIMIT :: nat where
  "CONFLICT_LIMIT = 200"

definition record_conflict :: "ci_conflict \<Rightarrow> import_summary \<Rightarrow> import_summary" where
  "record_conflict conflict summary =
     summary\<lparr>sm_conflicts_total := sm_conflicts_total summary + 1,
       sm_conflicts := (if length (sm_conflicts summary) < CONFLICT_LIMIT then sm_conflicts summary @ [conflict] else sm_conflicts summary)\<rparr>"

definition arbitrate_field ::
    "string list \<Rightarrow> ci_snapshot \<Rightarrow> string \<Rightarrow> string \<Rightarrow> configuration_item \<times> (string \<times> string) list \<times> import_summary
     \<Rightarrow> configuration_item \<times> (string \<times> string) list \<times> import_summary" where
  "arbitrate_field order before source field st =
     (case st of (ci, sources, summary) \<Rightarrow>
      case map_of (sn_values before) field of
        None \<Rightarrow> st
      | Some old \<Rightarrow>
          let new = ci_get field ci; old_source = opt [] (map_of (sn_sources before) field) in
          if old = new \<or> blank old then st
          else if old_source = [] \<or> old_source = source then st
          else if rank order old_source < rank order source
            then (ci_set field old ci, dict_set field old_source sources,
                  record_conflict \<lparr>cf_name = ci_name (ci_set field old ci), cf_field = field, cf_kept_source = old_source, cf_kept = old,
                    cf_other_source = source, cf_other = new, cf_outcome = ''kept''\<rparr> summary)
          else (ci, sources,
                record_conflict \<lparr>cf_name = ci_name ci, cf_field = field, cf_kept_source = source, cf_kept = new,
                  cf_other_source = old_source, cf_other = old, cf_outcome = ''replaced''\<rparr> summary))"

definition arbitrate ::
    "db \<Rightarrow> configuration_item \<Rightarrow> ci_snapshot \<Rightarrow> string \<Rightarrow> import_summary \<Rightarrow> configuration_item \<times> import_summary" where
  "arbitrate s ci before source summary =
     (case fold (arbitrate_field (precedence s) before source) FORM_FIELDS (ci, ci_field_sources ci, summary) of
        (ci, sources, summary) \<Rightarrow> (ci\<lparr>ci_field_sources := sources\<rparr>, summary))"

section \<open>Permissions per class\<close>

definition class_rows :: "db \<Rightarrow> nat \<Rightarrow> ci_class_permission list" where
  "class_rows s tenant_id = filter (\<lambda>p. cp_tenant_id p = tenant_id) (db_ci_permissions s)"

definition ci_class_read_allowed :: "db \<Rightarrow> nat \<Rightarrow> string \<Rightarrow> string \<Rightarrow> bool" where
  "ci_class_read_allowed s tenant_id ci_class role \<longleftrightarrow>
     role = ''superadmin''
     \<or> (let rows = filter (\<lambda>p. cp_ci_class p = ci_class) (class_rows s tenant_id)
        in rows = [] \<or> list_ex (\<lambda>p. cp_role p = role \<and> cp_can_read p) rows)"

definition CRUD_COLUMNS :: "(string \<times> (ci_class_permission \<Rightarrow> bool)) list" where
  "CRUD_COLUMNS = [(''create'', cp_can_create), (''update'', cp_can_update), (''delete'', cp_can_delete)]"

definition ci_class_action_allowed :: "db \<Rightarrow> nat \<Rightarrow> string \<Rightarrow> string \<Rightarrow> string \<Rightarrow> bool result" where
  "ci_class_action_allowed s tenant_id ci_class role action =
     (if role \<in> set [''admin'', ''superadmin''] then Inr True
      else (case map_of CRUD_COLUMNS action of
          None \<Rightarrow> Inl (ValueError (''Unknown CI class action: '' @ action))
        | Some column \<Rightarrow>
            Inr (case find (\<lambda>p. cp_ci_class p = ci_class \<and> cp_role p = role) (class_rows s tenant_id) of
                   None \<Rightarrow> False | Some p \<Rightarrow> column p)))"

definition managed_ci_classes :: "db \<Rightarrow> nat \<Rightarrow> string list" where
  "managed_ci_classes s tenant_id = remdups (map cp_ci_class (class_rows s tenant_id))"

definition unreadable_ci_classes :: "db \<Rightarrow> nat \<Rightarrow> string \<Rightarrow> string list" where
  "unreadable_ci_classes s tenant_id role =
     (if role = ''superadmin'' then []
      else let rows = class_rows s tenant_id;
               readable = map cp_ci_class (filter (\<lambda>p. cp_role p = role \<and> cp_can_read p) rows)
           in filter (\<lambda>c. c \<notin> set readable) (remdups (map cp_ci_class rows)))"

definition restrict_ci_query_to_readable_classes :: "db \<Rightarrow> nat \<Rightarrow> string \<Rightarrow> configuration_item list \<Rightarrow> configuration_item list" where
  "restrict_ci_query_to_readable_classes s tenant_id role query =
     (let denied = unreadable_ci_classes s tenant_id role
      in if denied \<noteq> [] then filter (\<lambda>ci. ci_ci_class ci \<notin> set denied) query else query)"

section \<open>Objects with named fields\<close>

text \<open>What the arbitration relies on: writing one field by its name changes this field only.\<close>

locale named_fields =
  fixes get :: "string \<Rightarrow> 'o \<Rightarrow> 'v" and put :: "string \<Rightarrow> 'v \<Rightarrow> 'o \<Rightarrow> 'o" and names :: "string list" and typed :: "string \<Rightarrow> 'v \<Rightarrow> bool"
  assumes get_put: "f \<in> set names \<Longrightarrow> typed f v \<Longrightarrow> get g (put f v x) = (if g = f then v else get g x)"
    and typed_get: "f \<in> set names \<Longrightarrow> typed f (get f x)"
begin

lemma get_fold_writes:
  "list_all (\<lambda>(f, v). f \<in> set names \<and> typed f v) ws \<Longrightarrow> get g (fold (\<lambda>(f, v). put f v) ws x) = (case map_of (rev ws) g of None \<Rightarrow> get g x | Some v \<Rightarrow> v)"
  by (induction ws arbitrary: x) (auto simp: get_put map_add_def split: option.split)

end

lemma ci_fields_set:
  assumes "f \<in> set FORM_FIELDS" and "column_value f v"
  shows "ci_fields (ci_set f v ci) = map (\<lambda>(k, w). (k, if k = f then v else w)) (ci_fields ci)"
  using assms unfolding FORM_FIELDS_def set_simps
  by (elim insertE emptyE; simp add: ci_set_def ci_fields_def column_value_def)

lemma map_of_update: "map_of (map (\<lambda>(k, w). (k, if k = f then v else w)) xs) g = (if g = f then map_option (\<lambda>_. v) (map_of xs f) else map_of xs g)"
  by (induction xs) auto

lemma ci_fields_keys: "map fst (ci_fields ci) = FORM_FIELDS"
  by (simp add: ci_fields_def FORM_FIELDS_def)

lemma ci_field_known: "f \<in> set FORM_FIELDS \<Longrightarrow> \<exists>v. map_of (ci_fields ci) f = Some v"
  using map_of_eq_None_iff [of "ci_fields ci" f] ci_fields_keys [of ci] by (metis list.set_map not_Some_eq)

interpretation ci: named_fields ci_get ci_set FORM_FIELDS column_value
proof
  fix f v g and x :: configuration_item
  assume f: "f \<in> set FORM_FIELDS" and v: "column_value f v"
  show "ci_get g (ci_set f v x) = (if g = f then v else ci_get g x)"
    using ci_field_known [OF f, of x] by (auto simp: ci_get_def jget_def ci_fields_set [OF f v] map_of_update)
next
  fix f and x :: configuration_item
  assume "f \<in> set FORM_FIELDS"
  then show "column_value f (ci_get f x)" unfolding FORM_FIELDS_def set_simps
    by (elim insertE emptyE; simp add: ci_get_def jget_def ci_fields_def column_value_def jstr_def jnat_def jint_def to_onat_def split: option.split)
qed

lemma ci_set_sources [simp]: "ci_field_sources (ci_set f v ci) = ci_field_sources ci"
  by (simp add: ci_set_def)

lemma ci_get_sources [simp]: "ci_get f (ci\<lparr>ci_field_sources := d\<rparr>) = ci_get f ci"
  by (simp add: ci_get_def ci_fields_def)

lemma map_of_dict_set [simp]: "map_of (dict_set k v d) = (map_of d)(k \<mapsto> v)"
proof
  fix x show "map_of (dict_set k v d) x = ((map_of d)(k \<mapsto> v)) x"
  proof (cases "k \<in> set (map fst d)")
    case True
    then have "map_of d k \<noteq> None" by (simp add: map_of_eq_None_iff)
    then show ?thesis using True by (auto simp: dict_set_def map_of_update)
  next
    case False
    then show ?thesis using map_of_eq_None_iff [of d k] by (auto simp: dict_set_def map_add_def split: option.split)
  qed
qed

lemma map_of_dict_pop [simp]: "map_of (dict_pop k d) = (map_of d)(k := None)"
  by (induction d) (auto simp: dict_pop_def fun_eq_iff)

section \<open>What arbitration decides\<close>

text \<open>
  A field is disputed when the import changed a value that another, known source had set; the earlier value is kept when
  its source outranks the importing one.
\<close>

definition old_source :: "ci_snapshot \<Rightarrow> string \<Rightarrow> string" where
  "old_source before field = opt [] (map_of (sn_sources before) field)"

definition disputed :: "ci_snapshot \<Rightarrow> string \<Rightarrow> string \<Rightarrow> json \<Rightarrow> bool" where
  "disputed before source field new \<longleftrightarrow>
     (case map_of (sn_values before) field of None \<Rightarrow> False | Some old \<Rightarrow> old \<noteq> new \<and> \<not> blank old)
     \<and> old_source before field \<noteq> [] \<and> old_source before field \<noteq> source"

definition keeps :: "string list \<Rightarrow> ci_snapshot \<Rightarrow> string \<Rightarrow> string \<Rightarrow> json \<Rightarrow> bool" where
  "keeps order before source field new \<longleftrightarrow> disputed before source field new \<and> rank order (old_source before field) < rank order source"

definition snapshot_ok :: "ci_snapshot \<Rightarrow> bool" where
  "snapshot_ok before \<longleftrightarrow> list_all (\<lambda>f. column_value f (jget (sn_values before) f)) FORM_FIELDS"

lemma record_conflict_total [simp]: "sm_conflicts_total (record_conflict c summary) = Suc (sm_conflicts_total summary)"
  by (simp add: record_conflict_def)

lemma arbitrate_field_cases:
  "arbitrate_field order before source f (ci, sources, summary) =
     (if keeps order before source f (ci_get f ci)
      then (ci_set f (jget (sn_values before) f) ci, dict_set f (old_source before f) sources,
            record_conflict \<lparr>cf_name = ci_name (ci_set f (jget (sn_values before) f) ci), cf_field = f, cf_kept_source = old_source before f,
              cf_kept = jget (sn_values before) f, cf_other_source = source, cf_other = ci_get f ci, cf_outcome = ''kept''\<rparr> summary)
      else if disputed before source f (ci_get f ci)
      then (ci, sources, record_conflict \<lparr>cf_name = ci_name ci, cf_field = f, cf_kept_source = source, cf_kept = ci_get f ci,
              cf_other_source = old_source before f, cf_other = jget (sn_values before) f, cf_outcome = ''replaced''\<rparr> summary)
      else (ci, sources, summary))"
  by (auto simp: arbitrate_field_def keeps_def disputed_def old_source_def Let_def jget_def split: option.split)

lemma arbitrate_fold:
  assumes "snapshot_ok before" and "set fs \<subseteq> set FORM_FIELDS" and "distinct fs"
    and "fold (arbitrate_field order before source) fs (ci, sources, summary) = (ci', sources', summary')"
  shows "ci_get g ci' = (if g \<in> set fs \<and> keeps order before source g (ci_get g ci) then jget (sn_values before) g else ci_get g ci)"
    and "map_of sources' g = (if g \<in> set fs \<and> keeps order before source g (ci_get g ci) then Some (old_source before g) else map_of sources g)"
    and "sm_conflicts_total summary' = sm_conflicts_total summary + length (filter (\<lambda>f. disputed before source f (ci_get f ci)) fs)"
proof -
  have "ci_get g ci' = (if g \<in> set fs \<and> keeps order before source g (ci_get g ci) then jget (sn_values before) g else ci_get g ci)
    \<and> map_of sources' g = (if g \<in> set fs \<and> keeps order before source g (ci_get g ci) then Some (old_source before g) else map_of sources g)
    \<and> sm_conflicts_total summary' = sm_conflicts_total summary + length (filter (\<lambda>f. disputed before source f (ci_get f ci)) fs)"
    using assms(2-)
  proof (induction fs arbitrary: ci sources summary)
    case (Cons f fs)
    let ?old = "jget (sn_values before) f"
    obtain ci1 sources1 summary1 where one: "arbitrate_field order before source f (ci, sources, summary) = (ci1, sources1, summary1)"
      by (cases "arbitrate_field order before source f (ci, sources, summary)")
    have "column_value f ?old" using assms(1) Cons.prems(1) by (simp add: snapshot_ok_def list_all_iff)
    then have get1: "ci_get h ci1 = (if h = f \<and> keeps order before source f (ci_get f ci) then ?old else ci_get h ci)" for h
      using one Cons.prems(1) by (auto simp: arbitrate_field_cases ci.get_put split: if_splits)
    have src1: "map_of sources1 h = (if h = f \<and> keeps order before source f (ci_get f ci) then Some (old_source before f) else map_of sources h)" for h
      using one by (auto simp: arbitrate_field_cases split: if_splits)
    have sum1: "sm_conflicts_total summary1 = sm_conflicts_total summary + (if disputed before source f (ci_get f ci) then 1 else 0)"
      using one by (auto simp: arbitrate_field_cases keeps_def split: if_splits)
    have "f \<notin> set fs" using Cons.prems(2) by simp
    then have same: "filter (\<lambda>h. disputed before source h (ci_get h ci1)) fs = filter (\<lambda>h. disputed before source h (ci_get h ci)) fs"
      by (intro filter_cong) (auto simp: get1)
    have "fold (arbitrate_field order before source) fs (ci1, sources1, summary1) = (ci', sources', summary')"
      using Cons.prems(3) one by simp
    from Cons.IH [OF _ _ this, unfolded same sum1 src1] Cons.prems(1,2)
    have "ci_get g ci' = (if g \<in> set fs \<and> keeps order before source g (ci_get g ci1) then jget (sn_values before) g else ci_get g ci1)"
      "map_of sources' g = (if g \<in> set fs \<and> keeps order before source g (ci_get g ci1) then Some (old_source before g)
         else if g = f \<and> keeps order before source f (ci_get f ci) then Some (old_source before f) else map_of sources g)"
      "sm_conflicts_total summary' = sm_conflicts_total summary + (if disputed before source f (ci_get f ci) then 1 else 0)
         + length (filter (\<lambda>h. disputed before source h (ci_get h ci)) fs)"
      by simp_all
    then show ?case using \<open>f \<notin> set fs\<close> by (cases "g = f") (simp_all add: get1)
  qed simp
  then show "ci_get g ci' = (if g \<in> set fs \<and> keeps order before source g (ci_get g ci) then jget (sn_values before) g else ci_get g ci)"
    and "map_of sources' g = (if g \<in> set fs \<and> keeps order before source g (ci_get g ci) then Some (old_source before g) else map_of sources g)"
    and "sm_conflicts_total summary' = sm_conflicts_total summary + length (filter (\<lambda>f. disputed before source f (ci_get f ci)) fs)" by simp_all
qed

lemma FORM_FIELDS_distinct: "distinct FORM_FIELDS"
  by (simp add: FORM_FIELDS_def)

lemma arbitrate_fields:
  assumes "snapshot_ok before" and "arbitrate s ci before source summary = (ci', summary')" and "g \<in> set FORM_FIELDS"
  shows "ci_get g ci' = (if keeps (precedence s) before source g (ci_get g ci) then jget (sn_values before) g else ci_get g ci)"
    and "map_of (ci_field_sources ci') g =
      (if keeps (precedence s) before source g (ci_get g ci) then Some (old_source before g) else map_of (ci_field_sources ci) g)"
    and "sm_conflicts_total summary' = sm_conflicts_total summary + length (filter (\<lambda>f. disputed before source f (ci_get f ci)) FORM_FIELDS)"
proof -
  obtain c d where f: "fold (arbitrate_field (precedence s) before source) FORM_FIELDS (ci, ci_field_sources ci, summary) = (c, d, summary')"
    and c: "ci' = c\<lparr>ci_field_sources := d\<rparr>" using assms(2) by (auto simp: arbitrate_def split: prod.splits)
  note r = arbitrate_fold [OF assms(1) order_refl FORM_FIELDS_distinct f]
  show "ci_get g ci' = (if keeps (precedence s) before source g (ci_get g ci) then jget (sn_values before) g else ci_get g ci)"
    using r(1) [of g] assms(3) by (simp add: c)
  show "map_of (ci_field_sources ci') g =
      (if keeps (precedence s) before source g (ci_get g ci) then Some (old_source before g) else map_of (ci_field_sources ci) g)"
    using r(2) [of g] assms(3) by (simp add: c)
  show "sm_conflicts_total summary' = sm_conflicts_total summary + length (filter (\<lambda>f. disputed before source f (ci_get f ci)) FORM_FIELDS)"
    by (rule r(3))
qed

section \<open>Imports\<close>

text \<open>
  One import of a known item. The importer writes fields; the spreadsheet import then marks the fields that changed
  (\<^verbatim>\<open>cmdb_import.py\<close>), the synchronisations mark every field they wrote (\<^verbatim>\<open>netbox_sync.py\<close>, \<^verbatim>\<open>snipeit_sync.py\<close>);
  arbitration follows with the snapshot taken before. The written fields are a parameter: what the row or the remote
  record gives (for a synchronisation also the remote fields an administrator mapped, which are written and marked last,
  \<^verbatim>\<open>apply_field_mappings\<close>). Merging duplicate teams at the end of a spreadsheet import is a step of its own and left out.
\<close>

definition write_fields :: "(string \<times> json) list \<Rightarrow> configuration_item \<Rightarrow> configuration_item" where
  "write_fields writes ci = fold (\<lambda>(f, v). ci_set f v) writes ci"

definition spreadsheet_import ::
    "db \<Rightarrow> string \<Rightarrow> (string \<times> json) list \<Rightarrow> configuration_item \<times> import_summary \<Rightarrow> configuration_item \<times> import_summary" where
  "spreadsheet_import s source writes st =
     (case st of (ci, summary) \<Rightarrow>
      let before = snapshot ci;
          ci = mark_changed (write_fields writes ci) (sn_values before) source FORM_FIELDS
      in case arbitrate s ci before source summary of (ci, summary) \<Rightarrow> (ci, record_update before ci summary))"

definition sync_import ::
    "db \<Rightarrow> string \<Rightarrow> (string \<times> json) list \<Rightarrow> configuration_item \<times> import_summary \<Rightarrow> configuration_item \<times> import_summary" where
  "sync_import s source writes st =
     (case st of (ci, summary) \<Rightarrow>
      let before = snapshot ci;
          ci = mark (write_fields writes ci) (map fst writes) source
      in case arbitrate s ci before source summary of (ci, summary) \<Rightarrow> (ci, record_update before ci summary))"

definition writes_ok :: "(string \<times> json) list \<Rightarrow> bool" where
  "writes_ok writes \<longleftrightarrow> list_all (\<lambda>(f, v). f \<in> set FORM_FIELDS \<and> column_value f v) writes"

lemma tracked_fields: "f \<in> set FORM_FIELDS \<Longrightarrow> f \<in> set (map fst TRACKED_FIELDS)"
proof -
  have "list_all (\<lambda>f. f \<in> set (map fst TRACKED_FIELDS)) FORM_FIELDS" by code_simp
  then show "f \<in> set FORM_FIELDS \<Longrightarrow> f \<in> set (map fst TRACKED_FIELDS)" unfolding list_all_iff by blast
qed

lemma map_of_fields: "f \<in> set (map fst xs) \<Longrightarrow> map_of (map (\<lambda>(k, _). (k, h k)) xs) f = Some (h f)"
  by (induction xs) auto

lemma snapshot_value: "f \<in> set FORM_FIELDS \<Longrightarrow> map_of (sn_values (snapshot ci)) f = Some (ci_get f ci)"
  unfolding snapshot_def by (simp add: map_of_fields [OF tracked_fields])

lemma snapshot_ok: "snapshot_ok (snapshot ci)"
  by (simp add: snapshot_ok_def list_all_iff jget_def snapshot_value ci.typed_get)

lemma write_fields_get:
  "writes_ok writes \<Longrightarrow> ci_get g (write_fields writes ci) = (case map_of (rev writes) g of None \<Rightarrow> ci_get g ci | Some v \<Rightarrow> v)"
  unfolding writes_ok_def write_fields_def by (rule ci.get_fold_writes)

lemma write_fields_sources [simp]: "ci_field_sources (write_fields writes ci) = ci_field_sources ci"
  unfolding write_fields_def by (induction writes arbitrary: ci) auto

lemma mark_fields_other: "f \<notin> set fs \<Longrightarrow> map_of (fold (mark_field ci source) fs d) f = map_of d f"
  by (induction fs arbitrary: d) (auto simp: mark_field_def)

lemma mark_get [simp]: "ci_get f (mark ci fs source) = ci_get f ci" "ci_get f (mark_changed ci b source fs) = ci_get f ci"
  by (simp_all add: mark_def mark_changed_def)

text \<open>A value whose source outranks the importing one is kept; a spreadsheet import keeps its source, too.\<close>

lemma import_keeps_value:
  assumes "f \<in> set FORM_FIELDS" and "\<not> blank (ci_get f ci)" and "map_of (ci_field_sources ci) f = Some src" and "src \<noteq> []"
    and "rank (precedence s) src < rank (precedence s) source"
    and "arbitrate s ci1 (snapshot ci) source summary = (ci', summary')"
  shows "ci_get f ci' = ci_get f ci"
    and "map_of (ci_field_sources ci1) f = Some src \<or> ci_get f ci1 \<noteq> ci_get f ci \<Longrightarrow> map_of (ci_field_sources ci') f = Some src"
proof -
  have src: "old_source (snapshot ci) f = src" using assms(3) by (simp add: old_source_def snapshot_def)
  have "src \<noteq> source" using assms(5) by auto
  then have k: "keeps (precedence s) (snapshot ci) source f (ci_get f ci1) \<longleftrightarrow> ci_get f ci1 \<noteq> ci_get f ci"
    using assms(1,2,4,5) src by (auto simp: keeps_def disputed_def snapshot_value)
  note r = arbitrate_fields [OF snapshot_ok assms(6,1)]
  show "ci_get f ci' = ci_get f ci" using r(1) k assms(1) by (simp add: jget_def snapshot_value split: if_splits)
  show "map_of (ci_field_sources ci') f = Some src" if "map_of (ci_field_sources ci1) f = Some src \<or> ci_get f ci1 \<noteq> ci_get f ci"
    using r(2) k src that by (auto split: if_splits)
qed

lemma spreadsheet_keeps:
  assumes "f \<in> set FORM_FIELDS" and "\<not> blank (ci_get f ci)" and "map_of (ci_field_sources ci) f = Some src" and "src \<noteq> []"
    and "rank (precedence s) src < rank (precedence s) source" and "spreadsheet_import s source writes (ci, summary) = (ci', summary')"
  shows "ci_get f ci' = ci_get f ci \<and> map_of (ci_field_sources ci') f = Some src"
proof -
  let ?ci1 = "mark_changed (write_fields writes ci) (sn_values (snapshot ci)) source FORM_FIELDS"
  obtain sm where a: "arbitrate s ?ci1 (snapshot ci) source summary = (ci', sm)"
    using assms(6) by (auto simp: spreadsheet_import_def Let_def split: prod.splits)
  have "map_of (ci_field_sources ?ci1) f = Some src" if "ci_get f ?ci1 = ci_get f ci"
  proof -
    have "f \<notin> set (filter (\<lambda>g. jget (sn_values (snapshot ci)) g \<noteq> ci_get g (write_fields writes ci)) FORM_FIELDS)"
      using that assms(1) by (simp add: jget_def snapshot_value)
    then show ?thesis using assms(3) by (simp add: mark_changed_def mark_fields_other)
  qed
  then show ?thesis using import_keeps_value [OF assms(1-5) a] by blast
qed

lemma record_update_conflicts [simp]: "sm_conflicts_total (record_update before ci summary) = sm_conflicts_total summary"
  by (simp add: record_update_def append_change_def Let_def)

text \<open>What a synchronisation leaves in a field.\<close>

lemma sync_import_field:
  assumes "writes_ok writes" and "sync_import s source writes (ci, summary) = (ci', summary')" and "f \<in> set FORM_FIELDS"
  defines "new \<equiv> \<lambda>f. case map_of (rev writes) f of None \<Rightarrow> ci_get f ci | Some v \<Rightarrow> v"
  shows "ci_get f ci' = (if keeps (precedence s) (snapshot ci) source f (new f) then ci_get f ci else new f)"
    and "map_of (ci_field_sources ci') f = (if keeps (precedence s) (snapshot ci) source f (new f) then map_of (ci_field_sources ci) f
      else map_of (ci_field_sources (mark (write_fields writes ci) (map fst writes) source)) f)"
    and "sm_conflicts_total summary' = sm_conflicts_total summary + length (filter (\<lambda>g. disputed (snapshot ci) source g (new g)) FORM_FIELDS)"
proof -
  let ?ci1 = "mark (write_fields writes ci) (map fst writes) source"
  obtain sm where a: "arbitrate s ?ci1 (snapshot ci) source summary = (ci', sm)" and sm: "summary' = record_update (snapshot ci) ci' sm"
    using assms(2) by (auto simp: sync_import_def Let_def split: prod.splits)
  have new: "ci_get g ?ci1 = new g" for g using write_fields_get [OF assms(1)] by (simp add: new_def)
  note r = arbitrate_fields [OF snapshot_ok a assms(3), unfolded new]
  have v: "jget (sn_values (snapshot ci)) f = ci_get f ci" using assms(3) by (simp add: jget_def snapshot_value)
  have "map_of (ci_field_sources ci) f = Some (old_source (snapshot ci) f)" if "keeps (precedence s) (snapshot ci) source f (new f)"
    using that by (auto simp: keeps_def disputed_def old_source_def snapshot_def split: option.splits)
  then show "ci_get f ci' = (if keeps (precedence s) (snapshot ci) source f (new f) then ci_get f ci else new f)"
    "map_of (ci_field_sources ci') f = (if keeps (precedence s) (snapshot ci) source f (new f) then map_of (ci_field_sources ci) f
      else map_of (ci_field_sources ?ci1) f)"
    "sm_conflicts_total summary' = sm_conflicts_total summary + length (filter (\<lambda>g. disputed (snapshot ci) source g (new g)) FORM_FIELDS)"
    using r v sm by simp_all
qed

text \<open>
  C27. The outcome of a synchronisation for every field of a configuration item: the written value is taken unless it
  disagrees with a value of a source that outranks the importing one, which is then kept together with its source; a field
  that is not written keeps its value and source; and the number of reported conflicts is the number of disagreements
  with another source, kept or replaced.
\<close>

theorem import_outcome:
  assumes "writes_ok writes" and "sync_import s source writes (ci, summary) = (ci', summary')" and "f \<in> set FORM_FIELDS"
  defines "new \<equiv> \<lambda>f. case map_of (rev writes) f of None \<Rightarrow> ci_get f ci | Some v \<Rightarrow> v"
  shows "ci_get f ci' = (if keeps (precedence s) (snapshot ci) source f (new f) then ci_get f ci else new f)
    \<and> (keeps (precedence s) (snapshot ci) source f (new f) \<longrightarrow> map_of (ci_field_sources ci') f = map_of (ci_field_sources ci) f)
    \<and> (f \<notin> fst ` set writes \<longrightarrow> ci_get f ci' = ci_get f ci \<and> map_of (ci_field_sources ci') f = map_of (ci_field_sources ci) f)
    \<and> sm_conflicts_total summary' = sm_conflicts_total summary + length (filter (\<lambda>g. disputed (snapshot ci) source g (new g)) FORM_FIELDS)"
proof -
  note r = sync_import_field [OF assms(1-3)]
  have "ci_get f ci' = ci_get f ci \<and> map_of (ci_field_sources ci') f = map_of (ci_field_sources ci) f" if "f \<notin> fst ` set writes"
  proof -
    have "map_of (rev writes) f = None" using that by (simp add: map_of_eq_None_iff)
    moreover have "\<not> keeps (precedence s) (snapshot ci) source f (ci_get f ci)"
      using assms(3) by (simp add: keeps_def disputed_def snapshot_value)
    ultimately show ?thesis using r(1,2) that by (simp add: mark_def mark_fields_other)
  qed
  then show ?thesis unfolding new_def using r by simp
qed

text \<open>
  C26. A value of a higher-ranked source survives: however many spreadsheet-style imports of lower-ranked sources follow,
  and whatever they write, the field keeps its value and its source.
\<close>

theorem outranking_value_survives:
  assumes "f \<in> set FORM_FIELDS" and "\<not> blank (ci_get f ci)" and "map_of (ci_field_sources ci) f = Some src" and "src \<noteq> []"
    and "\<And>source writes. (source, writes) \<in> set batches \<Longrightarrow> outranks s src source"
    and "fold (\<lambda>(source, writes). spreadsheet_import s source writes) batches (ci, summary) = (ci', summary')"
  shows "ci_get f ci' = ci_get f ci \<and> map_of (ci_field_sources ci') f = Some src"
  using assms(2,3,5,6)
proof (induction batches arbitrary: ci summary)
  case (Cons i batches)
  obtain source writes where i: "i = (source, writes)" by (cases i)
  obtain ci1 summary1 where one: "spreadsheet_import s source writes (ci, summary) = (ci1, summary1)"
    by (cases "spreadsheet_import s source writes (ci, summary)")
  have kept: "ci_get f ci1 = ci_get f ci \<and> map_of (ci_field_sources ci1) f = Some src"
    by (rule spreadsheet_keeps [OF assms(1) Cons.prems(1,2) assms(4) _ one]) (use Cons.prems(3) i in \<open>auto simp: outranks_def\<close>)
  moreover have "fold (\<lambda>(source, writes). spreadsheet_import s source writes) batches (ci1, summary1) = (ci', summary')"
    using Cons.prems(4) one i by simp
  ultimately show ?case using Cons.IH [of ci1 summary1] Cons.prems by auto
qed auto

definition example_summary :: import_summary where
  "example_summary = \<lparr>sm_changes = [], sm_changes_total = 0, sm_cis_unchanged = 0, sm_conflicts = [], sm_conflicts_total = 0\<rparr>"

definition example_manual_ci :: configuration_item where
  "example_manual_ci = blank_configuration_item\<lparr>ci_vendor := Some ''Dell'', ci_field_sources := [(''vendor'', ''manual'')]\<rparr>"

lemma example_precedence: "precedence empty_db = [''manual'', ''csv'', ''snipeit'', ''netbox'']"
  by (simp add: precedence_def setting_value_def empty_db_def SOURCES_BY_RANK_def strip_def is_space_def Let_def)

lemma example_manual_facts:
  "''vendor'' \<in> set FORM_FIELDS" "\<not> blank (ci_get ''vendor'' example_manual_ci)"
  "map_of (ci_field_sources example_manual_ci) ''vendor'' = Some ''manual''"
  by (simp_all add: FORM_FIELDS_def blank_def ci_get_def jget_def ci_fields_def example_manual_ci_def jstr_def)

text \<open>A vendor entered by hand, and two batches that disagree.\<close>

theorem outranking_value_survives_witness:
  "ci_get ''vendor'' (fst (fold (\<lambda>(source, writes). spreadsheet_import empty_db source writes)
     [(''csv'', [(''vendor'', JStr ''HP'')]), (''netbox'', [(''vendor'', JStr ''IBM'')])] (example_manual_ci, example_summary))) = JStr ''Dell''"
proof -
  let ?batches = "[(''csv'', [(''vendor'', JStr ''HP'')]), (''netbox'', [(''vendor'', JStr ''IBM'')])]"
  let ?after = "fold (\<lambda>(source, writes). spreadsheet_import empty_db source writes) ?batches (example_manual_ci, example_summary)"
  have "outranks empty_db ''manual'' source" if "(source, writes) \<in> set ?batches" for source writes
    using that by (auto simp: outranks_def example_precedence rank_def)
  from outranking_value_survives [OF example_manual_facts _ this, where batches = ?batches and summary = example_summary and ci' = "fst ?after" and summary' = "snd ?after"]
  have "ci_get ''vendor'' (fst ?after) = ci_get ''vendor'' example_manual_ci" by simp
  then show ?thesis by (simp add: ci_get_def jget_def ci_fields_def example_manual_ci_def jstr_def)
qed

lemma example_vendor [simp]: "ci_get ''vendor'' example_manual_ci = JStr ''Dell''"
  by (simp add: ci_get_def jget_def ci_fields_def example_manual_ci_def jstr_def)

lemma vendor_write_ok: "writes_ok [(''vendor'', JStr v)]"
  by (simp add: writes_ok_def FORM_FIELDS_def column_value_def jstr_def)

theorem import_outcome_witness:
  "ci_get ''vendor'' (fst (sync_import empty_db ''netbox'' [(''vendor'', JStr ''HP'')] (example_manual_ci, example_summary))) = JStr ''Dell''"
proof -
  let ?r = "sync_import empty_db ''netbox'' [(''vendor'', JStr ''HP'')] (example_manual_ci, example_summary)"
  have "keeps (precedence empty_db) (snapshot example_manual_ci) ''netbox'' ''vendor'' (JStr ''HP'')"
    using example_manual_facts(1,2)
    by (simp add: keeps_def disputed_def snapshot_value old_source_def example_precedence rank_def)
      (simp add: snapshot_def example_manual_ci_def)
  then show ?thesis
    using import_outcome [OF vendor_write_ok _ example_manual_facts(1), of empty_db "''netbox''" "''HP''" example_manual_ci example_summary "fst ?r" "snd ?r"]
    by simp
qed

lemma mark_fields_own: "f \<in> set fs \<Longrightarrow> \<not> blank (ci_get f ci) \<Longrightarrow> map_of (fold (mark_field ci source) fs d) f = Some source"
proof (induction fs arbitrary: d)
  case (Cons g fs)
  then show ?case by (cases "f \<in> set fs") (auto simp: mark_fields_other, simp add: mark_field_def)
qed simp

text \<open>
  C39. Confirming a value loses its rank: take any field with a value, and two synchronisations that both rank below its
  source. When the lower one writes the very value the field has, the field is marked as coming from that synchronisation,
  and the next run of the other one replaces the value by its own, although the original source outranks both. Without
  the confirmation the value is kept.
\<close>

theorem confirmed_value_loses_rank:
  assumes f: "f \<in> set FORM_FIELDS" "\<not> blank (ci_get f ci)" "map_of (ci_field_sources ci) f = Some owner" "owner \<noteq> []"
    and ranks: "outranks s owner mid" "outranks s mid low" "low \<noteq> []"
    and confirm: "writes_ok same" "map_of (rev same) f = Some (ci_get f ci)"
    and differ: "writes_ok writes" "map_of (rev writes) f = Some v" "v \<noteq> ci_get f ci"
    and one: "sync_import s low same (ci, summary) = (ci1, sm1)"
  shows "ci_get f ci1 = ci_get f ci \<and> map_of (ci_field_sources ci1) f = Some low
    \<and> ci_get f (fst (sync_import s mid writes (ci1, sm1))) = v
    \<and> ci_get f (fst (sync_import s mid writes (ci, summary))) = ci_get f ci"
proof -
  obtain ci2 sm2 where two: "sync_import s mid writes (ci1, sm1) = (ci2, sm2)" by (cases "sync_import s mid writes (ci1, sm1)")
  obtain ci3 sm3 where direct: "sync_import s mid writes (ci, summary) = (ci3, sm3)" by (cases "sync_import s mid writes (ci, summary)")
  have "\<not> keeps (precedence s) (snapshot ci) low f (ci_get f ci)" using f(1) by (simp add: keeps_def disputed_def snapshot_value)
  moreover have "f \<in> set (map fst same)" using confirm(2) by (force dest: map_of_SomeD)
  then have "map_of (ci_field_sources (mark (write_fields same ci) (map fst same) low)) f = Some low"
    using mark_fields_own [of f "map fst same" "write_fields same ci"] f(2) write_fields_get [OF confirm(1)] confirm(2) by (simp add: mark_def)
  ultimately have ci1: "ci_get f ci1 = ci_get f ci" "map_of (ci_field_sources ci1) f = Some low"
    using sync_import_field [OF confirm(1) one f(1)] confirm(2) by simp_all
  have "old_source (snapshot ci1) f = low" using ci1(2) by (simp add: old_source_def snapshot_def)
  then have "\<not> keeps (precedence s) (snapshot ci1) mid f v" using ranks(2) by (simp add: keeps_def outranks_def)
  then have ci2: "ci_get f ci2 = v" using sync_import_field(1) [OF differ(1) two f(1)] differ(2) by simp
  have "old_source (snapshot ci) f = owner" using f(3) by (simp add: old_source_def snapshot_def)
  then have "keeps (precedence s) (snapshot ci) mid f v"
    using ranks(1) f differ(3) by (auto simp: keeps_def disputed_def snapshot_value outranks_def)
  then have "ci_get f ci3 = ci_get f ci" using sync_import_field(1) [OF differ(1) direct f(1)] differ(2) by simp
  then show ?thesis using ci1 ci2 two direct by simp
qed

theorem confirmed_value_loses_rank_witness:
  "ci_get ''vendor'' (fst (sync_import empty_db ''snipeit'' [(''vendor'', JStr ''HP'')]
       (sync_import empty_db ''netbox'' [(''vendor'', JStr ''Dell'')] (example_manual_ci, example_summary)))) = JStr ''HP''
   \<and> ci_get ''vendor'' (fst (sync_import empty_db ''snipeit'' [(''vendor'', JStr ''HP'')] (example_manual_ci, example_summary))) = JStr ''Dell''"
proof -
  have "outranks empty_db ''manual'' ''snipeit''" "outranks empty_db ''snipeit'' ''netbox''" by (simp_all add: outranks_def example_precedence rank_def)
  from confirmed_value_loses_rank [OF example_manual_facts _ this _ vendor_write_ok _ vendor_write_ok, of "''Dell''" "''HP''" "JStr ''HP''" example_summary
      "fst (sync_import empty_db ''netbox'' [(''vendor'', JStr ''Dell'')] (example_manual_ci, example_summary))"
      "snd (sync_import empty_db ''netbox'' [(''vendor'', JStr ''Dell'')] (example_manual_ci, example_summary))"]
  show ?thesis by simp
qed

section \<open>Permissions\<close>

text \<open>
  The classes a role may not read, computed in one query, are exactly those the check of a single class refuses, and
  the restriction of a list keeps exactly the items whose class may be read.
\<close>

theorem unreadable_matches_single:
  "(ci_class \<in> set (unreadable_ci_classes s tenant_id role) \<longleftrightarrow> \<not> ci_class_read_allowed s tenant_id ci_class role)
   \<and> restrict_ci_query_to_readable_classes s tenant_id role query = filter (\<lambda>ci. ci_class_read_allowed s tenant_id (ci_ci_class ci) role) query"
proof -
  have single: "c \<in> set (unreadable_ci_classes s tenant_id role) \<longleftrightarrow> \<not> ci_class_read_allowed s tenant_id c role" for c
    by (auto simp: unreadable_ci_classes_def ci_class_read_allowed_def Let_def list_ex_iff filter_empty_conv image_iff)
  have "restrict_ci_query_to_readable_classes s tenant_id role query = filter (\<lambda>ci. ci_ci_class ci \<notin> set (unreadable_ci_classes s tenant_id role)) query"
    by (simp add: restrict_ci_query_to_readable_classes_def Let_def)
  then show ?thesis using single by simp
qed

text \<open>
  The administrator's role is treated differently by the two checks: every action is allowed, while reading a class
  that has any row needs a row of its own, against the introduction of the module, which says that administrators pass every check.
\<close>

lemma admin_read_restricted:
  "let s = empty_db\<lparr>db_ci_permissions := [\<lparr>cp_id = 2, cp_tenant_id = 3, cp_ci_class = ''Printer'', cp_role = ''agent'', cp_can_read = True,
       cp_can_create = False, cp_can_update = False, cp_can_delete = False, cp_updated_by_id = None, cp_updated_at = 0\<rparr>]\<rparr>
   in ci_class_action_allowed s 3 ''Printer'' ''admin'' ''delete'' = Inr True \<and> \<not> ci_class_read_allowed s 3 ''Printer'' ''admin''"
  by (simp add: ci_class_action_allowed_def ci_class_read_allowed_def class_rows_def)

end
