(* ===== verification/Query_Conditions.thy ===== *)
theory Query_Conditions
  imports Platform Business_Time
begin

text \<open>
  What the comparisons of the project search language mean in SQL (\<^verbatim>\<open>serviceops_core/projects/query.py\<close>: \<^verbatim>\<open>match\<close>, \<^verbatim>\<open>present\<close>,
  \<^verbatim>\<open>collection\<close>, \<^verbatim>\<open>sprint_items\<close>, \<^verbatim>\<open>order_column\<close> and the calendar functions). A SQL condition is a tree over columns, named as
  the models name them. Of the standard library, \<^verbatim>\<open>datetime.fromisoformat\<close> and \<^verbatim>\<open>float\<close> on a text are parameters of the
  environment of a query.
\<close>

section \<open>Tokens, values and conditions\<close>

record qtoken =
  qt_text :: string
  qt_position :: nat
  qt_quoted :: bool

text \<open>
  A value is a text, \<^verbatim>\<open>('user', id)\<close>, a \<^verbatim>\<open>CollectionFunction\<close> or a time. Times are UTC microseconds.
\<close>

datatype qvalue = VText string | VUser nat | VCollection string "string list" | VTime datetime

datatype sql_value = SText string | SNumber rat | STime datetime | SDate date | SBool bool | SId nat

text \<open>
  SQL conditions: \<open>PLower c v\<close> is \<^verbatim>\<open>func.lower(c) == v\<close>, \<open>PRelated r p\<close> is \<^verbatim>\<open>r.any(p)\<close> or \<^verbatim>\<open>r.has(p)\<close>, \<open>PIn c d p\<close> is
  \<open>c IN (SELECT d WHERE p)\<close>, \<open>PFirst c d p down\<close> compares \<open>c\<close> with the first \<open>d\<close> where \<open>p\<close> in the order of position and id, and
  \<open>PSubtree t p\<close> holds of the work items where \<open>p\<close> and of their descendants in the same project and in tenant \<open>t\<close>.
\<close>

datatype condition =
    PTrue
  | PFalse
  | PNot condition
  | PAnd condition condition
  | POr condition condition
  | PNotNull string
  | PIsNull string
  | PCompare string string sql_value
  | PLower string string
  | PLike string string
  | PRelated string condition
  | PIn string string condition
  | PFirst string string condition bool
  | PSubtree nat condition

fun all_of :: "condition list \<Rightarrow> condition" where
  "all_of [] = PTrue"
| "all_of [p] = p"
| "all_of (p # q # ps) = PAnd p (all_of (q # ps))"

text \<open>
  The user of a query, the roles (in the database), the clock, and two functions of the standard library: the time a text
  denotes in UTC (a text without zone is read as UTC, and a zone may move it out of the supported years), and the
  finite number a text denotes.
\<close>

record query_env =
  qe_db :: db
  qe_user :: user
  qe_clock :: datetime
  qe_fromisoformat :: "string \<Rightarrow> datetime option"
  qe_float :: "string \<Rightarrow> rat option"

definition query_tenant :: "query_env \<Rightarrow> string \<Rightarrow> condition" where
  "query_tenant env column = PCompare column ''='' (SId (u_tenant_id (qe_user env)))"

definition QUERY_FIELDS :: "string list" where
  "QUERY_FIELDS = [''project'', ''key'', ''type'', ''summary'', ''description'', ''text'', ''status'', ''category'',
     ''priority'', ''assignee'', ''reporter'', ''labels'', ''parent'', ''created'', ''updated'',
     ''start'', ''due'', ''resolution'', ''storyPoints'', ''estimate'', ''remaining'', ''spent'',
     ''component'', ''fixVersion'', ''affectsVersion'', ''flagged'', ''sprint'']"

definition ALIASES :: "(string \<times> string) list" where
  "ALIASES = [(''issuetype'', ''type''), (''issuekey'', ''key''), (''id'', ''key''), (''duedate'', ''due''),
     (''startdate'', ''start''), (''createddate'', ''created''), (''updateddate'', ''updated''),
     (''statuscategory'', ''category''), (''label'', ''labels''), (''originalestimate'', ''estimate''),
     (''remainingestimate'', ''remaining''), (''timespent'', ''spent''), (''affectedversion'', ''affectsversion''), (''issue'', ''key'')]"

definition QUERY_COLUMNS :: "(string \<times> string) list" where
  "QUERY_COLUMNS = [(''summary'', ''WorkItem.title''), (''description'', ''WorkItem.description''),
     (''type'', ''WorkItem.item_type''), (''created'', ''WorkItem.created_at''), (''updated'', ''WorkItem.updated_at''),
     (''start'', ''WorkItem.start_date''), (''due'', ''WorkItem.due_date''), (''storypoints'', ''WorkItem.story_points''),
     (''estimate'', ''WorkItem.estimate_minutes''), (''remaining'', ''WorkItem.remaining_minutes''),
     (''spent'', ''WorkItem.spent_minutes''), (''flagged'', ''WorkItem.flagged'')]"

definition DATES :: "string list" where
  "DATES = [''created'', ''updated'', ''start'', ''due'']"

definition NUMBERS :: "string list" where
  "NUMBERS = [''storypoints'', ''estimate'', ''remaining'', ''spent'']"

section \<open>Calendar functions\<close>

definition DAY :: int where
  "DAY = 86400000000"

text \<open>The times of Python's \<^verbatim>\<open>datetime\<close>: the years 1 to 9999.\<close>

definition supported_time :: "datetime \<Rightarrow> bool" where
  "supported_time t \<longleftrightarrow> days_from_civil 1 1 1 * DAY \<le> t \<and> t < days_from_civil 10000 1 1 * DAY"

definition in_calendar :: "nat \<Rightarrow> datetime \<Rightarrow> datetime result" where
  "in_calendar position t =
     (if supported_time t then Inr t else Inl (QueryError ''Date increment is outside the supported calendar'' position))"

text \<open>\<^verbatim>\<open>base.replace(year, month, day)\<close> and the number of days of a month.\<close>

definition replace_date :: "nat \<Rightarrow> int \<Rightarrow> int \<Rightarrow> int \<Rightarrow> datetime \<Rightarrow> datetime result" where
  "replace_date position y m d base =
     (if 1 \<le> y \<and> y \<le> 9999 then Inr (days_from_civil y m d * DAY + base mod DAY)
      else Inl (QueryError ''Date increment is outside the supported calendar'' position))"

definition month_days :: "int \<Rightarrow> int \<Rightarrow> int" where
  "month_days y m = days_from_civil (y + (if m = 12 then 1 else 0)) (m mod 12 + 1) 1 - days_from_civil y m 1"

text \<open>\<^verbatim>\<open>([+-]?\d{1,5})\<close> at the start of a text, and what is behind it.\<close>

definition relative_amount :: "string \<Rightarrow> (int \<times> string) option" where
  "relative_amount s =
     (let negative = starts_with ''-'' s; s = (if negative \<or> starts_with ''+'' s then tl s else s); digits = takeWhile is_digit s in
      if 1 \<le> length digits \<and> length digits \<le> 5
      then Some (if negative then - int (digits_value digits) else int (digits_value digits), dropWhile is_digit s) else None)"

definition UNIT_MINUTES :: "(string \<times> int) list" where
  "UNIT_MINUTES = [(''d'', 1440), (''h'', 60), (''w'', 10080), (''m'', 1)]"

definition PERIODS :: "(string \<times> string) list" where
  "PERIODS = [(''day'', ''d''), (''week'', ''w''), (''month'', ''M''), (''year'', ''y'')]"

definition calendar_start :: "nat \<Rightarrow> string \<Rightarrow> datetime \<Rightarrow> datetime result" where
  "calendar_start position period clock =
     (let day = clock div DAY; base = day * DAY; (y, m, d) = civil_from_days day in
      if period = ''week'' then in_calendar position (base - weekday day * DAY)
      else if period = ''month'' then replace_date position y m 1 base
      else if period = ''year'' then replace_date position y 1 1 base
      else Inr base)"

definition calendar_end :: "nat \<Rightarrow> string \<Rightarrow> datetime \<Rightarrow> datetime result" where
  "calendar_end position period base =
     (let (y, m, d) = civil_from_days (base div DAY) in
      bindE (if period = ''day'' then in_calendar position (base + DAY)
             else if period = ''week'' then in_calendar position (base + 7 * DAY)
             else if period = ''month'' then replace_date position (y + (if m = 12 then 1 else 0)) (m mod 12 + 1) d base
             else replace_date position (y + 1) m d base)
        (\<lambda>next_start. in_calendar position (next_start - 1)))"

definition calendar_increment :: "nat \<Rightarrow> string \<Rightarrow> bool \<Rightarrow> int \<Rightarrow> string \<Rightarrow> datetime \<Rightarrow> datetime result" where
  "calendar_increment position period ends amount unit base =
     (if unit = ''M'' \<or> unit = ''y'' then
        (let (y, m, d) = civil_from_days (base div DAY);
             month_index = y * 12 + m - 1 + amount * (if unit = ''y'' then 12 else 1);
             year = month_index div 12; month = month_index mod 12 + 1;
             last_day = month_days year month;
             day = (if ends \<and> (period = ''month'' \<or> period = ''year'') \<and> d = month_days y m then last_day else min d last_day)
         in replace_date position year month day base)
      else in_calendar position (base + amount * opt 0 (map_of UNIT_MINUTES unit) * 60000000))"

definition calendar_function :: "string \<Rightarrow> string list \<Rightarrow> datetime \<Rightarrow> nat \<Rightarrow> datetime result" where
  "calendar_function name args clock position =
     (if name = ''now'' then (if args \<noteq> [] then Inl (QueryError ''now takes no arguments'' position) else Inr clock)
      else case List.find (\<lambda>(p, u). name = ''startof'' @ p \<or> name = ''endof'' @ p) PERIODS of
        None \<Rightarrow> Inl (QueryError ''Unsupported function'' position)
      | Some (period, default_unit) \<Rightarrow>
          let ends = starts_with ''endof'' name in
          bindE (calendar_start position period clock) (\<lambda>base.
          bindE (if ends then calendar_end position period base else Inr base) (\<lambda>base.
            case args of
              [] \<Rightarrow> Inr base
            | a # _ \<Rightarrow>
                (case relative_amount a of
                   Some (amount, unit) \<Rightarrow>
                     if unit \<in> set ['''', ''y'', ''M'', ''w'', ''d'', ''h'', ''m'']
                     then calendar_increment position period ends amount (if unit = [] then default_unit else unit) base
                     else Inl (QueryError ''Expected an increment such as -1M or +2d'' position)
                 | None \<Rightarrow> Inl (QueryError ''Expected an increment such as -1M or +2d'' position)))))"

text \<open>A relative duration such as \<^verbatim>\<open>-2w\<close>, in microseconds.\<close>

definition relative_duration :: "string \<Rightarrow> int option" where
  "relative_duration s =
     Option.bind (relative_amount s) (\<lambda>(amount, unit). map_option (\<lambda>minutes. amount * minutes * 60000000) (map_of UNIT_MINUTES unit))"

definition iso_time :: "query_env \<Rightarrow> string \<Rightarrow> datetime option" where
  "iso_time env s = qe_fromisoformat env (replace_all ''Z'' ''+00:00'' s)"

text \<open>\<^verbatim>\<open>history_date\<close>, where every failure is an error of the query.\<close>

definition history_date :: "query_env \<Rightarrow> qvalue \<Rightarrow> qtoken \<Rightarrow> datetime result" where
  "history_date env v t =
     (let error = Inl (QueryError ''Expected an ISO timestamp, relative duration or date function'' (qt_position t));
          checked = (\<lambda>time. if supported_time time then Inr time else error) in
      case v of
        VText s \<Rightarrow> (case relative_duration s of
            Some duration \<Rightarrow> checked (qe_clock env + duration)
          | None \<Rightarrow> (case iso_time env s of None \<Rightarrow> error | Some time \<Rightarrow> checked time))
      | VTime time \<Rightarrow> checked time
      | _ \<Rightarrow> error)"

section \<open>Conditions on fields\<close>

text \<open>
  \<^verbatim>\<open>sprint_items(condition)\<close>: the recursive query starts from the items with an active or completed place in a sprint that the
  condition selects.
\<close>

definition sprint_items :: "query_env \<Rightarrow> condition \<Rightarrow> condition" where
  "sprint_items env p =
     PSubtree (u_tenant_id (qe_user env))
       (PRelated ''ProjectSprintItem.work_item_id = WorkItem.id''
         (PRelated ''ProjectSprint.id = ProjectSprintItem.sprint_id''
           (all_of [query_tenant env ''WorkItem.tenant_id'', query_tenant env ''ProjectSprint.tenant_id'',
             query_tenant env ''ProjectSprintItem.tenant_id'', PRelated ''ProjectSprint.project_id = WorkItem.project_id'' PTrue,
             POr (PCompare ''ProjectSprintItem.active'' ''='' (SBool True)) (PCompare ''ProjectSprintItem.completed'' ''='' (SBool True)), p])))"

definition present :: "query_env \<Rightarrow> string \<Rightarrow> condition" where
  "present env field =
     (if field = ''sprint'' then sprint_items env PTrue
      else if field = ''assignee'' then PRelated ''WorkItem.assignees'' PTrue
      else if field = ''labels'' then PRelated ''WorkItem.labels'' PTrue
      else if field = ''component'' then PRelated ''WorkItem.components'' PTrue
      else if field = ''fixversion'' then PRelated ''WorkItem.fix_versions'' PTrue
      else if field = ''affectsversion'' then PRelated ''WorkItem.affects_versions'' PTrue
      else if field = ''parent'' then PNotNull ''WorkItem.parent_id''
      else if field = ''resolution'' then PNotNull ''WorkItem.resolution_id''
      else if field = ''reporter'' then PNotNull ''WorkItem.reporter_id''
      else case map_of QUERY_COLUMNS field of
        Some column \<Rightarrow>
          if field = ''summary'' \<or> field = ''description'' then PAnd (PNotNull column) (PCompare column ''!='' (SText []))
          else PNotNull column
      | None \<Rightarrow>
          if field = ''text'' then POr (PCompare ''WorkItem.title'' ''!='' (SText [])) (PCompare ''WorkItem.description'' ''!='' (SText []))
          else PTrue)"

text \<open>A project or a user named by a text, compared without case.\<close>

definition named_project :: "string \<Rightarrow> condition" where
  "named_project v = POr (PLower ''Project.key'' (lower v)) (PLower ''Project.name'' (lower v))"

definition named_user :: "string \<Rightarrow> condition" where
  "named_user v = POr (PLower ''User.username'' (lower v)) (PLower ''User.name'' (lower v))"

definition version_relation :: "string \<Rightarrow> string" where
  "version_relation field = (if field = ''fixversion'' then ''WorkItem.fix_versions'' else ''WorkItem.affects_versions'')"

text \<open>\<^verbatim>\<open>collection(field, value, token)\<close>, the functions behind \<^verbatim>\<open>IN\<close>.\<close>

definition collection :: "query_env \<Rightarrow> string \<Rightarrow> qvalue \<Rightarrow> qtoken \<Rightarrow> condition result" where
  "collection env field v t =
     (case v of
        VCollection name args \<Rightarrow>
          (if name \<in> set [''opensprints'', ''closedsprints'', ''futuresprints''] then
             (if field \<noteq> ''sprint'' then Inl (QueryError ''Sprint functions require the sprint field'' (qt_position t))
              else Inr (sprint_items env (PCompare ''ProjectSprint.state'' ''='' (SText
                (if name = ''opensprints'' then ''active'' else if name = ''closedsprints'' then ''closed'' else ''planned'')))))
           else if name \<in> set [''watchedissues'', ''votedissues'', ''issuehistory''] then
             (if field \<noteq> ''key'' then Inl (QueryError ''This function requires the key field'' (qt_position t))
              else let model = (if name = ''watchedissues'' then ''WorkItemWatcher'' else if name = ''votedissues'' then ''WorkItemVote'' else ''WorkItemView'')
                in Inr (PIn ''WorkItem.id'' (model @ ''.work_item_id'')
                  (PAnd (query_tenant env (model @ ''.tenant_id'')) (PCompare (model @ ''.user_id'') ''='' (SId (u_id (qe_user env)))))))
           else if name \<noteq> ''releasedversions'' \<and> name \<noteq> ''unreleasedversions'' then
             Inl (QueryError ''This function requires = or !='' (qt_position t))
           else if field \<noteq> ''fixversion'' \<and> field \<noteq> ''affectsversion'' then
             Inl (QueryError ''Version functions require fixVersion or affectsVersion'' (qt_position t))
           else
             let versions = all_of [query_tenant env ''ProjectVersion.tenant_id'', PCompare ''ProjectVersion.archived'' ''='' (SBool False),
                   PCompare ''ProjectVersion.released'' ''='' (SBool (name = ''releasedversions''))];
                 versions = (case args of [] \<Rightarrow> versions
                   | a # _ \<Rightarrow> PAnd versions (PIn ''ProjectVersion.project_id'' ''Project.id'' (PAnd (query_tenant env ''Project.tenant_id'') (named_project a))))
             in Inr (PRelated (version_relation field) versions))
      | _ \<Rightarrow> Inl (QueryError ''Expected a collection function'' (qt_position t)))"

text \<open>\<^verbatim>\<open>service.visible_projects(user)\<close> without the archived projects, and \<^verbatim>\<open>service.parse_item_key\<close>.\<close>

definition visible_projects :: "query_env \<Rightarrow> condition" where
  "visible_projects env =
     (let open_projects = PAnd (query_tenant env ''Project.tenant_id'') (PIsNull ''Project.archived_at'') in
      if role_at_least (effective_role (qe_db env) (qe_user env)) ''admin'' then open_projects
      else PAnd open_projects (POr (PCompare ''Project.visibility'' ''='' (SText ''open''))
        (PIn ''Project.id'' ''ProjectMember.project_id'' (PCompare ''ProjectMember.user_id'' ''='' (SId (u_id (qe_user env)))))))"

definition ascii_letter :: "char \<Rightarrow> bool" where
  "ascii_letter c \<longleftrightarrow> (let n = of_char c :: nat in 65 \<le> n \<and> n \<le> 90 \<or> 97 \<le> n \<and> n \<le> 122)"

definition parse_item_key :: "string \<Rightarrow> (string \<times> nat) option" where
  "parse_item_key s =
     (let s = strip s; key = takeWhile (\<lambda>c. ascii_letter c \<or> is_digit c) s; rest = dropWhile (\<lambda>c. ascii_letter c \<or> is_digit c) s in
      if 2 \<le> length key \<and> length key \<le> 10 \<and> ascii_letter (hd key) \<and> starts_with ''-'' rest
        \<and> 2 \<le> length rest \<and> length rest \<le> 10 \<and> list_all is_digit (tl rest)
      then Some (upper key, digits_value (tl rest)) else None)"

text \<open>
  \<^verbatim>\<open>value.isdigit()\<close> holds of the superscripts too, which \<^verbatim>\<open>int(value)\<close> refuses with a \<^verbatim>\<open>ValueError\<close> that is not an error of the
  query.
\<close>

definition isdigit :: "string \<Rightarrow> bool" where
  "isdigit s \<longleftrightarrow> s \<noteq> [] \<and> list_all (\<lambda>c. is_digit c \<or> of_char c \<in> set [178, 179, 185 :: nat]) s"

definition sprint_condition :: "string \<Rightarrow> condition result" where
  "sprint_condition v =
     (if isdigit v then
        (if list_all is_digit v then Inr (PCompare ''ProjectSprint.id'' ''='' (SId (digits_value v)))
         else Inl (ValueError ''invalid literal for int() with base 10''))
      else Inr (PLower ''ProjectSprint.name'' (lower v)))"

text \<open>The value of a date field; the conversion to UTC is outside the code's \<^verbatim>\<open>try\<close>.\<close>

definition date_value :: "query_env \<Rightarrow> string \<Rightarrow> qvalue \<Rightarrow> qtoken \<Rightarrow> sql_value result" where
  "date_value env field v t =
     (let error = Inl (QueryError ''Expected an ISO date or relative duration'' (qt_position t));
          converted = (\<lambda>time. if \<not> supported_time time then Inl (OverflowError ''date value out of range'')
            else Inr (if field = ''start'' \<or> field = ''due'' then SDate (time div DAY) else STime time)) in
      case v of
        VText s \<Rightarrow> (case relative_duration s of
            Some duration \<Rightarrow> if supported_time (qe_clock env + duration) then converted (qe_clock env + duration) else error
          | None \<Rightarrow> (case iso_time env s of None \<Rightarrow> error | Some time \<Rightarrow> converted time))
      | VTime time \<Rightarrow> converted time
      | _ \<Rightarrow> Inl (QueryError ''Expected a date'' (qt_position t)))"

definition number_value :: "query_env \<Rightarrow> qvalue \<Rightarrow> qtoken \<Rightarrow> sql_value result" where
  "number_value env v t =
     (case v of
        VText s \<Rightarrow> (case qe_float env s of None \<Rightarrow> Inl (QueryError ''Expected a finite number'' (qt_position t)) | Some x \<Rightarrow> Inr (SNumber x))
      | _ \<Rightarrow> Inl (QueryError ''Expected a finite number'' (qt_position t)))"

text \<open>The pattern of \<^verbatim>\<open>ilike\<close>: the text is escaped, then its wildcards replaced.\<close>

definition like_pattern :: "string \<Rightarrow> string" where
  "like_pattern s =
     ''%'' @ replace_all ''?'' ''_'' (replace_all ''*'' ''%'' (replace_all ''_'' ([CHR 92] @ ''_'') (replace_all ''%'' ([CHR 92] @ ''%'')
       (replace_all [CHR 92] [CHR 92, CHR 92] s)))) @ ''%''"

definition text_match :: "string \<Rightarrow> string \<Rightarrow> string \<Rightarrow> condition" where
  "text_match column positive v = (if positive = ''~'' then PLike column (like_pattern v) else PLower column (lower v))"

text \<open>The comparison of a field with a text or, for the people of an item, a user.\<close>

definition field_match :: "query_env \<Rightarrow> string \<Rightarrow> string \<Rightarrow> qvalue \<Rightarrow> condition result" where
  "field_match env field positive v =
     (let s = (case v of VText s \<Rightarrow> s | _ \<Rightarrow> []) in
      if field = ''summary'' \<or> field = ''description'' \<or> field = ''type'' then Inr (text_match (opt [] (map_of QUERY_COLUMNS field)) positive s)
      else if field = ''text'' then Inr (POr (text_match ''WorkItem.title'' positive s) (text_match ''WorkItem.description'' positive s))
      else if field = ''sprint'' then bindE (sprint_condition s) (\<lambda>p. Inr (sprint_items env p))
      else if field = ''project'' then Inr (PRelated ''WorkItem.project'' (named_project s))
      else if field = ''key'' then
        Inr (case parse_item_key s of None \<Rightarrow> PFalse
          | Some (key, number) \<Rightarrow> PAnd (PRelated ''WorkItem.project'' (PCompare ''Project.key'' ''='' (SText key))) (PCompare ''WorkItem.number'' ''='' (SId number)))
      else if field = ''status'' then Inr (PRelated ''WorkItem.status'' (PLower ''ProjectStatus.name'' (lower s)))
      else if field = ''category'' then Inr (PRelated ''WorkItem.status'' (PLower ''ProjectStatus.category'' (lower s)))
      else if field = ''priority'' then Inr (PLower ''WorkItem.priority'' (lower s))
      else if field = ''assignee'' \<or> field = ''reporter'' then
        Inr (PRelated (if field = ''assignee'' then ''WorkItem.assignees'' else ''WorkItem.reporter'')
          (case v of VUser i \<Rightarrow> PCompare ''User.id'' ''='' (SId i) | _ \<Rightarrow> named_user s))
      else if field = ''labels'' then Inr (PRelated ''WorkItem.labels'' (PLower ''WorkItemLabel.label'' (lower s)))
      else if field = ''parent'' then
        Inr (case parse_item_key s of None \<Rightarrow> PFalse
          | Some (key, number) \<Rightarrow> PRelated ''WorkItem.parent'' (PAnd (PCompare ''WorkItem.number'' ''='' (SId number))
              (PRelated ''WorkItem.project'' (PCompare ''Project.key'' ''='' (SText key)))))
      else if field = ''resolution'' then Inr (PRelated ''WorkItem.resolution'' (PLower ''WorkItemResolution.name'' (lower s)))
      else if field = ''component'' then Inr (PRelated ''WorkItem.components'' (PLower ''ProjectComponent.name'' (lower s)))
      else Inr (PRelated (version_relation field) (PLower ''ProjectVersion.name'' (lower s))))"

text \<open>The version of a project that \<^verbatim>\<open>latestReleasedVersion\<close> or \<^verbatim>\<open>earliestUnreleasedVersion\<close> names.\<close>

definition version_match :: "query_env \<Rightarrow> string \<Rightarrow> string \<Rightarrow> string \<Rightarrow> string list \<Rightarrow> qtoken \<Rightarrow> condition result" where
  "version_match env field operator name args t =
     (if name \<noteq> ''latestreleasedversion'' \<and> name \<noteq> ''earliestunreleasedversion'' then
        Inl (QueryError ''Collection functions require IN or NOT IN'' (qt_position t))
      else if (field \<noteq> ''fixversion'' \<and> field \<noteq> ''affectsversion'') \<or> (operator \<noteq> ''='' \<and> operator \<noteq> ''!='') then
        Inl (QueryError ''This version function requires a version field and = or !='' (qt_position t))
      else
        let released = (name = ''latestreleasedversion'');
            projects = PAnd (visible_projects env) (named_project (case args of [] \<Rightarrow> [] | a # _ \<Rightarrow> a));
            versions = all_of [query_tenant env ''ProjectVersion.tenant_id'', PIn ''ProjectVersion.project_id'' ''Project.id'' projects,
              PCompare ''ProjectVersion.archived'' ''='' (SBool False), PCompare ''ProjectVersion.released'' ''='' (SBool released)];
            matches = PRelated (version_relation field) (PFirst ''ProjectVersion.id'' ''ProjectVersion.id'' versions released)
        in Inr (if operator = ''!='' then PAnd (present env field) (PNot matches) else matches))"

text \<open>\<^verbatim>\<open>match(field, operator, value, token)\<close>: the checks and the conversion of the value, the comparison, and its negation.\<close>

definition positive_match :: "query_env \<Rightarrow> string \<Rightarrow> string \<Rightarrow> qvalue \<Rightarrow> qtoken \<Rightarrow> condition result" where
  "positive_match env field positive v t =
     (let column = opt [] (map_of QUERY_COLUMNS field) in
      if field \<in> set DATES then bindE (date_value env field v t) (\<lambda>x. Inr (PCompare column positive x))
      else if field \<in> set NUMBERS then bindE (number_value env v t) (\<lambda>x. Inr (PCompare column positive x))
      else if field = ''flagged'' then
        (case v of
           VText s \<Rightarrow> if lower s = ''true'' \<or> lower s = ''false'' then Inr (PCompare column positive (SBool (lower s = ''true'')))
             else Inl (QueryError ''Expected true or false'' (qt_position t))
         | _ \<Rightarrow> Inl (QueryError ''Expected true or false'' (qt_position t)))
      else if (case v of VTime _ \<Rightarrow> True | VUser _ \<Rightarrow> field \<noteq> ''assignee'' \<and> field \<noteq> ''reporter'' | _ \<Rightarrow> False)
        then Inl (QueryError ''Function is not supported for this field'' (qt_position t))
      else field_match env field positive v)"

definition match :: "query_env \<Rightarrow> string \<Rightarrow> string \<Rightarrow> qvalue \<Rightarrow> qtoken \<Rightarrow> condition result" where
  "match env field operator v t =
     (case v of VCollection name args \<Rightarrow> version_match env field operator name args t
      | _ \<Rightarrow>
     (let negative = (operator = ''!='' \<or> operator = ''!~'');
          positive = (if operator = ''!='' then ''='' else if operator = ''!~'' then ''~'' else operator) in
      if positive \<in> set [''>'', ''>='', ''<'', ''<=''] \<and> field \<notin> set (DATES @ NUMBERS)
        then Inl (QueryError ''Ordering comparisons require a date or number'' (qt_position t))
      else if positive = ''~'' \<and> field \<notin> set [''summary'', ''description'', ''text'']
        then Inl (QueryError ''Text matching requires summary, description or text'' (qt_position t))
      else bindE (positive_match env field positive v t)
        (\<lambda>matches. Inr (if negative then PAnd (present env field) (PNot matches) else matches))))"

text \<open>\<^verbatim>\<open>order_column\<close>: the fields a search can be sorted by.\<close>

definition sortable :: "string \<Rightarrow> bool" where
  "sortable field \<longleftrightarrow> field \<in> set (map fst QUERY_COLUMNS) \<or> field = ''key'' \<or> field = ''priority''"

text \<open>The condition a qualifier of \<^verbatim>\<open>CHANGED\<close> puts on the history, other than \<^verbatim>\<open>DURING\<close>.\<close>

definition qualifier_condition :: "query_env \<Rightarrow> string \<Rightarrow> qvalue \<Rightarrow> qtoken \<Rightarrow> condition result" where
  "qualifier_condition env name v t =
     (if name = ''FROM'' \<or> name = ''TO'' then
        (case v of VText s \<Rightarrow> Inr (PLower (if name = ''FROM'' then ''WorkItemHistory.old_value'' else ''WorkItemHistory.new_value'') (lower s))
         | _ \<Rightarrow> Inl (QueryError ''Expected a historical field value'' (qt_position t)))
      else if name = ''BY'' then
        (case v of
           VUser i \<Rightarrow> Inr (PCompare ''WorkItemHistory.actor_id'' ''='' (SId i))
         | VText s \<Rightarrow> Inr (PIn ''WorkItemHistory.actor_id'' ''User.id'' (PAnd (query_tenant env ''User.tenant_id'') (named_user s)))
         | _ \<Rightarrow> Inl (QueryError ''Expected a user'' (qt_position t)))
      else bindE (history_date env v t) (\<lambda>time.
        Inr (PCompare ''WorkItemHistory.created_at'' (if name = ''BEFORE'' then ''<'' else ''>'') (STime time))))"

definition history_between :: "datetime \<Rightarrow> datetime \<Rightarrow> condition list" where
  "history_between earliest latest = [PCompare ''WorkItemHistory.created_at'' ''>='' (STime earliest), PCompare ''WorkItemHistory.created_at'' ''<='' (STime latest)]"

definition history_items :: "query_env \<Rightarrow> string \<Rightarrow> condition list \<Rightarrow> condition" where
  "history_items env column conditions =
     PIn ''WorkItem.id'' ''WorkItemHistory.work_item_id''
       (all_of ([query_tenant env ''WorkItemHistory.tenant_id'', PCompare ''WorkItemHistory.field'' ''='' (SText column)] @ conditions))"

end
