(* ===== verification/Project_Query.thy ===== *)
theory Project_Query
  imports Query_Conditions
begin

text \<open>
  The search language of projects (\<^verbatim>\<open>serviceops_core/projects/query.py\<close>): the tokens of a query, the recursive-descent parser
  with its limits and error positions, the sort order and the whole search. The SQL conditions the parser combines are those
  of \<open>Query_Conditions\<close>. The index into the tokens is the list of the tokens that are left.
\<close>

section \<open>Tokens\<close>

definition MAX_QUERY :: nat where
  "MAX_QUERY = 4096"

definition MAX_TOKENS :: nat where
  "MAX_TOKENS = 256"

definition MAX_DEPTH :: nat where
  "MAX_DEPTH = 16"

text \<open>The rest of a quoted value, from behind the opening quote; \<open>start\<close> is the position of that quote.\<close>

fun quoted_value :: "nat \<Rightarrow> char \<Rightarrow> string \<Rightarrow> (string \<times> string) result" where
  "quoted_value start quote [] = Inl (QueryError ''Unclosed quoted value'' start)"
| "quoted_value start quote (c # cs) =
     (if c = quote then Inr ([], cs)
      else if c = CHR 92 then
        (case cs of
           [] \<Rightarrow> Inl (QueryError ''Unfinished quoted value'' start)
         | d # ds \<Rightarrow> bindE (quoted_value start quote ds) (\<lambda>(v, rest). Inr (d # v, rest)))
      else bindE (quoted_value start quote cs) (\<lambda>(v, rest). Inr (c # v, rest)))"

definition word_char :: "char \<Rightarrow> bool" where
  "word_char c \<longleftrightarrow> \<not> is_space c \<and> c \<notin> set [CHR ''('', CHR '')'', CHR '','', CHR ''='', CHR ''!'', CHR ''<'', CHR ''>'', CHR ''~'', CHR 39, CHR 34]"

text \<open>One token from a character that is not white space, and what is left.\<close>

definition next_token :: "nat \<Rightarrow> char \<Rightarrow> string \<Rightarrow> (qtoken \<times> string) result" where
  "next_token position c cs =
     (if c = CHR 34 \<or> c = CHR 39 then
        bindE (quoted_value position c cs) (\<lambda>(v, rest). Inr (\<lparr>qt_text = v, qt_position = position, qt_quoted = True\<rparr>, rest))
      else if c \<in> set [CHR ''('', CHR '')'', CHR '',''] then Inr (\<lparr>qt_text = [c], qt_position = position, qt_quoted = False\<rparr>, cs)
      else if c \<in> set [CHR ''='', CHR ''!'', CHR ''<'', CHR ''>'', CHR ''~''] then
        (let op = (if c # take 1 cs \<in> set [''!='', ''>='', ''<='', ''!~''] then c # take 1 cs else [c]) in
         if op = ''!'' then Inl (QueryError ''Expected != or !~'' position)
         else Inr (\<lparr>qt_text = op, qt_position = position, qt_quoted = False\<rparr>, drop (length op - 1) cs))
      else Inr (\<lparr>qt_text = c # takeWhile word_char cs, qt_position = position, qt_quoted = False\<rparr>, dropWhile word_char cs))"

lemma quoted_value_shorter: "quoted_value start quote cs = Inr (v, rest) \<Longrightarrow> length rest < length cs"
proof (induction start quote cs arbitrary: v rule: quoted_value.induct)
  case (2 start quote c cs)
  consider "c = quote" | "c \<noteq> quote" "c = CHR 92" | "c \<noteq> quote" "c \<noteq> CHR 92" by blast
  then show ?case
  proof cases
    case 1
    then show ?thesis using "2.prems" by simp
  next
    case 2
    note IH = "2.IH"(1) and prems = "2.prems"
    then obtain d ds v where "cs = d # ds" "quoted_value start quote ds = Inr (v, rest)"
      using 2 by (auto split: list.splits simp: bindE_Inr_iff)
    then show ?thesis using IH [OF 2 \<open>cs = d # ds\<close>] by fastforce
  next
    case 3
    note IH = "2.IH"(2) and prems = "2.prems"
    then obtain v where "quoted_value start quote cs = Inr (v, rest)" using 3 by (auto simp: bindE_Inr_iff)
    then show ?thesis using IH [OF 3] by fastforce
  qed
qed simp

lemma next_token_shorter: "next_token position c cs = Inr (t, rest) \<Longrightarrow> length rest \<le> length cs"
proof -
  assume t: "next_token position c cs = Inr (t, rest)"
  show ?thesis
  proof (cases "c = CHR 34 \<or> c = CHR 39")
    case True
    then obtain v where "quoted_value position c cs = Inr (v, rest)" using t by (auto simp: next_token_def bindE_Inr_iff)
    then show ?thesis using quoted_value_shorter [of position c cs v rest] by simp
  next
    case False
    then show ?thesis using t length_dropWhile_le [of word_char cs] unfolding next_token_def Let_def
      by (simp only: if_False) (simp split: if_splits; metis length_drop diff_le_self)
  qed
qed

text \<open>The loop over the source: \<open>n\<close> is the length of the whole source, \<open>k\<close> the number of tokens so far.\<close>

function tokens_from :: "nat \<Rightarrow> nat \<Rightarrow> string \<Rightarrow> qtoken list result" where
  "tokens_from n k [] = Inr []"
| "tokens_from n k (c # cs) =
     (if is_space c then tokens_from n k cs
      else bindE (next_token (n - length cs) c cs) (\<lambda>(t, rest).
        if k + 1 > MAX_TOKENS then Inl (QueryError ''Query is too complex'' (n - length cs))
        else bindE (tokens_from n (k + 1) rest) (\<lambda>ts. Inr (t # ts))))"
  by pat_completeness auto
termination
  by (relation "measure (\<lambda>(n, k, s). length s)") (auto dest: next_token_shorter simp: less_Suc_eq_le)

definition control_char :: "char \<Rightarrow> bool" where
  "control_char c \<longleftrightarrow> (of_char c :: nat) < 32 \<and> c \<notin> set [CHR 9, CHR 13, CHR 10]"

definition tokenize :: "string \<Rightarrow> qtoken list result" where
  "tokenize source =
     (if length source > MAX_QUERY then Inl (QueryError ''Query must be text of at most 4096 characters'' 1)
      else if list_ex control_char source then Inl (QueryError ''Query contains unsupported control characters'' 1)
      else tokens_from (length source) 0 source)"

section \<open>Fields and values\<close>

text \<open>\<^verbatim>\<open>peek(word)\<close>, \<^verbatim>\<open>pop()\<close> and \<^verbatim>\<open>require(word)\<close> on the tokens that are left; \<open>e\<close> is the position behind the last token.\<close>

definition peek :: "string \<Rightarrow> qtoken list \<Rightarrow> bool" where
  "peek word ts = (case ts of [] \<Rightarrow> False | t # _ \<Rightarrow> \<not> qt_quoted t \<and> upper (qt_text t) = word)"

definition pop :: "nat \<Rightarrow> qtoken list \<Rightarrow> (qtoken \<times> qtoken list) result" where
  "pop e ts = (case ts of [] \<Rightarrow> Inl (QueryError ''Unexpected end of query'' e) | t # rest \<Rightarrow> Inr (t, rest))"

definition require :: "nat \<Rightarrow> string \<Rightarrow> qtoken list \<Rightarrow> qtoken list result" where
  "require e word ts =
     bindE (pop e ts) (\<lambda>(t, rest).
       if qt_quoted t \<or> upper (qt_text t) \<noteq> word then Inl (QueryError (''Expected '' @ word) (qt_position t)) else Inr rest)"

definition field_name :: "qtoken \<Rightarrow> string result" where
  "field_name t =
     (let field = lower (qt_text t); field = opt field (map_of ALIASES field) in
      if field \<notin> set (map lower QUERY_FIELDS) then Inl (QueryError ''Unsupported field'' (qt_position t)) else Inr field)"

definition RESERVED :: "string list" where
  "RESERVED = [''AND'', ''OR'', ''NOT'', ''ORDER'', ''EMPTY'', ''NULL'', ''('', '')'', '','', ''='', ''!='', ''>'', ''>='', ''<'', ''<='', ''~'', ''!~'']"

definition COLLECTIONS :: "string list" where
  "COLLECTIONS = [''watchedissues'', ''votedissues'', ''issuehistory'', ''releasedversions'', ''unreleasedversions'',
     ''latestreleasedversion'', ''earliestunreleasedversion'', ''opensprints'', ''closedsprints'', ''futuresprints'']"

definition call_function :: "query_env \<Rightarrow> qtoken \<Rightarrow> string list \<Rightarrow> qvalue result" where
  "call_function env t args =
     (let name = lower (qt_text t); versions = [''releasedversions'', ''unreleasedversions'', ''latestreleasedversion'', ''earliestunreleasedversion''] in
      if name = ''currentuser'' then
        (if args \<noteq> [] then Inl (QueryError ''currentUser takes no arguments'' (qt_position t)) else Inr (VUser (u_id (qe_user env))))
      else if name \<in> set COLLECTIONS then
        (if name \<in> set [''latestreleasedversion'', ''earliestunreleasedversion''] \<and> args = []
           then Inl (QueryError ''A project key or name is required'' (qt_position t))
         else if args \<noteq> [] \<and> name \<notin> set versions then Inl (QueryError ''This function takes no arguments'' (qt_position t))
         else if args \<noteq> [] \<and> (strip (hd args) = [] \<or> length (hd args) > 160)
           then Inl (QueryError ''Expected a project key or name'' (qt_position t))
         else Inr (VCollection name args))
      else bindE (calendar_function name args (qe_clock env) (qt_position t)) (\<lambda>time. Inr (VTime time)))"

text \<open>The at most one argument of a function, behind the opening parenthesis.\<close>

definition arguments :: "nat \<Rightarrow> qtoken list \<Rightarrow> (string list \<times> qtoken list) result" where
  "arguments e ts =
     (if peek '')'' ts then Inr ([], ts)
      else bindE (pop e ts) (\<lambda>(a, rest).
        if \<not> qt_quoted a \<and> qt_text a \<in> set [''('', '')'', '','', ''='', ''!=''] then Inl (QueryError ''Expected a function argument'' (qt_position a))
        else Inr ([qt_text a], rest)))"

definition query_value :: "query_env \<Rightarrow> nat \<Rightarrow> qtoken list \<Rightarrow> (qvalue \<times> qtoken list) result" where
  "query_value env e ts =
     bindE (pop e ts) (\<lambda>(t, rest).
       if \<not> qt_quoted t \<and> upper (qt_text t) \<in> set RESERVED
         then Inl (QueryError ''Expected a value; quote reserved words'' (qt_position t))
       else if \<not> qt_quoted t \<and> peek ''('' rest then
         bindE (arguments e (tl rest)) (\<lambda>(args, rest).
         bindE (require e '')'' rest) (\<lambda>rest.
         bindE (call_function env t args) (\<lambda>v. Inr (v, rest))))
       else Inr (VText (qt_text t), rest))"

section \<open>The parser\<close>

text \<open>The list of \<^verbatim>\<open>IN (...)\<close>: further values behind commas.\<close>

lemma pop_shorter: "pop e ts = Inr (t, rest) \<Longrightarrow> length rest < length ts"
  by (auto simp: pop_def split: list.splits)

lemma require_shorter: "require e word ts = Inr rest \<Longrightarrow> length rest < length ts"
  by (auto simp: require_def bindE_Inr_iff pop_def split: list.splits if_splits)

lemma arguments_le: "arguments e ts = Inr (args, rest) \<Longrightarrow> length rest \<le> length ts"
  by (auto simp: arguments_def bindE_Inr_iff dest!: pop_shorter split: if_splits)

lemma query_value_shorter: "query_value env e ts = Inr (v, rest) \<Longrightarrow> length rest < length ts"
  by (auto simp: query_value_def elim!: bindE_InrE dest!: pop_shorter require_shorter arguments_le split: if_splits)

function more_values :: "query_env \<Rightarrow> nat \<Rightarrow> qtoken \<Rightarrow> nat \<Rightarrow> qtoken list \<Rightarrow> (qvalue list \<times> qtoken list) result" where
  "more_values env e t n ts =
     (if \<not> peek '','' ts then Inr ([], ts)
      else bindE (query_value env e (tl ts)) (\<lambda>(v, rest).
        if n + 1 > 100 then Inl (QueryError ''List is too long'' (qt_position t))
        else bindE (more_values env e t (n + 1) rest) (\<lambda>(vs, rest). Inr (v # vs, rest))))"
  by pat_completeness auto
termination
  by (relation "measure (\<lambda>(env, e, t, n, ts). length ts)")
    (auto simp: peek_def dest!: query_value_shorter split: list.splits)

declare more_values.simps [simp del]

definition HISTORY_FIELDS :: "(string \<times> string) list" where
  "HISTORY_FIELDS = [(''status'', ''status''), (''priority'', ''priority''), (''summary'', ''title''),
     (''description'', ''description''), (''type'', ''item_type''), (''parent'', ''parent''),
     (''start'', ''start_date''), (''due'', ''due_date''), (''storypoints'', ''story_points''),
     (''estimate'', ''estimate_minutes''), (''remaining'', ''remaining_minutes'')]"

definition QUALIFIERS :: "string list" where
  "QUALIFIERS = [''FROM'', ''TO'', ''BY'', ''BEFORE'', ''AFTER'', ''DURING'']"

text \<open>The value or the interval behind a qualifier of \<^verbatim>\<open>CHANGED\<close>, as conditions on the history.\<close>

definition qualifier_conditions :: "query_env \<Rightarrow> nat \<Rightarrow> qtoken \<Rightarrow> qtoken list \<Rightarrow> (condition list \<times> qtoken list) result" where
  "qualifier_conditions env e q ts =
     (if upper (qt_text q) = ''DURING'' then
        bindE (require e ''('' ts) (\<lambda>ts. bindE (query_value env e ts) (\<lambda>(v, ts). bindE (history_date env v q) (\<lambda>first.
        bindE (require e '','' ts) (\<lambda>ts. bindE (query_value env e ts) (\<lambda>(v, ts). bindE (history_date env v q) (\<lambda>last.
        bindE (require e '')'' ts) (\<lambda>ts.
        if first > last then Inl (QueryError ''History interval ends before it starts'' (qt_position q))
        else Inr (history_between first last, ts))))))))
      else bindE (query_value env e ts) (\<lambda>(v, ts). bindE (qualifier_condition env (upper (qt_text q)) v q) (\<lambda>c. Inr ([c], ts))))"

lemma qualifier_conditions_shorter: "qualifier_conditions env e q ts = Inr (cs, rest) \<Longrightarrow> length rest < length ts"
  by (auto simp: qualifier_conditions_def elim!: bindE_InrE dest!: require_shorter query_value_shorter split: if_splits)

function qualifiers :: "query_env \<Rightarrow> nat \<Rightarrow> string list \<Rightarrow> qtoken list \<Rightarrow> (condition list \<times> qtoken list) result" where
  "qualifiers env e seen [] = Inr ([], [])"
| "qualifiers env e seen (q # ts) =
     (let name = upper (qt_text q) in
      if qt_quoted q \<or> name \<notin> set QUALIFIERS then Inr ([], q # ts)
      else if name \<in> set seen then Inl (QueryError ''Repeated history qualifier'' (qt_position q))
      else bindE (qualifier_conditions env e q ts) (\<lambda>(cs, rest).
        bindE (qualifiers env e (name # seen) rest) (\<lambda>(more, rest). Inr (cs @ more, rest))))"
  by pat_completeness auto
termination
  by (relation "measure (\<lambda>(env, e, seen, ts). length ts)") (auto dest!: qualifier_conditions_shorter)

definition history_change :: "query_env \<Rightarrow> nat \<Rightarrow> string \<Rightarrow> qtoken \<Rightarrow> qtoken list \<Rightarrow> (condition \<times> qtoken list) result" where
  "history_change env e field t ts =
     (case map_of HISTORY_FIELDS field of
        None \<Rightarrow> Inl (QueryError ''CHANGED is not supported for this field'' (qt_position t))
      | Some column \<Rightarrow> bindE (qualifiers env e [] ts) (\<lambda>(cs, rest). Inr (history_items env column cs, rest)))"

definition QUERY_OPERATORS :: "string list" where
  "QUERY_OPERATORS = [''='', ''!='', ''>'', ''>='', ''<'', ''<='', ''~'', ''!~'']"

definition is_collection :: "qvalue \<Rightarrow> bool" where
  "is_collection v \<longleftrightarrow> (case v of VCollection _ _ \<Rightarrow> True | _ \<Rightarrow> False)"

definition any_match :: "query_env \<Rightarrow> string \<Rightarrow> qtoken \<Rightarrow> qvalue list \<Rightarrow> condition result" where
  "any_match env field t vs =
     (let one = (\<lambda>v. if is_collection v then collection env field v t else match env field ''='' v t) in
      case vs of
        [] \<Rightarrow> Inr PTrue
      | v # vs \<Rightarrow> bindE (one v) (\<lambda>p. foldE (\<lambda>v p. bindE (one v) (\<lambda>q. Inr (POr p q))) vs p))"

text \<open>\<^verbatim>\<open>clause()\<close>, with its membership tests apart.\<close>

definition membership :: "query_env \<Rightarrow> nat \<Rightarrow> string \<Rightarrow> qtoken \<Rightarrow> bool \<Rightarrow> qtoken list \<Rightarrow> (condition \<times> qtoken list) result" where
  "membership env e field t negated ts =
     (let answer = (\<lambda>matches. if negated then PAnd (present env field) (PNot matches) else matches) in
      if \<not> peek ''('' ts then
        bindE (query_value env e ts) (\<lambda>(v, rest). bindE (collection env field v t) (\<lambda>m. Inr (answer m, rest)))
      else bindE (require e ''('' ts) (\<lambda>ts. bindE (query_value env e ts) (\<lambda>(v, ts).
        bindE (more_values env e t 1 ts) (\<lambda>(vs, ts). bindE (require e '')'' ts) (\<lambda>ts.
        bindE (any_match env field t (v # vs)) (\<lambda>m. Inr (answer m, ts)))))))"

definition clause :: "query_env \<Rightarrow> nat \<Rightarrow> qtoken list \<Rightarrow> (condition \<times> qtoken list) result" where
  "clause env e ts =
     bindE (pop e ts) (\<lambda>(t, ts). bindE (field_name t) (\<lambda>field. bindE (pop e ts) (\<lambda>(op, ts).
       let operator = upper (qt_text op) in
       if operator = ''CHANGED'' \<and> \<not> qt_quoted op then history_change env e field t ts
       else if operator = ''IS'' \<and> \<not> qt_quoted op then
         (let negate = peek ''NOT'' ts; present = present env field
          in bindE (require e ''EMPTY'' (if negate then tl ts else ts)) (\<lambda>ts. Inr (if negate then present else PNot present, ts)))
       else if operator = ''NOT'' \<and> \<not> qt_quoted op then
         bindE (require e ''IN'' ts) (\<lambda>ts. membership env e field t True ts)
       else if operator = ''IN'' \<and> \<not> qt_quoted op then membership env e field t False ts
       else if qt_quoted op \<or> operator \<notin> set QUERY_OPERATORS then Inl (QueryError ''Unsupported operator'' (qt_position op))
       else bindE (query_value env e ts) (\<lambda>(v, rest). bindE (match env field operator v t) (\<lambda>m. Inr (m, rest))))))"

text \<open>
  \<^verbatim>\<open>expression\<close>, \<^verbatim>\<open>conjunction\<close> and \<^verbatim>\<open>unary\<close>. The loops continue on the tokens a part has left; the guard on their number makes the
  recursion terminate, and is shown below to hold always, so that \<open>OutOfFuel\<close> is never returned.
\<close>

function (sequential) expression :: "query_env \<Rightarrow> nat \<Rightarrow> nat \<Rightarrow> qtoken list \<Rightarrow> (condition \<times> qtoken list) result"
  and or_loop :: "query_env \<Rightarrow> nat \<Rightarrow> nat \<Rightarrow> condition \<Rightarrow> qtoken list \<Rightarrow> (condition \<times> qtoken list) result"
  and conjunction :: "query_env \<Rightarrow> nat \<Rightarrow> nat \<Rightarrow> qtoken list \<Rightarrow> (condition \<times> qtoken list) result"
  and and_loop :: "query_env \<Rightarrow> nat \<Rightarrow> nat \<Rightarrow> condition \<Rightarrow> qtoken list \<Rightarrow> (condition \<times> qtoken list) result"
  and unary :: "query_env \<Rightarrow> nat \<Rightarrow> nat \<Rightarrow> qtoken list \<Rightarrow> (condition \<times> qtoken list) result" where
  "expression env e depth ts =
     bindE (conjunction env e depth ts) (\<lambda>(p, rest).
       if length rest < length ts then or_loop env e depth p rest else Inl OutOfFuel)"
| "or_loop env e depth p ts =
     (if \<not> peek ''OR'' ts then Inr (p, ts)
      else bindE (conjunction env e depth (tl ts)) (\<lambda>(q, rest).
        if length rest < length ts then or_loop env e depth (POr p q) rest else Inl OutOfFuel))"
| "conjunction env e depth ts =
     bindE (unary env e depth ts) (\<lambda>(p, rest).
       if length rest < length ts then and_loop env e depth p rest else Inl OutOfFuel)"
| "and_loop env e depth p ts =
     (if \<not> peek ''AND'' ts then Inr (p, ts)
      else bindE (unary env e depth (tl ts)) (\<lambda>(q, rest).
        if length rest < length ts then and_loop env e depth (PAnd p q) rest else Inl OutOfFuel))"
| "unary env e depth ts =
     (if depth > MAX_DEPTH then
        Inl (QueryError ''Query nesting is too deep'' (case ts of [] \<Rightarrow> 1 | t # _ \<Rightarrow> qt_position t))
      else if peek ''NOT'' ts then bindE (unary env e (depth + 1) (tl ts)) (\<lambda>(p, rest). Inr (PNot p, rest))
      else if peek ''('' ts then
        bindE (expression env e (depth + 1) (tl ts)) (\<lambda>(p, rest). bindE (require e '')'' rest) (\<lambda>rest. Inr (p, rest)))
      else clause env e ts)"
  by pat_completeness auto
termination
  by (relation "measure (\<lambda>x. case x of
       Inl (Inl (env, e, depth, ts)) \<Rightarrow> 3 * length ts + 2
     | Inl (Inr (env, e, depth, p, ts)) \<Rightarrow> 3 * length ts
     | Inr (Inl (env, e, depth, ts)) \<Rightarrow> 3 * length ts + 1
     | Inr (Inr (Inl (env, e, depth, p, ts))) \<Rightarrow> 3 * length ts
     | Inr (Inr (Inr (env, e, depth, ts))) \<Rightarrow> 3 * length ts)")
    (auto simp: peek_def split: list.splits)

declare expression.simps [simp del] or_loop.simps [simp del] conjunction.simps [simp del] and_loop.simps [simp del] unary.simps [simp del]

section \<open>A whole query\<close>

definition sort_direction :: "qtoken list \<Rightarrow> bool \<times> qtoken list" where
  "sort_direction ts = (if peek ''ASC'' ts then (False, tl ts) else if peek ''DESC'' ts then (True, tl ts) else (False, ts))"

text \<open>The fields behind \<^verbatim>\<open>ORDER BY\<close>, each with whether it is descending; \<open>n\<close> have been read before.\<close>

function sort_fields :: "nat \<Rightarrow> nat \<Rightarrow> qtoken list \<Rightarrow> ((string \<times> bool) list \<times> qtoken list) result" where
  "sort_fields e n ts =
     bindE (pop e ts) (\<lambda>(t, ts). bindE (field_name t) (\<lambda>field.
       if \<not> sortable field then Inl (QueryError ''Sorting is not supported for this field'' (qt_position t))
       else let (descending, rest) = sort_direction ts in
         if \<not> peek '','' rest then Inr ([(field, descending)], rest)
         else if n + 1 \<ge> 3 then Inl (QueryError ''Sort by at most three fields'' (qt_position t))
         else bindE (sort_fields e (n + 1) (tl rest)) (\<lambda>(more, rest). Inr ((field, descending) # more, rest))))"
  by pat_completeness auto
termination
  by (relation "measure (\<lambda>(e, n, ts). length ts)")
    (auto simp: sort_direction_def peek_def dest!: pop_shorter split: if_splits list.splits)

declare sort_fields.simps [simp del]

definition end_position :: "qtoken list \<Rightarrow> nat" where
  "end_position ts = (if ts = [] then 1 else qt_position (last ts) + 1)"

text \<open>\<^verbatim>\<open>Parser(source, user).parse()\<close>: the condition and the sort order, which always ends with the key.\<close>

definition parse_tokens :: "query_env \<Rightarrow> qtoken list \<Rightarrow> (condition \<times> (string \<times> bool) list) result" where
  "parse_tokens env ts =
     (let e = end_position ts in
      bindE (if ts = [] \<or> peek ''ORDER'' ts then Inr (PTrue, ts) else expression env e 0 ts) (\<lambda>(p, ts).
      bindE (if peek ''ORDER'' ts then bindE (require e ''BY'' (tl ts)) (\<lambda>ts. sort_fields e 0 ts) else Inr ([], ts)) (\<lambda>(order, ts).
        case ts of
          [] \<Rightarrow> Inr (p, order @ [(''id'', False)])
        | t # _ \<Rightarrow> Inl (QueryError ''Unexpected query term'' (qt_position t)))))"

definition parse_query :: "query_env \<Rightarrow> string \<Rightarrow> (condition \<times> (string \<times> bool) list) result" where
  "parse_query env source = bindE (tokenize source) (parse_tokens env)"

text \<open>
  \<^verbatim>\<open>search(user, source)\<close>: the tenant of the user and the projects visible to the user restrict the whole condition. The sort
  order is by column, with the missing values last.
\<close>

definition search :: "query_env \<Rightarrow> string \<Rightarrow> (condition \<times> (string \<times> bool) list) result" where
  "search env source =
     (if \<not> u_active (qe_user env) then Inl (QueryError ''An active signed-in user is required'' 1)
      else bindE (parse_query env source) (\<lambda>(p, order).
        Inr (all_of [query_tenant env ''WorkItem.tenant_id'', PIn ''WorkItem.project_id'' ''Project.id'' (visible_projects env), p], order)))"

section \<open>The guards hold\<close>

lemma more_values_le: "more_values env e t n ts = Inr (vs, rest) \<Longrightarrow> length rest \<le> length ts"
proof (induction env e t n ts arbitrary: vs rest rule: more_values.induct)
  case (1 env e t n ts)
  show ?case
  proof (cases "peek '','' ts")
    case True
    then obtain v r vs' where v: "query_value env e (tl ts) = Inr (v, r)" and n: "\<not> n + 1 > 100" and more: "more_values env e t (n + 1) r = Inr (vs', rest)"
      using "1.prems" by (auto simp: more_values.simps [of env e t n ts] bindE_Inr_iff split: if_splits)
    have "length rest \<le> length r" by (rule "1.IH" [OF _ v refl n more]) (simp add: True)
    then show ?thesis using query_value_shorter [OF v] by (cases ts) auto
  next
    case False
    then show ?thesis using "1.prems" by (simp add: more_values.simps [of env e t n ts])
  qed
qed

lemma qualifiers_le: "qualifiers env e seen ts = Inr (cs, rest) \<Longrightarrow> length rest \<le> length ts"
proof (induction env e seen ts arbitrary: cs rest rule: qualifiers.induct)
  case (2 env e seen q ts)
  let ?name = "upper (qt_text q)"
  show ?case
  proof (cases "qt_quoted q \<or> ?name \<notin> set QUALIFIERS")
    case False
    then have new: "?name \<notin> set seen" using "2.prems" by (auto simp: Let_def)
    obtain c r more where c: "qualifier_conditions env e q ts = Inr (c, r)" and m: "qualifiers env e (?name # seen) r = Inr (more, rest)"
      using "2.prems" False new by (auto simp: Let_def elim!: bindE_InrE)
    have "length rest \<le> length r" by (rule "2.IH" [OF refl False new c refl m])
    then show ?thesis using qualifier_conditions_shorter [OF c] by simp
  qed (use "2.prems" in \<open>simp add: Let_def\<close>)
qed simp

lemma membership_le: "membership env e field t negated ts = Inr (m, rest) \<Longrightarrow> length rest \<le> length ts"
  by (auto simp: membership_def Let_def elim!: bindE_InrE dest!: require_shorter query_value_shorter more_values_le split: if_splits)

lemma history_change_le: "history_change env e field t ts = Inr (p, rest) \<Longrightarrow> length rest \<le> length ts"
  by (auto simp: history_change_def split: option.splits elim!: bindE_InrE dest!: qualifiers_le)

text \<open>The part of a clause behind the field and the operator.\<close>

lemma clause_shorter:
  assumes "clause env e ts = Inr (p, rest)"
  shows "length rest < length ts"
proof -
  from assms obtain t ts1 where a: "pop e ts = Inr (t, ts1)" and r1: "clause env e ts = Inr (p, rest)"
    by (auto simp: clause_def elim!: bindE_InrE)
  show ?thesis
  proof (cases "pop e ts1")
    case (Inl x)
    then show ?thesis using assms a by (auto simp: clause_def elim!: bindE_InrE)
  next
    case (Inr b)
    obtain op ts2 where b: "pop e ts1 = Inr (op, ts2)" using Inr by (cases b) auto
    have "length rest \<le> length ts2"
    proof (cases "upper (qt_text op) = ''IS'' \<and> \<not> qt_quoted op")
      case True
      then show ?thesis using assms a b by (auto simp: clause_def Let_def elim!: bindE_InrE dest!: require_shorter split: if_splits)
    next
      case False
      note noIS = False
      show ?thesis
      proof (cases "upper (qt_text op) = ''NOT'' \<and> \<not> qt_quoted op")
        case True
        then show ?thesis using assms a b by (auto simp: clause_def Let_def elim!: bindE_InrE dest!: require_shorter membership_le)
      next
        case False
        then show ?thesis using noIS assms a b
          by (auto simp: clause_def Let_def elim!: bindE_InrE dest!: membership_le history_change_le query_value_shorter split: if_splits)
      qed
    qed
    then show ?thesis using pop_shorter [OF a] pop_shorter [OF b] by simp
  qed
qed

lemma parts_shorter:
  "expression env e d ts = Inr (p, rest) \<Longrightarrow> length rest < length ts"
  "or_loop env e d q ts = Inr (p, rest) \<Longrightarrow> length rest \<le> length ts"
  "conjunction env e d ts = Inr (p, rest) \<Longrightarrow> length rest < length ts"
  "and_loop env e d q ts = Inr (p, rest) \<Longrightarrow> length rest \<le> length ts"
  "unary env e d ts = Inr (p, rest) \<Longrightarrow> length rest < length ts"
proof (induction env e d ts and env e d q ts and env e d ts and env e d q ts and env e d ts
    arbitrary: p rest and p rest and p rest and p rest and p rest
    rule: expression_or_loop_conjunction_and_loop_unary.induct)
  case (1 env e d ts)
  from "1.prems" show ?case unfolding expression.simps [of env e d ts]
    by (auto elim!: bindE_InrE dest!: "1.IH"(2) [OF _ refl] split: if_splits)
next
  case (2 env e d q ts)
  show ?case
  proof (cases "peek ''OR'' ts")
    case True
    then obtain a b where a: "conjunction env e d (tl ts) = Inr (a, b)" and b: "length b < length ts" and more: "or_loop env e d (POr q a) b = Inr (p, rest)"
      using "2.prems" unfolding or_loop.simps [of env e d q ts] by (auto elim!: bindE_InrE split: if_splits)
    have "length rest \<le> length b" using True a b more by (intro "2.IH"(2)) auto
    then show ?thesis using b by linarith
  qed (use "2.prems" in \<open>simp add: or_loop.simps [of env e d q ts]\<close>)
next
  case (3 env e d ts)
  from "3.prems" show ?case unfolding conjunction.simps [of env e d ts]
    by (auto elim!: bindE_InrE dest!: "3.IH"(2) [OF _ refl] split: if_splits)
next
  case (4 env e d q ts)
  show ?case
  proof (cases "peek ''AND'' ts")
    case True
    then obtain a b where a: "unary env e d (tl ts) = Inr (a, b)" and b: "length b < length ts" and more: "and_loop env e d (PAnd q a) b = Inr (p, rest)"
      using "4.prems" unfolding and_loop.simps [of env e d q ts] by (auto elim!: bindE_InrE split: if_splits)
    have "length rest \<le> length b" using True a b more by (intro "4.IH"(2)) auto
    then show ?thesis using b by linarith
  qed (use "4.prems" in \<open>simp add: and_loop.simps [of env e d q ts]\<close>)
next
  case (5 env e d ts)
  have tl: "length (tl ts) \<le> length ts" by simp
  show ?case
  proof (cases "d > MAX_DEPTH \<or> \<not> (peek ''NOT'' ts \<or> peek ''('' ts)")
    case True
    then show ?thesis using "5.prems" unfolding unary.simps [of env e d ts] by (auto split: if_splits dest: clause_shorter)
  next
    case False
    then have d: "\<not> d > MAX_DEPTH" by blast
    show ?thesis
    proof (cases "peek ''NOT'' ts")
      case True
      then obtain q where "unary env e (d + 1) (tl ts) = Inr (q, rest)"
        using "5.prems" d unfolding unary.simps [of env e d ts] by (auto elim!: bindE_InrE)
      then show ?thesis using "5.IH"(1) [OF d True] tl by fastforce
    next
      case no: False
      then have par: "peek ''('' ts" using False by blast
      then obtain r where "expression env e (d + 1) (tl ts) = Inr (p, r)" "require e '')'' r = Inr rest"
        using "5.prems" d no unfolding unary.simps [of env e d ts] by (auto elim!: bindE_InrE)
      then show ?thesis using "5.IH"(2) [OF d no par] tl require_shorter by fastforce
    qed
  qed
qed

text \<open>The equations of the code, without the guards.\<close>

lemma expression_eq: "expression env e d ts = bindE (conjunction env e d ts) (\<lambda>(p, rest). or_loop env e d p rest)"
  unfolding expression.simps [of env e d ts] by (rule bindE_cong) (auto dest: parts_shorter)

lemma conjunction_eq: "conjunction env e d ts = bindE (unary env e d ts) (\<lambda>(p, rest). and_loop env e d p rest)"
  unfolding conjunction.simps [of env e d ts] by (rule bindE_cong) (auto dest: parts_shorter)

lemma or_loop_eq:
  "or_loop env e d p ts = (if \<not> peek ''OR'' ts then Inr (p, ts)
     else bindE (conjunction env e d (tl ts)) (\<lambda>(q, rest). or_loop env e d (POr p q) rest))"
proof -
  have "length r < length ts" if "peek ''OR'' ts" "conjunction env e d (tl ts) = Inr (q, r)" for q r
    using parts_shorter(3) [OF that(2)] by (cases ts) auto
  then have "bindE (conjunction env e d (tl ts)) (\<lambda>(q, rest). if length rest < length ts then or_loop env e d (POr p q) rest else Inl OutOfFuel)
      = bindE (conjunction env e d (tl ts)) (\<lambda>(q, rest). or_loop env e d (POr p q) rest)" if "peek ''OR'' ts"
    using that by (intro bindE_cong) auto
  then show ?thesis unfolding or_loop.simps [of env e d p ts] by auto
qed

lemma and_loop_eq:
  "and_loop env e d p ts = (if \<not> peek ''AND'' ts then Inr (p, ts)
     else bindE (unary env e d (tl ts)) (\<lambda>(q, rest). and_loop env e d (PAnd p q) rest))"
proof -
  have "length r < length ts" if "peek ''AND'' ts" "unary env e d (tl ts) = Inr (q, r)" for q r
    using parts_shorter(5) [OF that(2)] by (cases ts) auto
  then have "bindE (unary env e d (tl ts)) (\<lambda>(q, rest). if length rest < length ts then and_loop env e d (PAnd p q) rest else Inl OutOfFuel)
      = bindE (unary env e d (tl ts)) (\<lambda>(q, rest). and_loop env e d (PAnd p q) rest)" if "peek ''AND'' ts"
    using that by (intro bindE_cong) auto
  then show ?thesis unfolding and_loop.simps [of env e d p ts] by auto
qed

end
