(* ===== verification/Query_Writing.thy ===== *)
theory Query_Writing
  imports Project_Query
begin

text \<open>
  Queries as trees, the text a query is written as, and the proof that \<^verbatim>\<open>Parser.parse\<close> of \<^verbatim>\<open>serviceops_core/projects/query.py\<close>
  reads that text back: the parser inverts a printer that writes parentheses only where the precedence of
  NOT, AND and OR needs them.
\<close>

section \<open>Written queries\<close>

text \<open>
  A query as a tree, written with as few parentheses as the precedence allows: level 0 is an expression, level 1 a
  conjunction, level 2 a single condition. A token is a text and whether it is quoted.
\<close>

datatype query = QCompare string string string | QNot query | QAnd query query | QOr query query

definition parenthesized :: "bool \<Rightarrow> (string \<times> bool) list \<Rightarrow> (string \<times> bool) list" where
  "parenthesized b ts = (if b then [(''('', False)] @ ts @ [('')'', False)] else ts)"

fun written :: "nat \<Rightarrow> query \<Rightarrow> (string \<times> bool) list" where
  "written level (QCompare field op v) = [(field, False), (op, False), (v, True)]"
| "written level (QNot q) = (''NOT'', False) # written 2 q"
| "written level (QAnd a b) = parenthesized (level > 1) (written 1 a @ [(''AND'', False)] @ written 2 b)"
| "written level (QOr a b) = parenthesized (level > 0) (written 0 a @ [(''OR'', False)] @ written 1 b)"

fun nesting :: "nat \<Rightarrow> query \<Rightarrow> nat" where
  "nesting level (QCompare field op v) = 0"
| "nesting level (QNot q) = Suc (nesting 2 q)"
| "nesting level (QAnd a b) = (if level > 1 then 1 else 0) + max (nesting 1 a) (nesting 2 b)"
| "nesting level (QOr a b) = (if level > 0 then 1 else 0) + max (nesting 0 a) (nesting 1 b)"

text \<open>The condition of a comparison with a text; it does not depend on the token that errors are reported at.\<close>

definition blank_token :: qtoken where
  "blank_token = \<lparr>qt_text = [], qt_position = 1, qt_quoted = False\<rparr>"

definition comparison :: "query_env \<Rightarrow> string \<Rightarrow> string \<Rightarrow> string \<Rightarrow> condition" where
  "comparison env field op v = (case match env field op (VText v) blank_token of Inr p \<Rightarrow> p | Inl _ \<Rightarrow> PFalse)"

fun meaning :: "query_env \<Rightarrow> query \<Rightarrow> condition" where
  "meaning env (QCompare field op v) = comparison env field op v"
| "meaning env (QNot q) = PNot (meaning env q)"
| "meaning env (QAnd a b) = PAnd (meaning env a) (meaning env b)"
| "meaning env (QOr a b) = POr (meaning env a) (meaning env b)"

fun comparisons :: "query \<Rightarrow> (string \<times> string \<times> string) list" where
  "comparisons (QCompare field op v) = [(field, op, v)]"
| "comparisons (QNot q) = comparisons q"
| "comparisons (QAnd a b) = comparisons a @ comparisons b"
| "comparisons (QOr a b) = comparisons a @ comparisons b"

text \<open>Every comparison names a field and an operator of the language, and its value is one the field accepts.\<close>

definition accepted :: "query_env \<Rightarrow> query \<Rightarrow> bool" where
  "accepted env q \<longleftrightarrow> list_all (\<lambda>(field, op, v). field \<in> set (map lower QUERY_FIELDS) \<and> op \<in> set QUERY_OPERATORS
     \<and> (case match env field op (VText v) blank_token of Inl _ \<Rightarrow> False | Inr _ \<Rightarrow> True)) (comparisons q)"

definition plain :: "qtoken list \<Rightarrow> (string \<times> bool) list" where
  "plain ts = map (\<lambda>t. (qt_text t, qt_quoted t)) ts"


section \<open>The parser reads the tokens of a written query\<close>

lemma plain_simps [simp]:
  "plain [] = []" "plain (t # ts) = (qt_text t, qt_quoted t) # plain ts" "plain (ts @ us) = plain ts @ plain us"
  by (auto simp: plain_def)

lemma peek_simps [simp]:
  "peek w [] = False" "peek w (t # ts) = (\<not> qt_quoted t \<and> upper (qt_text t) = w)"
  by (auto simp: peek_def)

text \<open>What reading a query at each level of the grammar means; \<open>r\<close> are the tokens behind it.\<close>

definition reads_unary :: "query_env \<Rightarrow> query \<Rightarrow> bool" where
  "reads_unary env q \<longleftrightarrow> (\<forall>e d ts r. plain ts = written 2 q \<longrightarrow> d + nesting 2 q \<le> MAX_DEPTH \<longrightarrow>
     unary env e d (ts @ r) = Inr (meaning env q, r))"

definition reads_conjunction :: "query_env \<Rightarrow> query \<Rightarrow> bool" where
  "reads_conjunction env q \<longleftrightarrow> (\<forall>e d ts r. plain ts = written 1 q \<longrightarrow> d + nesting 1 q \<le> MAX_DEPTH \<longrightarrow>
     conjunction env e d (ts @ r) = and_loop env e d (meaning env q) r)"

definition reads_expression :: "query_env \<Rightarrow> query \<Rightarrow> bool" where
  "reads_expression env q \<longleftrightarrow> (\<forall>e d ts r. plain ts = written 0 q \<longrightarrow> d + nesting 0 q \<le> MAX_DEPTH \<longrightarrow> \<not> peek ''AND'' r \<longrightarrow>
     expression env e d (ts @ r) = or_loop env e d (meaning env q) r)"

lemma reads_conjunction_single:
  assumes "reads_unary env q" "written 1 q = written 2 q" "nesting 1 q = nesting 2 q"
  shows "reads_conjunction env q"
  using assms by (auto simp: reads_conjunction_def reads_unary_def conjunction_eq)

lemma reads_expression_single:
  assumes "reads_conjunction env q" "written 0 q = written 1 q" "nesting 0 q = nesting 1 q"
  shows "reads_expression env q"
  using assms by (auto simp: reads_expression_def reads_conjunction_def expression_eq and_loop_eq)

lemma reads_unary_parenthesized:
  assumes "reads_expression env q" "written 2 q = parenthesized True (written 0 q)" "nesting 2 q = Suc (nesting 0 q)"
  shows "reads_unary env q"
  unfolding reads_unary_def
proof (intro allI impI)
  fix e d ts r
  assume ts: "plain ts = written 2 q" and d: "d + nesting 2 q \<le> MAX_DEPTH"
  obtain a t z where a: "ts = a # t @ [z]" "qt_text a = ''(''" "\<not> qt_quoted a" "qt_text z = '')''" "\<not> qt_quoted z" "plain t = written 0 q"
    using ts assms(2) by (auto simp: parenthesized_def plain_def map_eq_Cons_conv map_eq_append_conv)
  have words: "upper ''('' = ''(''" "upper '')'' = '')''" by code_simp+
  have "expression env e (d + 1) (t @ z # r) = or_loop env e (d + 1) (meaning env q) (z # r)"
    using assms(1,3) a d unfolding reads_expression_def by (auto simp: words)
  then show "unary env e d (ts @ r) = Inr (meaning env q, r)"
    using a d assms(3) by (simp add: unary.simps [of env e d] words or_loop_eq require_def pop_def)
qed

lemma lower_char_idem: "lower_char (upper_char c) = lower_char c" "lower_char (lower_char c) = lower_char c"
  unfolding lower_char_def upper_char_def Let_def by (auto simp: of_char_of)

lemma lower_idem [simp]: "lower (upper s) = lower s" "lower (lower s) = lower s"
  by (simp_all add: lower_def upper_def lower_char_idem)

lemma query_fields_lower:
  "map lower QUERY_FIELDS = [''project'', ''key'', ''type'', ''summary'', ''description'', ''text'', ''status'', ''category'',
     ''priority'', ''assignee'', ''reporter'', ''labels'', ''parent'', ''created'', ''updated'',
     ''start'', ''due'', ''resolution'', ''storypoints'', ''estimate'', ''remaining'', ''spent'',
     ''component'', ''fixversion'', ''affectsversion'', ''flagged'', ''sprint'']"
  by code_simp

lemma reserved_lower: "lower ''NOT'' = ''not''" "lower ''('' = ''(''" "lower ''ORDER'' = ''order''"
  by code_simp+

lemma language_words:
  "list_all (\<lambda>f. f \<notin> {''not'', ''('', ''order''} \<and> map_of ALIASES f = None) (map lower QUERY_FIELDS)"
  "list_all (\<lambda>w. upper w = w \<and> w \<notin> {''CHANGED'', ''IS'', ''NOT'', ''IN''}) QUERY_OPERATORS"
  unfolding query_fields_lower by code_simp+

lemma field_words:
  assumes "f \<in> set (map lower QUERY_FIELDS)"
  shows "upper f \<noteq> ''NOT''" "upper f \<noteq> ''(''" "upper f \<noteq> ''ORDER''" "lower f = f" "map_of ALIASES f = None"
proof -
  obtain g where g: "f = lower g" using assms by auto
  have f: "f \<notin> {''not'', ''('', ''order''}" "map_of ALIASES f = None" using assms language_words(1) unfolding list_all_iff by blast+
  show low: "lower f = f" by (simp add: g)
  then have "upper f = w \<Longrightarrow> f = lower w" for w using lower_idem(1) [of f] by metis
  then show "upper f \<noteq> ''NOT''" "upper f \<noteq> ''(''" "upper f \<noteq> ''ORDER''" using f(1) reserved_lower by force+
  show "map_of ALIASES f = None" by (rule f)
qed

lemma operator_words:
  assumes "w \<in> set QUERY_OPERATORS"
  shows "upper w = w" "w \<noteq> ''CHANGED''" "w \<noteq> ''IS''" "w \<noteq> ''NOT''" "w \<noteq> ''IN''"
  using assms language_words(2) unfolding list_all_iff by blast+

lemma date_value_token:
  "date_value env field (VText s) t = Inr x \<Longrightarrow> date_value env field (VText s) t' = Inr x"
  "number_value env (VText s) t = Inr x \<Longrightarrow> number_value env (VText s) t' = Inr x"
  by (auto simp: date_value_def number_value_def Let_def split: option.splits if_splits)

lemma positive_match_token:
  assumes "positive_match env field positive (VText s) t = Inr p"
  shows "positive_match env field positive (VText s) t' = Inr p"
proof (cases "field \<in> set DATES")
  case True
  then show ?thesis using assms date_value_token(1) [of env field s t _ t'] by (auto simp: positive_match_def elim!: bindE_InrE)
next
  case dates: False
  show ?thesis
  proof (cases "field \<in> set NUMBERS")
    case True
    then show ?thesis using dates assms date_value_token(2) [of env s t _ t'] by (auto simp: positive_match_def elim!: bindE_InrE)
  next
    case False
    then show ?thesis using dates assms by (cases "field = ''flagged''") (auto simp: positive_match_def split: if_splits)
  qed
qed

lemma match_token:
  assumes "match env field op (VText s) t = Inr p"
  shows "match env field op (VText s) t' = Inr p"
proof -
  let ?positive = "if op = ''!='' then ''='' else if op = ''!~'' then ''~'' else op"
  have ok: "\<not> (?positive \<in> set [''>'', ''>='', ''<'', ''<=''] \<and> field \<notin> set (DATES @ NUMBERS))"
      "\<not> (?positive = ''~'' \<and> field \<notin> set [''summary'', ''description'', ''text''])"
    and m: "bindE (positive_match env field ?positive (VText s) t) (\<lambda>matches. Inr (if op = ''!='' \<or> op = ''!~'' then PAnd (present env field) (PNot matches) else matches)) = Inr p"
    using assms unfolding match_def Let_def qvalue.case by (simp_all only: if_True if_False simp_thms split: if_split_asm; blast)+
  from m obtain q where "positive_match env field ?positive (VText s) t = Inr q" by (elim bindE_InrE)
  then have "positive_match env field ?positive (VText s) t' = positive_match env field ?positive (VText s) t" using positive_match_token by metis
  then show ?thesis using ok m unfolding match_def Let_def qvalue.case by (simp only: if_False)
qed

lemma accepted_simps [simp]:
  "accepted env (QNot q) = accepted env q"
  "accepted env (QAnd a b) = (accepted env a \<and> accepted env b)"
  "accepted env (QOr a b) = (accepted env a \<and> accepted env b)"
  unfolding accepted_def comparisons.simps list_all_append by (rule refl)+

lemma accepted_comparison:
  assumes "accepted env q" "(field, op, v) \<in> set (comparisons q)"
  shows "field \<in> set (map lower QUERY_FIELDS)" "op \<in> set QUERY_OPERATORS" "match env field op (VText v) t = Inr (comparison env field op v)"
proof -
  have a: "field \<in> set (map lower QUERY_FIELDS) \<and> op \<in> set QUERY_OPERATORS \<and> (case match env field op (VText v) blank_token of Inl _ \<Rightarrow> False | Inr _ \<Rightarrow> True)"
    using assms unfolding accepted_def list_all_iff by blast
  then show "field \<in> set (map lower QUERY_FIELDS)" "op \<in> set QUERY_OPERATORS" by blast+
  obtain p where p: "match env field op (VText v) blank_token = Inr p" using a by (auto split: sum.splits)
  show "match env field op (VText v) t = Inr (comparison env field op v)" using match_token [OF p, of t] p by (simp add: comparison_def)
qed

lemma reads_comparison:
  assumes "accepted env (QCompare field w v)"
  shows "reads_unary env (QCompare field w v)"
  unfolding reads_unary_def
proof (intro allI impI)
  fix e d ts r
  assume ts: "plain ts = written 2 (QCompare field w v)" and d: "d + nesting 2 (QCompare field w v) \<le> MAX_DEPTH"
  have f: "field \<in> set (map lower QUERY_FIELDS)" and w: "w \<in> set QUERY_OPERATORS" and m: "match env field w (VText v) t = Inr (comparison env field w v)" for t
    using accepted_comparison [OF assms, of field w v] by simp_all
  obtain a b c where a: "ts = [a, b, c]" "qt_text a = field" "\<not> qt_quoted a" "qt_text b = w" "\<not> qt_quoted b" "qt_text c = v" "qt_quoted c"
    using ts by (auto simp: plain_def map_eq_Cons_conv)
  have field: "field_name a = Inr field" using f field_words [OF f] a by (simp add: field_name_def Let_def)
  have val: "query_value env e (c # r) = Inr (VText v, r)" using a by (simp add: query_value_def pop_def)
  have "clause env e (ts @ r) = Inr (comparison env field w v, r)"
    unfolding clause_def using a field val m w operator_words [OF w] by (simp add: pop_def Let_def)
  then show "unary env e d (ts @ r) = Inr (meaning env (QCompare field w v), r)"
    using a d field_words [OF f] by (simp add: unary.simps [of env e d])
qed

lemma operator_upper: "upper ''AND'' = ''AND''" "upper ''OR'' = ''OR''" "upper ''NOT'' = ''NOT''" "upper '')'' = '')''" "upper ''ORDER'' = ''ORDER''"
  by code_simp+

lemma reads_not:
  assumes "reads_unary env q"
  shows "reads_unary env (QNot q)"
  unfolding reads_unary_def
proof (intro allI impI)
  fix e d ts r
  assume ts: "plain ts = written 2 (QNot q)" and d: "d + nesting 2 (QNot q) \<le> MAX_DEPTH"
  obtain a t where a: "ts = a # t" "qt_text a = ''NOT''" "\<not> qt_quoted a" "plain t = written 2 q" using ts by (auto simp: plain_def map_eq_Cons_conv)
  have "unary env e (d + 1) (t @ r) = Inr (meaning env q, r)" using assms a d unfolding reads_unary_def by simp
  then show "unary env e d (ts @ r) = Inr (meaning env (QNot q), r)"
    using a d by (simp add: unary.simps [of env e d] operator_upper)
qed

lemma reads_and:
  assumes "reads_conjunction env a" "reads_unary env b"
  shows "reads_conjunction env (QAnd a b)"
  unfolding reads_conjunction_def
proof (intro allI impI)
  fix e d ts r
  assume ts: "plain ts = written 1 (QAnd a b)" and d: "d + nesting 1 (QAnd a b) \<le> MAX_DEPTH"
  obtain ta t tb where t: "ts = ta @ t # tb" "plain ta = written 1 a" "qt_text t = ''AND''" "\<not> qt_quoted t" "plain tb = written 2 b"
    using ts by (auto simp: parenthesized_def plain_def map_eq_append_conv map_eq_Cons_conv)
  have "conjunction env e d (ta @ t # tb @ r) = and_loop env e d (meaning env a) (t # tb @ r)"
    using assms(1) t(2) d unfolding reads_conjunction_def by simp
  moreover have "unary env e d (tb @ r) = Inr (meaning env b, r)" using assms(2) t(5) d unfolding reads_unary_def by simp
  ultimately show "conjunction env e d (ts @ r) = and_loop env e d (meaning env (QAnd a b)) r"
    using t by (simp add: and_loop_eq [of env e d _ "t # tb @ r"] operator_upper)
qed

lemma reads_or:
  assumes "reads_expression env a" "reads_conjunction env b"
  shows "reads_expression env (QOr a b)"
  unfolding reads_expression_def
proof (intro allI impI)
  fix e d ts r
  assume ts: "plain ts = written 0 (QOr a b)" and d: "d + nesting 0 (QOr a b) \<le> MAX_DEPTH" and r: "\<not> peek ''AND'' r"
  obtain ta t tb where t: "ts = ta @ t # tb" "plain ta = written 0 a" "qt_text t = ''OR''" "\<not> qt_quoted t" "plain tb = written 1 b"
    using ts by (auto simp: parenthesized_def plain_def map_eq_append_conv map_eq_Cons_conv)
  have "expression env e d (ta @ t # tb @ r) = or_loop env e d (meaning env a) (t # tb @ r)"
    using assms(1) t d unfolding reads_expression_def by (simp add: operator_upper)
  moreover have "conjunction env e d (tb @ r) = Inr (meaning env b, r)"
    using assms(2) t(5) d r unfolding reads_conjunction_def by (simp add: and_loop_eq [of env e d _ r])
  ultimately show "expression env e d (ts @ r) = or_loop env e d (meaning env (QOr a b)) r"
    using t by (simp add: or_loop_eq [of env e d _ "t # tb @ r"] operator_upper)
qed

lemma reads_query:
  assumes "accepted env q"
  shows "reads_unary env q \<and> reads_conjunction env q \<and> reads_expression env q"
  using assms
proof (induction q)
  case (QCompare field w v)
  then have t: "reads_unary env (QCompare field w v)" by (rule reads_comparison)
  then have c: "reads_conjunction env (QCompare field w v)" by (rule reads_conjunction_single) simp_all
  then have "reads_expression env (QCompare field w v)" by (rule reads_expression_single) simp_all
  then show ?case using t c by blast
next
  case (QNot q)
  then have t: "reads_unary env (QNot q)" by (intro reads_not) simp
  then have c: "reads_conjunction env (QNot q)" by (rule reads_conjunction_single) simp_all
  then have "reads_expression env (QNot q)" by (rule reads_expression_single) simp_all
  then show ?case using t c by blast
next
  case (QAnd a b)
  then have c: "reads_conjunction env (QAnd a b)" by (intro reads_and) simp_all
  then have "reads_expression env (QAnd a b)" by (rule reads_expression_single) (simp_all add: parenthesized_def)
  moreover from this have "reads_unary env (QAnd a b)" by (rule reads_unary_parenthesized) (simp_all add: parenthesized_def)
  ultimately show ?case using c by blast
next
  case (QOr a b)
  then have e: "reads_expression env (QOr a b)" by (intro reads_or) simp_all
  then have t: "reads_unary env (QOr a b)" by (rule reads_unary_parenthesized) (simp_all add: parenthesized_def)
  then have "reads_conjunction env (QOr a b)" by (rule reads_conjunction_single) (simp_all add: parenthesized_def)
  then show ?case using e t by blast
qed


section \<open>The text of a search\<close>

text \<open>A quoted value is written between double quotes, with a backslash before every quote and backslash of it.\<close>

definition escape :: "string \<Rightarrow> string" where
  "escape v = concat (map (\<lambda>c. if c = CHR 34 \<or> c = CHR 92 then [CHR 92, c] else [c]) v)"

definition show_token :: "string \<times> bool \<Rightarrow> string" where
  "show_token = (\<lambda>(w, quoted). if quoted then [CHR 34] @ escape w @ [CHR 34] else w)"

fun sort_list :: "(string \<times> bool) list \<Rightarrow> (string \<times> bool) list" where
  "sort_list [] = []"
| "sort_list [(field, descending)] = [(field, False), (if descending then ''DESC'' else ''ASC'', False)]"
| "sort_list ((field, descending) # f # fs) =
     [(field, False), (if descending then ''DESC'' else ''ASC'', False), ('','', False)] @ sort_list (f # fs)"

definition written_search :: "query option \<Rightarrow> (string \<times> bool) list \<Rightarrow> (string \<times> bool) list" where
  "written_search q order =
     (case q of None \<Rightarrow> [] | Some q \<Rightarrow> written 0 q) @ (if order = [] then [] else [(''ORDER'', False), (''BY'', False)] @ sort_list order)"

definition search_text :: "query option \<Rightarrow> (string \<times> bool) list \<Rightarrow> string" where
  "search_text q order = join '' '' (map show_token (written_search q order))"

section \<open>The tokenizer reads the text back\<close>

definition LANGUAGE :: "string list" where
  "LANGUAGE = map lower QUERY_FIELDS @ QUERY_OPERATORS @ [''NOT'', ''AND'', ''OR'', ''('', '')'', ''ORDER'', ''BY'', ''ASC'', ''DESC'', '','']"

definition token_ok :: "string \<Rightarrow> bool" where
  "token_ok w \<longleftrightarrow> w \<in> set ([''('', '')'', '',''] @ QUERY_OPERATORS) \<or> w \<noteq> [] \<and> list_all word_char w"

lemma language_tokens: "list_all (\<lambda>w. token_ok w \<and> \<not> list_ex control_char w) LANGUAGE"
  unfolding LANGUAGE_def query_fields_lower by code_simp

lemma quoted_value_escape: "quoted_value start (CHR 34) (escape v @ CHR 34 # rest) = Inr (v, rest)"
  by (induction v) (auto simp: escape_def)

lemma takeWhile_word:
  assumes "list_all word_char w" "s = [] \<or> hd s = CHR '' ''"
  shows "takeWhile word_char (w @ s) = w \<and> dropWhile word_char (w @ s) = s"
proof -
  have "\<not> word_char (CHR '' '')" by code_simp
  then have "takeWhile word_char s = [] \<and> dropWhile word_char s = s" using assms(2) by (cases s) auto
  then show ?thesis using assms(1) by (simp add: list_all_iff takeWhile_append2 dropWhile_append2)
qed

lemma operator_token:
  assumes "w \<in> set QUERY_OPERATORS" "s = [] \<or> hd s = CHR '' ''"
  shows "\<exists>c cs. w = c # cs \<and> \<not> is_space c \<and> next_token position c (cs @ s) = Inr (\<lparr>qt_text = w, qt_position = position, qt_quoted = False\<rparr>, s)"
proof -
  have sp: "\<not> is_space (CHR ''='')" "\<not> is_space (CHR ''!'')" "\<not> is_space (CHR ''<'')" "\<not> is_space (CHR ''>'')" "\<not> is_space (CHR ''~'')"
    by code_simp+
  have w: "w \<in> {''='', ''!='', ''>'', ''>='', ''<'', ''<='', ''~'', ''!~''}" using assms(1) by (simp add: QUERY_OPERATORS_def)
  consider "s = []" | r where "s = CHR '' '' # r" using assms(2) by (cases s) auto
  then show ?thesis
  proof cases
    case 1
    show ?thesis using w by (elim insertE emptyE; simp add: 1 sp next_token_def)
  next
    case 2
    show ?thesis using w by (elim insertE emptyE; simp add: 2 sp next_token_def)
  qed
qed

lemma word_not_special:
  assumes "word_char c"
  shows "\<not> is_space c" "c \<noteq> CHR 34" "c \<noteq> CHR 39" "c \<notin> set [CHR ''('', CHR '')'', CHR '','']" "c \<notin> set [CHR ''='', CHR ''!'', CHR ''<'', CHR ''>'', CHR ''~'']"
  using assms by (auto simp: word_char_def)

lemma next_token_written:
  assumes "b \<or> token_ok w" "s = [] \<or> hd s = CHR '' ''"
  shows "\<exists>c cs. show_token (w, b) = c # cs \<and> \<not> is_space c \<and>
    next_token position c (cs @ s) = Inr (\<lparr>qt_text = w, qt_position = position, qt_quoted = b\<rparr>, s)"
proof -
  consider "b" | "\<not> b" "w \<in> set QUERY_OPERATORS" | "\<not> b" "w \<in> set [''('', '')'', '','']" | "\<not> b" "w \<noteq> []" "list_all word_char w"
    using assms(1) unfolding token_ok_def set_append by blast
  then show ?thesis
  proof cases
    case 1
    have "\<not> is_space (CHR 34)" by code_simp
    then show ?thesis using 1 by (simp add: show_token_def next_token_def quoted_value_escape)
  next
    case 2
    then show ?thesis using operator_token [OF 2(2) assms(2), of position] by (simp add: show_token_def)
  next
    case 3
    have "list_all (\<lambda>c. \<not> is_space c) [CHR ''('', CHR '')'', CHR '','']" by code_simp
    then show ?thesis using 3 by (auto simp: show_token_def next_token_def)
  next
    case 4
    then obtain c cs where w: "w = c # cs" by (cases w) auto
    then have c: "word_char c" and cs: "list_all word_char cs" using 4 by simp_all
    show ?thesis using 4(1) w word_not_special [OF c] takeWhile_word [OF cs assms(2)]
      unfolding next_token_def by (auto simp: show_token_def)
  qed
qed

lemma tokens_from_join:
  assumes "\<forall>(w, b) \<in> set toks. b \<or> token_ok w" "k + length toks \<le> MAX_TOKENS"
  shows "\<exists>ts. tokens_from n k (join '' '' (map show_token toks)) = Inr ts \<and> plain ts = toks"
  using assms
proof (induction toks arbitrary: k)
  case (Cons wb toks)
  obtain w b where wb: "wb = (w, b)" by (cases wb)
  define s where "s = (case toks of [] \<Rightarrow> [] | _ \<Rightarrow> CHR '' '' # join '' '' (map show_token toks))"
  have j: "join '' '' (map show_token (wb # toks)) = show_token wb @ s" by (cases toks) (simp_all add: s_def)
  have s: "s = [] \<or> hd s = CHR '' ''" by (cases toks) (simp_all add: s_def)
  have wb_ok: "b \<or> token_ok w" using Cons.prems(1) wb by simp
  obtain ts where ts: "tokens_from n (k + 1) (join '' '' (map show_token toks)) = Inr ts" "plain ts = toks"
    using Cons.IH [of "k + 1"] Cons.prems by auto
  have sp: "is_space (CHR '' '')" by code_simp
  have rest: "tokens_from n (k + 1) s = Inr ts" using ts sp by (cases toks) (simp_all add: s_def)
  obtain c cs where c: "show_token wb = c # cs" "\<not> is_space c"
    and t: "next_token (n - length (cs @ s)) c (cs @ s) = Inr (\<lparr>qt_text = w, qt_position = n - length (cs @ s), qt_quoted = b\<rparr>, s)"
  proof -
    obtain c0 cs0 where "show_token (w, b) = c0 # cs0" using next_token_written [OF wb_ok s, of 0] by blast
    then show ?thesis using next_token_written [OF wb_ok s, of "n - length (cs0 @ s)"] that wb by auto
  qed
  have "tokens_from n k (c # cs @ s) = Inr (\<lparr>qt_text = w, qt_position = n - length (cs @ s), qt_quoted = b\<rparr> # ts)"
    using c(2) t rest Cons.prems(2) by simp
  then show ?case using j c(1) ts(2) wb by auto
qed simp


section \<open>The whole search\<close>

lemma language_parts:
  "f \<in> set (map lower QUERY_FIELDS) \<Longrightarrow> f \<in> set LANGUAGE" "op \<in> set QUERY_OPERATORS \<Longrightarrow> op \<in> set LANGUAGE"
  "set [''NOT'', ''AND'', ''OR'', ''('', '')'', ''ORDER'', ''BY'', ''ASC'', ''DESC'', '',''] \<subseteq> set LANGUAGE"
  unfolding LANGUAGE_def set_append by blast+

lemma language_literals:
  "''NOT'' \<in> set LANGUAGE" "''AND'' \<in> set LANGUAGE" "''OR'' \<in> set LANGUAGE" "''('' \<in> set LANGUAGE" "'')'' \<in> set LANGUAGE"
  "''ORDER'' \<in> set LANGUAGE" "''BY'' \<in> set LANGUAGE" "''ASC'' \<in> set LANGUAGE" "''DESC'' \<in> set LANGUAGE" "'','' \<in> set LANGUAGE"
  using language_parts(3) unfolding list.set insert_subset by blast+

lemma written_words:
  assumes "(w, b) \<in> set (written level q)" "accepted env q"
  shows "b \<and> (\<exists>f op. (f, op, w) \<in> set (comparisons q)) \<or> \<not> b \<and> w \<in> set LANGUAGE"
  using assms
proof (induction level q rule: written.induct)
  case (1 level field op v)
  then have "field \<in> set LANGUAGE" "op \<in> set LANGUAGE" using accepted_comparison(1,2) [of env] language_parts(1,2) by force+
  then show ?case using 1 by auto
next
  case (2 level q)
  then show ?case using language_literals(1) by auto
next
  case (3 level a b)
  then show ?case using language_literals(2,4,5) by (auto simp: parenthesized_def split: if_splits)
next
  case (4 level a b)
  then show ?case using language_literals(3,4,5) by (auto simp: parenthesized_def split: if_splits)
qed

lemma written_first:
  assumes "accepted env q"
  shows "\<exists>w more. written level q = (w, False) # more \<and> upper w \<noteq> ''ORDER''"
  using assms
proof (induction level q rule: written.induct)
  case (1 level field op v)
  then have "field \<in> set (map lower QUERY_FIELDS)" by (auto simp: accepted_def)
  then show ?case using field_words(3) by simp
next
  case (2 level q)
  have "upper ''NOT'' \<noteq> ''ORDER''" by code_simp
  then show ?case by simp
next
  case (3 level a b)
  have "upper ''('' \<noteq> ''ORDER''" by code_simp
  then show ?case using 3 by (auto simp: parenthesized_def)
next
  case (4 level a b)
  have "upper ''('' \<noteq> ''ORDER''" by code_simp
  then show ?case using 4 by (auto simp: parenthesized_def)
qed

text \<open>A sort order of at most three different places, each a field that SQL can sort by.\<close>

definition order_ok :: "(string \<times> bool) list \<Rightarrow> bool" where
  "order_ok order \<longleftrightarrow> length order \<le> 3 \<and> list_all (\<lambda>(f, descending). f \<in> set (map lower QUERY_FIELDS) \<and> sortable f) order"

lemma sort_words: "upper ''ASC'' = ''ASC''" "upper ''DESC'' = ''DESC''" "upper '','' = '',''" "upper ''BY'' = ''BY''"
  by code_simp+

lemma field_token:
  assumes "f \<in> set (map lower QUERY_FIELDS)" "qt_text t = f"
  shows "field_name t = Inr f"
  using assms field_words [OF assms(1)] by (simp add: field_name_def Let_def)

lemma sort_fields_written:
  assumes "plain ts = sort_list fs" "fs \<noteq> []" "n + length fs \<le> 3"
    and "list_all (\<lambda>(f, descending). f \<in> set (map lower QUERY_FIELDS) \<and> sortable f) fs"
  shows "sort_fields e n ts = Inr (fs, [])"
  using assms
proof (induction fs arbitrary: n ts rule: sort_list.induct)
  case (2 f descending)
  then obtain a b where ts: "ts = [a, b]" "qt_text a = f" "qt_text b = (if descending then ''DESC'' else ''ASC'')" "\<not> qt_quoted b"
    by (auto simp: plain_def map_eq_Cons_conv)
  have "field_name a = Inr f" using 2 ts(2) by (intro field_token) simp_all
  then show ?case using 2 ts by (simp add: sort_fields.simps [of e n] pop_def sort_direction_def sort_words)
next
  case (3 f descending g fs)
  then obtain a b c ts' where ts: "ts = a # b # c # ts'" "qt_text a = f" "qt_text b = (if descending then ''DESC'' else ''ASC'')" "\<not> qt_quoted b"
      "qt_text c = '',''" "\<not> qt_quoted c" "plain ts' = sort_list (g # fs)"
    by (auto simp: plain_def map_eq_Cons_conv)
  have f: "field_name a = Inr f" using "3.prems" ts(2) by (intro field_token) simp_all
  have "sort_fields e (n + 1) ts' = Inr (g # fs, [])" using "3.prems" ts(7) by (intro "3.IH") simp_all
  then show ?case using "3.prems" ts f by (simp add: sort_fields.simps [of e n] pop_def sort_direction_def sort_words)
qed simp

lemma parse_tokens_written:
  assumes ts: "plain ts = written_search q order"
    and q: "\<And>p. q = Some p \<Longrightarrow> accepted env p \<and> nesting 0 p \<le> MAX_DEPTH" and order: "order_ok order"
  shows "parse_tokens env ts = Inr (case q of None \<Rightarrow> PTrue | Some p \<Rightarrow> meaning env p, order @ [(''id'', False)])"
proof -
  define e where "e = end_position ts"
  obtain ta tb where t: "ts = ta @ tb" "plain ta = (case q of None \<Rightarrow> [] | Some p \<Rightarrow> written 0 p)"
      "plain tb = (if order = [] then [] else [(''ORDER'', False), (''BY'', False)] @ sort_list order)"
    using ts unfolding written_search_def by (auto simp: plain_def map_eq_append_conv)
  have words: "''ORDER'' \<noteq> ''AND''" "''ORDER'' \<noteq> ''OR''" by simp_all
  have tb: "peek ''ORDER'' tb \<longleftrightarrow> order \<noteq> []" "\<not> peek ''AND'' tb" "\<not> peek ''OR'' tb" "tb = [] \<or> peek ''ORDER'' tb"
    using t(3) by (cases tb; auto simp: operator_upper words split: if_splits)+
  have sorted: "bindE (require e ''BY'' (tl tb)) (\<lambda>ts. sort_fields e 0 ts) = Inr (order, [])" if "order \<noteq> []"
  proof -
    have "plain tb = [(''ORDER'', False), (''BY'', False)] @ sort_list order" using t(3) that by simp
    then obtain a b tc where "tb = a # b # tc" "qt_text b = ''BY''" "\<not> qt_quoted b" "plain tc = sort_list order"
      by (auto simp: plain_def map_eq_Cons_conv)
    then show ?thesis using sort_fields_written [of tc order 0 e] order that by (simp add: order_ok_def require_def pop_def sort_words)
  qed
  have head: "(if ts = [] \<or> peek ''ORDER'' ts then Inr (PTrue, ts) else expression env e 0 ts) = Inr (case q of None \<Rightarrow> PTrue | Some p \<Rightarrow> meaning env p, tb)"
  proof (cases q)
    case None
    then show ?thesis using t tb by (auto simp: plain_def)
  next
    case (Some p)
    then have p: "accepted env p" "nesting 0 p \<le> MAX_DEPTH" using q by blast+
    obtain w more where "written 0 p = (w, False) # more" "upper w \<noteq> ''ORDER''" using written_first [OF p(1)] by blast
    then have "ts \<noteq> []" "\<not> peek ''ORDER'' ts" using t(1,2) Some by (auto simp: plain_def map_eq_Cons_conv)
    moreover have "expression env e 0 ts = Inr (meaning env p, tb)"
      using reads_query [OF p(1)] p(2) t(1,2) Some tb(2,3) unfolding reads_expression_def by (simp add: or_loop_eq [of env e 0 _ tb])
    ultimately show ?thesis using Some by simp
  qed
  show ?thesis
  proof (cases "order = []")
    case True
    then show ?thesis using head tb(1,4) unfolding parse_tokens_def Let_def e_def [symmetric] by auto
  next
    case False
    then show ?thesis using head tb(1) sorted unfolding parse_tokens_def Let_def e_def [symmetric] by auto
  qed
qed

lemma written_search_words:
  assumes "(w, b) \<in> set (written_search q order)"
    and "\<And>p. q = Some p \<Longrightarrow> accepted env p" and "order_ok order"
  shows "b \<and> (\<exists>p f op. q = Some p \<and> (f, op, w) \<in> set (comparisons p)) \<or> \<not> b \<and> w \<in> set LANGUAGE"
proof -
  have sort: "\<not> b \<and> w \<in> set LANGUAGE" if "(w, b) \<in> set (sort_list order)"
    using that assms(3) unfolding order_ok_def
  proof (induction order rule: sort_list.induct)
    case (2 f descending)
    then show ?case using language_parts(1) [of f] language_literals(8,9) by (auto split: if_splits)
  next
    case (3 f descending g fs)
    then show ?case using language_parts(1) [of f] language_literals(8,9,10) by (auto split: if_splits)
  qed simp
  consider p where "q = Some p" "(w, b) \<in> set (written 0 p)" | "(w, b) \<in> set [(''ORDER'', False), (''BY'', False)]" | "(w, b) \<in> set (sort_list order)"
    using assms(1) unfolding written_search_def by (cases q) (auto split: if_splits)
  then show ?thesis
  proof cases
    case 1
    then show ?thesis using written_words [of w b 0 p env] assms(2) by blast
  next
    case 2
    then show ?thesis using language_literals(6,7) by auto
  next
    case 3
    then show ?thesis using sort by blast
  qed
qed

lemma control_join: "list_ex control_char (join '' '' ws) \<Longrightarrow> \<exists>w \<in> set ws. list_ex control_char w"
proof (induction ws rule: induct_list012)
  case (3 x y zs)
  have "\<not> control_char (CHR '' '')" by code_simp
  then show ?case using 3 by auto
qed auto

lemma control_escape: "list_ex control_char (escape v) = list_ex control_char v"
proof -
  have "\<not> control_char (CHR 92)" by code_simp
  then show ?thesis by (induction v) (auto simp: escape_def)
qed

lemma control_search:
  assumes "\<And>p. q = Some p \<Longrightarrow> accepted env p" "order_ok order"
    and "\<And>p f op v. q = Some p \<Longrightarrow> (f, op, v) \<in> set (comparisons p) \<Longrightarrow> \<not> list_ex control_char v"
  shows "\<not> list_ex control_char (search_text q order)"
proof
  assume "list_ex control_char (search_text q order)"
  then obtain w b where w: "(w, b) \<in> set (written_search q order)" "list_ex control_char (show_token (w, b))"
    using control_join unfolding search_text_def by fastforce
  have "\<not> control_char (CHR 34)" by code_simp
  then have "list_ex control_char w" using w(2) by (auto simp: show_token_def control_escape split: if_splits)
  then show False using written_search_words [OF w(1) assms(1,2)] assms(3) language_tokens unfolding list_all_iff by blast
qed

text \<open>
  C34. Reading a search that was written is the identity. A search is a condition over comparisons with NOT, AND and OR and a sort order;
  it is written with parentheses only where precedence needs them, values quoted and escaped. Its text, when it stays
  within the 4096 characters, 256 tokens and 16 levels of nesting the code allows, is read by \<^verbatim>\<open>search\<close> as the
  same condition, AND and OR associating to the left, restricted as a whole to the tenant and the visible projects of the
  user, with the same sort order followed by the key.
\<close>

theorem parse_query_roundtrip:
  assumes "u_active (qe_user env)"
    and "\<And>p. q = Some p \<Longrightarrow> accepted env p \<and> nesting 0 p \<le> MAX_DEPTH"
    and "\<And>p f op v. q = Some p \<Longrightarrow> (f, op, v) \<in> set (comparisons p) \<Longrightarrow> \<not> list_ex control_char v"
    and "order_ok order"
    and "length (search_text q order) \<le> MAX_QUERY" "length (written_search q order) \<le> MAX_TOKENS"
  shows "search env (search_text q order) =
    Inr (all_of [query_tenant env ''WorkItem.tenant_id'', PIn ''WorkItem.project_id'' ''Project.id'' (visible_projects env),
        case q of None \<Rightarrow> PTrue | Some p \<Rightarrow> meaning env p], order @ [(''id'', False)])"
proof -
  have words: "\<forall>(w, b) \<in> set (written_search q order). b \<or> token_ok w"
    using written_search_words [of _ _ q order env] assms(2,4) language_tokens unfolding list_all_iff by blast
  obtain ts where ts: "tokens_from (length (search_text q order)) 0 (search_text q order) = Inr ts" "plain ts = written_search q order"
    using tokens_from_join [OF words, of 0] assms(6) unfolding search_text_def by auto
  have "\<not> list_ex control_char (search_text q order)" using assms by (intro control_search) blast+
  then have "tokenize (search_text q order) = Inr ts" using ts(1) assms(5) by (simp add: tokenize_def)
  then show ?thesis using parse_tokens_written [OF ts(2) assms(2,4)] assms(1) by (simp add: search_def parse_query_def)
qed

text \<open>An example that needs parentheses and escapes.\<close>

definition example_query_env :: query_env where
  "example_query_env = \<lparr>qe_db = empty_db, qe_user = blank_user\<lparr>u_id := 3, u_tenant_id := 7, u_active := True\<rparr>, qe_clock = 0,
     qe_fromisoformat = (\<lambda>s. None), qe_float = (\<lambda>s. None)\<rparr>"

definition example_search :: query where
  "example_search = QOr (QNot (QAnd (QCompare ''status'' ''='' ''To Do'') (QCompare ''summary'' ''~'' [CHR 34, CHR ''a'', CHR 92])))
     (QAnd (QCompare ''priority'' ''!='' ''low'') (QOr (QCompare ''key'' ''='' ''A-1'') (QCompare ''labels'' ''='' ''x'')))"

lemma example_search_facts:
  "accepted example_query_env example_search"
  "list_all (\<lambda>(f, op, v). \<not> list_ex control_char v) (comparisons example_search)"
  "nesting 0 example_search = 2" "length (search_text (Some example_search) [(''updated'', True), (''key'', False)]) \<le> MAX_QUERY"
  "length (written_search (Some example_search) [(''updated'', True), (''key'', False)]) \<le> MAX_TOKENS"
  "order_ok [(''updated'', True), (''key'', False)]"
  unfolding accepted_def order_ok_def query_fields_lower by code_simp+

lemma parse_query_roundtrip_witness:
  "search example_query_env (search_text (Some example_search) [(''updated'', True), (''key'', False)]) =
     Inr (all_of [query_tenant example_query_env ''WorkItem.tenant_id'',
       PIn ''WorkItem.project_id'' ''Project.id'' (visible_projects example_query_env), meaning example_query_env example_search],
       [(''updated'', True), (''key'', False), (''id'', False)])"
proof -
  have readable: "\<not> list_ex control_char v" if "(f, op, v) \<in> set (comparisons example_search)" for f op v
    using example_search_facts(2) that unfolding list_all_iff by blast
  have "nesting 0 example_search \<le> MAX_DEPTH" using example_search_facts(3) by (simp add: MAX_DEPTH_def)
  moreover have "u_active (qe_user example_query_env)" by (simp add: example_query_env_def)
  ultimately show ?thesis
    using parse_query_roundtrip [of example_query_env "Some example_search" "[(''updated'', True), (''key'', False)]"]
      readable example_search_facts(1,4,5,6) by simp
qed

text \<open>
  Two searches fail with an error that is not an error of the query: a sprint named by a superscript digit, which
  \<^verbatim>\<open>isdigit\<close> takes for a number and \<^verbatim>\<open>int\<close> does not, and a date whose zone moves it out of the supported years.
\<close>

lemma superscript_sprint_fails:
  "search example_query_env (''sprint = '' @ [CHR 178]) = Inl (ValueError ''invalid literal for int() with base 10'')"
  by code_simp

lemma first_day_with_zone_fails:
  "search (example_query_env\<lparr>qe_fromisoformat := \<lambda>s. Some (days_from_civil 1 1 1 * DAY - 1)\<rparr>) (''due < '' @ [CHR 34] @ ''0001-01-01T00:00+05:00'' @ [CHR 34]) =
     Inl (OverflowError ''date value out of range'')"
  by code_simp

end
