(* ===== verification/Spec2Isabelle.thy ===== *)
theory Spec2Isabelle
  imports Withdrawal Change_Governance Priority Incident_Handling Workflow_Engine Mobile_Pagination CMDB Query_Writing
begin

text \<open>
  \<^bold>\<open>ServiceOps: a verification development.\<close>

  ServiceOps is a multi-tenant service desk: a Flask application over one relational database
  (\<^verbatim>\<open>src/app.py\<close>, \<^verbatim>\<open>src/serviceops_models.py\<close>, \<^verbatim>\<open>src/serviceops_core\<close>). Incidents, changes, problems and catalog
  requests move through states; approvals, service-level agreements, tasks, outages and workflows follow them; every
  action is written to a keyed audit chain. The core operations of these parts are modelled here as functions on a
  record of tables and proved correct.

  \<^bold>\<open>The state.\<close> \<open>Models\<close> has one record per modelled SQLAlchemy class, with its columns, and the record \<open>db\<close> of the
  tables together with what a handler reads from its surroundings: the clock, the signed-in user, the settings. A row
  is found by its key, a new row takes the next key of its table, and an operation returns the updated database. What
  Python raises is a value of \<open>error\<close>: \<open>Abort code message\<close> is Flask's \<^verbatim>\<open>abort\<close>, the other constructors are Python
  exceptions; \<open>'a result\<close> is a sum with the error on the left. A raised error ends the request and its transaction is
  rolled back, so no database is returned with it. Numbers are unbounded as in Python; times are microseconds since the
  epoch.

  \<^bold>\<open>The theories and what they model.\<close>

  \<^item> \<open>Prelude\<close>: errors, sequencing (\<open>bindE\<close>, \<open>foldE\<close>), the operations on tables with the interface \<open>db_table\<close>, the
    interface \<open>positioned\<close> of rows that keep a list order in a position column, strings (case conversion on the Latin-1
    letters), JSON values.
  \<^item> \<open>Models\<close>: the tables of \<^verbatim>\<open>serviceops_models.py\<close>.
  \<^item> \<open>Delivery\<close>: \<^verbatim>\<open>serviceops_core/delivery.py\<close>, which connection may receive which event.
  \<^item> \<open>Platform\<close>: tenants, settings, roles, \<^verbatim>\<open>log_history\<close>, \<^verbatim>\<open>create_notification\<close>, \<^verbatim>\<open>audit\<close>, \<^verbatim>\<open>queue_workflow_event\<close> of
    \<^verbatim>\<open>app.py\<close>. The interface \<open>log_only\<close> says that these calls change nothing but the log tables; every component relies
    on it. The audit chain stays verifiable and is tamper evident under a digest without collisions, across the three
    integrity versions, keys and tenants.
  \<^item> \<open>Lifecycle\<close>: the state tables of \<^verbatim>\<open>serviceops_core/task_lifecycle.py\<close>, behind an interface for transition tables.
  \<^item> \<open>Business_Time\<close>: \<^verbatim>\<open>serviceops_core/business_time.py\<close>. The loop over the days runs on \<open>business_fuel\<close> (seven days for
    every minute and holiday, and one more); the theorem shows that this is always enough and that the deadline is exact.
  \<^item> \<open>SLA\<close>: \<^verbatim>\<open>attach_slas\<close>, \<^verbatim>\<open>sync_slas\<close>, \<^verbatim>\<open>retarget_slas\<close> and \<^verbatim>\<open>process_sla_breaches\<close> of \<^verbatim>\<open>app.py\<close>.
  \<^item> \<open>Priority\<close>: \<^verbatim>\<open>serviceops_core/priority.py\<close> and \<^verbatim>\<open>serviceops_core/priority_governance.py\<close>.
  \<^item> \<open>Numbering\<close>: the record numbers (\<^verbatim>\<open>_next_in_sequence\<close> and its callers).
  \<^item> \<open>Tasks\<close>, \<open>Requests\<close>, \<open>Withdrawal\<close>: operational tasks, catalog requests with their items and tasks, and
    \<^verbatim>\<open>serviceops_core/request_withdrawal.py\<close>.
  \<^item> \<open>Approvals\<close>: approval chains as a state machine. An abstract interface for chains of decisions is interpreted on the
    model, and the properties of reachable chains come from it. A running chain is never stuck, apart from a requested item whose
    fulfilment task cannot be created.
  \<^item> \<open>Tickets\<close>: \<^verbatim>\<open>transition_ticket\<close> with everything it sets off, service outages and availability, enterprise records,
    and who may manage a ticket.
  \<^item> \<open>Approval_Policies\<close>, \<open>Policy_Administration\<close>: \<^verbatim>\<open>serviceops_core/approval_policies.py\<close> and
    \<^verbatim>\<open>serviceops_core/approval_groups.py\<close>, how the stages of a chain come about and how policies are administered. The
    default of a kind is unique after any history; choosing the default again takes it away, as in the code.
  \<^item> \<open>Change_Governance\<close>: risk, windows, freezes, conflicts and the restart of approval, and change
    control: after any history of approvals a change moves only with its latest chain approved.
  \<^item> \<open>Hierarchy\<close>: \<^verbatim>\<open>serviceops_core/incident_hierarchy.py\<close>, parent and child incidents and the visibility of tickets.
  \<^item> \<open>Workflow\<close>, \<open>Workflow_Engine\<close>: \<^verbatim>\<open>serviceops_core/workflow.py\<close> (validation, cycle search, expansion of subflows) and
    the jobs, executions, steps, compensation and schedules of \<^verbatim>\<open>app.py\<close>. The expansion is a partial function; that it
    ends is a theorem for validated packages.
  \<^item> \<open>Mobile_Pagination\<close>: \<^verbatim>\<open>serviceops_core/mobile_pagination.py\<close>, keyset pages with signed cursors.
  \<^item> \<open>Incident_Handling\<close>: \<^verbatim>\<open>serviceops_core/incident_handling.py\<close>, assignment rules and routing, templates, problems raised
    from incidents. The rules interpret \<open>positioned\<close>, as the stages of an approval policy do.
  \<^item> \<open>CMDB\<close>: \<^verbatim>\<open>serviceops_core/ci_sources.py\<close>, \<^verbatim>\<open>ci_precedence.py\<close>, \<^verbatim>\<open>import_changes.py\<close> and \<^verbatim>\<open>ci_class_policy.py\<close>. Fields
    are read and written by name through the interface \<open>named_fields\<close>. An import of a known item (\<^verbatim>\<open>cmdb_import.py\<close>,
    \<^verbatim>\<open>netbox_sync.py\<close>, \<^verbatim>\<open>snipeit_sync.py\<close>) is the sequence of its writes, marks and arbitration; reading the remote data
    and merging duplicate teams are left out.
  \<^item> \<open>Query_Conditions\<close>, \<open>Project_Query\<close> and \<open>Query_Writing\<close>: the project search of \<^verbatim>\<open>serviceops_core/projects/query.py\<close>. The
    first gives the SQL condition of every comparison as a tree, the second the tokens and the recursive-descent parser,
    whose termination rests on every part of it leaving fewer tokens, the third shows that the parser reads back what
    is written. \<^verbatim>\<open>datetime.fromisoformat\<close> and \<^verbatim>\<open>float\<close> on a text are parameters.

  \<^bold>\<open>How the parts interact.\<close> Handlers change a ticket through \<open>transition_ticket\<close>, which calls the SLA clock, the child
  tasks, the child incidents, the outages and the workflow queue. Approvals call the same state changes when a chain ends;
  change governance restarts chains through the approval engine with the stages of the policies; withdrawal stops chains,
  tasks and clocks. Everything reports through the platform services.

  \<^bold>\<open>Parameters.\<close> Code outside the repository is a parameter: the time-zone data, the keyed digest of the audit chain, the
  signer of cursors, the order of texts in the database. Hypotheses on them are named in the theorems and are satisfied
  by a concrete function in the witnesses.

  \<^bold>\<open>Kinds of properties.\<close> Invariants over arbitrary interleavings (approval chains, workflow engine, policies, hierarchy);
  exact functional behaviour (deadlines, SLA clocks, settlement, withdrawal, numbers); safety (change control, final
  rejection, ended tickets, governed priority); equivalence with a reference (batched permissions, cycle search, schedule
  conflicts, keyset filter); refinement (stored positions implement lists); round trips; termination. Theorems of kind
  \<open>error\<close> show where the code departs from its documentation, for every database under their conditions or every length
  of a chain.

  \<^bold>\<open>Not modelled, and why.\<close> Routes, forms and pages (\<^verbatim>\<open>serviceops_core/web\<close>, templates) only collect input, check
  permissions by calls modelled here and render; mail, push, chat, LDAP, single sign-on, NetBox and Snipe-IT synchronisation and object
  storage are protocols with outside systems; AI services and the MCP server depend on model providers; migrations, the
  installer and the tools are deployment. Row locks and concurrent transactions are not modelled: every operation runs
  alone, which is what the locks of the code provide. The clock stands still during an operation, also during a pass
  over the workflow jobs. Translation of messages is the identity on the English text.
\<close>

end
